(* ===== verification/Xz_Prelude.thy ===== *)
theory Xz_Prelude
  imports Main "HOL-Library.Word" "HOL-Library.Sublist"
begin

section \<open>Prelude: the C values and library calls the client is written in\<close>

text \<open>
  What every component shares: C strings and the bounded copies made with \<open>snprintf\<close>,
  \<open>strcmp\<close>, \<open>isspace\<close>, \<open>atoi\<close> and the \<open>%d\<close> conversion, the narrowing casts to
  \<open>int\<close>, and the collections of rewrite rules that carry the component proofs.

  A C string is the list of its characters before the terminating NUL. A fixed array
  \<open>char buf[n]\<close> that only ever holds such strings is its string too; that it fits
  (\<open>length s < n\<close>) is a property the components prove, not part of the type.
\<close>

named_theorems queue_simps \<open>effect of the queue operations on their contents\<close>
named_theorems inv_intros \<open>operations that keep a component's invariant\<close>

type_synonym byte = "8 word"
type_synonym sample = "16 word"
type_synonym rc = int

subsection \<open>Characters\<close>

abbreviation nul :: char where
  "nul \<equiv> CHR 0x00"

definition c_str :: "string \<Rightarrow> string" where
  "c_str s = takeWhile (\<lambda>c. c \<noteq> nul) s"

definition c_ok :: "string \<Rightarrow> bool" where
  "c_ok s \<longleftrightarrow> nul \<notin> set s"

lemma c_str_ok [simp]: "c_ok (c_str s)"
  by (auto simp: c_ok_def c_str_def dest: set_takeWhileD)

lemma c_str_id [simp]: "c_ok s \<Longrightarrow> c_str s = s"
  unfolding c_ok_def c_str_def by (subst takeWhile_eq_all_conv) auto

lemma c_str_before_nul: "c_ok t \<Longrightarrow> c_str (t @ nul # rest) = t"
  by (auto simp: c_str_def c_ok_def takeWhile_append)

lemma length_c_str: "length (c_str s) \<le> length s"
  by (simp add: c_str_def length_takeWhile_le)

lemma c_ok_simps [simp]:
  "c_ok []"
  "c_ok (c # s) \<longleftrightarrow> c \<noteq> nul \<and> c_ok s"
  "c_ok (s @ t) \<longleftrightarrow> c_ok s \<and> c_ok t"
  by (auto simp: c_ok_def)

lemma c_ok_take [simp]: "c_ok s \<Longrightarrow> c_ok (take n s)"
  by (auto simp: c_ok_def dest: in_set_takeD)

definition isspace :: "char \<Rightarrow> bool" where
  "isspace c \<longleftrightarrow> of_char c = (32::nat) \<or> (9 \<le> (of_char c :: nat) \<and> of_char c \<le> (13::nat))"

definition isdigit :: "char \<Rightarrow> bool" where
  "isdigit c \<longleftrightarrow> 48 \<le> (of_char c :: nat) \<and> of_char c \<le> (57::nat)"

definition tolower :: "char \<Rightarrow> char" where
  "tolower c = (if 65 \<le> (of_char c :: nat) \<and> of_char c \<le> (90::nat)
                then char_of (of_char c + 32 :: nat) else c)"

lemma isdigit_not_space: "isdigit c \<Longrightarrow> \<not> isspace c"
  by (auto simp: isdigit_def isspace_def)

subsection \<open>Bounded copies\<close>

text \<open>
  \<open>snprintf(dst, n, ...)\<close> with the formatted text \<open>s\<close>: what the array holds afterwards
  and the value returned, the length the text would have had. With \<open>n = 0\<close> nothing is
  written; every caller in the sources passes the size of an array, so \<open>n > 0\<close>.
\<close>

definition snprintf_buf :: "nat \<Rightarrow> string \<Rightarrow> string" where
  "snprintf_buf n s = take (n - 1) s"

text \<open>\<open>strncpy\<close> into a buffer of \<open>n\<close> bytes whose last byte is then set to 0.\<close>

definition strncpy_buf :: "nat \<Rightarrow> string \<Rightarrow> string" where
  "strncpy_buf n s = take (n - 1) (c_str s)"

definition snprintf_rc :: "string \<Rightarrow> int" where
  "snprintf_rc s = int (length s)"

lemma length_snprintf_buf [simp]: "0 < n \<Longrightarrow> length (snprintf_buf n s) < n"
  by (simp add: snprintf_buf_def)

lemma snprintf_buf_fits [simp]: "length s < n \<Longrightarrow> snprintf_buf n s = s"
  by (simp add: snprintf_buf_def)

lemma snprintf_buf_c_ok [simp]: "c_ok s \<Longrightarrow> c_ok (snprintf_buf n s)"
  by (simp add: snprintf_buf_def)

lemma snprintf_buf_Nil [simp]: "snprintf_buf n [] = []"
  by (simp add: snprintf_buf_def)

lemma snprintf_buf_empty_iff: "1 < n \<Longrightarrow> snprintf_buf n s = [] \<longleftrightarrow> s = []"
  by (auto simp: snprintf_buf_def)

subsection \<open>Integers\<close>

text \<open>The conversion of a wider value to \<open>int\<close>: the low 32 bits, read as two's complement.\<close>

definition int32 :: "int \<Rightarrow> int" where
  "int32 x = (x + 2 ^ 31) mod 2 ^ 32 - 2 ^ 31"

abbreviation INT_MAX :: int where "INT_MAX \<equiv> 2147483647"
abbreviation INT_MIN :: int where "INT_MIN \<equiv> - 2147483648"

definition is_int32 :: "int \<Rightarrow> bool" where
  "is_int32 x \<longleftrightarrow> INT_MIN \<le> x \<and> x \<le> INT_MAX"

lemma int32_id [simp]: "is_int32 x \<Longrightarrow> int32 x = x"
  by (simp add: int32_def is_int32_def)

lemma int32_range [simp]: "is_int32 (int32 x)"
proof -
  have "0 \<le> (x + 2 ^ 31) mod 2 ^ 32" "(x + 2 ^ 31) mod 2 ^ 32 < 2 ^ 32"
    by simp_all
  then show ?thesis by (simp add: int32_def is_int32_def)
qed

text \<open>Division and remainder of C, which truncate towards zero.\<close>

definition c_div :: "int \<Rightarrow> int \<Rightarrow> int" where
  "c_div a b = sgn a * sgn b * (\<bar>a\<bar> div \<bar>b\<bar>)"

definition c_mod :: "int \<Rightarrow> int \<Rightarrow> int" where
  "c_mod a b = a - c_div a b * b"

lemma c_div_nonneg [simp]: "0 \<le> a \<Longrightarrow> 0 < b \<Longrightarrow> c_div a b = a div b"
  by (auto simp: c_div_def sgn_if)

lemma c_mod_nonneg [simp]: "0 \<le> a \<Longrightarrow> 0 < b \<Longrightarrow> c_mod a b = a mod b"
  by (simp add: c_mod_def minus_div_mult_eq_mod)

subsection \<open>Decimal conversion\<close>

definition digit_char :: "nat \<Rightarrow> char" where
  "digit_char d = char_of (48 + d)"

definition digit_val :: "char \<Rightarrow> nat" where
  "digit_val c = of_char c - 48"

fun show_nat :: "nat \<Rightarrow> string" where
  "show_nat n = (if n < 10 then [digit_char n]
                 else show_nat (n div 10) @ [digit_char (n mod 10)])"

declare show_nat.simps [simp del]

definition show_int :: "int \<Rightarrow> string" where
  "show_int i = (if i < 0 then CHR ''-'' # show_nat (nat (- i)) else show_nat (nat i))"

definition nat_of_digits :: "string \<Rightarrow> nat" where
  "nat_of_digits s = foldl (\<lambda>a c. 10 * a + digit_val c) 0 s"

text \<open>
  \<open>atoi\<close>: leading white space, an optional sign, digits up to the first other character.
  The C library computes it as \<open>(int) strtol(s, NULL, 10)\<close>, where \<open>strtol\<close> saturates
  at the bounds of a 64-bit \<open>long\<close>.
\<close>

definition clamp64 :: "int \<Rightarrow> int" where
  "clamp64 x = max (- (2 ^ 63)) (min (2 ^ 63 - 1) x)"

definition atoi :: "string \<Rightarrow> int" where
  "atoi s = (let t = dropWhile isspace s;
                 neg = (t \<noteq> [] \<and> hd t = CHR ''-'');
                 u = (if t \<noteq> [] \<and> (hd t = CHR ''-'' \<or> hd t = CHR ''+'') then tl t else t);
                 n = int (nat_of_digits (takeWhile isdigit u))
             in int32 (clamp64 (if neg then - n else n)))"

lemma of_char_digit [simp]: "d < 10 \<Longrightarrow> of_char (digit_char d) = 48 + d"
  by (simp add: digit_char_def of_char_of)

lemma digit_val_char [simp]: "d < 10 \<Longrightarrow> digit_val (digit_char d) = d"
  by (simp add: digit_val_def)

lemma isdigit_char [simp]: "d < 10 \<Longrightarrow> isdigit (digit_char d)"
  by (simp add: isdigit_def)

lemma show_nat_digits: "\<forall>c \<in> set (show_nat n). isdigit c"
proof (induction n rule: show_nat.induct)
  case (1 n)
  then show ?case
    by (subst show_nat.simps) (auto split: if_splits)
qed

lemma show_nat_nonempty [simp]: "show_nat n \<noteq> []"
  by (subst show_nat.simps) simp

lemma nat_of_digits_snoc: "nat_of_digits (s @ [c]) = 10 * nat_of_digits s + digit_val c"
  by (simp add: nat_of_digits_def)

lemma nat_of_digits_show [simp]: "nat_of_digits (show_nat n) = n"
proof (induction n rule: show_nat.induct)
  case (1 n)
  show ?case
  proof (cases "n < 10")
    case True
    then show ?thesis
      by (subst show_nat.simps) (simp add: nat_of_digits_def)
  next
    case False
    with 1 show ?thesis
      by (subst show_nat.simps) (simp add: nat_of_digits_snoc)
  qed
qed

lemma length_show_nat: "0 < k \<Longrightarrow> n < 10 ^ k \<Longrightarrow> length (show_nat n) \<le> k"
proof (induction n arbitrary: k rule: show_nat.induct)
  case (1 n)
  show ?case
  proof (cases "n < 10")
    case True
    then show ?thesis using "1.prems"
      by (subst show_nat.simps) simp
  next
    case False
    then obtain j where k: "k = Suc j" and "0 < j"
      using "1.prems" by (cases k; cases "k = 1") auto
    have "n div 10 < 10 ^ j" using "1.prems" k by auto
    with "1.IH" [OF False \<open>0 < j\<close>] False k show ?thesis
      by (subst show_nat.simps) simp
  qed
qed

lemma isdigit_not_nul: "isdigit c \<Longrightarrow> c \<noteq> nul"
  by (auto simp: isdigit_def)

lemma show_nat_c_ok [simp]: "c_ok (show_nat n)"
  using show_nat_digits [of n] isdigit_not_nul by (auto simp: c_ok_def)

lemma show_int_c_ok [simp]: "c_ok (show_int i)"
  by (simp add: show_int_def)

lemma length_show_int: "is_int32 i \<Longrightarrow> length (show_int i) \<le> 11"
proof -
  assume i: "is_int32 i"
  then have "nat i < 10 ^ 10" "nat (- i) < 10 ^ 10" by (auto simp: is_int32_def)
  then have "length (show_nat (nat i)) \<le> 10" "length (show_nat (nat (- i))) \<le> 10"
    by (auto intro: length_show_nat)
  then show ?thesis by (simp add: show_int_def)
qed

lemma hd_show_nat_digit: "isdigit (hd (show_nat n))"
  using show_nat_digits [of n] by (simp add: list.set_sel(1))

lemma takeWhile_show_nat [simp]:
  "(rest = [] \<or> \<not> isdigit (hd rest)) \<Longrightarrow> takeWhile isdigit (show_nat n @ rest) = show_nat n"
  using show_nat_digits [of n] by (cases rest) (auto simp: takeWhile_append)

lemma atoi_show_int: "is_int32 i \<Longrightarrow> atoi (show_int i) = i"
proof -
  assume i: "is_int32 i"
  have sp: "\<not> isspace (hd (show_nat n))" for n
    by (rule isdigit_not_space [OF hd_show_nat_digit])
  have dw: "dropWhile isspace (show_nat n) = show_nat n" for n
    using sp [of n] by (cases "show_nat n") auto
  have sgn: "hd (show_nat n) \<noteq> CHR ''-''" "hd (show_nat n) \<noteq> CHR ''+''" for n
    using hd_show_nat_digit [of n] by (auto simp: isdigit_def)
  have tw: "takeWhile isdigit (show_nat n) = show_nat n" for n
    using takeWhile_show_nat [of "[]" n] by simp
  have minus: "\<not> isspace (CHR ''-'')" by (simp add: isspace_def)
  have c64: "clamp64 i = i" using i by (simp add: clamp64_def is_int32_def)
  show ?thesis
    using i c64 by (simp add: atoi_def show_int_def Let_def dw sgn tw minus)
qed

subsection \<open>Lists\<close>

lemma map_nth_upt_eq: "n \<le> length xs \<Longrightarrow> map ((!) xs) [0..<n] = take n xs"
  by (metis add.left_neutral map_nth take_map take_upt)

lemma dropWhile_idle: "xs = [] \<or> \<not> P (hd xs) \<Longrightarrow> dropWhile P xs = xs"
  by (cases xs) auto

lemma takeWhile_until: "c \<notin> set k \<Longrightarrow> takeWhile (\<lambda>x. x \<noteq> c) (k @ c # v) = k"
  by (induction k) auto

lemma dropWhile_until: "c \<notin> set k \<Longrightarrow> dropWhile (\<lambda>x. x \<noteq> c) (k @ c # v) = c # v"
  by (induction k) auto

end
