(* ===== verification/Bounded_Fifo.thy ===== *)
theory Bounded_Fifo
  imports Xz_Prelude
begin

section \<open>Bounded first-in first-out queues and the ring they are stored in\<close>

text \<open>
  The client has two bounded queues with the same contract, the event queue
  (\<open>src/event_queue.c\<close>) and the audio buffer (\<open>src/audio_buffer.c\<close>), and a third ring in
  the legacy server (\<open>src/msg_queue.c\<close>). All keep \<open>head\<close>, \<open>tail\<close> and \<open>count\<close> indices into
  an array. This theory holds the shared index arithmetic (\<open>ring_list\<close>, \<open>ring_ok\<close>), the
  abstract specification of a bounded queue as a list, and the locale \<open>bounded_fifo\<close>: the
  laws a provider promises, and the refinement of whole operation sequences they give.
\<close>

subsection \<open>The ring\<close>

definition ring_list :: "'a list \<Rightarrow> nat \<Rightarrow> nat \<Rightarrow> 'a list" where
  "ring_list items head count = map (\<lambda>i. items ! ((head + i) mod length items)) [0..<count]"

definition ring_ok :: "nat \<Rightarrow> nat \<Rightarrow> nat \<Rightarrow> nat \<Rightarrow> bool" where
  "ring_ok cap head tail count \<longleftrightarrow>
     0 < cap \<and> head < cap \<and> count \<le> cap \<and> tail = (head + count) mod cap"

lemma length_ring_list [simp]: "length (ring_list items head count) = count"
  by (simp add: ring_list_def)

lemma ring_list_0 [simp]: "ring_list items head 0 = []"
  by (simp add: ring_list_def)

lemma ring_ok_tail: "ring_ok cap head tail count \<Longrightarrow> tail < cap"
  by (simp add: ring_ok_def)

lemma ring_ok_init [simp]: "0 < cap \<Longrightarrow> ring_ok cap 0 0 0"
  by (simp add: ring_ok_def)

lemma ring_ok_push:
  "ring_ok cap head tail count \<Longrightarrow> count < cap \<Longrightarrow>
     ring_ok cap head ((tail + 1) mod cap) (count + 1)"
  by (simp add: ring_ok_def mod_Suc_eq)

lemma ring_ok_pop:
  "ring_ok cap head tail count \<Longrightarrow> 0 < count \<Longrightarrow>
     ring_ok cap ((head + 1) mod cap) tail (count - 1)"
  by (cases count) (auto simp: ring_ok_def mod_add_left_eq mod_simps)

text \<open>The slot about to be written is none of the slots in use.\<close>

lemma ring_tail_free:
  assumes "ring_ok cap head tail count" and "i < count" and "count < cap"
  shows "(head + i) mod cap \<noteq> tail"
proof
  assume eq: "(head + i) mod cap = tail"
  have tail: "tail = (head + count) mod cap" and "head < cap" "0 < cap"
    using assms(1) by (auto simp: ring_ok_def)
  have "(head + i) mod cap = (head + count) mod cap" using eq tail by simp
  then have "cap dvd (head + count) - (head + i)"
    using assms(2) by (metis add_le_cancel_left less_imp_le mod_eq_dvd_iff_nat)
  then have "cap dvd count - i" by simp
  moreover have "0 < count - i" "count - i < cap" using assms(2,3) by auto
  ultimately show False by (meson dvd_imp_le not_le)
qed

lemma ring_list_push:
  assumes "ring_ok (length items) head tail count" and "count < length items"
  shows "ring_list (items[tail := x]) head (count + 1) = ring_list items head count @ [x]"
proof -
  have tail: "tail = (head + count) mod length items" "tail < length items"
    using assms(1) by (auto simp: ring_ok_def)
  have "items[tail := x] ! ((head + i) mod length items) = items ! ((head + i) mod length items)"
    if "i < count" for i
    using ring_tail_free [OF assms(1) that assms(2)] by simp
  then show ?thesis using tail by (simp add: ring_list_def)
qed

lemma ring_list_cong:
  assumes "\<And>i. i < count \<Longrightarrow>
    xs ! ((head + i) mod length xs) = ys ! ((head + i) mod length ys)"
  shows "ring_list xs head count = ring_list ys head count"
  using assms by (simp add: ring_list_def)

lemma ring_list_pop:
  assumes "ring_ok (length items) head tail count" and "0 < count"
  shows "ring_list items head count =
         items ! head # ring_list items ((head + 1) mod length items) (count - 1)"
proof -
  have "head < length items" using assms(1) by (simp add: ring_ok_def)
  moreover have "[0..<count] = 0 # map Suc [0..<count - 1]"
    using assms(2) by (metis Suc_diff_1 upt_conv_Cons map_Suc_upt)
  moreover have "(head + Suc i) mod length items =
      ((head + 1) mod length items + i) mod length items" for i
    by (simp add: mod_add_left_eq)
  ultimately show ?thesis by (simp add: ring_list_def o_def)
qed

subsection \<open>The specification: a list that admits at most a given number of elements\<close>

datatype 'a fifo_op = Push 'a | Pop
datatype 'a fifo_out = Pushed rc | Popped "'a option"

fun spec_step :: "nat \<Rightarrow> ('a \<Rightarrow> bool) \<Rightarrow> 'a list \<Rightarrow> 'a fifo_op \<Rightarrow> 'a fifo_out \<times> 'a list" where
  "spec_step cap ok xs (Push x) =
     (if ok x \<and> length xs < cap then (Pushed 0, xs @ [x]) else (Pushed (- 1), xs))"
| "spec_step cap ok [] Pop = (Popped None, [])"
| "spec_step cap ok (x # xs) Pop = (Popped (Some x), xs)"

fun spec_run ::
  "nat \<Rightarrow> ('a \<Rightarrow> bool) \<Rightarrow> 'a list \<Rightarrow> 'a fifo_op list \<Rightarrow> 'a fifo_out list \<times> 'a list" where
  "spec_run cap ok xs [] = ([], xs)"
| "spec_run cap ok xs (op # ops) =
     (let (out, ys) = spec_step cap ok xs op; (outs, zs) = spec_run cap ok ys ops
      in (out # outs, zs))"

fun impl_step ::
  "('s \<Rightarrow> 'a \<Rightarrow> rc \<times> 's) \<Rightarrow> ('s \<Rightarrow> ('a \<times> 's) option) \<Rightarrow> 's \<Rightarrow> 'a fifo_op \<Rightarrow> 'a fifo_out \<times> 's"
where
  "impl_step psh pp s (Push x) = (let (r, s') = psh s x in (Pushed r, s'))"
| "impl_step psh pp s Pop =
     (case pp s of None \<Rightarrow> (Popped None, s) | Some (x, s') \<Rightarrow> (Popped (Some x), s'))"

fun impl_run ::
  "('s \<Rightarrow> 'a \<Rightarrow> rc \<times> 's) \<Rightarrow> ('s \<Rightarrow> ('a \<times> 's) option) \<Rightarrow> 's \<Rightarrow> 'a fifo_op list \<Rightarrow>
     'a fifo_out list \<times> 's"
where
  "impl_run psh pp s [] = ([], s)"
| "impl_run psh pp s (op # ops) =
     (let (out, s') = impl_step psh pp s op; (outs, s'') = impl_run psh pp s' ops
      in (out # outs, s''))"

subsection \<open>The contract of a bounded queue\<close>

locale bounded_fifo =
  fixes inv :: "'s \<Rightarrow> bool"
    and capacity :: "'s \<Rightarrow> nat"
    and contents :: "'s \<Rightarrow> 'a list"
    and admits :: "'s \<Rightarrow> 'a \<Rightarrow> bool"
    and push :: "'s \<Rightarrow> 'a \<Rightarrow> rc \<times> 's"
    and pop :: "'s \<Rightarrow> ('a \<times> 's) option"
  assumes bound: "inv s \<Longrightarrow> length (contents s) \<le> capacity s"
    and push_ok: "inv s \<Longrightarrow> admits s x \<Longrightarrow> length (contents s) < capacity s \<Longrightarrow>
          fst (push s x) = 0 \<and> contents (snd (push s x)) = contents s @ [x]"
    and push_rejected: "inv s \<Longrightarrow> \<not> (admits s x \<and> length (contents s) < capacity s) \<Longrightarrow>
          push s x = (- 1, s)"
    and push_frame: "inv s \<Longrightarrow> inv (snd (push s x)) \<and>
          capacity (snd (push s x)) = capacity s \<and> admits (snd (push s x)) = admits s"
    and pop_empty: "inv s \<Longrightarrow> contents s = [] \<Longrightarrow> pop s = None"
    and pop_first: "inv s \<Longrightarrow> contents s = x # xs \<Longrightarrow>
          \<exists>s'. pop s = Some (x, s') \<and> contents s' = xs \<and> inv s' \<and>
               capacity s' = capacity s \<and> admits s' = admits s"
begin

lemma step_refines:
  assumes "inv s"
  shows "fst (impl_step push pop s op) =
           fst (spec_step (capacity s) (admits s) (contents s) op) \<and>
         contents (snd (impl_step push pop s op)) =
           snd (spec_step (capacity s) (admits s) (contents s) op) \<and>
         inv (snd (impl_step push pop s op)) \<and>
         capacity (snd (impl_step push pop s op)) = capacity s \<and>
         admits (snd (impl_step push pop s op)) = admits s"
proof (cases op)
  case (Push x)
  then show ?thesis
    using push_ok [OF assms, of x] push_rejected [OF assms, of x] push_frame [OF assms, of x]
    by (cases "push s x") (auto split: if_splits)
next
  case Pop
  then show ?thesis
    using assms pop_empty [OF assms] pop_first [OF assms]
    by (cases "contents s") fastforce+
qed

text \<open>Every sequence of operations answers as the list does, whatever threads issued them.\<close>

lemma run_refines:
  "inv s \<Longrightarrow>
     fst (impl_run push pop s ops) = fst (spec_run (capacity s) (admits s) (contents s) ops) \<and>
     contents (snd (impl_run push pop s ops)) =
       snd (spec_run (capacity s) (admits s) (contents s) ops) \<and>
     inv (snd (impl_run push pop s ops))"
proof (induction ops arbitrary: s)
  case Nil
  then show ?case by simp
next
  case (Cons op ops)
  have step: "inv (snd (impl_step push pop s op))"
    using step_refines [OF Cons.prems, of op] by blast
  from Cons.IH [OF step] show ?case
    using step_refines [OF Cons.prems, of op] by (auto simp: Let_def split: prod.split)
qed

end

subsection \<open>What the specification says of a burst\<close>

lemma spec_run_append:
  "spec_run cap ok xs (ops @ ops') =
     (let (outs, ys) = spec_run cap ok xs ops; (outs', zs) = spec_run cap ok ys ops'
      in (outs @ outs', zs))"
  by (induction ops arbitrary: xs) (auto simp: Let_def split: prod.split)

lemma spec_run_pushes:
  "list_all ok ys \<Longrightarrow> length xs + length ys \<le> cap \<Longrightarrow>
     spec_run cap ok xs (map Push ys) = (replicate (length ys) (Pushed 0), xs @ ys)"
  by (induction ys arbitrary: xs) auto

lemma spec_run_pops:
  "spec_run cap ok xs (replicate (length xs) Pop) = (map (Popped \<circ> Some) xs, [])"
  by (induction xs) auto

lemma spec_run_bound:
  "length xs \<le> cap \<Longrightarrow> length (snd (spec_run cap ok xs ops)) \<le> cap"
proof (induction ops arbitrary: xs)
  case Nil
  then show ?case by simp
next
  case (Cons op ops)
  have "length (snd (spec_step cap ok xs op)) \<le> cap"
    using Cons.prems by (cases op; cases xs) auto
  from Cons.IH [OF this] show ?case by (auto simp: Let_def split: prod.split)
qed

end
