(* ===== verification/Event_Queue.thy ===== *)
theory Event_Queue
  imports Bounded_Fifo
begin

section \<open>The event queue (\<open>src/event_queue.c\<close>)\<close>

text \<open>
  The queue every thread of the client pushes application events into and the main loop
  pops them from. Each operation runs under the queue's mutex, so it is one atomic step;
  the exception is the timed wait inside \<open>event_queue_pop\<close>, which gives the mutex up, and
  which is modelled over a script of what the other threads push while it sleeps.
  \<open>items\<close> is the C array, \<open>head\<close>, \<open>tail\<close> and \<open>count\<close> the indices into it.
\<close>

datatype app_event_type =
    APP_EVENT_NONE
  | APP_EVENT_MANUAL_START
  | APP_EVENT_MANUAL_STOP
  | APP_EVENT_WAKEWORD_DETECTED
  | APP_EVENT_WS_CONNECTED
  | APP_EVENT_WS_HELLO
  | APP_EVENT_WS_TEXT
  | APP_EVENT_WS_BINARY
  | APP_EVENT_CAPTURE_SILENCE_TIMEOUT
  | APP_EVENT_PLAYBACK_FINISHED
  | APP_EVENT_ERROR
  | APP_EVENT_SHUTDOWN

record app_event =
  ev_type :: app_event_type
  ev_code :: int
  ev_data_len :: nat
  ev_text :: string

definition zero_event :: app_event where
  "zero_event = \<lparr>ev_type = APP_EVENT_NONE, ev_code = 0, ev_data_len = 0, ev_text = []\<rparr>"

record event_queue =
  eq_items :: "app_event list"
  eq_capacity :: nat
  eq_head :: nat
  eq_tail :: nat
  eq_count :: nat

definition zero_event_queue :: event_queue where
  "zero_event_queue =
     \<lparr>eq_items = [], eq_capacity = 0, eq_head = 0, eq_tail = 0, eq_count = 0\<rparr>"

subsection \<open>Operations\<close>

text \<open>\<open>alloc\<close> says whether \<open>calloc\<close> returned memory; a zero capacity leaves the object as it was.\<close>

definition event_queue_init :: "bool \<Rightarrow> nat \<Rightarrow> event_queue \<Rightarrow> rc \<times> event_queue" where
  "event_queue_init alloc capacity q =
     (if capacity = 0 then (- 1, q)
      else if \<not> alloc then (- 1, zero_event_queue)
      else (0, zero_event_queue\<lparr>eq_items := replicate capacity zero_event,
                                eq_capacity := capacity\<rparr>))"

definition event_queue_push :: "event_queue \<Rightarrow> app_event \<Rightarrow> rc \<times> event_queue" where
  "event_queue_push q event =
     (if eq_count q = eq_capacity q then (- 1, q)
      else (0, q\<lparr>eq_items := (eq_items q)[eq_tail q := event],
                 eq_tail := (eq_tail q + 1) mod eq_capacity q,
                 eq_count := eq_count q + 1\<rparr>))"

text \<open>
  \<open>pthread_cond_timedwait\<close> as the code sees it: what it returned, and the events the other
  threads pushed while the mutex was free.
\<close>

datatype wait_rc = WOKEN | TIMED_OUT | WAIT_ERROR

type_synonym wait_script = "(app_event list \<times> wait_rc) list"

definition push_all :: "event_queue \<Rightarrow> app_event list \<Rightarrow> event_queue" where
  "push_all q evs = foldl (\<lambda>q e. snd (event_queue_push q e)) q evs"

fun event_queue_wait_loop :: "wait_script \<Rightarrow> event_queue \<Rightarrow> (rc \<times> event_queue) option" where
  "event_queue_wait_loop script q =
     (if eq_count q = 0 then
        (case script of
           [] \<Rightarrow> None
         | (evs, r) # script' \<Rightarrow>
             (let q' = push_all q evs in
              case r of
                TIMED_OUT \<Rightarrow> Some (0, q')
              | WAIT_ERROR \<Rightarrow> Some (- 1, q')
              | WOKEN \<Rightarrow> event_queue_wait_loop script' q'))
      else Some (1, q))"

declare event_queue_wait_loop.simps [simp del]

text \<open>\<open>None\<close>: the script is over and the thread still sleeps.\<close>

definition event_queue_wait_locked ::
  "wait_script \<Rightarrow> int \<Rightarrow> event_queue \<Rightarrow> (rc \<times> event_queue) option" where
  "event_queue_wait_locked script timeout_ms q =
     (if timeout_ms \<le> 0 then Some (if 0 < eq_count q then 1 else 0, q)
      else event_queue_wait_loop script q)"

text \<open>The absolute deadline of one wait, from the clock and the timeout.\<close>

definition wait_deadline :: "int \<times> int \<Rightarrow> int \<Rightarrow> int \<times> int" where
  "wait_deadline now timeout_ms =
     (let sec = fst now + c_div timeout_ms 1000;
          nsec = snd now + c_mod timeout_ms 1000 * 1000000
      in if nsec \<ge> 1000000000 then (sec + 1, nsec - 1000000000) else (sec, nsec))"

definition event_queue_pop ::
  "wait_script \<Rightarrow> event_queue \<Rightarrow> int \<Rightarrow> (rc \<times> app_event option \<times> event_queue) option" where
  "event_queue_pop script q timeout_ms =
     (case event_queue_wait_locked script timeout_ms q of
        None \<Rightarrow> None
      | Some (r, q1) \<Rightarrow>
          if r \<noteq> 1 then Some (r, None, q1)
          else Some (1, Some (eq_items q1 ! eq_head q1),
                     q1\<lparr>eq_head := (eq_head q1 + 1) mod eq_capacity q1,
                        eq_count := eq_count q1 - 1\<rparr>))"

definition event_queue_destroy :: "event_queue \<Rightarrow> event_queue" where
  "event_queue_destroy q =
     q\<lparr>eq_items := [], eq_capacity := 0, eq_head := 0, eq_tail := 0, eq_count := 0\<rparr>"

subsection \<open>Invariant and contents\<close>

definition eq_inv :: "event_queue \<Rightarrow> bool" where
  "eq_inv q \<longleftrightarrow> length (eq_items q) = eq_capacity q \<and>
     ring_ok (eq_capacity q) (eq_head q) (eq_tail q) (eq_count q)"

definition eq_contents :: "event_queue \<Rightarrow> app_event list" where
  "eq_contents q = ring_list (eq_items q) (eq_head q) (eq_count q)"

definition event_queue_try_pop :: "event_queue \<Rightarrow> (app_event \<times> event_queue) option" where
  "event_queue_try_pop q =
     (case event_queue_pop [] q 0 of
        Some (_, Some e, q') \<Rightarrow> Some (e, q') | _ \<Rightarrow> None)"

lemma length_eq_contents [simp]: "length (eq_contents q) = eq_count q"
  by (simp add: eq_contents_def)

lemma eq_inv_bound: "eq_inv q \<Longrightarrow> eq_count q \<le> eq_capacity q"
  by (simp add: eq_inv_def ring_ok_def)

lemma event_queue_init_ok:
  "event_queue_init alloc capacity q = (0, q') \<Longrightarrow>
     eq_inv q' \<and> eq_contents q' = [] \<and> eq_capacity q' = capacity"
  by (auto simp: event_queue_init_def eq_inv_def eq_contents_def zero_event_queue_def
      split: if_splits)

lemma eq_push_inv [inv_intros]: "eq_inv q \<Longrightarrow> eq_inv (snd (event_queue_push q e))"
  by (auto simp: event_queue_push_def eq_inv_def dest: ring_ok_push
      simp flip: Suc_eq_plus1) (metis Suc_eq_plus1 le_neq_implies_less ring_ok_def ring_ok_push)

lemma eq_push_capacity [simp]: "eq_capacity (snd (event_queue_push q e)) = eq_capacity q"
  by (simp add: event_queue_push_def)

lemma eq_push_contents [queue_simps]:
  "eq_inv q \<Longrightarrow> eq_contents (snd (event_queue_push q e)) =
     (if eq_count q < eq_capacity q then eq_contents q @ [e] else eq_contents q)"
  using ring_list_push [of "eq_items q" "eq_head q" "eq_tail q" "eq_count q" e]
  by (auto simp: event_queue_push_def eq_inv_def eq_contents_def ring_ok_def)

lemma eq_push_rc [queue_simps]:
  "eq_inv q \<Longrightarrow> fst (event_queue_push q e) = (if eq_count q < eq_capacity q then 0 else - 1)"
  by (auto simp: event_queue_push_def dest: eq_inv_bound)

lemma eq_try_pop_empty: "eq_count q = 0 \<Longrightarrow> event_queue_try_pop q = None"
  by (simp add: event_queue_try_pop_def event_queue_pop_def event_queue_wait_locked_def)

lemma eq_take_head:
  assumes "eq_inv q" and "0 < eq_count q"
  shows "eq_contents q = eq_items q ! eq_head q #
           eq_contents (q\<lparr>eq_head := (eq_head q + 1) mod eq_capacity q,
                          eq_count := eq_count q - 1\<rparr>)"
    and "eq_inv (q\<lparr>eq_head := (eq_head q + 1) mod eq_capacity q, eq_count := eq_count q - 1\<rparr>)"
  using assms ring_list_pop [of "eq_items q" "eq_head q" "eq_tail q" "eq_count q"]
    ring_ok_pop [of "eq_capacity q" "eq_head q" "eq_tail q" "eq_count q"]
  by (auto simp: eq_inv_def eq_contents_def)

lemma eq_try_pop_first:
  assumes "eq_inv q" and "eq_contents q = e # es"
  shows "\<exists>q'. event_queue_try_pop q = Some (e, q') \<and> eq_contents q' = es \<and> eq_inv q' \<and>
              eq_capacity q' = eq_capacity q"
proof -
  have "0 < eq_count q" using assms(2) by (metis length_eq_contents length_greater_0_conv list.distinct(1))
  with assms eq_take_head [OF assms(1) this] show ?thesis
    by (simp add: event_queue_try_pop_def event_queue_pop_def event_queue_wait_locked_def)
qed

interpretation eq: bounded_fifo eq_inv eq_capacity eq_contents "\<lambda>_ _. True"
  event_queue_push event_queue_try_pop
proof unfold_locales
  show "eq_inv s \<Longrightarrow> length (eq_contents s) \<le> eq_capacity s" for s
    by (simp add: eq_inv_bound)
  show "eq_inv s \<Longrightarrow> True \<Longrightarrow> length (eq_contents s) < eq_capacity s \<Longrightarrow>
      fst (event_queue_push s x) = 0 \<and>
      eq_contents (snd (event_queue_push s x)) = eq_contents s @ [x]" for s x
    by (simp add: queue_simps)
  show "eq_inv s \<Longrightarrow> \<not> (True \<and> length (eq_contents s) < eq_capacity s) \<Longrightarrow>
      event_queue_push s x = (- 1, s)" for s x
    using eq_inv_bound [of s] by (simp add: event_queue_push_def)
  show "eq_inv s \<Longrightarrow> eq_inv (snd (event_queue_push s x)) \<and>
      eq_capacity (snd (event_queue_push s x)) = eq_capacity s \<and> (\<lambda>_. True) = (\<lambda>_. True)"
    for s x by (simp add: eq_push_inv)
  show "eq_inv s \<Longrightarrow> eq_contents s = [] \<Longrightarrow> event_queue_try_pop s = None" for s
    by (metis eq_try_pop_empty length_eq_contents list.size(3))
  show "eq_inv s \<Longrightarrow> eq_contents s = x # xs \<Longrightarrow>
      \<exists>s'. event_queue_try_pop s = Some (x, s') \<and> eq_contents s' = xs \<and> eq_inv s' \<and>
        eq_capacity s' = eq_capacity s \<and> (\<lambda>_. True) = (\<lambda>_. True)" for s x xs
    using eq_try_pop_first [of s x xs] by simp
qed

subsection \<open>The timed wait\<close>

lemma push_all_simps [simp]:
  "push_all q [] = q"
  "push_all q (e # es) = push_all (snd (event_queue_push q e)) es"
  by (simp_all add: push_all_def)

lemma push_all_inv [inv_intros]: "eq_inv q \<Longrightarrow> eq_inv (push_all q evs)"
  by (induction evs arbitrary: q) (auto intro: inv_intros)

lemma push_all_capacity [simp]: "eq_capacity (push_all q evs) = eq_capacity q"
  by (induction evs arbitrary: q) auto

lemma push_all_contents [queue_simps]:
  "eq_inv q \<Longrightarrow>
     eq_contents (push_all q evs) = eq_contents q @ take (eq_capacity q - eq_count q) evs"
proof (induction evs arbitrary: q)
  case Nil
  then show ?case by simp
next
  case (Cons e evs)
  have "eq_contents (push_all (snd (event_queue_push q e)) evs) =
      eq_contents (snd (event_queue_push q e)) @
      take (eq_capacity q - eq_count (snd (event_queue_push q e))) evs"
    using Cons.IH [OF eq_push_inv [OF Cons.prems]] by simp
  moreover have "eq_count (snd (event_queue_push q e)) =
      (if eq_count q < eq_capacity q then eq_count q + 1 else eq_count q)"
    using arg_cong [OF eq_push_contents [OF Cons.prems, of e], of length] by simp
  ultimately show ?case
    using Cons.prems by (simp add: queue_simps take_Cons' Suc_diff_Suc)
qed

lemma wait_loop_simps [simp]:
  "eq_count q \<noteq> 0 \<Longrightarrow> event_queue_wait_loop script q = Some (1, q)"
  "eq_count q = 0 \<Longrightarrow> event_queue_wait_loop [] q = None"
  "eq_count q = 0 \<Longrightarrow> event_queue_wait_loop ((evs, r) # script) q =
     (case r of TIMED_OUT \<Rightarrow> Some (0, push_all q evs)
              | WAIT_ERROR \<Rightarrow> Some (- 1, push_all q evs)
              | WOKEN \<Rightarrow> event_queue_wait_loop script (push_all q evs))"
  by (simp_all add: event_queue_wait_loop.simps [of script q] event_queue_wait_loop.simps [of "[]" q]
      event_queue_wait_loop.simps [of "(evs, r) # script" q] Let_def)

lemma wait_loop_sound:
  "event_queue_wait_loop script q = Some (r, q') \<Longrightarrow> eq_inv q \<Longrightarrow>
     eq_inv q' \<and> eq_capacity q' = eq_capacity q \<and> (r = 1 \<longrightarrow> 0 < eq_count q') \<and>
     (r = 1 \<or> r = 0 \<or> r = - 1) \<and> (\<exists>evs. eq_contents q' = eq_contents q @ evs)"
proof (induction script arbitrary: q)
  case Nil
  then show ?case by (cases "eq_count q = 0") auto
next
  case (Cons step script)
  obtain evs w where step: "step = (evs, w)" by (cases step)
  have grow: "eq_contents (push_all q evs) = eq_contents q @ take (eq_capacity q - eq_count q) evs"
    using Cons.prems(2) by (rule push_all_contents)
  show ?case
  proof (cases "eq_count q = 0")
    case False
    with Cons.prems show ?thesis by auto
  next
    case True
    with Cons.prems step grow Cons.IH [OF _ push_all_inv [OF Cons.prems(2), of evs]]
    show ?thesis by (cases w) (auto intro: inv_intros)
  qed
qed

lemmas event_queue_defs = event_queue_pop_def event_queue_wait_locked_def
  event_queue_try_pop_def event_queue_push_def

subsection \<open>Properties\<close>

text \<open>
  C19: from a successful \<open>event_queue_init\<close> on, any interleaving of pushes and non-blocking pops
  by any threads answers exactly as a list that accepts at most \<open>capacity\<close> events: events
  come out in the order they went in, none is lost or duplicated, and a push is refused
  exactly when the queue is full.
\<close>

theorem event_queue_refines:
  assumes "event_queue_init alloc capacity q0 = (0, q)"
  shows "fst (impl_run event_queue_push event_queue_try_pop q ops) =
           fst (spec_run capacity (\<lambda>_. True) [] ops) \<and>
         eq_contents (snd (impl_run event_queue_push event_queue_try_pop q ops)) =
           snd (spec_run capacity (\<lambda>_. True) [] ops)"
  using event_queue_init_ok [OF assms] eq.run_refines [of q ops] by simp

theorem event_queue_refines_witness:
  "fst (impl_run event_queue_push event_queue_try_pop
          (snd (event_queue_init True 2 zero_event_queue))
          [Push (zero_event\<lparr>ev_type := APP_EVENT_WS_CONNECTED\<rparr>), Pop, Pop]) =
   [Pushed 0, Popped (Some (zero_event\<lparr>ev_type := APP_EVENT_WS_CONNECTED\<rparr>)), Popped None]"
proof -
  have "event_queue_init True 2 zero_event_queue =
      (0, snd (event_queue_init True 2 zero_event_queue))"
    by (simp add: event_queue_init_def)
  from event_queue_refines [OF this,
      of "[Push (zero_event\<lparr>ev_type := APP_EVENT_WS_CONNECTED\<rparr>), Pop, Pop]"]
  show ?thesis by (simp del: impl_run.simps)
qed

text \<open>
  \<open>event_queue_pop\<close> with any timeout never loses an event, whatever the other threads push
  while it waits and however often it is woken: the events it found and those accepted
  during the wait are, in order, the one it returns (if it returns 1) and those left. A
  queue that holds an event answers at once with its oldest one.
\<close>

theorem event_queue_pop_conserves:
  assumes "eq_inv q" and "event_queue_pop script q timeout_ms = Some (r, e, q')"
  shows "eq_inv q' \<and> (r = 1 \<longleftrightarrow> e \<noteq> None) \<and>
         (\<exists>evs. eq_contents q @ evs =
            (case e of None \<Rightarrow> [] | Some x \<Rightarrow> [x]) @ eq_contents q') \<and>
         (0 < eq_count q \<longrightarrow> e = Some (hd (eq_contents q)) \<and> eq_contents q' = tl (eq_contents q))"
proof -
  obtain q1 where wait: "event_queue_wait_locked script timeout_ms q = Some (r, q1)"
    and e: "if r \<noteq> 1 then e = None \<and> q' = q1
            else e = Some (eq_items q1 ! eq_head q1) \<and>
                 q' = q1\<lparr>eq_head := (eq_head q1 + 1) mod eq_capacity q1,
                         eq_count := eq_count q1 - 1\<rparr>"
    using assms(2) by (auto simp: event_queue_pop_def split: option.splits if_splits)
  have q1: "eq_inv q1" "r = 1 \<longrightarrow> 0 < eq_count q1"
    "\<exists>evs. eq_contents q1 = eq_contents q @ evs" "0 < eq_count q \<longrightarrow> q1 = q \<and> r = 1"
    using wait assms(1) wait_loop_sound [of script q r q1]
    by (auto simp: event_queue_wait_locked_def
        split: if_splits)
  show ?thesis
  proof (cases "r = 1")
    case True
    with q1 have "0 < eq_count q1" by blast
    with True e eq_take_head [OF q1(1)] have
      "eq_contents q1 = the e # eq_contents q'" "eq_inv q'" "e \<noteq> None" by auto
    with True q1 show ?thesis by auto
  next
    case False
    with e q1 show ?thesis by auto
  qed
qed

theorem event_queue_pop_conserves_witness:
  "\<exists>evs. eq_contents (snd (event_queue_init True 2 zero_event_queue)) @ evs =
     [zero_event] @ eq_contents (snd (event_queue_init True 2 zero_event_queue)
        \<lparr>eq_items := [zero_event, zero_event], eq_head := 1, eq_tail := 1\<rparr>)"
proof -
  let ?q = "snd (event_queue_init True 2 zero_event_queue)"
  have "eq_inv ?q"
    using event_queue_init_ok [of True 2 zero_event_queue ?q]
    by (simp add: event_queue_init_def)
  moreover have "event_queue_pop [([zero_event], WOKEN)] ?q 100 =
      Some (1, Some zero_event,
        ?q\<lparr>eq_items := [zero_event, zero_event], eq_head := 1, eq_tail := 1\<rparr>)"
    by (simp add: event_queue_defs event_queue_init_def
        zero_event_queue_def numeral_2_eq_2)
  ultimately show ?thesis
    using event_queue_pop_conserves [of ?q "[([zero_event], WOKEN)]" 100] by fastforce
qed

text \<open>
  The deadline of a timed wait is the clock plus the timeout, to the millisecond, and is a
  valid \<open>timespec\<close>: its nanoseconds are below one second.
\<close>

theorem wait_deadline_valid:
  assumes "0 \<le> snd now" and "snd now < 1000000000" and "0 \<le> timeout_ms"
  shows "0 \<le> snd (wait_deadline now timeout_ms) \<and>
         snd (wait_deadline now timeout_ms) < 1000000000 \<and>
         fst (wait_deadline now timeout_ms) * 1000000000 + snd (wait_deadline now timeout_ms) =
         fst now * 1000000000 + snd now + timeout_ms * 1000000"
proof -
  have "timeout_ms = timeout_ms div 1000 * 1000 + timeout_ms mod 1000" by simp
  then have "timeout_ms div 1000 * 1000000000 + timeout_ms mod 1000 * 1000000 =
      timeout_ms * 1000000" by linarith
  moreover have "0 \<le> timeout_ms mod 1000" "timeout_ms mod 1000 \<le> 999" by simp_all
  ultimately show ?thesis
    using assms by (simp add: wait_deadline_def Let_def)
qed

theorem wait_deadline_valid_witness:
  "snd (wait_deadline (5, 950000000) 100) < 1000000000 \<and>
   wait_deadline (5, 950000000) 100 = (6, 50000000)"
  using wait_deadline_valid [of "(5, 950000000)" 100] by (simp add: wait_deadline_def)

end
