(* ===== verification/Audio_Buffer.thy ===== *)
theory Audio_Buffer
  imports Bounded_Fifo
begin

section \<open>The audio buffer (\<open>src/audio_buffer.c\<close>)\<close>

text \<open>
  A bounded queue of byte blocks with one preallocated storage area. Slot \<open>i\<close> of \<open>blocks\<close>
  points at \<open>storage + i * block_capacity\<close>; a pop returns the slot's descriptor, whose
  \<open>data\<close> still points into the storage. The pointer is modelled as that offset and reads and
  writes go through the storage, so the aliasing between a popped block and later pushes is
  part of the model.
\<close>

record audio_block =
  blk_data :: nat
  blk_len :: nat
  blk_rate :: int

record audio_buffer =
  ab_blocks :: "audio_block list"
  ab_storage :: "byte list"
  ab_capacity :: nat
  ab_block_capacity :: nat
  ab_head :: nat
  ab_tail :: nat
  ab_count :: nat

definition zero_audio_buffer :: audio_buffer where
  "zero_audio_buffer = \<lparr>ab_blocks = [], ab_storage = [], ab_capacity = 0,
     ab_block_capacity = 0, ab_head = 0, ab_tail = 0, ab_count = 0\<rparr>"

text \<open>\<open>memcpy\<close> into the storage, and reading a block back through its pointer.\<close>

definition mem_write :: "nat \<Rightarrow> 'a list \<Rightarrow> 'a list \<Rightarrow> 'a list" where
  "mem_write off bs mem = take off mem @ bs @ drop (off + length bs) mem"

definition mem_read :: "nat \<Rightarrow> nat \<Rightarrow> 'a list \<Rightarrow> 'a list" where
  "mem_read off n mem = take n (drop off mem)"

definition block_bytes :: "audio_buffer \<Rightarrow> audio_block \<Rightarrow> byte list" where
  "block_bytes b blk = mem_read (blk_data blk) (blk_len blk) (ab_storage b)"

subsection \<open>Operations\<close>

definition audio_buffer_destroy :: "audio_buffer \<Rightarrow> audio_buffer" where
  "audio_buffer_destroy b =
     b\<lparr>ab_blocks := [], ab_storage := [], ab_capacity := 0, ab_block_capacity := 0,
       ab_head := 0, ab_tail := 0, ab_count := 0\<rparr>"

definition audio_buffer_init ::
  "bool \<Rightarrow> nat \<Rightarrow> nat \<Rightarrow> audio_buffer \<Rightarrow> rc \<times> audio_buffer" where
  "audio_buffer_init alloc capacity block_capacity b =
     (if capacity = 0 \<or> block_capacity = 0 then (- 1, b)
      else if \<not> alloc then (- 1, audio_buffer_destroy zero_audio_buffer)
      else (0, zero_audio_buffer
        \<lparr>ab_blocks := map (\<lambda>i. \<lparr>blk_data = i * block_capacity, blk_len = 0, blk_rate = 0\<rparr>)
                        [0..<capacity],
         ab_storage := replicate (capacity * block_capacity) 0,
         ab_capacity := capacity,
         ab_block_capacity := block_capacity\<rparr>))"

definition audio_buffer_push ::
  "audio_buffer \<Rightarrow> byte list \<Rightarrow> int \<Rightarrow> rc \<times> audio_buffer" where
  "audio_buffer_push b data sample_rate =
     (if length data > ab_block_capacity b then (- 1, b)
      else if ab_count b = ab_capacity b then (- 1, b)
      else
        (let slot = ab_blocks b ! ab_tail b in
         (0, b\<lparr>ab_storage := mem_write (blk_data slot) data (ab_storage b),
               ab_blocks := (ab_blocks b)[ab_tail b :=
                 slot\<lparr>blk_len := length data, blk_rate := sample_rate\<rparr>],
               ab_tail := (ab_tail b + 1) mod ab_capacity b,
               ab_count := ab_count b + 1\<rparr>)))"

definition audio_buffer_pop :: "audio_buffer \<Rightarrow> rc \<times> audio_block option \<times> audio_buffer" where
  "audio_buffer_pop b =
     (if ab_count b = 0 then (0, None, b)
      else (1, Some (ab_blocks b ! ab_head b),
            b\<lparr>ab_head := (ab_head b + 1) mod ab_capacity b, ab_count := ab_count b - 1\<rparr>))"

definition audio_buffer_size :: "audio_buffer \<Rightarrow> nat" where
  "audio_buffer_size b = ab_count b"

subsection \<open>Memory lemmas\<close>

lemma length_mem_write [simp]:
  "off + length bs \<le> length mem \<Longrightarrow> length (mem_write off bs mem) = length mem"
  by (simp add: mem_write_def)

lemma mem_read_write_same [simp]:
  "off + length bs \<le> length mem \<Longrightarrow> mem_read off (length bs) (mem_write off bs mem) = bs"
  by (simp add: mem_read_def mem_write_def)

lemma mem_write_nth:
  "off + length bs \<le> length mem \<Longrightarrow> k < off \<or> off + length bs \<le> k \<Longrightarrow>
     k < length mem \<Longrightarrow> mem_write off bs mem ! k = mem ! k"
  by (auto simp: mem_write_def nth_append)

lemma mem_read_write_other:
  assumes "off + length bs \<le> length mem" and "p + n \<le> off \<or> off + length bs \<le> p"
    and "p + n \<le> length mem"
  shows "mem_read p n (mem_write off bs mem) = mem_read p n mem"
  using assms by (intro nth_equalityI) (auto simp: mem_read_def mem_write_nth)

lemma slots_disjoint:
  "(i::nat) \<noteq> j \<Longrightarrow> n \<le> c \<Longrightarrow> m \<le> c \<Longrightarrow> i * c + n \<le> j * c \<or> j * c + m \<le> i * c"
proof -
  assume "i \<noteq> j" and "n \<le> c" and "m \<le> c"
  then consider "Suc i * c \<le> j * c" | "Suc j * c \<le> i * c"
    by (metis Suc_leI linorder_neqE_nat mult_le_mono1)
  then show ?thesis using \<open>n \<le> c\<close> \<open>m \<le> c\<close> by cases auto
qed

subsection \<open>Invariant and contents\<close>

text \<open>
  Every slot points at its own part of the storage and holds no more than fits there.
\<close>

definition ab_inv :: "audio_buffer \<Rightarrow> bool" where
  "ab_inv b \<longleftrightarrow>
     length (ab_blocks b) = ab_capacity b \<and>
     length (ab_storage b) = ab_capacity b * ab_block_capacity b \<and>
     (\<forall>i < ab_capacity b. blk_data (ab_blocks b ! i) = i * ab_block_capacity b \<and>
                          blk_len (ab_blocks b ! i) \<le> ab_block_capacity b) \<and>
     ring_ok (ab_capacity b) (ab_head b) (ab_tail b) (ab_count b)"

definition ab_entry :: "audio_buffer \<Rightarrow> audio_block \<Rightarrow> byte list \<times> int" where
  "ab_entry b blk = (block_bytes b blk, blk_rate blk)"

definition ab_contents :: "audio_buffer \<Rightarrow> (byte list \<times> int) list" where
  "ab_contents b = ring_list (map (ab_entry b) (ab_blocks b)) (ab_head b) (ab_count b)"

definition ab_admits :: "audio_buffer \<Rightarrow> byte list \<times> int \<Rightarrow> bool" where
  "ab_admits b = (\<lambda>(data, rate). length data \<le> ab_block_capacity b)"

text \<open>The queue interface: push a block, pop and read it at once.\<close>

definition ab_push :: "audio_buffer \<Rightarrow> byte list \<times> int \<Rightarrow> rc \<times> audio_buffer" where
  "ab_push b = (\<lambda>(data, rate). audio_buffer_push b data rate)"

definition ab_pop :: "audio_buffer \<Rightarrow> ((byte list \<times> int) \<times> audio_buffer) option" where
  "ab_pop b = (case audio_buffer_pop b of
     (_, Some blk, b') \<Rightarrow> Some (ab_entry b' blk, b') | _ \<Rightarrow> None)"

lemma length_ab_contents [simp]: "length (ab_contents b) = ab_count b"
  by (simp add: ab_contents_def)

lemma ab_inv_bound: "ab_inv b \<Longrightarrow> ab_count b \<le> ab_capacity b"
  by (simp add: ab_inv_def ring_ok_def)

lemma audio_buffer_init_ok:
  "audio_buffer_init alloc capacity bc b0 = (0, b) \<Longrightarrow>
     ab_inv b \<and> ab_contents b = [] \<and> ab_capacity b = capacity \<and> ab_block_capacity b = bc"
  by (auto simp: audio_buffer_init_def ab_inv_def ab_contents_def zero_audio_buffer_def
      split: if_splits)

lemma slot_in_storage: "ab_inv b \<Longrightarrow> i < ab_capacity b \<Longrightarrow> n \<le> ab_block_capacity b \<Longrightarrow>
    i * ab_block_capacity b + n \<le> length (ab_storage b)"
  using mult_le_mono1 [of "Suc i" "ab_capacity b" "ab_block_capacity b"]
  by (auto simp: ab_inv_def)

lemma push_frame_simps [simp]:
  "ab_capacity (snd (audio_buffer_push b d r)) = ab_capacity b"
  "ab_block_capacity (snd (audio_buffer_push b d r)) = ab_block_capacity b"
  "ab_head (snd (audio_buffer_push b d r)) = ab_head b"
  by (simp_all add: audio_buffer_push_def Let_def)

lemma push_rejected: "length d > ab_block_capacity b \<or> ab_count b = ab_capacity b \<Longrightarrow>
    audio_buffer_push b d r = (- 1, b)"
  by (auto simp: audio_buffer_push_def)

lemma push_inv [inv_intros]:
  assumes "ab_inv b"
  shows "ab_inv (snd (audio_buffer_push b d r))"
proof (cases "length d > ab_block_capacity b \<or> ab_count b = ab_capacity b")
  case True
  then show ?thesis using assms by (simp add: push_rejected)
next
  case False
  have ring: "ring_ok (ab_capacity b) (ab_head b) (ab_tail b) (ab_count b)"
    using assms by (simp add: ab_inv_def)
  then have tail: "ab_tail b < ab_capacity b" by (rule ring_ok_tail)
  have "ab_count b < ab_capacity b" using False ab_inv_bound [OF assms] by simp
  with ring have "ring_ok (ab_capacity b) (ab_head b)
      ((ab_tail b + 1) mod ab_capacity b) (ab_count b + 1)" by (rule ring_ok_push)
  moreover have "blk_data (ab_blocks b ! ab_tail b) + length d \<le> length (ab_storage b)"
    using assms tail False slot_in_storage [OF assms tail, of "length d"]
    by (simp add: ab_inv_def)
  ultimately show ?thesis
    using assms False tail
    by (auto simp: ab_inv_def audio_buffer_push_def Let_def nth_list_update)
qed

text \<open>A push leaves every slot but the one at \<open>tail\<close> as it was, bytes included.\<close>

lemma push_other_slot:
  assumes "ab_inv b" and "i < ab_capacity b" and "i \<noteq> ab_tail b"
  shows "ab_entry (snd (audio_buffer_push b d r)) (ab_blocks b ! i) = ab_entry b (ab_blocks b ! i)"
proof (cases "length d > ab_block_capacity b \<or> ab_count b = ab_capacity b")
  case True
  then show ?thesis by (simp add: push_rejected)
next
  case False
  have tail: "ab_tail b < ab_capacity b"
    using assms(1) ring_ok_tail by (auto simp: ab_inv_def)
  have slots: "blk_data (ab_blocks b ! i) = i * ab_block_capacity b"
      "blk_len (ab_blocks b ! i) \<le> ab_block_capacity b"
      "blk_data (ab_blocks b ! ab_tail b) = ab_tail b * ab_block_capacity b"
    using assms tail by (auto simp: ab_inv_def)
  with assms False tail slots_disjoint [OF assms(3), of "blk_len (ab_blocks b ! i)"
      "ab_block_capacity b" "length d"] slot_in_storage [OF assms(1) tail, of "length d"]
    slot_in_storage [OF assms(1,2), of "blk_len (ab_blocks b ! i)"]
  show ?thesis
    by (auto simp: audio_buffer_push_def Let_def ab_entry_def block_bytes_def
        intro!: mem_read_write_other)
qed

lemma push_tail_slot:
  assumes "ab_inv b" and "length d \<le> ab_block_capacity b" and "ab_count b < ab_capacity b"
  shows "ab_entry (snd (audio_buffer_push b d r))
           (ab_blocks (snd (audio_buffer_push b d r)) ! ab_tail b) = (d, r)"
proof -
  have tail: "ab_tail b < ab_capacity b" "length (ab_blocks b) = ab_capacity b"
    using assms(1) ring_ok_tail by (auto simp: ab_inv_def)
  then show ?thesis
    using assms slot_in_storage [OF assms(1), of "ab_tail b" "length d"]
    by (simp add: audio_buffer_push_def Let_def ab_entry_def block_bytes_def ab_inv_def)
qed

lemma push_contents [queue_simps]:
  assumes "ab_inv b" and "length d \<le> ab_block_capacity b" and "ab_count b < ab_capacity b"
  shows "ab_contents (snd (audio_buffer_push b d r)) = ab_contents b @ [(d, r)]"
proof -
  let ?b = "snd (audio_buffer_push b d r)"
  let ?xs = "map (ab_entry b) (ab_blocks b)" and ?ys = "map (ab_entry ?b) (ab_blocks ?b)"
  have ring: "ring_ok (ab_capacity b) (ab_head b) (ab_tail b) (ab_count b)"
    and len: "length (ab_blocks b) = ab_capacity b"
    using assms(1) by (auto simp: ab_inv_def)
  then have tail: "ab_tail b < ab_capacity b" by (simp add: ring_ok_def)
  have blocks: "length (ab_blocks ?b) = ab_capacity b"
    "i \<noteq> ab_tail b \<Longrightarrow> ab_blocks ?b ! i = ab_blocks b ! i" for i
    using assms len by (auto simp: audio_buffer_push_def Let_def)
  have "?ys ! i = (?xs[ab_tail b := (d, r)]) ! i" if "i < ab_capacity b" for i
    using that tail len blocks push_other_slot [OF assms(1) that, of d r]
      push_tail_slot [OF assms, of r]
    by (cases "i = ab_tail b") auto
  then have "?ys = ?xs[ab_tail b := (d, r)]"
    by (intro nth_equalityI) (auto simp: blocks len)
  moreover have "ab_count ?b = ab_count b + 1"
    using assms by (simp add: audio_buffer_push_def Let_def)
  ultimately show ?thesis
    using ring_list_push [of ?xs "ab_head b" "ab_tail b" "ab_count b"] ring len assms(3)
    by (simp add: ab_contents_def)
qed

lemma pop_step:
  assumes "ab_inv b" and "0 < ab_count b"
  shows "\<exists>blk b'. audio_buffer_pop b = (1, Some blk, b') \<and> blk = ab_blocks b ! ab_head b \<and>
           ab_contents b = ab_entry b' blk # ab_contents b' \<and> ab_inv b' \<and>
           ab_capacity b' = ab_capacity b \<and> ab_block_capacity b' = ab_block_capacity b \<and>
           ab_count b' = ab_count b - 1"
proof -
  let ?b = "b\<lparr>ab_head := (ab_head b + 1) mod ab_capacity b, ab_count := ab_count b - 1\<rparr>"
  have ring: "ring_ok (ab_capacity b) (ab_head b) (ab_tail b) (ab_count b)"
    and len: "length (ab_blocks b) = ab_capacity b"
    using assms(1) by (auto simp: ab_inv_def)
  have same: "ab_entry ?b = ab_entry b" by (simp add: ab_entry_def block_bytes_def fun_eq_iff)
  have "ab_contents b = ab_entry b (ab_blocks b ! ab_head b) # ab_contents ?b"
    using ring_list_pop [of "map (ab_entry b) (ab_blocks b)" "ab_head b" "ab_tail b" "ab_count b"]
      ring len assms(2) same by (simp add: ab_contents_def ring_ok_def)
  moreover have "ab_inv ?b"
    using assms ring_ok_pop [OF ring assms(2)] by (simp add: ab_inv_def)
  ultimately show ?thesis
    using assms(2) same by (auto simp: audio_buffer_pop_def)
qed

interpretation ab: bounded_fifo ab_inv ab_capacity ab_contents ab_admits ab_push ab_pop
proof unfold_locales
  show "ab_inv s \<Longrightarrow> length (ab_contents s) \<le> ab_capacity s" for s
    by (simp add: ab_inv_bound)
  show "ab_inv s \<Longrightarrow> ab_admits s x \<Longrightarrow> length (ab_contents s) < ab_capacity s \<Longrightarrow>
      fst (ab_push s x) = 0 \<and> ab_contents (snd (ab_push s x)) = ab_contents s @ [x]" for s x
    by (auto simp: ab_push_def ab_admits_def queue_simps split: prod.splits)
       (simp add: audio_buffer_push_def Let_def)
  show "ab_inv s \<Longrightarrow> \<not> (ab_admits s x \<and> length (ab_contents s) < ab_capacity s) \<Longrightarrow>
      ab_push s x = (- 1, s)" for s x
    using ab_inv_bound [of s]
    by (auto simp: ab_push_def ab_admits_def split: prod.splits intro!: push_rejected)
  show "ab_inv s \<Longrightarrow> ab_inv (snd (ab_push s x)) \<and>
      ab_capacity (snd (ab_push s x)) = ab_capacity s \<and>
      ab_admits (snd (ab_push s x)) = ab_admits s" for s x
    by (auto simp: ab_push_def ab_admits_def fun_eq_iff intro: inv_intros split: prod.splits)
  show "ab_inv s \<Longrightarrow> ab_contents s = [] \<Longrightarrow> ab_pop s = None" for s
    by (metis (no_types, lifting) ab_pop_def audio_buffer_pop_def length_ab_contents list.size(3)
        option.case(1) prod.case)
  show "ab_inv s \<Longrightarrow> ab_contents s = x # xs \<Longrightarrow>
      \<exists>s'. ab_pop s = Some (x, s') \<and> ab_contents s' = xs \<and> ab_inv s' \<and>
        ab_capacity s' = ab_capacity s \<and> ab_admits s' = ab_admits s" for s x xs
  proof -
    assume inv: "ab_inv s" and ne: "ab_contents s = x # xs"
    then have "0 < ab_count s"
      by (metis length_ab_contents length_greater_0_conv list.distinct(1))
    from pop_step [OF inv this] ne show ?thesis
      by (auto simp: ab_pop_def ab_admits_def)
  qed
qed

subsection \<open>Properties\<close>

text \<open>
  C20: the audio buffer is a bounded first-in first-out queue of byte blocks: any sequence of
  pushes and pops (each popped block read before the next operation) answers as a list
  holding at most \<open>capacity\<close> blocks, blocks larger than \<open>block_capacity\<close> being refused, and
  the bytes and sample rate that come out are those that went in.
\<close>

theorem audio_buffer_refines:
  assumes "audio_buffer_init alloc capacity block_capacity b0 = (0, b)"
  shows "fst (impl_run ab_push ab_pop b ops) =
           fst (spec_run capacity (\<lambda>(d, r). length d \<le> block_capacity) [] ops) \<and>
         ab_contents (snd (impl_run ab_push ab_pop b ops)) =
           snd (spec_run capacity (\<lambda>(d, r). length d \<le> block_capacity) [] ops)"
  using audio_buffer_init_ok [OF assms] ab.run_refines [of b ops] by (simp add: ab_admits_def)

theorem audio_buffer_refines_witness:
  "fst (impl_run ab_push ab_pop (snd (audio_buffer_init True 1 2 zero_audio_buffer))
          [Push ([7, 8], 24000), Push ([9], 24000), Pop, Pop]) =
   [Pushed 0, Pushed (- 1), Popped (Some ([7, 8], 24000)), Popped None]"
proof -
  have "audio_buffer_init True 1 2 zero_audio_buffer =
      (0, snd (audio_buffer_init True 1 2 zero_audio_buffer))"
    by (simp add: audio_buffer_init_def)
  from audio_buffer_refines [OF this,
      of "[Push ([7, 8], 24000), Push ([9], 24000), Pop, Pop]"]
  show ?thesis by (simp del: impl_run.simps)
qed

subsection \<open>Popped blocks and later pushes\<close>

definition push_blocks :: "audio_buffer \<Rightarrow> (byte list \<times> int) list \<Rightarrow> audio_buffer" where
  "push_blocks b ps = foldl (\<lambda>b p. snd (ab_push b p)) b ps"

lemma push_blocks_simps [simp]:
  "push_blocks b [] = b"
  "push_blocks b ((d, r) # ps) = push_blocks (snd (audio_buffer_push b d r)) ps"
  by (simp_all add: push_blocks_def ab_push_def)

text \<open>
  The slot before the head, the one a pop has just handed out, is not reached by \<open>tail\<close>
  while fewer pushes follow than there are free slots.
\<close>

lemma push_blocks_slot:
  "ab_inv b \<Longrightarrow> ab_count b + length ps < ab_capacity b \<Longrightarrow>
     (ab_head b = (i + 1) mod ab_capacity b) \<Longrightarrow> i < ab_capacity b \<Longrightarrow>
     ab_blocks (push_blocks b ps) ! i = ab_blocks b ! i \<and>
     ab_entry (push_blocks b ps) (ab_blocks b ! i) = ab_entry b (ab_blocks b ! i)"
proof (induction ps arbitrary: b)
  case Nil
  then show ?case by simp
next
  case (Cons p ps)
  obtain d r where p: "p = (d, r)" by (cases p)
  let ?b = "snd (audio_buffer_push b d r)"
  have ring: "ring_ok (ab_capacity b) (ab_head b) (ab_tail b) (ab_count b)"
    using Cons.prems(1) by (simp add: ab_inv_def)
  have tail: "i \<noteq> ab_tail b"
  proof
    assume "i = ab_tail b"
    then have "(i + (1 + ab_count b)) mod ab_capacity b = i mod ab_capacity b"
      using ring Cons.prems(3,4) by (simp add: ring_ok_def mod_add_left_eq add.assoc [symmetric])
    then have "(1 + ab_count b) mod ab_capacity b = 0"
      by (metis add.commute add_diff_cancel_right' le_add2 mod_eq_dvd_iff_nat dvd_imp_mod_0)
    then show False using Cons.prems(2) by simp
  qed
  have "ab_count ?b \<le> ab_count b + 1"
    by (simp add: audio_buffer_push_def Let_def)
  then have "ab_count ?b + length ps < ab_capacity ?b" using Cons.prems(2) by simp
  from Cons.IH [OF push_inv [OF Cons.prems(1)] this] Cons.prems
  have "ab_blocks (push_blocks ?b ps) ! i = ab_blocks ?b ! i \<and>
      ab_entry (push_blocks ?b ps) (ab_blocks ?b ! i) = ab_entry ?b (ab_blocks ?b ! i)" by simp
  moreover have "ab_blocks ?b ! i = ab_blocks b ! i"
    using tail by (simp add: audio_buffer_push_def Let_def)
  ultimately show ?case
    using push_other_slot [OF Cons.prems(1,4) tail, of d r] p by simp
qed

text \<open>
  The pointer a pop hands out stays good for a while: while the number of blocks queued
  afterwards stays below the capacity, no push, of whatever data, changes the bytes behind
  it. This is what the playback thread relies on while it writes a popped block to the sound
  card and the network thread enqueues the next ones.
\<close>

theorem popped_block_stable:
  assumes "ab_inv b" and "audio_buffer_pop b = (1, Some blk, b1)"
    and "ab_count b1 + length ps < ab_capacity b1"
  shows "block_bytes (push_blocks b1 ps) blk = block_bytes b1 blk \<and>
         (block_bytes b1 blk, blk_rate blk) = hd (ab_contents b)"
proof -
  have pos: "0 < ab_count b" using assms(2) by (auto simp: audio_buffer_pop_def split: if_splits)
  obtain blk' b' where pop: "audio_buffer_pop b = (1, Some blk', b')"
      "blk' = ab_blocks b ! ab_head b" "ab_contents b = ab_entry b' blk' # ab_contents b'"
      "ab_inv b'" using pop_step [OF assms(1) pos] by blast
  have eqs: "blk' = blk" "b' = b1" using assms(2) pop(1) by auto
  have head: "ab_head b1 = (ab_head b + 1) mod ab_capacity b1" "ab_blocks b1 = ab_blocks b"
      "ab_head b < ab_capacity b1"
    using assms(1,2) pos by (auto simp: audio_buffer_pop_def ab_inv_def ring_ok_def)
  have "ab_entry (push_blocks b1 ps) (ab_blocks b1 ! ab_head b) =
      ab_entry b1 (ab_blocks b1 ! ab_head b)"
    using push_blocks_slot [of b1 ps "ab_head b"] pop(4) eqs head assms(3) by simp
  then show ?thesis using pop eqs head by (simp add: ab_entry_def)
qed

theorem popped_block_stable_witness:
  "block_bytes (push_blocks (snd (snd (audio_buffer_pop
       (push_blocks (snd (audio_buffer_init True 2 1 zero_audio_buffer)) [([5], 1)])))) [([6], 1)])
     \<lparr>blk_data = 0, blk_len = 1, blk_rate = 1\<rparr> = [5]"
proof -
  let ?init = "snd (audio_buffer_init True 2 1 zero_audio_buffer)"
  let ?b = "push_blocks ?init [([5], 1)]"
  have "ab_inv ?init"
    using audio_buffer_init_ok [of True 2 1 zero_audio_buffer ?init]
    by (simp add: audio_buffer_init_def)
  then have inv: "ab_inv ?b" by (simp add: push_inv)
  have pop: "audio_buffer_pop ?b =
      (1, Some \<lparr>blk_data = 0, blk_len = 1, blk_rate = 1\<rparr>, snd (snd (audio_buffer_pop ?b)))"
    by (simp add: audio_buffer_pop_def audio_buffer_push_def audio_buffer_init_def
        zero_audio_buffer_def Let_def numeral_2_eq_2)
  have "ab_count (snd (snd (audio_buffer_pop ?b))) + length [([6::byte], 1::int)] <
      ab_capacity (snd (snd (audio_buffer_pop ?b)))"
    by (simp add: audio_buffer_pop_def audio_buffer_push_def audio_buffer_init_def
        zero_audio_buffer_def Let_def)
  from popped_block_stable [OF inv pop this]
  have "block_bytes (push_blocks (snd (snd (audio_buffer_pop ?b))) [([6], 1)])
      \<lparr>blk_data = 0, blk_len = 1, blk_rate = 1\<rparr> = fst (hd (ab_contents ?b))"
    by (metis fst_conv)
  then show ?thesis
    by (simp add: ab_contents_def ring_list_def ab_entry_def block_bytes_def mem_read_def
        audio_buffer_push_def audio_buffer_init_def zero_audio_buffer_def Let_def
        mem_write_def numeral_2_eq_2)
qed

text \<open>
  Once the queue was full the guarantee is gone: after a pop from a full buffer, the very
  next push that is accepted overwrites the block just handed out with its own bytes. The
  playback thread pops a block and then plays it from the storage without copying it, so a
  frame enqueued meanwhile is played in place of the popped one.
\<close>

theorem popped_block_overwritten:
  assumes "ab_inv b" and "ab_count b = ab_capacity b"
    and "audio_buffer_pop b = (1, Some blk, b1)" and "length d \<le> ab_block_capacity b"
  shows "fst (audio_buffer_push b1 d r) = 0 \<and>
         mem_read (blk_data blk) (length d) (ab_storage (snd (audio_buffer_push b1 d r))) = d"
proof -
  have ring: "ring_ok (ab_capacity b) (ab_head b) (ab_tail b) (ab_count b)" "0 < ab_capacity b"
    using assms(1) by (auto simp: ab_inv_def ring_ok_def)
  then have head: "ab_head b = ab_tail b" "ab_tail b < ab_capacity b"
    using assms(2) by (auto simp: ring_ok_def)
  have b1: "blk = ab_blocks b ! ab_head b" "ab_tail b1 = ab_tail b" "ab_storage b1 = ab_storage b"
      "ab_blocks b1 = ab_blocks b" "ab_count b1 < ab_capacity b1"
      "ab_block_capacity b1 = ab_block_capacity b"
    using assms(2,3) ring by (auto simp: audio_buffer_pop_def split: if_splits)
  have "blk_data blk + length d \<le> length (ab_storage b)"
    using b1 head assms(1,4) slot_in_storage [OF assms(1), of "ab_tail b" "length d"]
    by (simp add: ab_inv_def)
  then show ?thesis
    using b1 head assms(4) by (simp add: audio_buffer_push_def Let_def)
qed

theorem popped_block_overwritten_witness:
  "mem_read 0 1 (ab_storage (snd (audio_buffer_push (snd (snd (audio_buffer_pop
     (push_blocks (snd (audio_buffer_init True 1 1 zero_audio_buffer)) [([5], 1)])))) [6] 1))) = [6]"
proof -
  let ?init = "snd (audio_buffer_init True 1 1 zero_audio_buffer)"
  let ?b = "push_blocks ?init [([5], 1)]"
  have "ab_inv ?init"
    using audio_buffer_init_ok [of True 1 1 zero_audio_buffer ?init]
    by (simp add: audio_buffer_init_def)
  then have inv: "ab_inv ?b" by (simp add: push_inv)
  have full: "ab_count ?b = ab_capacity ?b" "length [6::byte] \<le> ab_block_capacity ?b"
    by (simp_all add: audio_buffer_push_def audio_buffer_init_def zero_audio_buffer_def Let_def)
  have pop: "audio_buffer_pop ?b =
      (1, Some \<lparr>blk_data = 0, blk_len = 1, blk_rate = 1\<rparr>, snd (snd (audio_buffer_pop ?b)))"
    by (simp add: audio_buffer_pop_def audio_buffer_push_def audio_buffer_init_def
        zero_audio_buffer_def Let_def)
  from popped_block_overwritten [OF inv full(1) pop full(2), of 1] show ?thesis by simp
qed

end
