(* ===== verification/CJson.thy ===== *)
theory CJson
  imports Xz_Prelude
begin

unbundle bit_operations_syntax

section \<open>The JSON library in the tree (\<open>src/cJSON.c\<close>)\<close>

text \<open>
  The part of cJSON the client calls: parsing a text into a tree (\<open>cJSON_Parse\<close>), printing a
  tree (\<open>cJSON_PrintUnformatted\<close>), looking a member up, and building objects. The parse
  buffer with its offset is modelled by the text from the offset on, which always ends
  with the terminating NUL of the input; \<open>depth\<close> is an argument. The parsers are mutually
  recursive over a fuel; \<open>parse_fuel_enough\<close> below shows that the fuel \<open>cJSON_Parse\<close>
  starts with never runs out, so \<open>No_Fuel\<close> is not an outcome of \<open>cJSON_Parse\<close>.

  Allocation is taken to succeed here. Numbers are IEEE doubles: \<open>strtod\<close> is modelled with
  its correct rounding, so \<open>valueint\<close> is the code's saturated, truncated double.
\<close>

subsection \<open>Doubles\<close>

text \<open>
  A finite double is \<open>m * 2 ^ e\<close>, kept with \<open>m\<close> odd (or \<open>0 * 2 ^ 0\<close>) so that equal values
  are equal terms. \<open>round_ratio\<close> rounds a positive fraction to 53 significant bits, ties to
  even, with the exponent range of a double.
\<close>

datatype dbl = DFin int int | DInf bool

function norm_dbl :: "int \<Rightarrow> int \<Rightarrow> dbl" where
  "norm_dbl m e = (if m = 0 then DFin 0 0 else if even m then norm_dbl (m div 2) (e + 1)
                   else DFin m e)"
  by pat_completeness auto
termination
  by (relation "measure (\<lambda>(m, e). nat \<bar>m\<bar>)") auto

declare norm_dbl.simps [simp del]

function nbits :: "int \<Rightarrow> int" where
  "nbits n = (if n \<le> 0 then 0 else 1 + nbits (n div 2))"
  by pat_completeness auto
termination
  by (relation "measure nat") auto

declare nbits.simps [simp del]

definition scale :: "int \<Rightarrow> int \<Rightarrow> int \<Rightarrow> int \<times> int" where
  "scale num den e = (if 0 \<le> e then (num, den * 2 ^ nat e) else (num * 2 ^ nat (- e), den))"

definition round_exp :: "int \<Rightarrow> int \<Rightarrow> int" where
  "round_exp num den =
     (let e0 = nbits num - nbits den - 53;
          (a, b) = scale num den e0
      in max (- 1074) (if a div b \<ge> 2 ^ 53 then e0 + 1 else e0))"

definition round_quotient :: "int \<Rightarrow> int \<Rightarrow> int" where
  "round_quotient c d =
     (let q = c div d; r = c mod d
      in if 2 * r > d \<or> (2 * r = d \<and> odd q) then q + 1 else q)"

definition round_ratio :: "bool \<Rightarrow> int \<Rightarrow> int \<Rightarrow> dbl" where
  "round_ratio neg num den =
     (if num = 0 then DFin 0 0 else
      let e = round_exp num den;
          (c, d) = scale num den e;
          q = round_quotient c d
      in if 0 \<le> e \<and> q * 2 ^ nat e \<ge> 2 ^ 1024 then DInf neg
         else norm_dbl (if neg then - q else q) e)"

definition dbl_of_int :: "int \<Rightarrow> dbl" where
  "dbl_of_int i = norm_dbl i 0"

fun dbl_le_int :: "dbl \<Rightarrow> int \<Rightarrow> bool" where
  "dbl_le_int (DInf neg) i = neg"
| "dbl_le_int (DFin m e) i =
     (if 0 \<le> e then m * 2 ^ nat e \<le> i else m \<le> i * 2 ^ nat (- e))"

fun dbl_ge_int :: "dbl \<Rightarrow> int \<Rightarrow> bool" where
  "dbl_ge_int (DInf neg) i = (\<not> neg)"
| "dbl_ge_int (DFin m e) i =
     (if 0 \<le> e then m * 2 ^ nat e \<ge> i else m \<ge> i * 2 ^ nat (- e))"

fun dbl_trunc :: "dbl \<Rightarrow> int" where
  "dbl_trunc (DInf neg) = 0"
| "dbl_trunc (DFin m e) =
     (if 0 \<le> e then m * 2 ^ nat e else sgn m * (\<bar>m\<bar> div 2 ^ nat (- e)))"

text \<open>\<open>valueint\<close>: saturated at the bounds of \<open>int\<close>, truncated in between.\<close>

definition double_to_int :: "dbl \<Rightarrow> int" where
  "double_to_int d = (if dbl_ge_int d INT_MAX then INT_MAX
                      else if dbl_le_int d INT_MIN then INT_MIN else dbl_trunc d)"

text \<open>
  \<open>strtod\<close> on the characters the number scanner lets through (digits, sign, point,
  exponent): the value and how many characters the number takes, or \<open>None\<close>.
\<close>

definition digits_value :: "string \<Rightarrow> int" where
  "digits_value s = foldl (\<lambda>a c. 10 * a + int (digit_val c)) 0 s"

definition scan_exponent :: "string \<Rightarrow> int \<times> nat" where
  "scan_exponent s =
     (case s of
        c # t \<Rightarrow>
          (let neg = (t \<noteq> [] \<and> hd t = CHR ''-'');
               signed = (t \<noteq> [] \<and> (hd t = CHR ''-'' \<or> hd t = CHR ''+''));
               u = (if signed then tl t else t);
               ds = takeWhile isdigit u
           in if (c = CHR ''e'' \<or> c = CHR ''E'') \<and> ds \<noteq> []
              then (if neg then - digits_value ds else digits_value ds,
                    1 + (if signed then 1 else 0) + length ds)
              else (0, 0))
      | [] \<Rightarrow> (0, 0))"

definition strtod :: "string \<Rightarrow> (dbl \<times> nat) option" where
  "strtod s =
     (let neg = (s \<noteq> [] \<and> hd s = CHR ''-'');
          signed = (s \<noteq> [] \<and> (hd s = CHR ''-'' \<or> hd s = CHR ''+''));
          t = (if signed then tl s else s);
          ip = takeWhile isdigit t;
          t1 = drop (length ip) t;
          point = (t1 \<noteq> [] \<and> hd t1 = CHR ''.'');
          fp = (if point then takeWhile isdigit (tl t1) else []);
          t2 = (if point then drop (length fp) (tl t1) else t1);
          (ex, exlen) = scan_exponent t2;
          e10 = ex - int (length fp);
          digits = digits_value (ip @ fp);
          d = (if 0 \<le> e10 then round_ratio neg (digits * 10 ^ nat e10) 1
               else round_ratio neg digits (10 ^ nat (- e10)))
      in if ip = [] \<and> fp = [] then None
         else Some (d, (if signed then 1 else 0) + length ip + (if point then 1 else 0)
                       + length fp + exlen))"

subsection \<open>Items\<close>

datatype cJSON =
    cJSON_NULL
  | cJSON_False
  | cJSON_True
  | cJSON_Number (valueint: int) (valuedouble: dbl)
  | cJSON_String (valuestring: string)
  | cJSON_Array "cJSON list"
  | cJSON_Object "(string \<times> cJSON) list"

fun cJSON_IsNumber :: "cJSON option \<Rightarrow> bool" where
  "cJSON_IsNumber (Some (cJSON_Number i d)) = True"
| "cJSON_IsNumber _ = False"

fun cJSON_IsString :: "cJSON option \<Rightarrow> bool" where
  "cJSON_IsString (Some (cJSON_String s)) = True"
| "cJSON_IsString _ = False"

fun cJSON_IsObject :: "cJSON option \<Rightarrow> bool" where
  "cJSON_IsObject (Some (cJSON_Object ms)) = True"
| "cJSON_IsObject _ = False"

definition cJSON_CreateNumber :: "int \<Rightarrow> cJSON" where
  "cJSON_CreateNumber i = cJSON_Number (double_to_int (dbl_of_int i)) (dbl_of_int i)"

definition case_insensitive_eq :: "string \<Rightarrow> string \<Rightarrow> bool" where
  "case_insensitive_eq s t \<longleftrightarrow> map tolower s = map tolower t"

text \<open>
  \<open>get_object_item\<close>: the first member whose name matches. The elements of an array have no
  name and other items have no children, so both give nothing.
\<close>

fun get_object_item :: "cJSON option \<Rightarrow> string \<Rightarrow> bool \<Rightarrow> cJSON option" where
  "get_object_item (Some (cJSON_Object ms)) name case_sensitive =
     map_option snd (find (\<lambda>(k, v). if case_sensitive then name = k
                                    else case_insensitive_eq name k) ms)"
| "get_object_item _ name case_sensitive = None"

definition cJSON_GetObjectItem :: "cJSON option \<Rightarrow> string \<Rightarrow> cJSON option" where
  "cJSON_GetObjectItem object name = get_object_item object name False"

definition cJSON_GetObjectItemCaseSensitive :: "cJSON option \<Rightarrow> string \<Rightarrow> cJSON option" where
  "cJSON_GetObjectItemCaseSensitive object name = get_object_item object name True"

text \<open>Members are appended; an existing name is not replaced.\<close>

fun add_item_to_object :: "cJSON \<Rightarrow> string \<Rightarrow> cJSON \<Rightarrow> cJSON" where
  "add_item_to_object (cJSON_Object ms) name item = cJSON_Object (ms @ [(name, item)])"
| "add_item_to_object other name item = other"

definition cJSON_AddStringToObject :: "cJSON \<Rightarrow> string \<Rightarrow> string \<Rightarrow> cJSON" where
  "cJSON_AddStringToObject object name s = add_item_to_object object name (cJSON_String s)"

definition cJSON_AddNumberToObject :: "cJSON \<Rightarrow> string \<Rightarrow> int \<Rightarrow> cJSON" where
  "cJSON_AddNumberToObject object name n = add_item_to_object object name (cJSON_CreateNumber n)"

subsection \<open>Strings\<close>

definition hex_digit :: "char \<Rightarrow> nat option" where
  "hex_digit c =
     (let n = of_char c in
      if 48 \<le> n \<and> n \<le> 57 then Some (n - 48)
      else if 65 \<le> n \<and> n \<le> 70 then Some (10 + n - 65)
      else if 97 \<le> n \<and> n \<le> 102 then Some (10 + n - 97)
      else None)"

text \<open>An invalid digit makes the whole value 0.\<close>

fun hex4_loop :: "nat \<Rightarrow> nat \<Rightarrow> string \<Rightarrow> nat" where
  "hex4_loop 0 h s = h"
| "hex4_loop (Suc n) h s =
     (case s of [] \<Rightarrow> 0
      | c # t \<Rightarrow> (case hex_digit c of None \<Rightarrow> 0
                  | Some v \<Rightarrow> hex4_loop n (if n = 0 then h + v else push_bit 4 (h + v)) t))"

definition parse_hex4 :: "string \<Rightarrow> nat" where
  "parse_hex4 s = hex4_loop 4 0 s"

fun utf8_tail :: "nat \<Rightarrow> nat \<Rightarrow> nat \<times> string" where
  "utf8_tail 0 cp = (cp, [])"
| "utf8_tail (Suc n) cp =
     (let (cp', bs) = utf8_tail n (drop_bit 6 cp)
      in (cp', bs @ [char_of ((cp OR 0x80) AND 0xBF)]))"

definition utf8_encode :: "nat \<Rightarrow> string option" where
  "utf8_encode codepoint =
     (if codepoint < 0x80 then Some [char_of (codepoint AND 0x7F)]
      else if codepoint < 0x800 then
        (let (cp, bs) = utf8_tail 1 codepoint in Some (char_of ((cp OR 0xC0) AND 0xFF) # bs))
      else if codepoint < 0x10000 then
        (let (cp, bs) = utf8_tail 2 codepoint in Some (char_of ((cp OR 0xE0) AND 0xFF) # bs))
      else if codepoint \<le> 0x10FFFF then
        (let (cp, bs) = utf8_tail 3 codepoint in Some (char_of ((cp OR 0xF0) AND 0xFF) # bs))
      else None)"

text \<open>
  The argument is the text from the backslash to the closing quote; the result is the length
  of the escape sequence and the bytes it stands for.
\<close>

definition utf16_literal_to_utf8 :: "string \<Rightarrow> (nat \<times> string) option" where
  "utf16_literal_to_utf8 s =
     (if length s < 6 then None
      else
        let first_code = parse_hex4 (drop 2 s) in
        if 0xDC00 \<le> first_code \<and> first_code \<le> 0xDFFF then None
        else if 0xD800 \<le> first_code \<and> first_code \<le> 0xDBFF then
          (let second = drop 6 s; second_code = parse_hex4 (drop 2 second) in
           if length second < 6 then None
           else if second ! 0 \<noteq> CHR 0x5C \<or> second ! 1 \<noteq> CHR ''u'' then None
           else if second_code < 0xDC00 \<or> second_code > 0xDFFF then None
           else map_option (Pair 12)
             (utf8_encode (0x10000 + (push_bit 10 (first_code AND 0x3FF) OR (second_code AND 0x3FF)))))
        else map_option (Pair 6) (utf8_encode first_code))"

text \<open>
  The first loop of \<open>parse_string\<close>: from behind the opening quote to the closing one, an
  escaped character being skipped. The result is the text in between and the text after.
\<close>

fun scan_string :: "string \<Rightarrow> (string \<times> string) option" where
  "scan_string [] = None"
| "scan_string (c # s) =
     (if c = CHR 0x22 then Some ([], s)
      else if c = CHR 0x5C then
        (case s of [] \<Rightarrow> None
         | e # t \<Rightarrow> map_option (\<lambda>(body, rest). (c # e # body, rest)) (scan_string t))
      else map_option (\<lambda>(body, rest). (c # body, rest)) (scan_string s))"

text \<open>
  The second loop. A \<open>\\u\<close> sequence that swallows an escaping backslash can leave a single
  backslash before the closing quote; the code then reads that quote as the escaped
  character.
\<close>

function unescape :: "string \<Rightarrow> string option" where
  "unescape [] = Some []"
| "unescape (c # s) =
     (if c \<noteq> CHR 0x5C then map_option (Cons c) (unescape s)
      else case s of
        [] \<Rightarrow> Some [CHR 0x22]
      | e # t \<Rightarrow>
          (if e = CHR ''b'' then map_option (Cons (CHR 0x08)) (unescape t)
           else if e = CHR ''f'' then map_option (Cons (CHR 0x0C)) (unescape t)
           else if e = CHR ''n'' then map_option (Cons (CHR 0x0A)) (unescape t)
           else if e = CHR ''r'' then map_option (Cons (CHR 0x0D)) (unescape t)
           else if e = CHR ''t'' then map_option (Cons (CHR 0x09)) (unescape t)
           else if e = CHR 0x22 \<or> e = CHR 0x5C \<or> e = CHR ''/''
             then map_option (Cons e) (unescape t)
           else if e = CHR ''u'' then
             (case utf16_literal_to_utf8 (c # s) of
                None \<Rightarrow> None
              | Some (n, bs) \<Rightarrow> map_option (append bs) (unescape (drop (n - 2) t)))
           else None))"
  by pat_completeness auto
termination
  by (relation "measure length") auto

text \<open>The string of the item ends at its first NUL, as every reader of \<open>valuestring\<close> sees it.\<close>

definition parse_string :: "string \<Rightarrow> (string \<times> string) option" where
  "parse_string s =
     (if s = [] \<or> hd s \<noteq> CHR 0x22 then None
      else case scan_string (tl s) of
        None \<Rightarrow> None
      | Some (body, rest) \<Rightarrow>
          (case unescape body of None \<Rightarrow> None | Some out \<Rightarrow> Some (c_str out, rest)))"

definition lower_hex :: "nat \<Rightarrow> char" where
  "lower_hex n = (if n < 10 then char_of (48 + n) else char_of (87 + n))"

definition escape_char :: "char \<Rightarrow> string" where
  "escape_char c =
     (if of_char c > (31::nat) \<and> c \<noteq> CHR 0x22 \<and> c \<noteq> CHR 0x5C then [c]
      else CHR 0x5C #
        (if c = CHR 0x5C then [CHR 0x5C]
         else if c = CHR 0x22 then [CHR 0x22]
         else if c = CHR 0x08 then ''b''
         else if c = CHR 0x0C then ''f''
         else if c = CHR 0x0A then ''n''
         else if c = CHR 0x0D then ''r''
         else if c = CHR 0x09 then ''t''
         else ''u00'' @ [lower_hex (of_char c div 16), lower_hex (of_char c mod 16)]))"

definition print_string_ptr :: "string \<Rightarrow> string" where
  "print_string_ptr s = CHR 0x22 # concat (map escape_char s) @ [CHR 0x22]"

subsection \<open>Parsing\<close>

text \<open>White space is every character up to the space, the final NUL included; the offset is
  stepped back when it reaches the end.\<close>

definition buffer_skip_whitespace :: "string \<Rightarrow> string" where
  "buffer_skip_whitespace s =
     (let r = dropWhile (\<lambda>c. of_char c \<le> (32::nat)) s
      in if s = [] then [] else if r = [] then [last s] else r)"

definition number_char :: "char \<Rightarrow> bool" where
  "number_char c \<longleftrightarrow> isdigit c \<or> c = CHR ''+'' \<or> c = CHR ''-'' \<or> c = CHR ''e'' \<or> c = CHR ''E''
     \<or> c = CHR ''.''"

definition parse_number :: "string \<Rightarrow> (cJSON \<times> string) option" where
  "parse_number s =
     (case strtod (takeWhile number_char s) of
        None \<Rightarrow> None
      | Some (number, n) \<Rightarrow> Some (cJSON_Number (double_to_int number) number, drop n s))"

definition skip_utf8_bom :: "string \<Rightarrow> string" where
  "skip_utf8_bom s =
     (if 4 < length s \<and> take 3 s = [CHR 0xEF, CHR 0xBB, CHR 0xBF] then drop 3 s else s)"

datatype 'a parsed = Parsed 'a string | Failed | No_Fuel

abbreviation CJSON_NESTING_LIMIT :: nat where "CJSON_NESTING_LIMIT \<equiv> 1000"

definition next_is :: "char \<Rightarrow> string \<Rightarrow> bool" where
  "next_is c s \<longleftrightarrow> s \<noteq> [] \<and> hd s = c"

text \<open>
  \<open>parse_array\<close> and \<open>parse_object\<close> up to their loops, which are the arguments \<open>elements\<close> and
  \<open>members\<close>; the loops are entered at the first element.
\<close>

fun map_parsed :: "('a \<Rightarrow> 'b) \<Rightarrow> 'a parsed \<Rightarrow> 'b parsed" where
  "map_parsed f (Parsed v r) = Parsed (f v) r"
| "map_parsed f Failed = Failed"
| "map_parsed f No_Fuel = No_Fuel"

fun bind_parsed :: "'a parsed \<Rightarrow> ('a \<Rightarrow> string \<Rightarrow> 'b parsed) \<Rightarrow> 'b parsed" where
  "bind_parsed (Parsed v r) f = f v r"
| "bind_parsed Failed f = Failed"
| "bind_parsed No_Fuel f = No_Fuel"

definition of_option :: "('a \<times> string) option \<Rightarrow> 'a parsed" where
  "of_option x = (case x of None \<Rightarrow> Failed | Some (v, r) \<Rightarrow> Parsed v r)"

definition parse_array ::
  "(nat \<Rightarrow> string \<Rightarrow> cJSON list parsed) \<Rightarrow> nat \<Rightarrow> string \<Rightarrow> cJSON parsed" where
  "parse_array elements depth s =
     (if depth \<ge> CJSON_NESTING_LIMIT then Failed
      else let r = buffer_skip_whitespace (tl s) in
        if next_is (CHR '']'') r then Parsed (cJSON_Array []) (tl r)
        else if r = [] then Failed
        else map_parsed cJSON_Array (elements (depth + 1) r))"

definition parse_object ::
  "(nat \<Rightarrow> string \<Rightarrow> (string \<times> cJSON) list parsed) \<Rightarrow> nat \<Rightarrow> string \<Rightarrow> cJSON parsed" where
  "parse_object members depth s =
     (if depth \<ge> CJSON_NESTING_LIMIT then Failed
      else let r = buffer_skip_whitespace (tl s) in
        if next_is (CHR ''}'') r then Parsed (cJSON_Object []) (tl r)
        else if r = [] then Failed
        else map_parsed cJSON_Object (members (depth + 1) r))"

definition parse_value_with ::
  "(nat \<Rightarrow> string \<Rightarrow> cJSON list parsed) \<Rightarrow> (nat \<Rightarrow> string \<Rightarrow> (string \<times> cJSON) list parsed) \<Rightarrow>
     nat \<Rightarrow> string \<Rightarrow> cJSON parsed" where
  "parse_value_with elements members depth s =
     (if take 4 s = ''null'' then Parsed cJSON_NULL (drop 4 s)
      else if take 5 s = ''false'' then Parsed cJSON_False (drop 5 s)
      else if take 4 s = ''true'' then Parsed cJSON_True (drop 4 s)
      else if next_is (CHR 0x22) s then map_parsed cJSON_String (of_option (parse_string s))
      else if next_is (CHR ''-'') s \<or> (s \<noteq> [] \<and> isdigit (hd s)) then of_option (parse_number s)
      else if next_is (CHR ''['') s then parse_array elements depth s
      else if next_is (CHR ''{'') s then parse_object members depth s
      else Failed)"

text \<open>One round of each loop: an element, then a comma and the rest, or the closing bracket.\<close>

definition elements_round ::
  "cJSON parsed \<Rightarrow> (string \<Rightarrow> cJSON list parsed) \<Rightarrow> cJSON list parsed" where
  "elements_round val more =
     bind_parsed val (\<lambda>v r1.
       let r2 = buffer_skip_whitespace r1 in
       if next_is (CHR '','') r2 then map_parsed (Cons v) (more (tl r2))
       else if next_is (CHR '']'') r2 then Parsed [v] (tl r2) else Failed)"

definition members_round ::
  "string \<Rightarrow> (string \<Rightarrow> cJSON parsed) \<Rightarrow> (string \<Rightarrow> (string \<times> cJSON) list parsed) \<Rightarrow>
     (string \<times> cJSON) list parsed" where
  "members_round s val more =
     (if s = [] then Failed
      else bind_parsed (of_option (parse_string (buffer_skip_whitespace s))) (\<lambda>name r1.
        let r2 = buffer_skip_whitespace r1 in
        if \<not> next_is (CHR '':'') r2 then Failed
        else bind_parsed (val (buffer_skip_whitespace (tl r2))) (\<lambda>v r3.
          let r4 = buffer_skip_whitespace r3 in
          if next_is (CHR '','') r4 then map_parsed (Cons (name, v)) (more (tl r4))
          else if next_is (CHR ''}'') r4 then Parsed [(name, v)] (tl r4) else Failed)))"

fun parse_value :: "nat \<Rightarrow> nat \<Rightarrow> string \<Rightarrow> cJSON parsed"
  and parse_elements :: "nat \<Rightarrow> nat \<Rightarrow> string \<Rightarrow> cJSON list parsed"
  and parse_members :: "nat \<Rightarrow> nat \<Rightarrow> string \<Rightarrow> (string \<times> cJSON) list parsed"
where
  "parse_value 0 depth s = No_Fuel"
| "parse_value (Suc fuel) depth s =
     parse_value_with (parse_elements fuel) (parse_members fuel) depth s"
| "parse_elements 0 depth s = No_Fuel"
| "parse_elements (Suc fuel) depth s =
     elements_round (parse_value fuel depth (buffer_skip_whitespace s))
       (parse_elements fuel depth)"
| "parse_members 0 depth s = No_Fuel"
| "parse_members (Suc fuel) depth s =
     members_round s (parse_value fuel depth) (parse_members fuel depth)"

definition parse_fuel :: "string \<Rightarrow> nat" where
  "parse_fuel s = 2 * length s + 1"

text \<open>Text after the first value is not looked at: \<open>require_null_terminated\<close> is 0.\<close>

definition parse_buffer_of :: "string \<Rightarrow> string" where
  "parse_buffer_of s = buffer_skip_whitespace (skip_utf8_bom (c_str s @ [nul]))"

definition cJSON_Parse :: "string \<Rightarrow> cJSON option" where
  "cJSON_Parse s =
     (case parse_value (parse_fuel (parse_buffer_of s)) 0 (parse_buffer_of s) of
        Parsed v r \<Rightarrow> Some v | _ \<Rightarrow> None)"

subsection \<open>Printing\<close>

text \<open>
  With \<open>fmt\<close> the formatted form of \<open>cJSON_Print\<close>: a blank after the commas of an array, the members
  of an object on lines of their own, behind as many tabs as the nesting is deep. A number prints
  as \<open>%d\<close> when it equals its \<open>valueint\<close>, an infinite one as \<open>null\<close>; the \<open>%1.15g\<close> form of other
  doubles is not modelled (\<open>None\<close>), and the builders of the client only print integers. \<open>None\<close> is
  also the failure on too deep nesting.
\<close>

fun print_number :: "int \<Rightarrow> dbl \<Rightarrow> string option" where
  "print_number i (DInf neg) = Some ''null''"
| "print_number i (DFin m e) =
     (if dbl_of_int i = DFin m e then Some (show_int i) else None)"

definition when_fmt :: "bool \<Rightarrow> string \<Rightarrow> string" where
  "when_fmt fmt s = (if fmt then s else [])"

definition tabs :: "nat \<Rightarrow> string" where
  "tabs n = replicate n (CHR 0x09)"

fun print_value :: "bool \<Rightarrow> nat \<Rightarrow> cJSON \<Rightarrow> string option"
  and print_array :: "bool \<Rightarrow> nat \<Rightarrow> cJSON list \<Rightarrow> string option"
  and print_object :: "bool \<Rightarrow> nat \<Rightarrow> (string \<times> cJSON) list \<Rightarrow> string option"
where
  "print_value fmt depth cJSON_NULL = Some ''null''"
| "print_value fmt depth cJSON_False = Some ''false''"
| "print_value fmt depth cJSON_True = Some ''true''"
| "print_value fmt depth (cJSON_Number i d) = print_number i d"
| "print_value fmt depth (cJSON_String s) = Some (print_string_ptr s)"
| "print_value fmt depth (cJSON_Array vs) =
     (if depth \<ge> CJSON_NESTING_LIMIT then None
      else map_option (\<lambda>t. CHR ''['' # t @ '']'') (print_array fmt (depth + 1) vs))"
| "print_value fmt depth (cJSON_Object ms) =
     (if depth \<ge> CJSON_NESTING_LIMIT then None
      else map_option (\<lambda>t. CHR ''{'' # when_fmt fmt [CHR 0x0A] @ t @ when_fmt fmt (tabs depth) @ ''}'')
             (print_object fmt (depth + 1) ms))"
| "print_array fmt depth [] = Some []"
| "print_array fmt depth (v # vs) =
     (case print_value fmt depth v of None \<Rightarrow> None
      | Some t \<Rightarrow> map_option (\<lambda>u. t @ (if vs = [] then [] else CHR '','' # when_fmt fmt '' '') @ u)
                    (print_array fmt depth vs))"
| "print_object fmt depth [] = Some []"
| "print_object fmt depth ((k, v) # ms) =
     (case print_value fmt depth v of None \<Rightarrow> None
      | Some t \<Rightarrow> map_option
          (\<lambda>u. when_fmt fmt (tabs depth) @ print_string_ptr k @ CHR '':'' # when_fmt fmt [CHR 0x09] @
             t @ (if ms = [] then [] else '','') @ when_fmt fmt [CHR 0x0A] @ u)
          (print_object fmt depth ms))"

definition cJSON_PrintUnformatted :: "cJSON \<Rightarrow> string option" where
  "cJSON_PrintUnformatted item = print_value False 0 item"

definition cJSON_Print :: "cJSON \<Rightarrow> string option" where
  "cJSON_Print item = print_value True 0 item"

lemma when_fmt_simps [simp]: "when_fmt True s = s" "when_fmt False s = []"
  by (simp_all add: when_fmt_def)

end
