(* ===== verification/CJson_Facts.thy ===== *)
theory CJson_Facts
  imports CJson
begin

section \<open>Facts about the JSON library\<close>

text \<open>
  The parsers consume their input, so the fuel \<open>cJSON_Parse\<close> starts with is enough; strings
  and integers survive a print and a parse, and so does every tree built of them; lookups.
\<close>

subsection \<open>Parsers consume\<close>

lemma length_skip_whitespace: "length (buffer_skip_whitespace s) \<le> length s"
  using length_dropWhile_le [of "\<lambda>c. of_char c \<le> (32::nat)" s]
  by (cases s) (auto simp: buffer_skip_whitespace_def Let_def)

lemma scan_string_shorter: "scan_string s = Some (b, r) \<Longrightarrow> length r < length s"
  by (induction s arbitrary: b r rule: scan_string.induct)
     (fastforce split: if_splits list.splits)+

lemma parse_string_shorter: "parse_string s = Some (t, r) \<Longrightarrow> length r < length s"
  by (cases s) (auto simp: parse_string_def split: if_splits option.splits dest: scan_string_shorter)

lemma strtod_consumes: "strtod s = Some (d, n) \<Longrightarrow> 0 < n \<and> s \<noteq> []"
  by (auto simp: strtod_def Let_def split: if_splits prod.splits)

lemma parse_number_shorter: "parse_number s = Some (v, r) \<Longrightarrow> length r < length s"
  by (auto simp: parse_number_def split: option.splits dest!: strtod_consumes) (cases s; auto)

lemma map_parsed_Parsed [simp]:
  "map_parsed f p = Parsed v r \<longleftrightarrow> (\<exists>u. p = Parsed u r \<and> v = f u)"
  by (cases p) auto

lemma bind_parsed_Parsed [simp]:
  "bind_parsed p f = Parsed v r \<longleftrightarrow> (\<exists>u t. p = Parsed u t \<and> f u t = Parsed v r)"
  by (cases p) auto

lemma of_option_Parsed [simp]: "of_option x = Parsed v r \<longleftrightarrow> x = Some (v, r)"
  by (auto simp: of_option_def split: option.splits)

lemma map_parsed_No_Fuel [simp]: "map_parsed f p = No_Fuel \<longleftrightarrow> p = No_Fuel"
  by (cases p) auto

lemma bind_parsed_No_Fuel [simp]:
  "bind_parsed p f = No_Fuel \<longleftrightarrow> p = No_Fuel \<or> (\<exists>u t. p = Parsed u t \<and> f u t = No_Fuel)"
  by (cases p) auto

lemma of_option_No_Fuel [simp]: "of_option x \<noteq> No_Fuel"
  by (auto simp: of_option_def split: option.splits)

lemma next_is_length: "next_is c s \<Longrightarrow> length (tl s) < length s"
  by (cases s) (auto simp: next_is_def)

lemma skip_tl_shorter: "next_is c s \<Longrightarrow> length (buffer_skip_whitespace (tl s)) < length s"
  using next_is_length [of c s] length_skip_whitespace [of "tl s"] by linarith

lemma parse_array_shorter:
  assumes "\<And>d t v r. elements d t = Parsed v r \<Longrightarrow> length r < length t"
    and "next_is c s" and "parse_array elements depth s = Parsed v r"
  shows "length r < length s"
  using assms(3) skip_tl_shorter [OF assms(2)]
  by (auto simp: parse_array_def Let_def split: if_splits dest!: assms(1) next_is_length)

lemma parse_object_shorter:
  assumes "\<And>d t v r. members d t = Parsed v r \<Longrightarrow> length r < length t"
    and "next_is c s" and "parse_object members depth s = Parsed v r"
  shows "length r < length s"
  using assms(3) skip_tl_shorter [OF assms(2)]
  by (auto simp: parse_object_def Let_def split: if_splits dest!: assms(1) next_is_length)

lemma take_eq_nonempty: "take n s = t \<Longrightarrow> t \<noteq> [] \<Longrightarrow> s \<noteq> []"
  by auto

lemma parse_value_with_shorter:
  assumes "\<And>d t v r. elements d t = Parsed v r \<Longrightarrow> length r < length t"
    and "\<And>d t v r. members d t = Parsed v r \<Longrightarrow> length r < length t"
    and "parse_value_with elements members depth s = Parsed v r"
  shows "length r < length s"
  using assms(3) parse_array_shorter [OF assms(1), of elements] parse_object_shorter [OF assms(2), of members]
  by (auto simp: parse_value_with_def split: if_splits
      dest: take_eq_nonempty parse_string_shorter parse_number_shorter)

lemma elements_round_shorter:
  assumes "elements_round (val (buffer_skip_whitespace s)) more = Parsed vs r"
    and "\<And>v t r. val t = Parsed v r \<Longrightarrow> length r < length t"
    and "\<And>v t r. more t = Parsed v r \<Longrightarrow> length r < length t"
  shows "length r < length s"
  using assms(1)
  by (auto simp: elements_round_def Let_def split: if_splits dest!: assms(2,3) next_is_length)
     (meson length_skip_whitespace le_less_trans less_le_trans less_trans)+

lemma members_round_shorter:
  assumes "members_round s val more = Parsed vs r"
    and val: "\<And>v t r. val t = Parsed v r \<Longrightarrow> length r < length t"
    and more: "\<And>v t r. more t = Parsed v r \<Longrightarrow> length r < length t"
  shows "length r < length s"
proof -
  obtain name r1 v r3 where
    key: "parse_string (buffer_skip_whitespace s) = Some (name, r1)"
    and colon: "next_is (CHR '':'') (buffer_skip_whitespace r1)"
    and v: "val (buffer_skip_whitespace (tl (buffer_skip_whitespace r1))) = Parsed v r3"
    and rest: "(let r4 = buffer_skip_whitespace r3 in
          if next_is (CHR '','') r4 then map_parsed (Cons (name, v)) (more (tl r4))
          else if next_is (CHR ''}'') r4 then Parsed [(name, v)] (tl r4) else Failed) = Parsed vs r"
    using assms(1) by (auto simp: members_round_def Let_def split: if_splits)
  have "length r < length (buffer_skip_whitespace r3)"
  proof (cases "next_is (CHR '','') (buffer_skip_whitespace r3)")
    case True
    with rest obtain ms where "more (tl (buffer_skip_whitespace r3)) = Parsed ms r"
      by (auto simp: Let_def)
    with True show ?thesis using more next_is_length by (metis less_trans)
  next
    case False
    with rest show ?thesis by (auto simp: Let_def split: if_splits dest: next_is_length)
  qed
  with parse_string_shorter [OF key] next_is_length [OF colon] val [OF v]
    length_skip_whitespace [of s] length_skip_whitespace [of r1] length_skip_whitespace [of r3]
    length_skip_whitespace [of "tl (buffer_skip_whitespace r1)"]
  show ?thesis by linarith
qed

lemma parsers_shorter:
  "parse_value fuel depth s = Parsed v r \<Longrightarrow> length r < length s"
  "parse_elements fuel depth s = Parsed vs r \<Longrightarrow> length r < length s"
  "parse_members fuel depth s = Parsed ms r \<Longrightarrow> length r < length s"
proof (induction fuel arbitrary: depth s v vs ms r)
  case 0
  { case 1 then show ?case by simp }
  { case 2 then show ?case by simp }
  { case 3 then show ?case by simp }
next
  case (Suc fuel)
  { case 1
    then show ?case using parse_value_with_shorter [OF Suc(2,3)] by simp }
  { case 2
    then show ?case using elements_round_shorter [OF _ Suc(1,2)] by simp }
  { case 3
    then show ?case using members_round_shorter [OF _ Suc(1,3)] by simp }
qed

subsection \<open>The fuel is enough\<close>

lemma parse_value_with_fuel:
  assumes "\<And>d t. length t < length s \<Longrightarrow> elements d t \<noteq> No_Fuel"
    and "\<And>d t. length t < length s \<Longrightarrow> members d t \<noteq> No_Fuel"
  shows "parse_value_with elements members depth s \<noteq> No_Fuel"
  using assms skip_tl_shorter [of _ s]
  by (auto simp: parse_value_with_def parse_array_def parse_object_def Let_def)

lemma parse_fuel_enough:
  "2 * length s < fuel \<Longrightarrow> parse_value fuel depth s \<noteq> No_Fuel"
  "2 * length s + 1 < fuel \<Longrightarrow> parse_elements fuel depth s \<noteq> No_Fuel"
  "2 * length s + 1 < fuel \<Longrightarrow> parse_members fuel depth s \<noteq> No_Fuel"
proof (induction fuel arbitrary: depth s)
  case 0
  { case 1 then show ?case by simp }
  { case 2 then show ?case by simp }
  { case 3 then show ?case by simp }
next
  case (Suc fuel)
  { case 1
    then have "parse_elements fuel d t \<noteq> No_Fuel" "parse_members fuel d t \<noteq> No_Fuel"
      if "length t < length s" for d t
      using that Suc(2,3) by auto
    then show ?case by (simp add: parse_value_with_fuel) }
  { case 2
    have len: "length (buffer_skip_whitespace s) \<le> length s" by (rule length_skip_whitespace)
    have more: "parse_elements fuel depth (tl r) \<noteq> No_Fuel"
      if "parse_value fuel depth (buffer_skip_whitespace s) = Parsed v t"
        and "next_is c r" and "r = buffer_skip_whitespace t" for v t r c
      using that parsers_shorter(1) [OF that(1)] next_is_length [OF that(2)]
        length_skip_whitespace [of t] len 2 by (intro Suc(2)) simp
    have "parse_value fuel depth (buffer_skip_whitespace s) \<noteq> No_Fuel"
      using 2 len by (intro Suc(1)) simp
    then show ?case using more by (auto simp: elements_round_def Let_def) }
  { case 3
    have len: "length (buffer_skip_whitespace t) \<le> length t" for t by (rule length_skip_whitespace)
    have val: "parse_value fuel depth (buffer_skip_whitespace (tl r)) \<noteq> No_Fuel"
      if "parse_string (buffer_skip_whitespace s) = Some (k, t)" and "next_is c r"
        and "r = buffer_skip_whitespace t" for k t r c
      using that parse_string_shorter [OF that(1)] next_is_length [OF that(2)] len [of t]
        len [of s] len [of "tl r"] 3 by (intro Suc(1)) simp
    have more: "parse_members fuel depth (tl r') \<noteq> No_Fuel"
      if "parse_string (buffer_skip_whitespace s) = Some (k, t)" and "next_is c r"
        and "r = buffer_skip_whitespace t"
        and "parse_value fuel depth (buffer_skip_whitespace (tl r)) = Parsed v u"
        and "next_is c' r'" and "r' = buffer_skip_whitespace u" for k t r c v u r' c'
      using that parse_string_shorter [OF that(1)] next_is_length [OF that(2)]
        next_is_length [OF that(5)] parsers_shorter(1) [OF that(4)] len [of t]
        len [of s] len [of "tl r"] len [of u] 3 by (intro Suc(3)) simp
    show ?case using val more by (auto simp: members_round_def Let_def) }
qed

subsection \<open>Integers survive\<close>

lemma norm_dbl_shift: "n \<noteq> 0 \<Longrightarrow> norm_dbl (n * 2 ^ k) e = norm_dbl n (e + int k)"
proof (induction k arbitrary: e)
  case 0
  then show ?case by simp
next
  case (Suc k)
  have "norm_dbl (n * 2 ^ Suc k) e = norm_dbl (n * 2 ^ k) (e + 1)"
    using Suc.prems by (subst norm_dbl.simps) simp
  then show ?case using Suc.IH [OF Suc.prems, of "e + 1"] by (simp add: add.assoc)
qed

lemma norm_dbl_value:
  "0 \<le> e \<Longrightarrow> \<exists>m' e'. norm_dbl m e = DFin m' e' \<and> 0 \<le> e' \<and> m' * 2 ^ nat e' = m * 2 ^ nat e"
proof (induction m e rule: norm_dbl.induct)
  case (1 m e)
  show ?case
  proof (cases "m \<noteq> 0 \<and> even m")
    case True
    then obtain m' e' where "norm_dbl (m div 2) (e + 1) = DFin m' e'" "0 \<le> e'"
        "m' * 2 ^ nat e' = m div 2 * 2 ^ nat (e + 1)" using 1 by auto
    moreover have "m div 2 * 2 ^ nat (e + 1) = m * 2 ^ nat e"
      using True "1.prems" by (simp add: nat_add_distrib)
    ultimately show ?thesis using True by (subst norm_dbl.simps) simp
  next
    case False
    then show ?thesis using "1.prems" by (subst norm_dbl.simps) auto
  qed
qed

lemma double_to_int_dbl_of_int [simp]: "is_int32 i \<Longrightarrow> double_to_int (dbl_of_int i) = i"
proof -
  assume i: "is_int32 i"
  obtain m e where "norm_dbl i 0 = DFin m e" "0 \<le> e" "m * 2 ^ nat e = i"
    using norm_dbl_value [of 0 i] by auto
  with i show ?thesis by (auto simp: dbl_of_int_def double_to_int_def is_int32_def)
qed

lemma print_number_int [simp]: "print_number i (dbl_of_int i) = Some (show_int i)"
  using norm_dbl_value [of 0 i] by (auto simp: dbl_of_int_def)

lemma nbits_le: "n < 2 ^ k \<Longrightarrow> nbits n \<le> int k"
proof (induction k arbitrary: n)
  case 0
  then show ?case by (subst nbits.simps) simp
next
  case (Suc k)
  have "n div 2 < 2 ^ k" using Suc.prems by simp
  then show ?case using Suc.IH by (subst nbits.simps) auto
qed

lemma nbits_1: "nbits 1 = 1"
  by (simp add: nbits.simps)

lemma nbits_nonneg: "0 \<le> nbits n"
  by (induction n rule: nbits.induct) (subst nbits.simps, simp)

lemma round_exp_int:
  assumes "0 \<le> n" and "n < 2 ^ 53"
  shows "round_exp n 1 \<le> 0"
  using nbits_le [of n 53] assms nbits_nonneg [of n] by (auto simp: round_exp_def nbits_1 Let_def split: prod.split)

lemma round_quotient_1 [simp]: "round_quotient c 1 = c"
  by (simp add: round_quotient_def)

lemma round_ratio_int:
  assumes "0 \<le> n" and "n < 2 ^ 53"
  shows "round_ratio neg n 1 = norm_dbl (if neg then - n else n) 0"
proof (cases "n = 0")
  case True
  then show ?thesis by (simp add: round_ratio_def norm_dbl.simps)
next
  case False
  define e where "e = round_exp n 1"
  have e: "e \<le> 0" using round_exp_int [OF assms] by (simp add: e_def)
  have norm: "norm_dbl (m * 2 ^ nat (- e)) e = norm_dbl m 0" if "m \<noteq> 0" for m
    using norm_dbl_shift [OF that, of "nat (- e)" e] e by simp
  have scale: "scale n 1 e = (n * 2 ^ nat (- e), 1)"
    using e by (auto simp: scale_def)
  have "\<not> (0 \<le> e \<and> n * 2 ^ nat (- e) * 2 ^ nat e \<ge> 2 ^ 1024)"
  proof
    assume "0 \<le> e \<and> n * 2 ^ nat (- e) * 2 ^ nat e \<ge> 2 ^ 1024"
    then have "2 ^ 1024 \<le> n" using e by auto
    moreover have "(2::int) ^ 53 \<le> 2 ^ 1024" by (rule power_increasing) auto
    ultimately show False using assms(2) by linarith
  qed
  then have "round_ratio neg n 1 =
      norm_dbl (if neg then - (n * 2 ^ nat (- e)) else n * 2 ^ nat (- e)) e"
    using False scale by (simp only: round_ratio_def Let_def e_def [symmetric]
        prod.case round_quotient_1 if_False)
  also have "\<dots> = norm_dbl (if neg then - n else n) 0"
    using norm [of n] norm [of "- n"] False by simp
  finally show ?thesis .
qed

lemma digits_value_eq: "digits_value s = int (nat_of_digits s)"
proof -
  have "foldl (\<lambda>a c. 10 * a + int (digit_val c)) (int n) s =
      int (foldl (\<lambda>a c. 10 * a + digit_val c) n s)" for n
  proof (induction s arbitrary: n)
    case (Cons c s)
    then show ?case using Cons.IH [of "10 * n + digit_val c"] by simp
  qed simp
  from this [of 0] show ?thesis by (simp add: digits_value_def nat_of_digits_def)
qed

lemma show_nat_hd_sign: "hd (show_nat n) \<noteq> CHR ''-''" "hd (show_nat n) \<noteq> CHR ''+''"
  using hd_show_nat_digit [of n] by (auto simp: isdigit_def)

lemma strtod_show_int:
  assumes "is_int32 i"
  shows "strtod (show_int i) = Some (dbl_of_int i, length (show_int i))"
proof -
  have tw: "takeWhile isdigit (show_nat n) = show_nat n" for n
    using takeWhile_show_nat [of "[]" n] by simp
  have "round_ratio neg (int n) 1 = norm_dbl (if neg then - int n else int n) 0"
    if "n \<le> 2 ^ 31" for neg n
    using that by (intro round_ratio_int) simp_all
  moreover have "nat i \<le> 2 ^ 31" "nat (- i) \<le> 2 ^ 31" using assms by (auto simp: is_int32_def)
  ultimately show ?thesis
    using assms by (auto simp: strtod_def Let_def show_int_def show_nat_hd_sign tw
        scan_exponent_def digits_value_eq dbl_of_int_def)
qed

lemma show_int_number_chars: "\<forall>c \<in> set (show_int i). number_char c"
  using show_nat_digits by (auto simp: show_int_def number_char_def)

lemma takeWhile_show_int:
  "rest \<noteq> [] \<Longrightarrow> \<not> number_char (hd rest) \<Longrightarrow>
     takeWhile number_char (show_int i @ rest) = show_int i"
  using show_int_number_chars [of i] by (cases rest) (auto simp: takeWhile_append)

lemma parse_number_show_int:
  "is_int32 i \<Longrightarrow> rest \<noteq> [] \<Longrightarrow> \<not> number_char (hd rest) \<Longrightarrow>
     parse_number (show_int i @ rest) = Some (cJSON_Number i (dbl_of_int i), rest)"
  by (simp add: parse_number_def takeWhile_show_int strtod_show_int)

lemma CreateNumber_int [simp]:
  "is_int32 i \<Longrightarrow> cJSON_CreateNumber i = cJSON_Number i (dbl_of_int i)"
  by (simp add: cJSON_CreateNumber_def)

subsection \<open>Strings survive\<close>

lemma lower_hex_of_char: "n < 16 \<Longrightarrow> of_char (lower_hex n) = (if n < 10 then 48 + n else 87 + n)"
  by (simp add: lower_hex_def)

lemma lower_hex_plain: "n < 16 \<Longrightarrow> lower_hex n \<noteq> CHR 0x22 \<and> lower_hex n \<noteq> CHR 0x5C"
  using lower_hex_of_char [of n] by (auto split: if_splits)

lemma hex_digit_lower_hex [simp]: "n < 16 \<Longrightarrow> hex_digit (lower_hex n) = Some n"
  by (simp add: hex_digit_def lower_hex_of_char)

lemma escape_cases:
  obtains (plain) "escape_char c = [c]" "c \<noteq> CHR 0x22" "c \<noteq> CHR 0x5C"
  | (simple) e where "escape_char c = [CHR 0x5C, e]"
      "(e, c) \<in> {(CHR 0x5C, CHR 0x5C), (CHR 0x22, CHR 0x22), (CHR ''b'', CHR 0x08),
        (CHR ''f'', CHR 0x0C), (CHR ''n'', CHR 0x0A), (CHR ''r'', CHR 0x0D), (CHR ''t'', CHR 0x09)}"
  | (control) "escape_char c = CHR 0x5C # ''u00'' @
        [lower_hex (of_char c div 16), lower_hex (of_char c mod 16)]" "of_char c < (32::nat)"
proof -
  consider (a) "of_char c > (31::nat)" "c \<noteq> CHR 0x22" "c \<noteq> CHR 0x5C"
    | (b) "c = CHR 0x5C" | (c) "c = CHR 0x22" | (d) "c = CHR 0x08" | (e) "c = CHR 0x0C"
    | (f) "c = CHR 0x0A" | (g) "c = CHR 0x0D" | (h) "c = CHR 0x09"
    | (i) "of_char c < (32::nat)" "c \<notin> {CHR 0x5C, CHR 0x22, CHR 0x08, CHR 0x0C, CHR 0x0A,
        CHR 0x0D, CHR 0x09}"
    by fastforce
  then show ?thesis
  proof cases
    case a then show ?thesis using plain by (simp add: escape_char_def)
  next
    case i then show ?thesis using control by (simp add: escape_char_def)
  qed (simp_all add: escape_char_def simple)
qed

lemma scan_string_escape:
  "scan_string (escape_char c @ t) =
     map_option (\<lambda>(body, rest). (escape_char c @ body, rest)) (scan_string t)"
proof (cases c rule: escape_cases)
  case control
  have "(of_char c :: nat) div 16 < 16" "(of_char c :: nat) mod 16 < 16"
    using control(2) by auto
  with control(1) lower_hex_plain show ?thesis
    by (auto simp: option.map_comp o_def split_def intro!: option.map_cong)
qed (auto simp: option.map_comp o_def split_def)

lemma scan_string_escaped:
  "scan_string (concat (map escape_char s) @ CHR 0x22 # rest) =
     Some (concat (map escape_char s), rest)"
  by (induction s) (simp_all add: scan_string_escape)

lemma utf8_encode_ascii: "n < 128 \<Longrightarrow> utf8_encode n = Some [char_of n]"
proof -
  assume n: "n < 128"
  have "n AND 127 = take_bit 7 n" by (simp add: take_bit_eq_mask mask_eq_exp_minus_1)
  with n show ?thesis by (simp add: utf8_encode_def take_bit_nat_eq_self)
qed

lemma parse_hex4_digits:
  assumes "hex_digit a = Some i" "hex_digit b = Some j" "hex_digit c = Some k" "hex_digit d = Some l"
  shows "parse_hex4 (a # b # c # d # t) = ((i * 16 + j) * 16 + k) * 16 + l"
proof -
  have four: "(4::nat) = Suc (Suc (Suc (Suc 0)))" by simp
  show ?thesis using assms unfolding parse_hex4_def four by (simp add: push_bit_eq_mult)
qed

lemma parse_hex4_control:
  assumes "n < 32"
  shows "parse_hex4 (CHR ''0'' # CHR ''0'' # lower_hex (n div 16) # lower_hex (n mod 16) # t) = n"
proof -
  have "n div 16 < 16" "n mod 16 < 16" using assms by auto
  moreover have "hex_digit (CHR ''0'') = Some 0" by (simp add: hex_digit_def)
  ultimately show ?thesis by (subst parse_hex4_digits) auto
qed

lemma append_single [simp]: "(@) [c] = (#) c"
  by (simp add: fun_eq_iff)

lemma unescape_escape: "unescape (escape_char c @ t) = map_option (Cons c) (unescape t)"
proof (cases c rule: escape_cases)
  case control
  have "utf16_literal_to_utf8 (escape_char c @ t) = Some (6, [c])"
    using control parse_hex4_control [of "of_char c" t]
    by (simp add: utf16_literal_to_utf8_def utf8_encode_ascii Let_def)
  then show ?thesis using control(1) by simp
qed auto

lemma unescape_escaped: "unescape (concat (map escape_char s)) = Some s"
  by (induction s) (simp_all add: unescape_escape)

lemma parse_print_string:
  "c_ok s \<Longrightarrow> parse_string (print_string_ptr s @ rest) = Some (s, rest)"
  by (simp add: parse_string_def print_string_ptr_def scan_string_escaped unescape_escaped)

subsection \<open>Trees survive\<close>

text \<open>
  A well-formed tree: what the builders of the client make and what a parse of integers and
  C strings gives.
\<close>

fun wf_json :: "cJSON \<Rightarrow> bool" where
  "wf_json (cJSON_Number i d) \<longleftrightarrow> is_int32 i \<and> d = dbl_of_int i"
| "wf_json (cJSON_String s) \<longleftrightarrow> c_ok s"
| "wf_json (cJSON_Array vs) \<longleftrightarrow> list_all wf_json vs"
| "wf_json (cJSON_Object ms) \<longleftrightarrow> list_all (\<lambda>(k, v). c_ok k \<and> wf_json v) ms"
| "wf_json _ \<longleftrightarrow> True"

definition delim :: "string \<Rightarrow> bool" where
  "delim rest \<longleftrightarrow> rest \<noteq> [] \<and> hd rest \<in> {CHR '','', CHR '']'', CHR ''}'', CHR 0x0A, nul}"

lemma delim_simps [simp]:
  "delim (CHR '','' # s)" "delim (CHR '']'' # s)" "delim (CHR ''}'' # s)" "delim (nul # s)"
  "delim (CHR 0x0A # s)"
  by (auto simp: delim_def)

lemma delim_number: "delim rest \<Longrightarrow> rest \<noteq> [] \<and> \<not> number_char (hd rest)"
  by (auto simp: delim_def number_char_def isdigit_def)

lemma skip_whitespace_id: "s \<noteq> [] \<Longrightarrow> (32::nat) < of_char (hd s) \<Longrightarrow> buffer_skip_whitespace s = s"
  by (cases s) (auto simp: buffer_skip_whitespace_def)

lemma skip_Cons [simp]: "(32::nat) < of_char c \<Longrightarrow> buffer_skip_whitespace (c # s) = c # s"
  by (simp add: skip_whitespace_id)

text \<open>What formatting adds is skipped.\<close>

definition blank :: "string \<Rightarrow> bool" where
  "blank s \<longleftrightarrow> (\<forall>c \<in> set s. of_char c \<le> (32::nat))"

lemma blank_simps [simp]:
  "blank []" "blank [CHR 0x0A]" "blank [CHR 0x09]" "blank '' ''" "blank (tabs n)"
  "blank (when_fmt fmt s) \<longleftrightarrow> \<not> fmt \<or> blank s" "blank (s @ t) \<longleftrightarrow> blank s \<and> blank t"
  by (auto simp: blank_def tabs_def when_fmt_def)

lemma skip_blank: "blank b \<Longrightarrow> s \<noteq> [] \<Longrightarrow> buffer_skip_whitespace (b @ s) = buffer_skip_whitespace s"
  by (induction b) (auto simp: blank_def buffer_skip_whitespace_def Let_def)

lemma next_is_Cons [simp]: "next_is c (d # s) \<longleftrightarrow> c = d" "\<not> next_is c []"
  by (auto simp: next_is_def)

definition value_start :: "char \<Rightarrow> bool" where
  "value_start c \<longleftrightarrow> (32::nat) < of_char c \<and> c \<noteq> CHR '']'' \<and> c \<noteq> CHR ''}''"

lemma show_int_hd: "\<exists>c s. show_int i = c # s \<and> (c = CHR ''-'' \<or> isdigit c)"
  using hd_show_nat_digit [of "nat i"] show_nat_nonempty [of "nat i"]
  by (cases "show_nat (nat i)") (auto simp: show_int_def)

lemma isdigit_range: "isdigit c \<Longrightarrow> value_start c"
  by (auto simp: isdigit_def value_start_def)

lemma show_int_start: "\<exists>c u. show_int i = c # u \<and> value_start c"
proof -
  obtain c u where "show_int i = c # u" "c = CHR ''-'' \<or> isdigit c"
    using show_int_hd by blast
  moreover from this have "value_start c"
    using isdigit_range by (auto simp: value_start_def)
  ultimately show ?thesis by blast
qed

lemma value_start_simps [simp]:
  "value_start (CHR ''n'')" "value_start (CHR ''f'')" "value_start (CHR ''t'')"
  "value_start (CHR 0x22)" "value_start (CHR ''['')" "value_start (CHR ''{'')"
  by (simp_all add: value_start_def)

lemma print_value_start_ex:
  assumes "print_value fmt d j = Some t" and "wf_json j"
  shows "\<exists>c u. t = c # u \<and> value_start c"
proof (cases j)
  case (cJSON_Number i x)
  with assms have "t = show_int i" by simp
  then show ?thesis using show_int_start by blast
next
  case (cJSON_String s)
  with assms(1) have "t = CHR 0x22 # concat (map escape_char s) @ [CHR 0x22]"
    by (simp add: print_string_ptr_def)
  then show ?thesis by simp
next
  case (cJSON_Array vs)
  with assms(1) obtain u where "t = CHR ''['' # u" by (auto split: if_splits)
  then show ?thesis by simp
next
  case (cJSON_Object ms)
  with assms(1) obtain u where "t = CHR ''{'' # u" by (auto split: if_splits)
  then show ?thesis by simp
next
  case cJSON_NULL
  with assms(1) have "t = ''null''" by simp
  then show ?thesis by simp
next
  case cJSON_False
  with assms(1) have "t = ''false''" by simp
  then show ?thesis by simp
next
  case cJSON_True
  with assms(1) have "t = ''true''" by simp
  then show ?thesis by simp
qed

lemma print_value_start:
  assumes "print_value fmt d j = Some t" and "wf_json j"
  obtains c u where "t = c # u" "value_start c"
  using print_value_start_ex [OF assms] by blast

lemma skip_value [simp]: "value_start c \<Longrightarrow> buffer_skip_whitespace (c # s) = c # s"
  by (simp add: value_start_def)

lemma parse_value_number:
  assumes "is_int32 i" and "delim rest"
  shows "parse_value_with es ms depth (show_int i @ rest) =
         Parsed (cJSON_Number i (dbl_of_int i)) rest"
proof -
  obtain c u where cu: "show_int i = c # u" "c = CHR ''-'' \<or> isdigit c"
    using show_int_hd by blast
  then have "c \<noteq> CHR ''n'' \<and> c \<noteq> CHR ''f'' \<and> c \<noteq> CHR ''t'' \<and> c \<noteq> CHR 0x22"
    by (auto simp: isdigit_def)
  then show ?thesis
    using assms cu delim_number [OF assms(2)] parse_number_show_int [OF assms(1), of rest]
    by (auto simp: parse_value_with_def)
qed

lemma parse_value_string:
  "c_ok s \<Longrightarrow> parse_value_with es ms depth (print_string_ptr s @ rest) = Parsed (cJSON_String s) rest"
  using parse_print_string [of s rest] by (simp add: parse_value_with_def print_string_ptr_def)

lemma print_elements_start:
  assumes "print_array fmt d vs = Some t" and "list_all wf_json vs" and "vs \<noteq> []"
  obtains c u where "t = c # u" "value_start c"
proof -
  obtain v vs' where vs: "vs = v # vs'" using assms(3) by (cases vs) auto
  then obtain tv where tv: "print_value fmt d v = Some tv" "\<exists>w. t = tv @ w"
    using assms(1) by (auto split: option.splits)
  have "wf_json v" using assms(2) vs by simp
  from print_value_start [OF tv(1) this] tv(2) that show ?thesis by (metis append_Cons)
qed

lemma print_members_start:
  assumes "print_object fmt d ms = Some t" and "ms \<noteq> []"
  obtains b u where "t = b @ CHR 0x22 # u" "blank b"
proof -
  obtain k v ms' where ms: "ms = (k, v) # ms'" using assms(2) by (cases ms) auto
  then obtain w where "t = when_fmt fmt (tabs d) @ print_string_ptr k @ w"
    using assms(1) by (auto split: option.splits)
  then show thesis using that [of "when_fmt fmt (tabs d)"] by (simp add: print_string_ptr_def)
qed

lemma elements_skip:
  "blank b \<Longrightarrow> s \<noteq> [] \<Longrightarrow> parse_elements n d (b @ s) = parse_elements n d s"
  by (cases n) (simp_all add: skip_blank)

lemma members_skip:
  "blank b \<Longrightarrow> s \<noteq> [] \<Longrightarrow> parse_members n d (b @ s) = parse_members n d s"
  by (cases n) (simp_all add: members_round_def skip_blank)

lemma print_parse_mutual:
  "print_value fmt d j = Some t \<Longrightarrow> wf_json j \<Longrightarrow> delim rest \<Longrightarrow>
     parse_value fuel d (t @ rest) \<noteq> No_Fuel \<Longrightarrow> parse_value fuel d (t @ rest) = Parsed j rest"
  "print_array fmt d vs = Some t \<Longrightarrow> list_all wf_json vs \<Longrightarrow> vs \<noteq> [] \<Longrightarrow>
     parse_elements fuel d (t @ CHR '']'' # rest) \<noteq> No_Fuel \<Longrightarrow>
     parse_elements fuel d (t @ CHR '']'' # rest) = Parsed vs rest"
  "print_object fmt d ms = Some t \<Longrightarrow> list_all (\<lambda>(k, v). c_ok k \<and> wf_json v) ms \<Longrightarrow> ms \<noteq> [] \<Longrightarrow>
     parse_members fuel d (t @ when_fmt fmt (tabs n) @ CHR ''}'' # rest) \<noteq> No_Fuel \<Longrightarrow>
     parse_members fuel d (t @ when_fmt fmt (tabs n) @ CHR ''}'' # rest) = Parsed ms rest"
proof (induction fmt d j and fmt d vs and fmt d ms arbitrary: t rest fuel and t rest fuel and t rest fuel n
    rule: print_value_print_array_print_object.induct)
  case (4 fmt depth i x)
  then have t: "t = show_int i" "x = dbl_of_int i" "is_int32 i" by auto
  obtain n where "fuel = Suc n" using "4.prems"(4) by (cases fuel) auto
  with t "4.prems"(3) show ?case by (simp add: parse_value_number)
next
  case (5 fmt depth s)
  obtain n where "fuel = Suc n" using "5.prems"(4) by (cases fuel) auto
  with "5.prems"(1,2) show ?case by (auto simp: parse_value_string)
next
  case (6 fmt depth vs)
  obtain u where depth: "\<not> depth \<ge> CJSON_NESTING_LIMIT" and u: "print_array fmt (depth + 1) vs = Some u"
      and t: "t = CHR ''['' # u @ '']''"
    using "6.prems"(1) by (auto split: if_splits)
  obtain n where fuel: "fuel = Suc n" using "6.prems"(4) by (cases fuel) auto
  show ?case
  proof (cases "vs = []")
    case True
    with t u depth fuel show ?thesis by (simp add: parse_value_with_def parse_array_def isdigit_def)
  next
    case False
    have wf: "list_all wf_json vs" using "6.prems"(2) by simp
    obtain c w where c: "u = c # w" "value_start c" by (rule print_elements_start [OF u wf False])
    have eq: "parse_value fuel depth (t @ rest) =
        map_parsed cJSON_Array (parse_elements n (depth + 1) (u @ CHR '']'' # rest))"
      using t c depth fuel by (auto simp: parse_value_with_def parse_array_def value_start_def Let_def isdigit_def)
    with "6.prems"(4) "6.IH" [OF depth u wf False, of n rest] show ?thesis by simp
  qed
next
  case (7 fmt depth ms)
  obtain u where depth: "\<not> depth \<ge> CJSON_NESTING_LIMIT" and u: "print_object fmt (depth + 1) ms = Some u"
      and t: "t = CHR ''{'' # when_fmt fmt [CHR 0x0A] @ u @ when_fmt fmt (tabs depth) @ ''}''"
    using "7.prems"(1) by (auto split: if_splits)
  obtain n where fuel: "fuel = Suc n" using "7.prems"(4) by (cases fuel) auto
  let ?close = "when_fmt fmt (tabs depth) @ CHR ''}'' # rest"
  show ?case
  proof (cases "ms = []")
    case True
    have "buffer_skip_whitespace ((when_fmt fmt [CHR 0x0A] @ when_fmt fmt (tabs depth)) @ CHR ''}'' # rest) =
        CHR ''}'' # rest"
      by (subst skip_blank) simp_all
    with True t u depth fuel show ?thesis
      by (simp add: parse_value_with_def parse_object_def isdigit_def)
  next
    case False
    have wf: "list_all (\<lambda>(k, v). c_ok k \<and> wf_json v) ms" using "7.prems"(2) by simp
    obtain b w where w: "u = b @ CHR 0x22 # w" "blank b" by (rule print_members_start [OF u False])
    have skip: "buffer_skip_whitespace ((when_fmt fmt [CHR 0x0A] @ b) @ CHR 0x22 # w @ ?close) =
        CHR 0x22 # w @ ?close"
      using w(2) by (subst skip_blank) simp_all
    have members: "parse_members n (depth + 1) (CHR 0x22 # w @ ?close) = parse_members n (depth + 1) (u @ ?close)"
      using members_skip [OF w(2), of "CHR 0x22 # w @ ?close"] w(1) by simp
    have eq: "parse_value fuel depth (t @ rest) =
        map_parsed cJSON_Object (parse_members n (depth + 1) (u @ ?close))"
      using t w(1) depth fuel skip members
      by (simp add: parse_value_with_def parse_object_def Let_def isdigit_def)
    with "7.prems"(4) "7.IH" [OF depth u wf False, of n depth rest] show ?thesis by simp
  qed
next
  case (9 fmt depth v vs)
  let ?sep = "if vs = [] then [] else CHR '','' # when_fmt fmt '' ''"
  obtain tv u where tv: "print_value fmt depth v = Some tv" and u: "print_array fmt depth vs = Some u"
      and t: "t = tv @ ?sep @ u"
    using "9.prems"(1) by (auto split: option.splits)
  obtain n where fuel: "fuel = Suc n" using "9.prems"(4) by (cases fuel) auto
  have wf: "wf_json v" "list_all wf_json vs" using "9.prems"(2) by auto
  obtain c w where c: "tv = c # w" "value_start c" by (rule print_value_start [OF tv wf(1)])
  define more where "more = ?sep @ u @ CHR '']'' # rest"
  have delim: "delim more" using u by (cases vs) (auto simp: more_def)
  have skip: "buffer_skip_whitespace (t @ CHR '']'' # rest) = tv @ more"
    using t c by (simp add: more_def)
  have v: "parse_value n depth (tv @ more) = Parsed v more"
    using "9.prems"(4) fuel skip "9.IH"(1) [OF tv wf(1) delim, of n]
    by (auto simp: elements_round_def)
  show ?case
  proof (cases "vs = []")
    case True
    with u v skip fuel show ?thesis by (simp add: elements_round_def more_def)
  next
    case False
    have el: "parse_elements n depth (when_fmt fmt '' '' @ u @ CHR '']'' # rest) =
        parse_elements n depth (u @ CHR '']'' # rest)"
      by (rule elements_skip) simp_all
    have rest: "parse_elements n depth (u @ CHR '']'' # rest) \<noteq> No_Fuel"
      using "9.prems"(4) fuel skip v False el by (auto simp: elements_round_def more_def)
    show ?thesis
      using "9.IH"(2) [OF tv u wf(2) False rest] v skip fuel False el
      by (simp add: elements_round_def more_def)
  qed
next
  case (11 fmt depth k v ms)
  let ?comma = "if ms = [] then [] else '',''" and ?close = "when_fmt fmt (tabs n) @ CHR ''}'' # rest"
  obtain tv u where tv: "print_value fmt depth v = Some tv" and u: "print_object fmt depth ms = Some u"
      and t: "t = when_fmt fmt (tabs depth) @ print_string_ptr k @ CHR '':'' # when_fmt fmt [CHR 0x09] @
             tv @ ?comma @ when_fmt fmt [CHR 0x0A] @ u"
    using "11.prems"(1) by (auto split: option.splits)
  obtain m where fuel: "fuel = Suc m" using "11.prems"(4) by (cases fuel) auto
  have wf: "c_ok k" "wf_json v" "list_all (\<lambda>(k, v). c_ok k \<and> wf_json v) ms"
    using "11.prems"(2) by auto
  obtain c w where c: "tv = c # w" "value_start c" by (rule print_value_start [OF tv wf(2)])
  define more where "more = ?comma @ when_fmt fmt [CHR 0x0A] @ u @ ?close"
  have delim: "delim more" using u by (cases ms; cases fmt) (auto simp: more_def)
  have skip_key: "buffer_skip_whitespace (t @ ?close) =
      print_string_ptr k @ CHR '':'' # when_fmt fmt [CHR 0x09] @ tv @ more"
    unfolding t append.assoc by (subst skip_blank) (simp_all add: print_string_ptr_def more_def)
  have key: "parse_string (buffer_skip_whitespace (t @ ?close)) =
      Some (k, CHR '':'' # when_fmt fmt [CHR 0x09] @ tv @ more)"
    unfolding skip_key by (rule parse_print_string [OF wf(1)])
  have nonempty: "t @ ?close \<noteq> []" by simp
  have skip: "buffer_skip_whitespace (when_fmt fmt [CHR 0x09] @ tv @ more) = tv @ more"
    using c by (subst skip_blank) simp_all
  have v: "parse_value m depth (tv @ more) = Parsed v more"
    using "11.prems"(4) fuel key nonempty skip "11.IH"(1) [OF tv wf(2) delim, of m]
    by (auto simp: members_round_def)
  show ?case
  proof (cases "ms = []")
    case True
    then have "more = (when_fmt fmt [CHR 0x0A] @ when_fmt fmt (tabs n)) @ CHR ''}'' # rest"
      using u by (simp add: more_def)
    then have "buffer_skip_whitespace more = CHR ''}'' # rest" by (simp only: skip_blank) (simp add: skip_blank)
    with True u v key nonempty skip fuel show ?thesis by (simp add: members_round_def)
  next
    case False
    have mem: "parse_members m depth (when_fmt fmt [CHR 0x0A] @ u @ ?close) = parse_members m depth (u @ ?close)"
      by (rule members_skip) simp_all
    have more: "buffer_skip_whitespace more = CHR '','' # when_fmt fmt [CHR 0x0A] @ u @ ?close"
      using False by (simp add: more_def)
    have rest: "parse_members m depth (u @ ?close) \<noteq> No_Fuel"
      using "11.prems"(4) fuel key nonempty skip v more mem by (auto simp: members_round_def)
    show ?thesis
      using "11.IH"(2) [OF tv u wf(3) False rest] v key nonempty skip fuel more mem
      by (simp add: members_round_def)
  qed
next
  case (1 fmt depth)
  then have t: "t = ''null''" by simp
  obtain n where "fuel = Suc n" using "1.prems"(4) by (cases fuel) auto
  with t show ?case by (simp add: parse_value_with_def)
next
  case (2 fmt depth)
  then have t: "t = ''false''" by simp
  obtain n where "fuel = Suc n" using "2.prems"(4) by (cases fuel) auto
  with t show ?case by (simp add: parse_value_with_def)
next
  case (3 fmt depth)
  then have t: "t = ''true''" by simp
  obtain n where "fuel = Suc n" using "3.prems"(4) by (cases fuel) auto
  with t show ?case by (simp add: parse_value_with_def)
qed auto

subsection \<open>Printed text is a C string\<close>

lemma lower_hex_not_nul: "n < 16 \<Longrightarrow> lower_hex n \<noteq> nul"
  using lower_hex_of_char [of n] by (auto split: if_splits)

lemma escape_char_c_ok: "c \<noteq> nul \<Longrightarrow> c_ok (escape_char c)"
proof (cases c rule: escape_cases)
  case control
  have "(of_char c :: nat) div 16 < 16" "(of_char c :: nat) mod 16 < 16"
    using control(2) by auto
  with control(1) show ?thesis using lower_hex_not_nul by auto
qed auto

lemma print_string_ptr_c_ok [simp]: "c_ok s \<Longrightarrow> c_ok (print_string_ptr s)"
proof -
  assume "c_ok s"
  then have "c_ok (concat (map escape_char s))"
    by (induction s) (auto simp: escape_char_c_ok)
  then show ?thesis by (simp add: print_string_ptr_def)
qed

lemma layout_c_ok [simp]: "c_ok (when_fmt fmt s) \<longleftrightarrow> \<not> fmt \<or> c_ok s" "c_ok (tabs n)"
  by (auto simp: when_fmt_def tabs_def c_ok_def)

lemma print_c_ok:
  "print_value fmt d j = Some t \<Longrightarrow> wf_json j \<Longrightarrow> c_ok t"
  "print_array fmt d vs = Some t \<Longrightarrow> list_all wf_json vs \<Longrightarrow> c_ok t"
  "print_object fmt d ms = Some t \<Longrightarrow> list_all (\<lambda>(k, v). c_ok k \<and> wf_json v) ms \<Longrightarrow> c_ok t"
proof (induction fmt d j and fmt d vs and fmt d ms arbitrary: t and t and t
    rule: print_value_print_array_print_object.induct)
  case (4 fmt depth i x)
  then have "t = show_int i" by simp
  then show ?case by simp
qed (auto split: if_splits option.splits)

lemma parse_buffer_of_value:
  assumes "c_ok t" and "t = c # u" and "value_start c" and "c \<noteq> CHR 0xEF"
  shows "parse_buffer_of t = t @ [nul]"
  using assms by (simp add: parse_buffer_of_def skip_utf8_bom_def)

lemma print_value_first:
  assumes "print_value fmt d j = Some t" and "wf_json j"
  shows "hd t \<noteq> CHR 0xEF"
proof (cases j)
  case (cJSON_Number i x)
  with assms have "t = show_int i" by simp
  moreover obtain c u where "show_int i = c # u" "c = CHR ''-'' \<or> isdigit c"
    using show_int_hd by blast
  ultimately show ?thesis by (auto simp: isdigit_def)
qed (use assms in \<open>auto simp: print_string_ptr_def split: if_splits\<close>)

text \<open>The round trip, as the components that print and parse messages use it.\<close>

lemma parse_printed:
  assumes "wf_json j" and t: "print_value fmt 0 j = Some t"
  shows "c_ok t \<and> cJSON_Parse t = Some j"
proof -
  obtain c u where c: "t = c # u" "value_start c" by (rule print_value_start [OF t assms(1)])
  have "parse_buffer_of t = t @ [nul]"
    using print_c_ok(1) [OF t assms(1)] c print_value_first [OF t assms(1)]
    by (simp add: parse_buffer_of_value)
  moreover have "parse_value (parse_fuel (t @ [nul])) 0 (t @ [nul]) = Parsed j [nul]"
    by (rule print_parse_mutual(1) [OF t assms(1)])
       (simp, rule parse_fuel_enough(1), simp add: parse_fuel_def)
  ultimately show ?thesis using print_c_ok(1) [OF t assms(1)] by (simp add: cJSON_Parse_def)
qed

lemma cJSON_Parse_of_print:
  "wf_json j \<Longrightarrow> cJSON_PrintUnformatted j = Some t \<Longrightarrow> cJSON_Parse t = Some j"
  using parse_printed by (simp add: cJSON_PrintUnformatted_def)

subsection \<open>Properties\<close>

text \<open>
  \<open>cJSON_Parse\<close> is total: with the fuel it starts from, the recursive descent always ends
  in a value or a refusal, on every input text.
\<close>

theorem cJSON_Parse_terminates:
  "parse_value (parse_fuel (parse_buffer_of s)) 0 (parse_buffer_of s) \<noteq> No_Fuel"
  by (rule parse_fuel_enough) (simp add: parse_fuel_def)

text \<open>
  C29: printing and parsing are inverse: the text \<open>cJSON_PrintUnformatted\<close> or \<open>cJSON_Print\<close> makes of
  any tree of objects, arrays, integers, literals and strings (whatever bytes the strings hold,
  escapes and control characters included) is a C string that \<open>cJSON_Parse\<close> reads back as the
  same tree.
\<close>

theorem cJSON_print_parse:
  assumes "wf_json j" and "cJSON_PrintUnformatted j = Some t \<or> cJSON_Print j = Some t"
  shows "c_ok t \<and> cJSON_Parse t = Some j"
  using assms parse_printed by (auto simp: cJSON_PrintUnformatted_def cJSON_Print_def)

theorem cJSON_print_parse_witness:
  "cJSON_Parse (CHR ''{'' # CHR 0x0A # CHR 0x09 # print_string_ptr ''id'' @ CHR '':'' # CHR 0x09 # show_int 7 @
     CHR 0x0A # ''}'') = Some (cJSON_Object [(''id'', cJSON_Number 7 (dbl_of_int 7))])"
  by (rule cJSON_print_parse [THEN conjunct2])
     (simp_all add: cJSON_PrintUnformatted_def cJSON_Print_def is_int32_def tabs_def)

end
