(* ===== verification/Protocol.thy ===== *)
theory Protocol
  imports CJson_Facts
begin

section \<open>The protocol messages (\<open>src/xiaozhi_protocol.c\<close>)\<close>

text \<open>
  The text messages the client sends (\<open>hello\<close>, the \<open>listen\<close> family, \<open>abort\<close>) and the
  classification of those it receives. A builder returns its status and what it leaves in
  the caller's buffer. Pointers a caller may leave out are options.
\<close>

record xiaozhi_hello_config =
  protocol_version :: int
  sample_rate :: int
  channels :: int
  frame_duration_ms :: int

datatype xiaozhi_event_type =
    XIAOZHI_EVENT_NONE
  | XIAOZHI_EVENT_HELLO
  | XIAOZHI_EVENT_STT
  | XIAOZHI_EVENT_LLM
  | XIAOZHI_EVENT_TTS_START
  | XIAOZHI_EVENT_TTS_STOP
  | XIAOZHI_EVENT_TTS_SENTENCE
  | XIAOZHI_EVENT_SYSTEM
  | XIAOZHI_EVENT_MCP
  | XIAOZHI_EVENT_IOT
  | XIAOZHI_EVENT_UNKNOWN

record xiaozhi_incoming_event =
  xe_type :: xiaozhi_event_type
  xe_session_id :: string
  xe_text :: string
  xe_emotion :: string
  xe_output_sample_rate :: int
  xe_output_channels :: int

definition zero_incoming_event :: xiaozhi_incoming_event where
  "zero_incoming_event = \<lparr>xe_type = XIAOZHI_EVENT_NONE, xe_session_id = [], xe_text = [],
     xe_emotion = [], xe_output_sample_rate = 0, xe_output_channels = 0\<rparr>"

subsection \<open>Builders\<close>

definition quoted :: "string \<Rightarrow> string" where
  "quoted s = CHR 0x22 # s @ [CHR 0x22]"

text \<open>\<open>print_json\<close> ignores that \<open>snprintf\<close> may have cut the text.\<close>

definition print_json :: "cJSON \<Rightarrow> nat \<Rightarrow> rc \<times> string" where
  "print_json root buf_size =
     (case cJSON_PrintUnformatted root of
        None \<Rightarrow> (- 1, [])
      | Some printed \<Rightarrow> (0, snprintf_buf buf_size printed))"

definition hello_message :: "xiaozhi_hello_config \<Rightarrow> cJSON" where
  "hello_message cfg =
     (let root = cJSON_Object [];
          audio_params = cJSON_Object [];
          root = cJSON_AddStringToObject root ''type'' ''hello'';
          root = cJSON_AddNumberToObject root ''version'' (protocol_version cfg);
          root = cJSON_AddStringToObject root ''transport'' ''websocket'';
          audio_params = cJSON_AddStringToObject audio_params ''format'' ''opus'';
          audio_params = cJSON_AddNumberToObject audio_params ''sample_rate'' (sample_rate cfg);
          audio_params = cJSON_AddNumberToObject audio_params ''channels'' (channels cfg);
          audio_params = cJSON_AddNumberToObject audio_params ''frame_duration''
                           (frame_duration_ms cfg)
      in add_item_to_object root ''audio_params'' audio_params)"

definition xiaozhi_build_hello :: "xiaozhi_hello_config option \<Rightarrow> nat \<Rightarrow> rc \<times> string" where
  "xiaozhi_build_hello cfg buf_size =
     (case cfg of
        None \<Rightarrow> (- 1, [])
      | Some c \<Rightarrow> if buf_size = 0 then (- 1, []) else print_json (hello_message c) buf_size)"

definition snprintf_checked :: "nat \<Rightarrow> string \<Rightarrow> rc \<times> string" where
  "snprintf_checked buf_size text =
     (if snprintf_rc text \<ge> int buf_size then - 1 else 0, snprintf_buf buf_size text)"

definition xiaozhi_build_listen_detect :: "nat \<Rightarrow> rc \<times> string" where
  "xiaozhi_build_listen_detect buf_size =
     snprintf_checked buf_size (''{'' @ quoted ''type'' @ '':'' @ quoted ''listen'' @ '','' @
       quoted ''state'' @ '':'' @ quoted ''detect'' @ ''}'')"

definition xiaozhi_build_listen_start :: "nat \<Rightarrow> rc \<times> string" where
  "xiaozhi_build_listen_start buf_size =
     snprintf_checked buf_size (''{'' @ quoted ''type'' @ '':'' @ quoted ''listen'' @ '','' @
       quoted ''state'' @ '':'' @ quoted ''start'' @ '','' @
       quoted ''mode'' @ '':'' @ quoted ''auto'' @ ''}'')"

definition xiaozhi_build_listen_stop :: "nat \<Rightarrow> rc \<times> string" where
  "xiaozhi_build_listen_stop buf_size =
     snprintf_checked buf_size (''{'' @ quoted ''type'' @ '':'' @ quoted ''listen'' @ '','' @
       quoted ''state'' @ '':'' @ quoted ''stop'' @ ''}'')"

definition xiaozhi_build_listen_start_manual :: "string option \<Rightarrow> nat \<Rightarrow> rc \<times> string" where
  "xiaozhi_build_listen_start_manual session_id buf_size =
     (case session_id of
        None \<Rightarrow> (- 1, [])
      | Some sid \<Rightarrow>
          if sid = [] \<or> buf_size = 0 then (- 1, [])
          else snprintf_checked buf_size
            (''{'' @ quoted ''session_id'' @ '':'' @ quoted sid @ '','' @
             quoted ''type'' @ '':'' @ quoted ''listen'' @ '','' @
             quoted ''state'' @ '':'' @ quoted ''start'' @ '','' @
             quoted ''mode'' @ '':'' @ quoted ''manual'' @ ''}''))"

definition xiaozhi_build_listen_stop_manual :: "string option \<Rightarrow> nat \<Rightarrow> rc \<times> string" where
  "xiaozhi_build_listen_stop_manual session_id buf_size =
     (case session_id of
        None \<Rightarrow> (- 1, [])
      | Some sid \<Rightarrow>
          if sid = [] \<or> buf_size = 0 then (- 1, [])
          else snprintf_checked buf_size
            (''{'' @ quoted ''session_id'' @ '':'' @ quoted sid @ '','' @
             quoted ''type'' @ '':'' @ quoted ''listen'' @ '','' @
             quoted ''state'' @ '':'' @ quoted ''stop'' @ '','' @
             quoted ''mode'' @ '':'' @ quoted ''manual'' @ ''}''))"

definition xiaozhi_build_abort :: "string option \<Rightarrow> nat \<Rightarrow> rc \<times> string" where
  "xiaozhi_build_abort reason buf_size =
     (let safe_reason = (case reason of None \<Rightarrow> ''unknown'' | Some r \<Rightarrow> r) in
      snprintf_checked buf_size
        (''{'' @ quoted ''type'' @ '':'' @ quoted ''abort'' @ '','' @
         quoted ''reason'' @ '':'' @ quoted safe_reason @ ''}''))"

subsection \<open>Incoming messages\<close>

definition string_is :: "cJSON option \<Rightarrow> string \<Rightarrow> bool" where
  "string_is item s \<longleftrightarrow> cJSON_IsString item \<and> valuestring (the item) = s"

definition parse_type :: "cJSON option \<Rightarrow> cJSON option \<Rightarrow> xiaozhi_event_type" where
  "parse_type type state =
     (if \<not> cJSON_IsString type then XIAOZHI_EVENT_UNKNOWN
      else
        let t = valuestring (the type) in
        if t = ''hello'' then XIAOZHI_EVENT_HELLO
        else if t = ''stt'' then XIAOZHI_EVENT_STT
        else if t = ''llm'' then XIAOZHI_EVENT_LLM
        else if t = ''system'' then XIAOZHI_EVENT_SYSTEM
        else if t = ''mcp'' then XIAOZHI_EVENT_MCP
        else if t = ''iot'' then XIAOZHI_EVENT_IOT
        else if t = ''tts'' then
          (if string_is state ''start'' then XIAOZHI_EVENT_TTS_START
           else if string_is state ''stop'' then XIAOZHI_EVENT_TTS_STOP
           else if string_is state ''sentence_start'' \<or> string_is state ''sentence_end''
             then XIAOZHI_EVENT_TTS_SENTENCE
           else XIAOZHI_EVENT_UNKNOWN)
        else XIAOZHI_EVENT_UNKNOWN)"

definition copy_json_string :: "nat \<Rightarrow> cJSON option \<Rightarrow> string" where
  "copy_json_string dst_size item =
     (if cJSON_IsString item then snprintf_buf dst_size (valuestring (the item)) else [])"

definition xiaozhi_parse_incoming_json ::
  "string option \<Rightarrow> xiaozhi_incoming_event \<Rightarrow> rc \<times> xiaozhi_incoming_event" where
  "xiaozhi_parse_incoming_json json event =
     (case json of
        None \<Rightarrow> (- 1, event)
      | Some text \<Rightarrow>
          (case cJSON_Parse text of
             None \<Rightarrow> (- 1, zero_incoming_event)
           | Some r \<Rightarrow>
               (let root = Some r;
                    type = cJSON_GetObjectItem root ''type'';
                    state = cJSON_GetObjectItem root ''state'';
                    session_id = cJSON_GetObjectItem root ''session_id'';
                    txt = cJSON_GetObjectItem root ''text'';
                    emotion = cJSON_GetObjectItem root ''emotion'';
                    audio_params = cJSON_GetObjectItem root ''audio_params'';
                    rate = cJSON_GetObjectItem audio_params ''sample_rate'';
                    chans = cJSON_GetObjectItem audio_params ''channels''
                in (0, \<lparr>xe_type = parse_type type state,
                        xe_session_id = copy_json_string 64 session_id,
                        xe_text = copy_json_string 256 txt,
                        xe_emotion = copy_json_string 64 emotion,
                        xe_output_sample_rate =
                          (if cJSON_IsNumber rate then valueint (the rate) else 0),
                        xe_output_channels =
                          (if cJSON_IsNumber chans then valueint (the chans) else 0)\<rparr>))))"

subsection \<open>Lemmas\<close>

lemma length_quoted [simp]: "length (quoted s) = length s + 2"
  by (simp add: quoted_def)

text \<open>A string without quotes, backslashes and control characters is printed as it is.\<close>

definition plain :: "string \<Rightarrow> bool" where
  "plain s \<longleftrightarrow> (\<forall>c \<in> set s. (31::nat) < of_char c \<and> c \<noteq> CHR 0x22 \<and> c \<noteq> CHR 0x5C)"

lemma plain_simps [simp]:
  "plain []"
  "plain (c # s) \<longleftrightarrow> (31::nat) < of_char c \<and> c \<noteq> CHR 0x22 \<and> c \<noteq> CHR 0x5C \<and> plain s"
  by (auto simp: plain_def)

lemma plain_c_ok: "plain s \<Longrightarrow> c_ok s"
  by (induction s) auto

lemma print_plain: "plain s \<Longrightarrow> print_string_ptr s = quoted s"
proof -
  assume "plain s"
  then have "concat (map escape_char s) = s"
    by (induction s) (auto simp: escape_char_def)
  then show ?thesis by (simp add: print_string_ptr_def quoted_def)
qed

definition hello_config_ok :: "xiaozhi_hello_config \<Rightarrow> bool" where
  "hello_config_ok c \<longleftrightarrow> is_int32 (protocol_version c) \<and> is_int32 (sample_rate c) \<and>
     is_int32 (channels c) \<and> is_int32 (frame_duration_ms c)"

definition int_item :: "int \<Rightarrow> cJSON" where
  "int_item i = cJSON_Number i (dbl_of_int i)"

lemma hello_message_ok:
  "hello_config_ok c \<Longrightarrow> hello_message c =
     cJSON_Object [(''type'', cJSON_String ''hello''),
       (''version'', int_item (protocol_version c)),
       (''transport'', cJSON_String ''websocket''),
       (''audio_params'', cJSON_Object [(''format'', cJSON_String ''opus''),
          (''sample_rate'', int_item (sample_rate c)),
          (''channels'', int_item (channels c)),
          (''frame_duration'', int_item (frame_duration_ms c))])]"
  by (simp add: hello_message_def hello_config_ok_def cJSON_AddStringToObject_def
      cJSON_AddNumberToObject_def int_item_def Let_def)

lemma hello_message_wf: "hello_config_ok c \<Longrightarrow> wf_json (hello_message c)"
  by (simp add: hello_message_ok int_item_def) (simp add: hello_config_ok_def)

lemma print_hello:
  "hello_config_ok c \<Longrightarrow> cJSON_PrintUnformatted (hello_message c) = Some
     (''{'' @ quoted ''type'' @ '':'' @ quoted ''hello'' @ '','' @
      quoted ''version'' @ '':'' @ show_int (protocol_version c) @ '','' @
      quoted ''transport'' @ '':'' @ quoted ''websocket'' @ '','' @
      quoted ''audio_params'' @ '':'' @ ''{'' @
      quoted ''format'' @ '':'' @ quoted ''opus'' @ '','' @
      quoted ''sample_rate'' @ '':'' @ show_int (sample_rate c) @ '','' @
      quoted ''channels'' @ '':'' @ show_int (channels c) @ '','' @
      quoted ''frame_duration'' @ '':'' @ show_int (frame_duration_ms c) @ ''}}'')"
  by (simp add: hello_message_ok cJSON_PrintUnformatted_def int_item_def print_plain)

text \<open>The \<open>listen\<close> messages are what cJSON prints for these trees when the session id is plain.\<close>

definition listen_message :: "string \<Rightarrow> string \<Rightarrow> cJSON" where
  "listen_message sid state =
     cJSON_Object [(''session_id'', cJSON_String sid), (''type'', cJSON_String ''listen''),
       (''state'', cJSON_String state), (''mode'', cJSON_String ''manual'')]"

lemma print_listen:
  "plain sid \<Longrightarrow> plain state \<Longrightarrow> cJSON_PrintUnformatted (listen_message sid state) = Some
     (''{'' @ quoted ''session_id'' @ '':'' @ quoted sid @ '','' @
      quoted ''type'' @ '':'' @ quoted ''listen'' @ '','' @
      quoted ''state'' @ '':'' @ quoted state @ '','' @
      quoted ''mode'' @ '':'' @ quoted ''manual'' @ ''}'')"
  by (simp add: listen_message_def cJSON_PrintUnformatted_def print_plain)

lemma parse_listen:
  "plain sid \<Longrightarrow> plain state \<Longrightarrow>
     cJSON_Parse (''{'' @ quoted ''session_id'' @ '':'' @ quoted sid @ '','' @
      quoted ''type'' @ '':'' @ quoted ''listen'' @ '','' @
      quoted ''state'' @ '':'' @ quoted state @ '','' @
      quoted ''mode'' @ '':'' @ quoted ''manual'' @ ''}'') = Some (listen_message sid state)"
  by (rule cJSON_Parse_of_print [OF _ print_listen])
     (simp_all add: listen_message_def plain_c_ok)

lemma length_copy_json_string: "0 < n \<Longrightarrow> length (copy_json_string n item) < n"
  by (simp add: copy_json_string_def)

subsection \<open>Properties\<close>

text \<open>
  C31: the hello of every configuration fits the 512-byte buffer of \<open>app_send_hello\<close>, is built
  without error and uncut, and reads back as the announced version, transport and audio
  parameters.
\<close>

theorem build_hello_parses:
  assumes "hello_config_ok c"
  shows "fst (xiaozhi_build_hello (Some c) 512) = 0 \<and>
         length (snd (xiaozhi_build_hello (Some c) 512)) < 512 \<and>
         cJSON_Parse (snd (xiaozhi_build_hello (Some c) 512)) =
           Some (cJSON_Object [(''type'', cJSON_String ''hello''),
             (''version'', cJSON_Number (protocol_version c) (dbl_of_int (protocol_version c))),
             (''transport'', cJSON_String ''websocket''),
             (''audio_params'', cJSON_Object [(''format'', cJSON_String ''opus''),
               (''sample_rate'', cJSON_Number (sample_rate c) (dbl_of_int (sample_rate c))),
               (''channels'', cJSON_Number (channels c) (dbl_of_int (channels c))),
               (''frame_duration'',
                  cJSON_Number (frame_duration_ms c) (dbl_of_int (frame_duration_ms c)))])])"
proof -
  obtain t where t: "cJSON_PrintUnformatted (hello_message c) = Some t" "length t < 512"
    using print_hello [OF assms] assms length_show_int [of "protocol_version c"]
      length_show_int [of "sample_rate c"] length_show_int [of "channels c"]
      length_show_int [of "frame_duration_ms c"]
    by (simp add: hello_config_ok_def)
  have "cJSON_Parse t = Some (hello_message c)"
    by (rule cJSON_Parse_of_print [OF hello_message_wf [OF assms] t(1)])
  with t show ?thesis
    by (simp add: xiaozhi_build_hello_def print_json_def hello_message_ok [OF assms] int_item_def)
qed

theorem build_hello_parses_witness:
  "fst (xiaozhi_build_hello (Some \<lparr>protocol_version = 1, sample_rate = 16000, channels = 1,
          frame_duration_ms = 60\<rparr>) 512) = 0"
  using build_hello_parses [of "\<lparr>protocol_version = 1, sample_rate = 16000, channels = 1,
          frame_duration_ms = 60\<rparr>"]
  by (simp add: hello_config_ok_def is_int32_def)

text \<open>
  For a session id of printable characters without quotes or backslashes, as long as the
  client stores (at most 63), the manual \<open>listen\<close> messages are built into their 256-byte
  buffer without error and say, to a JSON reader, exactly that session id, type, state and
  mode; without a session id nothing is built.
\<close>

theorem build_listen_manual_parses:
  assumes "plain sid" and "sid \<noteq> []" and "length sid < 64"
  shows "\<exists>start stop.
           xiaozhi_build_listen_start_manual (Some sid) 256 = (0, start) \<and>
           cJSON_Parse start = Some (cJSON_Object [(''session_id'', cJSON_String sid),
             (''type'', cJSON_String ''listen''), (''state'', cJSON_String ''start''),
             (''mode'', cJSON_String ''manual'')]) \<and>
           xiaozhi_build_listen_stop_manual (Some sid) 256 = (0, stop) \<and>
           cJSON_Parse stop = Some (cJSON_Object [(''session_id'', cJSON_String sid),
             (''type'', cJSON_String ''listen''), (''state'', cJSON_String ''stop''),
             (''mode'', cJSON_String ''manual'')]) \<and>
           fst (xiaozhi_build_listen_start_manual (Some []) 256) = - 1 \<and>
           fst (xiaozhi_build_listen_stop_manual (Some []) 256) = - 1"
  using assms parse_listen [OF assms(1), of "''start''"] parse_listen [OF assms(1), of "''stop''"]
  by (simp add: xiaozhi_build_listen_start_manual_def xiaozhi_build_listen_stop_manual_def
      snprintf_checked_def snprintf_rc_def listen_message_def)

theorem build_listen_manual_parses_witness:
  "\<exists>start. xiaozhi_build_listen_start_manual (Some ''abc123'') 256 = (0, start)"
  using build_listen_manual_parses [of "''abc123''"] by auto

definition hostile_session_id :: string where
  "hostile_session_id = ''x'' @ [CHR 0x22] @ '','' @ quoted ''mode'' @ '':'' @ [CHR 0x22] @ ''auto''"

text \<open>
  The session id goes into the \<open>listen\<close> messages without JSON escaping, although the
  client received it from a parsed, unescaped JSON string: there is a session id the client
  accepts for which the start message reads as an automatic-mode request.
\<close>

theorem listen_start_injection:
  "c_ok hostile_session_id \<and> length hostile_session_id < 64 \<and>
   (\<exists>msg. xiaozhi_build_listen_start_manual (Some hostile_session_id) 256 = (0, msg) \<and>
      cJSON_GetObjectItem (cJSON_Parse msg) ''mode'' = Some (cJSON_String ''auto'') \<and>
      cJSON_GetObjectItem (cJSON_Parse msg) ''session_id'' = Some (cJSON_String ''x''))"
proof -
  let ?tree = "cJSON_Object [(''session_id'', cJSON_String ''x''), (''mode'', cJSON_String ''auto''),
      (''type'', cJSON_String ''listen''), (''state'', cJSON_String ''start''),
      (''mode'', cJSON_String ''manual'')]"
  obtain msg where msg: "xiaozhi_build_listen_start_manual (Some hostile_session_id) 256 = (0, msg)"
      "cJSON_PrintUnformatted ?tree = Some msg"
    by (simp add: xiaozhi_build_listen_start_manual_def snprintf_checked_def snprintf_rc_def
        hostile_session_id_def cJSON_PrintUnformatted_def print_plain quoted_def)
  have "cJSON_Parse msg = Some ?tree"
    by (rule cJSON_Parse_of_print [OF _ msg(2)]) simp
  with msg(1) show ?thesis
    by (simp add: hostile_session_id_def quoted_def cJSON_GetObjectItem_def
        case_insensitive_eq_def tolower_def)
qed

definition server_hello :: "string \<Rightarrow> int \<Rightarrow> int \<Rightarrow> cJSON" where
  "server_hello sid rate chans =
     cJSON_Object [(''type'', cJSON_String ''hello''), (''session_id'', cJSON_String sid),
       (''audio_params'', cJSON_Object [(''sample_rate'', int_item rate),
          (''channels'', int_item chans)])]"

lemma server_hello_parsed:
  assumes "c_ok sid" and "is_int32 rate" and "is_int32 chans"
    and "cJSON_PrintUnformatted (server_hello sid rate chans) = Some msg"
  shows "xiaozhi_parse_incoming_json (Some msg) ev0 =
         (0, \<lparr>xe_type = XIAOZHI_EVENT_HELLO, xe_session_id = take 63 sid, xe_text = [],
              xe_emotion = [], xe_output_sample_rate = rate, xe_output_channels = chans\<rparr>)"
proof -
  have "cJSON_Parse msg = Some (server_hello sid rate chans)"
    by (rule cJSON_Parse_of_print [OF _ assms(4)])
       (use assms in \<open>simp add: server_hello_def int_item_def\<close>)
  then show ?thesis
    by (simp add: xiaozhi_parse_incoming_json_def server_hello_def cJSON_GetObjectItem_def
        case_insensitive_eq_def tolower_def int_item_def parse_type_def copy_json_string_def
        snprintf_buf_def)
qed

text \<open>
  C32: what the parser puts into an incoming event always fits the event's arrays, for every text; a
  text that is not JSON gives -1 and an empty event, every other text gives 0.
\<close>

theorem parse_incoming_bounds:
  assumes "xiaozhi_parse_incoming_json (Some text) ev0 = (r, ev)"
  shows "length (xe_session_id ev) < 64 \<and> length (xe_text ev) < 256 \<and>
         length (xe_emotion ev) < 64 \<and>
         (if cJSON_Parse text = None then r = - 1 \<and> ev = zero_incoming_event else r = 0)"
  using assms
  by (auto simp: xiaozhi_parse_incoming_json_def Let_def zero_incoming_event_def
      length_copy_json_string split: option.splits)

text \<open>A text that is not JSON, and a hello whose session id is longer than its field.\<close>

theorem parse_incoming_bounds_witness:
  "xiaozhi_parse_incoming_json (Some ''junk!'') zero_incoming_event = (- 1, zero_incoming_event) \<and>
   (\<exists>msg ev. cJSON_PrintUnformatted (server_hello (replicate 70 CHR ''a'') 24000 1) = Some msg \<and>
      xiaozhi_parse_incoming_json (Some msg) zero_incoming_event = (0, ev) \<and> length (xe_session_id ev) = 63)"
proof -
  obtain r ev where junk: "xiaozhi_parse_incoming_json (Some ''junk!'') zero_incoming_event = (r, ev)" by fastforce
  have "cJSON_Parse ''junk!'' = None" by code_simp
  with parse_incoming_bounds [OF junk] junk
  have one: "xiaozhi_parse_incoming_json (Some ''junk!'') zero_incoming_event = (- 1, zero_incoming_event)" by simp
  let ?sid = "replicate 70 CHR ''a''"
  obtain msg where msg: "cJSON_PrintUnformatted (server_hello ?sid 24000 1) = Some msg"
    by (simp add: server_hello_def int_item_def cJSON_PrintUnformatted_def)
  have "c_ok ?sid" by (simp add: c_ok_def)
  from server_hello_parsed [OF this _ _ msg, of zero_incoming_event] have
    "\<exists>ev2. xiaozhi_parse_incoming_json (Some msg) zero_incoming_event = (0, ev2) \<and> length (xe_session_id ev2) = 63"
    by (simp add: is_int32_def)
  then obtain ev2 where long: "xiaozhi_parse_incoming_json (Some msg) zero_incoming_event = (0, ev2)"
    "length (xe_session_id ev2) = 63" by blast
  with parse_incoming_bounds [OF long(1)] one msg show ?thesis by blast
qed

text \<open>
  C33: the server's hello is understood whatever its session id: the printed form of a hello
  with a session id and audio parameters parses as a hello event carrying the first 63
  bytes of the id, the sample rate and the channel count.
\<close>

theorem server_hello_understood:
  assumes "c_ok sid" and "is_int32 rate" and "is_int32 chans"
    and "cJSON_PrintUnformatted (server_hello sid rate chans) = Some msg"
  shows "xiaozhi_parse_incoming_json (Some msg) ev0 =
         (0, \<lparr>xe_type = XIAOZHI_EVENT_HELLO, xe_session_id = take 63 sid, xe_text = [],
              xe_emotion = [], xe_output_sample_rate = rate, xe_output_channels = chans\<rparr>)"
  by (rule server_hello_parsed [OF assms])

theorem server_hello_understood_witness:
  "\<exists>msg. cJSON_PrintUnformatted (server_hello ''abc'' 24000 1) = Some msg \<and>
     xe_session_id (snd (xiaozhi_parse_incoming_json (Some msg) zero_incoming_event)) = ''abc''"
proof -
  obtain msg where "cJSON_PrintUnformatted (server_hello ''abc'' 24000 1) = Some msg"
    by (simp add: server_hello_def int_item_def cJSON_PrintUnformatted_def)
  with server_hello_understood [of "''abc''" 24000 1 msg zero_incoming_event]
  show ?thesis by (auto simp: is_int32_def)
qed

end
