(* ===== verification/Session_FSM.thy ===== *)
theory Session_FSM
  imports Event_Queue
begin

section \<open>The session state machine (\<open>src/session.c\<close>)\<close>

text \<open>
  \<open>session_handle_event\<close> maps the state and an application event to the next state and the
  action the application has to carry out. The machine is only half of the protocol: some
  states are entered by the application itself (\<open>src/app.c\<close> assigns \<open>session.state\<close> when the
  server starts to speak, when playback ends and when it reconnects), which theory \<open>App\<close>
  models. Here: the transition table as a step relation, its equivalence with the code, and
  what a run of the machine alone can and cannot do.
\<close>

datatype session_state =
    SESSION_STATE_IDLE
  | SESSION_STATE_WAKE_DETECTING
  | SESSION_STATE_CONNECTING
  | SESSION_STATE_HANDSHAKING
  | SESSION_STATE_READY
  | SESSION_STATE_UPLOADING_AUDIO
  | SESSION_STATE_WAITING_TTS
  | SESSION_STATE_PLAYING_TTS
  | SESSION_STATE_ERROR_BACKOFF

datatype session_action =
    SESSION_ACTION_NONE
  | SESSION_ACTION_CONNECT
  | SESSION_ACTION_SEND_HELLO
  | SESSION_ACTION_START_LISTEN
  | SESSION_ACTION_STOP_LISTEN
  | SESSION_ACTION_ABORT
  | SESSION_ACTION_START_PLAYBACK
  | SESSION_ACTION_RETURN_TO_WAKE

record session =
  ss_state :: session_state

definition session_init :: "session \<Rightarrow> session" where
  "session_init s = s\<lparr>ss_state := SESSION_STATE_IDLE\<rparr>"

definition session_handle_error :: "session \<Rightarrow> session \<times> session_action" where
  "session_handle_error s =
     (s\<lparr>ss_state := SESSION_STATE_ERROR_BACKOFF\<rparr>, SESSION_ACTION_RETURN_TO_WAKE)"

definition session_handle_event :: "session \<Rightarrow> app_event_type \<Rightarrow> session \<times> session_action" where
  "session_handle_event s event =
     (if event = APP_EVENT_ERROR then session_handle_error s
      else if ss_state s = SESSION_STATE_IDLE \<or> ss_state s = SESSION_STATE_WAKE_DETECTING then
        (if event = APP_EVENT_MANUAL_START \<or> event = APP_EVENT_WAKEWORD_DETECTED
         then (s\<lparr>ss_state := SESSION_STATE_CONNECTING\<rparr>, SESSION_ACTION_CONNECT)
         else (s, SESSION_ACTION_NONE))
      else if ss_state s = SESSION_STATE_CONNECTING then
        (if event = APP_EVENT_WS_CONNECTED
         then (s\<lparr>ss_state := SESSION_STATE_HANDSHAKING\<rparr>, SESSION_ACTION_SEND_HELLO)
         else (s, SESSION_ACTION_NONE))
      else if ss_state s = SESSION_STATE_HANDSHAKING then
        (if event = APP_EVENT_WS_HELLO
         then (s\<lparr>ss_state := SESSION_STATE_READY\<rparr>, SESSION_ACTION_NONE)
         else (s, SESSION_ACTION_NONE))
      else if ss_state s = SESSION_STATE_READY then
        (if event = APP_EVENT_MANUAL_START \<or> event = APP_EVENT_WAKEWORD_DETECTED
         then (s\<lparr>ss_state := SESSION_STATE_UPLOADING_AUDIO\<rparr>, SESSION_ACTION_START_LISTEN)
         else (s, SESSION_ACTION_NONE))
      else if ss_state s = SESSION_STATE_UPLOADING_AUDIO then
        (if event = APP_EVENT_WS_BINARY then (s, SESSION_ACTION_NONE)
         else if event = APP_EVENT_MANUAL_STOP
         then (s\<lparr>ss_state := SESSION_STATE_WAITING_TTS\<rparr>, SESSION_ACTION_STOP_LISTEN)
         else (s, SESSION_ACTION_NONE))
      else if ss_state s = SESSION_STATE_PLAYING_TTS then
        (if event = APP_EVENT_MANUAL_START \<or> event = APP_EVENT_WAKEWORD_DETECTED
         then (s\<lparr>ss_state := SESSION_STATE_CONNECTING\<rparr>, SESSION_ACTION_ABORT)
         else (s, SESSION_ACTION_NONE))
      else (s, SESSION_ACTION_NONE))"

definition is_start :: "app_event_type \<Rightarrow> bool" where
  "is_start event \<longleftrightarrow> event = APP_EVENT_MANUAL_START \<or> event = APP_EVENT_WAKEWORD_DETECTED"

subsection \<open>The transition table\<close>

text \<open>One rule per arrow of the diagram; an event with no arrow from the state is ignored.\<close>

inductive session_arrow ::
  "session_state \<Rightarrow> app_event_type \<Rightarrow> session_state \<Rightarrow> session_action \<Rightarrow> bool" where
  fail: "session_arrow st APP_EVENT_ERROR SESSION_STATE_ERROR_BACKOFF
           SESSION_ACTION_RETURN_TO_WAKE"
| connect: "is_start e \<Longrightarrow> st \<in> {SESSION_STATE_IDLE, SESSION_STATE_WAKE_DETECTING} \<Longrightarrow>
     session_arrow st e SESSION_STATE_CONNECTING SESSION_ACTION_CONNECT"
| connected: "session_arrow SESSION_STATE_CONNECTING APP_EVENT_WS_CONNECTED
     SESSION_STATE_HANDSHAKING SESSION_ACTION_SEND_HELLO"
| hello: "session_arrow SESSION_STATE_HANDSHAKING APP_EVENT_WS_HELLO
     SESSION_STATE_READY SESSION_ACTION_NONE"
| talk: "is_start e \<Longrightarrow> session_arrow SESSION_STATE_READY e
     SESSION_STATE_UPLOADING_AUDIO SESSION_ACTION_START_LISTEN"
| stop: "session_arrow SESSION_STATE_UPLOADING_AUDIO APP_EVENT_MANUAL_STOP
     SESSION_STATE_WAITING_TTS SESSION_ACTION_STOP_LISTEN"
| barge_in: "is_start e \<Longrightarrow> session_arrow SESSION_STATE_PLAYING_TTS e
     SESSION_STATE_CONNECTING SESSION_ACTION_ABORT"

inductive_simps session_arrow_simps: "session_arrow st e st' a"

inductive session_reachable :: "session_state \<Rightarrow> bool" where
  start: "session_reachable SESSION_STATE_IDLE"
| step: "session_reachable st \<Longrightarrow> session_arrow st e st' a \<Longrightarrow> session_reachable st'"

definition ignored :: "session_state \<Rightarrow> app_event_type \<Rightarrow> bool" where
  "ignored st e \<longleftrightarrow> (\<nexists>st' a. session_arrow st e st' a)"

lemma session_arrow_handle:
  "session_arrow (ss_state s) e st' a \<Longrightarrow> session_handle_event s e = (s\<lparr>ss_state := st'\<rparr>, a)"
  by (auto simp: session_arrow_simps is_start_def session_handle_event_def session_handle_error_def)

lemma session_arrow_det:
  assumes "session_arrow st e st1 a1" and "session_arrow st e st2 a2"
  shows "st1 = st2 \<and> a1 = a2"
  using session_arrow_handle [of "\<lparr>ss_state = st\<rparr>" e st1 a1]
    session_arrow_handle [of "\<lparr>ss_state = st\<rparr>" e st2 a2] assms by simp

lemma session_handle_arrow:
  "session_handle_event s e \<noteq> (s, SESSION_ACTION_NONE) \<Longrightarrow>
     \<exists>st' a. session_arrow (ss_state s) e st' a"
  by (cases "e = APP_EVENT_ERROR"; cases "is_start e"; cases "ss_state s")
     (simp_all add: session_handle_event_def is_start_def split: if_splits,
      (blast intro: session_arrow.intros [unfolded is_start_def])+)

lemma session_ignored_handle:
  "ignored (ss_state s) e \<Longrightarrow> session_handle_event s e = (s, SESSION_ACTION_NONE)"
  using session_handle_arrow unfolding ignored_def by blast

text \<open>
  \<open>session_handle_event\<close> is the transition table: the code moves to a state with an action
  exactly when the table has that arrow, or when the event has no arrow from the state and the
  code leaves the session alone and asks for nothing.
\<close>

theorem session_handle_event_table:
  "session_handle_event s e = (s', a) \<longleftrightarrow>
     (\<exists>st. session_arrow (ss_state s) e st a \<and> s' = s\<lparr>ss_state := st\<rparr>) \<or>
     ignored (ss_state s) e \<and> s' = s \<and> a = SESSION_ACTION_NONE"
proof (cases "ignored (ss_state s) e")
  case True
  then show ?thesis
    by (simp add: session_ignored_handle) (auto simp: ignored_def)
next
  case False
  then obtain st' b where arrow: "session_arrow (ss_state s) e st' b"
    unfolding ignored_def by blast
  have "(\<exists>st. session_arrow (ss_state s) e st a \<and> s' = s\<lparr>ss_state := st\<rparr>) \<longleftrightarrow>
        s' = s\<lparr>ss_state := st'\<rparr> \<and> a = b"
    using session_arrow_det [OF arrow] arrow by blast
  with False show ?thesis
    by (auto simp: session_arrow_handle [OF arrow])
qed

lemma session_handle_event_cases:
  assumes "session_handle_event s e = (s', a)"
  obtains (arrow) "session_arrow (ss_state s) e (ss_state s') a"
  | (ignored) "s' = s" "a = SESSION_ACTION_NONE"
proof (cases "ignored (ss_state s) e")
  case True
  then show ?thesis using assms session_ignored_handle that(2) by auto
next
  case False
  then obtain st' b where "session_arrow (ss_state s) e st' b"
    unfolding ignored_def by blast
  then show ?thesis using assms session_arrow_handle that(1) by fastforce
qed

subsection \<open>Runs\<close>

fun session_run :: "session \<Rightarrow> app_event_type list \<Rightarrow> session \<times> session_action list" where
  "session_run s [] = (s, [])"
| "session_run s (e # es) =
     (let (s1, a) = session_handle_event s e; (s2, as) = session_run s1 es in (s2, a # as))"

fun in_order :: "(app_event_type \<Rightarrow> bool) list \<Rightarrow> app_event_type list \<Rightarrow> bool" where
  "in_order [] es = True"
| "in_order (p # ps) [] = False"
| "in_order (p # ps) (e # es) = (if p e then in_order ps es else in_order (p # ps) es)"

lemma in_order_mono: "in_order ps es \<Longrightarrow> in_order ps (es @ [e])"
  by (induction ps es rule: in_order.induct) auto

lemma in_order_snoc: "in_order ps es \<Longrightarrow> p e \<Longrightarrow> in_order (ps @ [p]) (es @ [e])"
proof (induction ps es rule: in_order.induct)
  case (1 es)
  then show ?case by (induction es) auto
qed (auto split: if_splits)

lemma session_run_snoc:
  "session_run s (es @ [e]) =
     (let (s1, as) = session_run s es; (s2, a) = session_handle_event s1 e in (s2, as @ [a]))"
  by (induction es arbitrary: s) (auto split: prod.splits)

text \<open>What must have happened, in this order, for the machine to be in a state.\<close>

fun history :: "session_state \<Rightarrow> (app_event_type \<Rightarrow> bool) list" where
  "history SESSION_STATE_CONNECTING = [is_start]"
| "history SESSION_STATE_HANDSHAKING = [is_start, (=) APP_EVENT_WS_CONNECTED]"
| "history SESSION_STATE_READY =
     [is_start, (=) APP_EVENT_WS_CONNECTED, (=) APP_EVENT_WS_HELLO]"
| "history SESSION_STATE_UPLOADING_AUDIO =
     [is_start, (=) APP_EVENT_WS_CONNECTED, (=) APP_EVENT_WS_HELLO, is_start]"
| "history SESSION_STATE_WAITING_TTS =
     [is_start, (=) APP_EVENT_WS_CONNECTED, (=) APP_EVENT_WS_HELLO, is_start,
      (=) APP_EVENT_MANUAL_STOP]"
| "history SESSION_STATE_ERROR_BACKOFF = [(=) APP_EVENT_ERROR]"
| "history _ = []"

lemma session_reachable_states:
  "session_reachable st \<Longrightarrow> st \<notin> {SESSION_STATE_WAKE_DETECTING, SESSION_STATE_PLAYING_TTS}"
  by (induction rule: session_reachable.induct) (auto simp: session_arrow_simps)

lemma history_step:
  assumes "session_arrow st e st' a" and "st \<noteq> SESSION_STATE_PLAYING_TTS"
    and "in_order (history st) es"
  shows "in_order (history st') (es @ [e])"
  using assms in_order_snoc [of "history st" es] in_order_snoc [of "[]" es]
  by (auto simp: session_arrow_simps)

lemma session_run_history:
  "session_run (session_init s) es = (s', as) \<Longrightarrow>
     session_reachable (ss_state s') \<and> in_order (history (ss_state s')) es"
proof (induction es arbitrary: s' as rule: rev_induct)
  case Nil
  then show ?case by (auto simp: session_init_def intro: session_reachable.start)
next
  case (snoc e es)
  obtain s1 as1 where run: "session_run (session_init s) es = (s1, as1)" by fastforce
  then have ih: "session_reachable (ss_state s1)" "in_order (history (ss_state s1)) es"
    using snoc.IH by auto
  then have "ss_state s1 \<noteq> SESSION_STATE_PLAYING_TTS" using session_reachable_states by blast
  note not_playing = this
  obtain a where "session_handle_event s1 e = (s', a)"
    using snoc.prems by (auto simp: session_run_snoc run split: prod.splits)
  then show ?case
    by (cases rule: session_handle_event_cases)
      (use ih not_playing in \<open>auto intro: session_reachable.step history_step in_order_mono\<close>)
qed

lemma session_run_actions:
  "session_run s es = (s', as) \<Longrightarrow> i < length as \<Longrightarrow>
     \<exists>s1 s2. session_run s (take i es) = (s1, take i as) \<and>
       session_handle_event s1 (es ! i) = (s2, as ! i) \<and> i < length es"
proof (induction es arbitrary: s s' as i)
  case Nil
  then show ?case by simp
next
  case (Cons e es)
  obtain s1 a where step: "session_handle_event s e = (s1, a)" by fastforce
  obtain s2 bs where run: "session_run s1 es = (s2, bs)" by fastforce
  have as: "as = a # bs" using Cons.prems(1) step run by simp
  show ?case
  proof (cases i)
    case 0
    then show ?thesis using step as by simp
  next
    case (Suc k)
    with Cons.prems(2) as have "k < length bs" by simp
    from Cons.IH [OF run this] Suc as step show ?thesis by auto
  qed
qed

text \<open>
  The machine asks for the upload to start only after, in this order, a start request, the
  connection of the websocket, the server's hello and a second start request; and to stop it
  only after a stop request that follows all of these. Whatever else happens in between, errors
  included, an action of the handshake is never skipped.
\<close>

theorem session_upload_needs_handshake:
  assumes "session_run (session_init s) es = (s', as)" and "i < length as"
  shows "(as ! i = SESSION_ACTION_START_LISTEN \<longrightarrow>
            in_order (history SESSION_STATE_UPLOADING_AUDIO) (take (Suc i) es)) \<and>
         (as ! i = SESSION_ACTION_STOP_LISTEN \<longrightarrow>
            in_order (history SESSION_STATE_WAITING_TTS) (take (Suc i) es))"
proof -
  from session_run_actions [OF assms] obtain s1 s2 where
    run: "session_run (session_init s) (take i es) = (s1, take i as)" and
    step: "session_handle_event s1 (es ! i) = (s2, as ! i)" and "i < length es"
    by blast
  then have "session_run (session_init s) (take (Suc i) es) = (s2, take i as @ [as ! i])"
    by (simp add: take_Suc_conv_app_nth session_run_snoc)
  then have "in_order (history (ss_state s2)) (take (Suc i) es)"
    using session_run_history by blast
  with step show ?thesis
    by (cases rule: session_handle_event_cases) (auto simp: session_arrow_simps)
qed

theorem session_upload_needs_handshake_witness:
  "let es = [APP_EVENT_MANUAL_START, APP_EVENT_WS_TEXT, APP_EVENT_WS_CONNECTED,
             APP_EVENT_WS_HELLO, APP_EVENT_WAKEWORD_DETECTED]
   in snd (session_run (session_init \<lparr>ss_state = SESSION_STATE_READY\<rparr>) es) ! 4 =
        SESSION_ACTION_START_LISTEN \<and>
      in_order (history SESSION_STATE_UPLOADING_AUDIO) es"
  using session_upload_needs_handshake
    [of "\<lparr>ss_state = SESSION_STATE_READY\<rparr>"
        "[APP_EVENT_MANUAL_START, APP_EVENT_WS_TEXT, APP_EVENT_WS_CONNECTED,
          APP_EVENT_WS_HELLO, APP_EVENT_WAKEWORD_DETECTED]" _ _ 4]
  by (simp add: session_init_def session_handle_event_def)

text \<open>
  Once in the error state the machine alone never leaves it, and asks for nothing but more
  recovery: reconnecting is up to the application, which overwrites the state.
\<close>

theorem session_backoff_absorbing:
  assumes "ss_state s = SESSION_STATE_ERROR_BACKOFF"
  shows "fst (session_run s es) = s \<and>
         snd (session_run s es) = map (\<lambda>e. if e = APP_EVENT_ERROR
           then SESSION_ACTION_RETURN_TO_WAKE else SESSION_ACTION_NONE) es"
proof -
  have "session_handle_event s e = (s, if e = APP_EVENT_ERROR
          then SESSION_ACTION_RETURN_TO_WAKE else SESSION_ACTION_NONE)" for e
    using assms by (cases s) (simp add: session_handle_event_def session_handle_error_def)
  then show ?thesis by (induction es) (auto split: prod.splits)
qed

theorem session_backoff_absorbing_witness:
  "fst (session_run \<lparr>ss_state = SESSION_STATE_ERROR_BACKOFF\<rparr>
          [APP_EVENT_WS_CONNECTED, APP_EVENT_MANUAL_START]) =
     \<lparr>ss_state = SESSION_STATE_ERROR_BACKOFF\<rparr>"
  using session_backoff_absorbing
    [of "\<lparr>ss_state = SESSION_STATE_ERROR_BACKOFF\<rparr>"
        "[APP_EVENT_WS_CONNECTED, APP_EVENT_MANUAL_START]"] by simp

end
