(* ===== verification/Config.thy ===== *)
theory Config
  imports Xz_Prelude
begin

section \<open>The configuration file (\<open>src/config.c\<close>)\<close>

text \<open>
  The INI reader: \<open>strtok_r\<close> over the lines, \<open>trim\<close>, section headers, \<open>key=value\<close>
  assignments into the fixed-size fields, and the validation at the end. The error text goes
  to a caller's buffer of \<open>err_size\<close> bytes, which may be missing (\<open>None\<close>). The outcome of
  \<open>strdup\<close> and of the file calls of \<open>config_load_file\<close> are arguments.
\<close>

record server_config =
  sv_url :: string
  sv_token :: string
  sv_protocol_version :: int

record ota_config =
  oc_url :: string
  oc_accept_language :: string
  oc_app_version :: string
  oc_elf_sha256 :: string

record device_config =
  dc_device_id :: string
  dc_client_id :: string

record board_config =
  bc_type :: string
  bc_name :: string
  bc_ssid :: string
  bc_rssi :: int

record audio_config =
  au_capture_device :: string
  au_playback_device :: string
  au_input_sample_rate :: int
  au_silence_timeout_ms :: int
  au_silence_threshold :: int
  au_max_utterance_ms :: int

record runtime_config =
  rt_log_level :: string
  rt_reconnect_backoff_ms :: int

record app_config =
  cf_ota :: ota_config
  cf_server :: server_config
  cf_device :: device_config
  cf_board :: board_config
  cf_audio :: audio_config
  cf_runtime :: runtime_config

subsection \<open>Operations\<close>

definition set_error :: "string option \<Rightarrow> nat \<Rightarrow> string \<Rightarrow> string option" where
  "set_error err err_size msg =
     (case err of None \<Rightarrow> None
      | Some e \<Rightarrow> if err_size = 0 then Some e else Some (snprintf_buf err_size msg))"

text \<open>The second loop stops at the first character, which is not a space (\<open>end > s\<close>).\<close>

definition trim :: "string \<Rightarrow> string" where
  "trim s =
     (case dropWhile isspace s of
        [] \<Rightarrow> []
      | c # cs \<Rightarrow> c # rev (dropWhile isspace (rev cs)))"

definition copy_str :: "nat \<Rightarrow> string \<Rightarrow> string" where
  "copy_str dst_size src = snprintf_buf dst_size src"

definition config_apply_defaults :: app_config where
  "config_apply_defaults =
     \<lparr>cf_ota = \<lparr>oc_url = [], oc_accept_language = [], oc_app_version = [], oc_elf_sha256 = []\<rparr>,
      cf_server = \<lparr>sv_url = [], sv_token = [], sv_protocol_version = 1\<rparr>,
      cf_device = \<lparr>dc_device_id = [], dc_client_id = []\<rparr>,
      cf_board = \<lparr>bc_type = [], bc_name = [], bc_ssid = [], bc_rssi = 0\<rparr>,
      cf_audio = \<lparr>au_capture_device = copy_str 64 ''default'',
                  au_playback_device = copy_str 64 ''default'',
                  au_input_sample_rate = 16000, au_silence_timeout_ms = 1200,
                  au_silence_threshold = 500, au_max_utterance_ms = 15000\<rparr>,
      cf_runtime = \<lparr>rt_log_level = copy_str 16 ''info'', rt_reconnect_backoff_ms = 3000\<rparr>\<rparr>"

definition config_assign_value :: "app_config \<Rightarrow> string \<Rightarrow> string \<Rightarrow> string \<Rightarrow> app_config" where
  "config_assign_value cfg sec key val =
     (if sec = ''ota'' then
        cfg\<lparr>cf_ota :=
          (if key = ''url'' then (cf_ota cfg)\<lparr>oc_url := copy_str 256 val\<rparr>
           else if key = ''accept_language'' then (cf_ota cfg)\<lparr>oc_accept_language := copy_str 32 val\<rparr>
           else if key = ''app_version'' then (cf_ota cfg)\<lparr>oc_app_version := copy_str 64 val\<rparr>
           else if key = ''elf_sha256'' then (cf_ota cfg)\<lparr>oc_elf_sha256 := copy_str 96 val\<rparr>
           else cf_ota cfg)\<rparr>
      else if sec = ''server'' then
        cfg\<lparr>cf_server :=
          (if key = ''url'' then (cf_server cfg)\<lparr>sv_url := copy_str 256 val\<rparr>
           else if key = ''token'' then (cf_server cfg)\<lparr>sv_token := copy_str 256 val\<rparr>
           else if key = ''protocol_version'' then (cf_server cfg)\<lparr>sv_protocol_version := atoi val\<rparr>
           else cf_server cfg)\<rparr>
      else if sec = ''device'' then
        cfg\<lparr>cf_device :=
          (if key = ''device_id'' then (cf_device cfg)\<lparr>dc_device_id := copy_str 64 val\<rparr>
           else if key = ''client_id'' then (cf_device cfg)\<lparr>dc_client_id := copy_str 64 val\<rparr>
           else cf_device cfg)\<rparr>
      else if sec = ''board'' then
        cfg\<lparr>cf_board :=
          (if key = ''type'' then (cf_board cfg)\<lparr>bc_type := copy_str 64 val\<rparr>
           else if key = ''name'' then (cf_board cfg)\<lparr>bc_name := copy_str 64 val\<rparr>
           else if key = ''ssid'' then (cf_board cfg)\<lparr>bc_ssid := copy_str 64 val\<rparr>
           else if key = ''rssi'' then (cf_board cfg)\<lparr>bc_rssi := atoi val\<rparr>
           else cf_board cfg)\<rparr>
      else if sec = ''audio'' then
        cfg\<lparr>cf_audio :=
          (if key = ''capture_device'' then (cf_audio cfg)\<lparr>au_capture_device := copy_str 64 val\<rparr>
           else if key = ''playback_device'' then
             (cf_audio cfg)\<lparr>au_playback_device := copy_str 64 val\<rparr>
           else if key = ''input_sample_rate'' then
             (cf_audio cfg)\<lparr>au_input_sample_rate := atoi val\<rparr>
           else if key = ''silence_timeout_ms'' then
             (cf_audio cfg)\<lparr>au_silence_timeout_ms := atoi val\<rparr>
           else if key = ''silence_threshold'' then
             (cf_audio cfg)\<lparr>au_silence_threshold := atoi val\<rparr>
           else if key = ''max_utterance_ms'' then
             (cf_audio cfg)\<lparr>au_max_utterance_ms := atoi val\<rparr>
           else cf_audio cfg)\<rparr>
      else if sec = ''runtime'' then
        cfg\<lparr>cf_runtime :=
          (if key = ''log_level'' then (cf_runtime cfg)\<lparr>rt_log_level := copy_str 16 val\<rparr>
           else if key = ''reconnect_backoff_ms'' then
             (cf_runtime cfg)\<lparr>rt_reconnect_backoff_ms := atoi val\<rparr>
           else cf_runtime cfg)\<rparr>
      else cfg)"

definition config_validate :: "app_config \<Rightarrow> string option \<Rightarrow> nat \<Rightarrow> rc \<times> string option" where
  "config_validate cfg err err_size =
     (if oc_url (cf_ota cfg) = [] then (- 1, set_error err err_size ''missing ota.url'')
      else if oc_app_version (cf_ota cfg) = [] then
        (- 1, set_error err err_size ''missing ota.app_version'')
      else if bc_type (cf_board cfg) = [] then (- 1, set_error err err_size ''missing board.type'')
      else if bc_name (cf_board cfg) = [] then (- 1, set_error err err_size ''missing board.name'')
      else if sv_protocol_version (cf_server cfg) \<le> 0 then
        (- 1, set_error err err_size ''invalid server.protocol_version'')
      else (0, err))"

text \<open>\<open>strtok_r(.., "\n", ..)\<close>: the next non-empty line and where the search goes on.\<close>

definition strtok_line :: "string \<Rightarrow> (string \<times> string) option" where
  "strtok_line s =
     (case dropWhile (\<lambda>c. c = CHR 0x0A) s of
        [] \<Rightarrow> None
      | c # cs \<Rightarrow> Some (takeWhile (\<lambda>c. c \<noteq> CHR 0x0A) (c # cs),
                        drop 1 (dropWhile (\<lambda>c. c \<noteq> CHR 0x0A) (c # cs))))"

text \<open>
  The body of the loop over the lines: the configuration and the section after the line,
  \<open>None\<close> for a section header without \<open>]\<close>.
\<close>

definition config_line :: "string \<Rightarrow> app_config \<times> string \<Rightarrow> (app_config \<times> string) option" where
  "config_line line st =
     (let trimmed = trim line in
      if trimmed = [] \<or> hd trimmed = CHR ''#'' \<or> hd trimmed = CHR '';'' then Some st
      else if hd trimmed = CHR ''['' then
        (if CHR '']'' \<in> set trimmed
         then Some (fst st, copy_str 32 (tl (takeWhile (\<lambda>c. c \<noteq> CHR '']'') trimmed)))
         else None)
      else if CHR ''='' \<in> set trimmed then
        (let key = trim (takeWhile (\<lambda>c. c \<noteq> CHR ''='') trimmed);
             val = trim (tl (dropWhile (\<lambda>c. c \<noteq> CHR ''='') trimmed))
         in Some (config_assign_value (fst st) (snd st) key val, snd st))
      else Some st)"

lemma strtok_line_shorter: "strtok_line s = Some (line, rest) \<Longrightarrow> length rest < length s"
proof -
  assume *: "strtok_line s = Some (line, rest)"
  then obtain c cs where d: "dropWhile (\<lambda>c. c = CHR 0x0A) s = c # cs"
    and rest: "rest = drop 1 (dropWhile (\<lambda>c. c \<noteq> CHR 0x0A) (c # cs))"
    by (auto simp: strtok_line_def split: list.splits)
  have "length (dropWhile (\<lambda>c. c \<noteq> CHR 0x0A) (c # cs)) \<le> length (c # cs)"
    by (rule length_dropWhile_le)
  moreover have "length (c # cs) \<le> length s"
    using length_dropWhile_le [of "\<lambda>c. c = CHR 0x0A" s] unfolding d .
  ultimately show ?thesis unfolding rest by simp
qed

text \<open>The loop; the result says whether it ended at a malformed header.\<close>

function config_loop :: "string \<Rightarrow> app_config \<times> string \<Rightarrow> bool \<times> app_config" where
  "config_loop s st =
     (case strtok_line s of
        None \<Rightarrow> (True, fst st)
      | Some (line, rest) \<Rightarrow>
          (case config_line line st of
             None \<Rightarrow> (False, fst st)
           | Some st1 \<Rightarrow> config_loop rest st1))"
  by auto
termination
  by (relation "measure (\<lambda>(s, st). length s)") (auto dest: strtok_line_shorter)

declare config_loop.simps [simp del]

definition config_load_from_string ::
    "bool \<Rightarrow> string option \<Rightarrow> app_config \<Rightarrow> string option \<Rightarrow> nat
       \<Rightarrow> rc \<times> app_config \<times> string option" where
  "config_load_from_string strdup_ok ini out err err_size =
     (case ini of
        None \<Rightarrow> (- 1, out, set_error err err_size ''invalid arguments'')
      | Some txt \<Rightarrow>
          if \<not> strdup_ok then
            (- 1, config_apply_defaults, set_error err err_size ''out of memory'')
          else
            (case config_loop txt (config_apply_defaults, []) of
               (False, cfg) \<Rightarrow> (- 1, cfg, set_error err err_size ''invalid section header'')
             | (True, cfg) \<Rightarrow>
                 (let (r, err1) = config_validate cfg err err_size in (r, cfg, err1))))"

text \<open>What the file calls of \<open>config_load_file\<close> return; \<open>io_bytes\<close> is what \<open>fread\<close> delivered.\<close>

record file_io =
  io_open :: bool
  io_seek_end :: bool
  io_tell :: int
  io_rewind :: bool
  io_malloc :: bool
  io_bytes :: string
  io_strdup :: bool

definition config_load_file ::
    "string option \<Rightarrow> file_io \<Rightarrow> app_config \<Rightarrow> string option \<Rightarrow> nat
       \<Rightarrow> rc \<times> app_config \<times> string option" where
  "config_load_file path io out err err_size =
     (if path = None then (- 1, out, set_error err err_size ''invalid arguments'')
      else if \<not> io_open io then (- 1, out, set_error err err_size ''failed to open config file'')
      else if \<not> io_seek_end io then
        (- 1, out, set_error err err_size ''failed to seek config file'')
      else if io_tell io < 0 then
        (- 1, out, set_error err err_size ''failed to determine config size'')
      else if \<not> io_rewind io then
        (- 1, out, set_error err err_size ''failed to rewind config file'')
      else if \<not> io_malloc io then (- 1, out, set_error err err_size ''out of memory'')
      else if length (io_bytes io) \<noteq> nat (io_tell io) then
        (- 1, out, set_error err err_size ''failed to read config file'')
      else config_load_from_string (io_strdup io) (Some (c_str (io_bytes io))) out err err_size)"

subsection \<open>Lines\<close>

abbreviation newline :: char where
  "newline \<equiv> CHR 0x0A"

fun config_run :: "string list \<Rightarrow> app_config \<times> string \<Rightarrow> bool \<times> app_config" where
  "config_run [] st = (True, fst st)"
| "config_run (l # ls) st =
     (case config_line l st of None \<Rightarrow> (False, fst st) | Some st1 \<Rightarrow> config_run ls st1)"

definition unlines :: "string list \<Rightarrow> string" where
  "unlines ls = concat (map (\<lambda>l. l @ [newline]) ls)"

definition one_line :: "string \<Rightarrow> bool" where
  "one_line l \<longleftrightarrow> newline \<notin> set l"

lemma config_line_Nil [simp]: "config_line [] st = Some st"
  by (simp add: config_line_def trim_def)

lemma strtok_line_one:
  "one_line l \<Longrightarrow> l \<noteq> [] \<Longrightarrow> strtok_line (l @ newline # rest) = Some (l, rest)"
proof -
  assume one: "one_line l" and ne: "l \<noteq> []"
  then obtain c cs where l: "l = c # cs" and c: "c \<noteq> newline" and cs: "newline \<notin> set cs"
    by (cases l) (auto simp: one_line_def)
  have "takeWhile (\<lambda>c. c \<noteq> newline) (cs @ newline # rest) = cs"
    "dropWhile (\<lambda>c. c \<noteq> newline) (cs @ newline # rest) = newline # rest"
    using cs by (induction cs) auto
  then show ?thesis by (simp add: strtok_line_def l c)
qed

lemma config_loop_one:
  assumes "one_line l"
  shows "config_loop (l @ newline # rest) st =
         (case config_line l st of None \<Rightarrow> (False, fst st) | Some st1 \<Rightarrow> config_loop rest st1)"
proof (cases "l = []")
  case True
  have "strtok_line (newline # rest) = strtok_line rest"
    by (simp add: strtok_line_def)
  then show ?thesis
    by (simp add: True config_loop.simps [of "newline # rest"] config_loop.simps [of rest])
next
  case False
  with assms show ?thesis
    by (simp add: config_loop.simps [of "l @ newline # rest"] strtok_line_one)
qed

lemma config_loop_unlines: "\<forall>l \<in> set ls. one_line l \<Longrightarrow> config_loop (unlines ls) st = config_run ls st"
proof (induction ls arbitrary: st)
  case Nil
  then show ?case by (simp add: unlines_def config_loop.simps strtok_line_def)
next
  case (Cons l ls)
  then show ?case by (simp add: unlines_def config_loop_one split: option.splits)
qed

lemma config_run_noise:
  "(\<And>st. config_line l st = Some st) \<Longrightarrow> config_run (as @ l # bs) st = config_run (as @ bs) st"
  by (induction as arbitrary: st) (auto split: option.splits)

definition noise :: "string \<Rightarrow> bool" where
  "noise l \<longleftrightarrow> trim l = [] \<or> hd (trim l) = CHR ''#'' \<or> hd (trim l) = CHR '';'' \<or>
     hd (trim l) \<noteq> CHR ''['' \<and> CHR ''='' \<notin> set (trim l)"

text \<open>
  Blank lines, comments and lines that are neither a header nor an assignment have no
  effect wherever they stand: the outcome, the configuration and the error text of a load are
  those of the file without the line.
\<close>

theorem config_noise_ignored:
  assumes "noise l" and "\<forall>m \<in> set (as @ l # bs). one_line m"
  shows "config_load_from_string ok (Some (unlines (as @ l # bs))) out err n =
         config_load_from_string ok (Some (unlines (as @ bs))) out err n"
proof -
  have "config_line l st = Some st" for st
    using assms(1) by (auto simp: noise_def config_line_def Let_def)
  moreover have "\<forall>m \<in> set (as @ bs). one_line m" using assms(2) by simp
  ultimately show ?thesis
    by (simp only: config_load_from_string_def option.case config_loop_unlines [OF assms(2)]
        config_loop_unlines config_run_noise)
qed

theorem config_noise_ignored_witness:
  "config_load_from_string True (Some (unlines [''[ota]'', '' # url=x'', ''url=y'']))
     config_apply_defaults (Some []) 9 =
   config_load_from_string True (Some (unlines [''[ota]'', ''url=y'']))
     config_apply_defaults (Some []) 9"
  using config_noise_ignored [of "'' # url=x''" "[''[ota]'']" "[''url=y'']" True
      config_apply_defaults "Some []" 9]
  by (simp add: noise_def trim_def isspace_def one_line_def)

subsection \<open>What every load guarantees\<close>

definition field :: "nat \<Rightarrow> string \<Rightarrow> bool" where
  "field n s \<longleftrightarrow> length s < n \<and> c_ok s"

definition config_wf :: "app_config \<Rightarrow> bool" where
  "config_wf cfg \<longleftrightarrow>
     field 256 (oc_url (cf_ota cfg)) \<and> field 32 (oc_accept_language (cf_ota cfg)) \<and>
     field 64 (oc_app_version (cf_ota cfg)) \<and> field 96 (oc_elf_sha256 (cf_ota cfg)) \<and>
     field 256 (sv_url (cf_server cfg)) \<and> field 256 (sv_token (cf_server cfg)) \<and>
     is_int32 (sv_protocol_version (cf_server cfg)) \<and>
     field 64 (dc_device_id (cf_device cfg)) \<and> field 64 (dc_client_id (cf_device cfg)) \<and>
     field 64 (bc_type (cf_board cfg)) \<and> field 64 (bc_name (cf_board cfg)) \<and>
     field 64 (bc_ssid (cf_board cfg)) \<and> is_int32 (bc_rssi (cf_board cfg)) \<and>
     field 64 (au_capture_device (cf_audio cfg)) \<and> field 64 (au_playback_device (cf_audio cfg)) \<and>
     is_int32 (au_input_sample_rate (cf_audio cfg)) \<and>
     is_int32 (au_silence_timeout_ms (cf_audio cfg)) \<and>
     is_int32 (au_silence_threshold (cf_audio cfg)) \<and>
     is_int32 (au_max_utterance_ms (cf_audio cfg)) \<and>
     field 16 (rt_log_level (cf_runtime cfg)) \<and>
     is_int32 (rt_reconnect_backoff_ms (cf_runtime cfg))"

definition config_valid :: "app_config \<Rightarrow> bool" where
  "config_valid cfg \<longleftrightarrow>
     oc_url (cf_ota cfg) \<noteq> [] \<and> oc_app_version (cf_ota cfg) \<noteq> [] \<and>
     bc_type (cf_board cfg) \<noteq> [] \<and> bc_name (cf_board cfg) \<noteq> [] \<and>
     0 < sv_protocol_version (cf_server cfg)"

lemma field_copy_str [simp]: "0 < n \<Longrightarrow> c_ok s \<Longrightarrow> field n (copy_str n s)"
  by (simp add: field_def copy_str_def)

lemma is_int32_atoi [simp]: "is_int32 (atoi s)"
  by (simp add: atoi_def Let_def)

lemma config_wf_defaults [simp]: "config_wf config_apply_defaults"
  by (simp add: config_wf_def config_apply_defaults_def field_def is_int32_def copy_str_def
      snprintf_buf_def)

lemma config_wf_assign: "config_wf cfg \<Longrightarrow> c_ok v \<Longrightarrow> config_wf (config_assign_value cfg sec key v)"
  unfolding config_assign_value_def
  by (simp add: config_wf_def)

lemma set_trim: "x \<in> set (trim s) \<Longrightarrow> x \<in> set s"
proof (cases "dropWhile isspace s")
  case (Cons c cs)
  assume "x \<in> set (trim s)"
  then have "x = c \<or> x \<in> set (dropWhile isspace (rev cs))"
    by (simp add: trim_def Cons)
  then have "x \<in> set (c # cs)" using set_dropWhileD by fastforce
  then show ?thesis unfolding Cons [symmetric] by (meson set_dropWhileD)
qed (simp add: trim_def)

lemma c_ok_trim: "c_ok s \<Longrightarrow> c_ok (trim s)"
  using set_trim unfolding c_ok_def by blast

lemma config_wf_line:
  assumes "config_wf (fst st)" and "c_ok l" and "config_line l st = Some st1"
  shows "config_wf (fst st1)"
proof -
  have tl: "c_ok l' \<Longrightarrow> c_ok (tl l')" for l' by (cases l') auto
  have drop: "c_ok l' \<Longrightarrow> c_ok (dropWhile P l')" for P l'
    by (auto simp: c_ok_def dest: set_dropWhileD)
  show ?thesis
    using assms by (auto simp: config_line_def Let_def config_wf_assign c_ok_trim tl drop
        split: if_splits)
qed

lemma strtok_line_c_ok:
  assumes "c_ok s" and "strtok_line s = Some (l, rest)"
  shows "c_ok l \<and> c_ok rest"
proof -
  obtain c cs where d: "dropWhile (\<lambda>c. c = newline) s = c # cs"
    using assms(2) by (auto simp: strtok_line_def split: list.splits)
  have ok: "c_ok (c # cs)"
    using assms(1) unfolding c_ok_def d [symmetric] by (meson set_dropWhileD)
  have "c_ok (takeWhile P (c # cs))" "c_ok (drop 1 (dropWhile P (c # cs)))" for P
    using ok unfolding c_ok_def by (meson set_takeWhileD, meson in_set_dropD set_dropWhileD)
  moreover have "l = takeWhile (\<lambda>c. c \<noteq> newline) (c # cs)"
    "rest = drop 1 (dropWhile (\<lambda>c. c \<noteq> newline) (c # cs))"
    using assms(2) unfolding strtok_line_def d by (simp_all del: takeWhile.simps dropWhile.simps)
  ultimately show ?thesis by (simp only:)
qed

lemma config_wf_loop:
  "config_wf (fst st) \<Longrightarrow> c_ok s \<Longrightarrow> config_wf (snd (config_loop s st))"
proof (induction s st rule: config_loop.induct)
  case (1 s st)
  show ?case
  proof (cases "strtok_line s")
    case None
    then show ?thesis using 1 by (simp add: config_loop.simps [of s])
  next
    case (Some p)
    then obtain l rest where tok: "strtok_line s = Some (l, rest)" by (cases p) auto
    note ok = strtok_line_c_ok [OF 1(3) tok]
    show ?thesis
    proof (cases "config_line l st")
      case None
      then show ?thesis using 1(2) tok by (simp add: config_loop.simps [of s])
    next
      case (Some st1)
      then show ?thesis
        using 1(1) [OF tok refl Some] config_wf_line [OF 1(2) _ Some] ok
        by (simp add: config_loop.simps [of s] tok)
    qed
  qed
qed

lemma config_validate_rc: "fst (config_validate cfg err n) = (if config_valid cfg then 0 else - 1)"
  by (auto simp: config_validate_def config_valid_def)

text \<open>
  C35: whatever the text of the configuration, the load ends with every string field inside its
  array and every number inside \<open>int\<close>; it returns 0 or -1, and 0 exactly when no section header
  was malformed and the required fields (OTA url and version, board type and name, a positive
  protocol version) are there. The error text always fits the caller's buffer.
\<close>

theorem config_load_guarantees:
  assumes "c_ok ini"
    and "config_load_from_string True (Some ini) out (Some err0) n = (r, cfg, err)"
  shows "config_wf cfg \<and> (r = 0 \<or> r = - 1) \<and>
         (r = 0 \<longleftrightarrow> fst (config_loop ini (config_apply_defaults, [])) \<and> config_valid cfg) \<and>
         (r = 0 \<longrightarrow> err = Some err0) \<and>
         (r = - 1 \<longrightarrow> 0 < n \<longrightarrow> (\<exists>e. err = Some e \<and> length e < n))"
proof -
  let ?loop = "config_loop ini (config_apply_defaults, [])"
  have wf: "config_wf (snd ?loop)" using assms(1) by (simp add: config_wf_loop)
  have fits: "0 < n \<Longrightarrow> \<exists>e. set_error (Some err0) n msg = Some e \<and> length e < n" for msg
    by (simp add: set_error_def)
  show ?thesis
  proof (cases "fst ?loop")
    case False
    then show ?thesis using assms(2) wf fits
      by (cases ?loop) (auto simp: config_load_from_string_def)
  next
    case True
    obtain r1 e1 where v: "config_validate (snd ?loop) (Some err0) n = (r1, e1)" by fastforce
    then have "r = r1" "cfg = snd ?loop" "err = e1"
      using assms(2) True by (cases ?loop; simp add: config_load_from_string_def)+
    moreover have "r1 = (if config_valid (snd ?loop) then 0 else - 1)"
      using config_validate_rc [of "snd ?loop" "Some err0" n] v by simp
    moreover have "r1 = 0 \<longrightarrow> e1 = Some err0"
      "r1 = - 1 \<longrightarrow> 0 < n \<longrightarrow> (\<exists>e. e1 = Some e \<and> length e < n)"
      using v fits by (auto simp: config_validate_def split: if_splits)
    ultimately show ?thesis using True wf by simp
  qed
qed

theorem config_load_guarantees_witness:
  "let ini = unlines [''[ota]'', ''url = http://x'', ''app_version=1''];
       (r, cfg, err) = config_load_from_string True (Some ini) config_apply_defaults (Some []) 10
   in r = - 1 \<and> config_wf cfg \<and> oc_url (cf_ota cfg) = ''http://x''"
proof -
  let ?ini = "unlines [''[ota]'', ''url = http://x'', ''app_version=1'']"
  obtain r cfg err where
    load: "config_load_from_string True (Some ?ini) config_apply_defaults (Some []) 10 = (r, cfg, err)"
    using prod_cases3 by blast
  have "config_loop ?ini (config_apply_defaults, []) =
        config_run [''[ota]'', ''url = http://x'', ''app_version=1''] (config_apply_defaults, [])"
    by (rule config_loop_unlines) (simp add: one_line_def)
  then have "r = - 1" "oc_url (cf_ota cfg) = ''http://x''"
    using load
    by (auto simp: config_load_from_string_def config_line_def trim_def isspace_def
        config_assign_value_def copy_str_def snprintf_buf_def config_validate_def
        config_apply_defaults_def)
  moreover have "config_wf cfg"
    using config_load_guarantees [OF _ load] by (simp add: unlines_def)
  ultimately show ?thesis by (simp add: load)
qed

subsection \<open>Writing a configuration and reading it back\<close>

text \<open>
  The client only reads the file. What a configuration looks like as a file is therefore a
  specification: one section per record, one \<open>key=value\<close> line per field. The reader gives back
  every configuration that fits its fields and whose texts have no line breaks and no spaces at
  their ends, which \<open>trim\<close> would take away.
\<close>

definition config_sections :: "app_config \<Rightarrow> (string \<times> (string \<times> string) list) list" where
  "config_sections cfg =
     [(''ota'', [(''url'', oc_url (cf_ota cfg)),
                 (''accept_language'', oc_accept_language (cf_ota cfg)),
                 (''app_version'', oc_app_version (cf_ota cfg)),
                 (''elf_sha256'', oc_elf_sha256 (cf_ota cfg))]),
      (''server'', [(''url'', sv_url (cf_server cfg)), (''token'', sv_token (cf_server cfg)),
                    (''protocol_version'', show_int (sv_protocol_version (cf_server cfg)))]),
      (''device'', [(''device_id'', dc_device_id (cf_device cfg)),
                    (''client_id'', dc_client_id (cf_device cfg))]),
      (''board'', [(''type'', bc_type (cf_board cfg)), (''name'', bc_name (cf_board cfg)),
                   (''ssid'', bc_ssid (cf_board cfg)),
                   (''rssi'', show_int (bc_rssi (cf_board cfg)))]),
      (''audio'', [(''capture_device'', au_capture_device (cf_audio cfg)),
                   (''playback_device'', au_playback_device (cf_audio cfg)),
                   (''input_sample_rate'', show_int (au_input_sample_rate (cf_audio cfg))),
                   (''silence_timeout_ms'', show_int (au_silence_timeout_ms (cf_audio cfg))),
                   (''silence_threshold'', show_int (au_silence_threshold (cf_audio cfg))),
                   (''max_utterance_ms'', show_int (au_max_utterance_ms (cf_audio cfg)))]),
      (''runtime'', [(''log_level'', rt_log_level (cf_runtime cfg)),
                     (''reconnect_backoff_ms'',
                        show_int (rt_reconnect_backoff_ms (cf_runtime cfg)))])]"

definition section_lines :: "string \<times> (string \<times> string) list \<Rightarrow> string list" where
  "section_lines sec =
     (CHR ''['' # fst sec @ [CHR '']'']) # map (\<lambda>(k, v). k @ CHR ''='' # v) (snd sec)"

definition config_ini :: "app_config \<Rightarrow> string" where
  "config_ini cfg = unlines (concat (map section_lines (config_sections cfg)))"

definition trimmed :: "string \<Rightarrow> bool" where
  "trimmed v \<longleftrightarrow> (v = [] \<or> \<not> isspace (hd v) \<and> \<not> isspace (last v)) \<and> newline \<notin> set v"

definition key_ok :: "string \<Rightarrow> bool" where
  "key_ok k \<longleftrightarrow> k \<noteq> [] \<and> (\<forall>c \<in> set k. \<not> isspace c \<and> c \<notin> set ''=#;['')"

definition config_texts_trimmed :: "app_config \<Rightarrow> bool" where
  "config_texts_trimmed cfg \<longleftrightarrow>
     (\<forall>(sec, kvs) \<in> set (config_sections cfg). \<forall>(k, v) \<in> set kvs. trimmed v)"

lemma trim_idle: "\<not> isspace (hd v) \<Longrightarrow> \<not> isspace (last v) \<Longrightarrow> trim v = v"
  by (cases v; cases "rev (tl v)") (auto simp: trim_def dest!: arg_cong [where f = rev])

lemma trim_trimmed: "trimmed v \<Longrightarrow> trim v = v"
  by (cases "v = []") (auto simp: trimmed_def trim_idle, simp add: trim_def)

lemma trimmed_show_int [simp]: "trimmed (show_int i)"
proof -
  have d: "isdigit c \<or> c = CHR ''-''" if "c \<in> set (show_int i)" for c
    using that show_nat_digits by (auto simp: show_int_def split: if_splits)
  have ne: "show_int i \<noteq> []" by (simp add: show_int_def)
  have "\<not> isspace c \<and> c \<noteq> newline" if "c \<in> set (show_int i)" for c
    using d [OF that] by (auto simp: isdigit_def isspace_def)
  with ne show ?thesis unfolding trimmed_def by fastforce
qed

lemma isspace_equals [simp]: "\<not> isspace CHR ''=''" and
      isspace_bracket [simp]: "\<not> isspace CHR ''[''" "\<not> isspace CHR '']''"
  by (simp_all add: isspace_def)

lemma key_ok_facts:
  assumes "key_ok k"
  shows "k \<noteq> []" "\<not> isspace (hd k)" "hd k \<noteq> CHR ''#''" "hd k \<noteq> CHR '';''" "hd k \<noteq> CHR ''[''"
    "CHR ''='' \<notin> set k" "newline \<notin> set k" "trim k = k"
proof -
  show ne: "k \<noteq> []" using assms by (simp add: key_ok_def)
  have all: "\<not> isspace c \<and> c \<notin> set ''=#;[''" if "c \<in> set k" for c
    using assms that unfolding key_ok_def by blast
  have h: "\<not> isspace (hd k)" "hd k \<notin> set ''=#;[''" and l: "\<not> isspace (last k)"
    using all [of "hd k"] all [of "last k"] ne by simp_all
  show "\<not> isspace (hd k)" by (rule h(1))
  show "hd k \<noteq> CHR ''#''" "hd k \<noteq> CHR '';''" "hd k \<noteq> CHR ''[''" using h(2) by auto
  show "trim k = k" by (rule trim_idle [OF h(1) l])
  show "CHR ''='' \<notin> set k" using all [of "CHR ''=''"] by auto
  show "newline \<notin> set k" using all [of newline] by (auto simp: isspace_def)
qed

lemma trim_key_value:
  assumes "key_ok k" and "trimmed v"
  shows "trim (k @ CHR ''='' # v) = k @ CHR ''='' # v"
proof (rule trim_idle)
  show "\<not> isspace (hd (k @ CHR ''='' # v))" using key_ok_facts [OF assms(1)] by simp
  show "\<not> isspace (last (k @ CHR ''='' # v))"
    using assms(2) by (cases "v = []") (simp_all add: trimmed_def)
qed

lemma config_line_assign:
  assumes "key_ok k" and "trimmed v"
  shows "config_line (k @ CHR ''='' # v) (cfg, sec) = Some (config_assign_value cfg sec k v, sec)"
  using key_ok_facts [OF assms(1)] takeWhile_until [OF key_ok_facts(6) [OF assms(1)]]
    dropWhile_until [OF key_ok_facts(6) [OF assms(1)]]
  by (simp add: config_line_def trim_key_value [OF assms] trim_trimmed [OF assms(2)] Let_def)

lemma config_line_header:
  assumes "CHR '']'' \<notin> set sec" and "length sec < 32"
  shows "config_line (CHR ''['' # sec @ [CHR '']'']) (cfg, old) = Some (cfg, sec)"
proof -
  have "trim (CHR ''['' # sec @ [CHR '']'']) = CHR ''['' # sec @ [CHR '']'']"
    by (rule trim_idle) simp_all
  then show ?thesis
    using assms takeWhile_until [of "CHR '']''" sec "[]"]
    by (simp add: config_line_def copy_str_def)
qed

definition section_ok :: "string \<times> (string \<times> string) list \<Rightarrow> bool" where
  "section_ok sec \<longleftrightarrow> CHR '']'' \<notin> set (fst sec) \<and> length (fst sec) < 32 \<and>
     (\<forall>(k, v) \<in> set (snd sec). key_ok k \<and> trimmed v)"

lemma config_run_assignments:
  "\<forall>(k, v) \<in> set kvs. key_ok k \<and> trimmed v \<Longrightarrow>
     config_run (map (\<lambda>(k, v). k @ CHR ''='' # v) kvs @ ls) (cfg, sec) =
     config_run ls (foldl (\<lambda>c (k, v). config_assign_value c sec k v) cfg kvs, sec)"
  by (induction kvs arbitrary: cfg) (auto simp: config_line_assign)

lemma config_run_section:
  "section_ok sec \<Longrightarrow>
     config_run (section_lines sec @ ls) (cfg, old) =
     config_run ls (foldl (\<lambda>c (k, v). config_assign_value c (fst sec) k v) cfg (snd sec), fst sec)"
  by (simp add: section_lines_def section_ok_def config_line_header config_run_assignments)

lemma config_run_sections:
  "\<forall>sec \<in> set secs. section_ok sec \<Longrightarrow>
     config_run (concat (map section_lines secs)) (cfg, old) =
     (True, foldl (\<lambda>c sec. foldl (\<lambda>c (k, v). config_assign_value c (fst sec) k v) c (snd sec))
              cfg secs)"
  by (induction secs arbitrary: cfg old) (simp_all add: config_run_section)

lemma assign_all_sections:
  assumes "config_wf cfg"
  shows "foldl (\<lambda>c sec. foldl (\<lambda>c (k, v). config_assign_value c (fst sec) k v) c (snd sec))
           config_apply_defaults (config_sections cfg) = cfg"
  using assms
  by (simp add: config_sections_def config_assign_value_def config_wf_def field_def copy_str_def
      atoi_show_int config_apply_defaults_def)

lemma section_lines_one_line:
  assumes "section_ok sec" and "newline \<notin> set (fst sec)" and "l \<in> set (section_lines sec)"
  shows "one_line l"
proof -
  from assms(3) consider "l = CHR ''['' # fst sec @ [CHR '']'']"
    | k v where "(k, v) \<in> set (snd sec)" "l = k @ CHR ''='' # v"
    by (auto simp: section_lines_def)
  then show ?thesis
  proof cases
    case 1
    then show ?thesis using assms(2) by (simp add: one_line_def)
  next
    case 2
    then have "key_ok k" "trimmed v" using assms(1) by (auto simp: section_ok_def)
    then show ?thesis using 2(2) key_ok_facts(7) by (simp add: one_line_def trimmed_def)
  qed
qed

lemma config_keys_ok: "\<forall>k \<in> set (map fst (concat (map snd (config_sections cfg)))). key_ok k"
  by (simp add: config_sections_def key_ok_def isspace_def)

lemma config_sections_ok:
  assumes "config_texts_trimmed cfg" and "sec \<in> set (config_sections cfg)"
  shows "section_ok sec \<and> newline \<notin> set (fst sec)"
proof -
  have head: "\<forall>s \<in> set (map fst (config_sections cfg)). newline \<notin> set s \<and> CHR '']'' \<notin> set s \<and> length s < 32"
    by (simp add: config_sections_def)
  have "key_ok k \<and> trimmed v" if "(k, v) \<in> set (snd sec)" for k v
  proof
    have "k \<in> set (map fst (concat (map snd (config_sections cfg))))"
      using that assms(2) by force
    then show "key_ok k" using config_keys_ok by blast
    show "trimmed v" using that assms unfolding config_texts_trimmed_def by (cases sec) fastforce
  qed
  then show ?thesis using head assms(2) by (auto simp: section_ok_def)
qed

text \<open>
  C34: a valid configuration written as an INI file loads back as itself, with rc 0 and the
  error buffer untouched, for all values of all the fields the reader knows.
\<close>

theorem config_round_trip:
  assumes "config_wf cfg" and "config_valid cfg" and "config_texts_trimmed cfg"
  shows "config_load_from_string True (Some (config_ini cfg)) out err n = (0, cfg, err)"
proof -
  let ?secs = "config_sections cfg"
  have ok: "\<forall>sec \<in> set ?secs. section_ok sec" "\<forall>sec \<in> set ?secs. newline \<notin> set (fst sec)"
    using config_sections_ok [OF assms(3)] by auto
  then have "\<forall>l \<in> set (concat (map section_lines ?secs)). one_line l"
    using section_lines_one_line by fastforce
  then have "config_loop (config_ini cfg) (config_apply_defaults, []) = (True, cfg)"
    unfolding config_ini_def
    by (simp add: config_loop_unlines config_run_sections [OF ok(1)] assign_all_sections [OF assms(1)])
  moreover have "config_validate cfg err n = (0, err)"
    using assms(2) by (simp add: config_validate_def config_valid_def)
  ultimately show ?thesis by (simp add: config_load_from_string_def)
qed

definition sample_config :: app_config where
  "sample_config =
     config_apply_defaults
       \<lparr>cf_ota := \<lparr>oc_url = ''http://h/ota?a=1'', oc_accept_language = ''zh-CN'',
                   oc_app_version = ''0.1.0'', oc_elf_sha256 = []\<rparr>,
        cf_board := \<lparr>bc_type = ''desktop'', bc_name = ''linux pc'', bc_ssid = [], bc_rssi = - 42\<rparr>\<rparr>"

theorem config_round_trip_witness:
  "config_load_from_string True (Some (config_ini sample_config)) config_apply_defaults None 0 =
     (0, sample_config, None)"
proof (rule config_round_trip)
  show "config_wf sample_config"
    by (simp add: sample_config_def config_apply_defaults_def config_wf_def field_def copy_str_def
        is_int32_def)
  show "config_valid sample_config"
    by (simp add: sample_config_def config_apply_defaults_def config_valid_def)
  show "config_texts_trimmed sample_config"
    by (simp add: sample_config_def config_apply_defaults_def config_texts_trimmed_def
        config_sections_def copy_str_def) (simp add: trimmed_def isspace_def)
qed

end
