(* ===== verification/Ota_Client.thy ===== *)
theory Ota_Client
  imports Config Protocol
begin

section \<open>The OTA bootstrap request (\<open>src/ota_client.c\<close>)\<close>

text \<open>
  Before it connects, the client posts its description to the OTA server with \<open>curl\<close> and
  reads the websocket address, the token and a possible activation code from the answer.
  \<open>curl\<close> is not part of the sources: it is a function from its argument list to what the
  pipe delivers and how the process ends, an argument of \<open>ota_fetch\<close> like the outcomes of
  \<open>pipe\<close> and \<open>fork\<close>.
\<close>

record ota_activation_info =
  oa_code :: string
  oa_message :: string

record ota_websocket_info =
  ow_url :: string
  ow_token :: string

record ota_response =
  or_activation_required :: bool
  or_activation :: ota_activation_info
  or_websocket :: ota_websocket_info

definition zero_ota_response :: ota_response where
  "zero_ota_response =
     \<lparr>or_activation_required = False, or_activation = \<lparr>oa_code = [], oa_message = []\<rparr>,
      or_websocket = \<lparr>ow_url = [], ow_token = []\<rparr>\<rparr>"

subsection \<open>Operations\<close>

definition ota_set_error :: "string option \<Rightarrow> nat \<Rightarrow> string option \<Rightarrow> string option" where
  "ota_set_error err err_size message =
     (case err of None \<Rightarrow> None
      | Some e \<Rightarrow>
          if err_size = 0 then Some e
          else Some (snprintf_buf err_size
                 (case message of None \<Rightarrow> ''unknown ota error'' | Some m \<Rightarrow> m)))"

definition ota_copy_json_string :: "cJSON option \<Rightarrow> string \<Rightarrow> nat \<Rightarrow> string \<Rightarrow> string" where
  "ota_copy_json_string object key dst_size dst =
     (if object = None \<or> dst_size = 0 then dst
      else
        (let item = cJSON_GetObjectItemCaseSensitive object key in
         if \<not> cJSON_IsString item then dst
         else snprintf_buf dst_size (valuestring (the item))))"

definition ota_trim_trailing_whitespace :: "string \<Rightarrow> string" where
  "ota_trim_trailing_whitespace s =
     rev (dropWhile (\<lambda>ch. ch = CHR '' '' \<or> ch = CHR 0x0A \<or> ch = CHR 0x0D \<or> ch = CHR 0x09)
       (rev s))"

text \<open>
  The reads from the pipe: the chunks \<open>read\<close> delivers before it returns 0 (\<open>True\<close>) or fails.
  \<open>dst\<close> is the part of the buffer in front of the terminator, \<open>used\<close> its length.
\<close>

fun ota_read_loop :: "nat \<Rightarrow> string list \<Rightarrow> string \<Rightarrow> nat \<Rightarrow> string" where
  "ota_read_loop dst_size [] dst used = dst"
| "ota_read_loop dst_size (chunk # chunks) dst used =
     (if used \<ge> dst_size - 1 then ota_read_loop dst_size chunks dst used
      else
        (let nread = length chunk;
             to_copy = (if nread > dst_size - 1 - used then dst_size - 1 - used else nread)
         in ota_read_loop dst_size chunks (dst @ take to_copy chunk) (used + to_copy)))"

definition ota_append_pipe_output :: "string list \<Rightarrow> bool \<Rightarrow> nat \<Rightarrow> string \<Rightarrow> rc \<times> string" where
  "ota_append_pipe_output chunks eof dst_size dst =
     (if dst_size = 0 then (- 1, dst)
      else (if eof then 0 else - 1, ota_read_loop dst_size chunks [] 0))"

definition ota_add_optional_string :: "cJSON \<Rightarrow> string \<Rightarrow> string \<Rightarrow> cJSON" where
  "ota_add_optional_string object key val =
     (if val = [] then object else cJSON_AddStringToObject object key val)"

text \<open>The tree of the request; \<open>application\<close> and \<open>board\<close> are its first two members.\<close>

definition ota_request_message :: "app_config \<Rightarrow> cJSON" where
  "ota_request_message cfg =
     (let application = cJSON_Object [];
          board = cJSON_Object [];
          application =
            cJSON_AddStringToObject application ''version'' (oc_app_version (cf_ota cfg));
          application =
            ota_add_optional_string application ''elf_sha256'' (oc_elf_sha256 (cf_ota cfg));
          board = cJSON_AddStringToObject board ''type'' (bc_type (cf_board cfg));
          board = cJSON_AddStringToObject board ''name'' (bc_name (cf_board cfg));
          board = ota_add_optional_string board ''ssid'' (bc_ssid (cf_board cfg));
          board = (if bc_rssi (cf_board cfg) \<noteq> 0
                   then cJSON_AddNumberToObject board ''rssi'' (bc_rssi (cf_board cfg)) else board);
          root = add_item_to_object (cJSON_Object []) ''application'' application;
          root = add_item_to_object root ''board'' board;
          root = ota_add_optional_string root ''mac_address'' (dc_device_id (cf_device cfg))
      in ota_add_optional_string root ''uuid'' (dc_client_id (cf_device cfg)))"

definition ota_build_request_json :: "app_config \<Rightarrow> nat \<Rightarrow> string \<Rightarrow> rc \<times> string" where
  "ota_build_request_json cfg out_size out =
     (if out_size = 0 then (- 1, out)
      else
        (case cJSON_PrintUnformatted (ota_request_message cfg) of
           None \<Rightarrow> (- 1, out)
         | Some json \<Rightarrow>
             (if snprintf_rc json \<ge> int out_size then - 1 else 0, snprintf_buf out_size json)))"

definition ota_parse_response ::
    "string option \<Rightarrow> ota_response \<Rightarrow> string option \<Rightarrow> nat \<Rightarrow> rc \<times> ota_response \<times> string option"
where
  "ota_parse_response json out err err_size =
     (case json of
        None \<Rightarrow> (- 1, out, ota_set_error err err_size (Some ''invalid arguments''))
      | Some s \<Rightarrow>
          (case cJSON_Parse s of
             None \<Rightarrow>
               (- 1, zero_ota_response,
                ota_set_error err err_size (Some ''invalid ota response json''))
           | Some root \<Rightarrow>
               (let activation = cJSON_GetObjectItemCaseSensitive (Some root) ''activation'';
                    out1 =
                      (if cJSON_IsObject activation then
                         (let code = ota_copy_json_string activation ''code'' 64 [];
                              msg = ota_copy_json_string activation ''message'' 256 []
                          in zero_ota_response
                               \<lparr>or_activation := \<lparr>oa_code = code, oa_message = msg\<rparr>,
                                or_activation_required := code \<noteq> []\<rparr>)
                       else zero_ota_response);
                    websocket = cJSON_GetObjectItemCaseSensitive (Some root) ''websocket'';
                    out2 =
                      (if cJSON_IsObject websocket then
                         out1\<lparr>or_websocket :=
                           \<lparr>ow_url = ota_copy_json_string websocket ''url'' 256 [],
                            ow_token = ota_copy_json_string websocket ''token'' 256 []\<rparr>\<rparr>
                       else out1)
                in (0, out2, err))))"

definition curl_argv :: "app_config \<Rightarrow> string \<Rightarrow> string list" where
  "curl_argv cfg body =
     (let header_device = snprintf_buf 128 (''Device-Id: '' @ dc_device_id (cf_device cfg));
          header_client = snprintf_buf 128 (''Client-Id: '' @ dc_client_id (cf_device cfg));
          header_user_agent =
            snprintf_buf 160 (''User-Agent: '' @ bc_name (cf_board cfg) @ ''/'' @
                              oc_app_version (cf_ota cfg));
          header_language =
            snprintf_buf 96 (''Accept-Language: '' @ oc_accept_language (cf_ota cfg))
      in [''curl'', ''-sS'', ''-X'', ''POST'', oc_url (cf_ota cfg),
          ''-H'', ''Content-Type: application/json'', ''-H'', header_device,
          ''-H'', header_client, ''-H'', header_user_agent] @
         (if oc_accept_language (cf_ota cfg) \<noteq> [] then [''-H'', header_language] else []) @
         [''--data-binary'', body])"

text \<open>What the parent sees of the child: the pipe and the wait status.\<close>

record curl_result =
  cr_chunks :: "string list"
  cr_eof :: bool
  cr_waited :: bool
  cr_exited :: bool
  cr_status :: int

record ota_env =
  oe_pipe :: bool
  oe_fork :: bool
  oe_curl :: "string list \<Rightarrow> curl_result"

definition ota_fetch ::
    "ota_env \<Rightarrow> app_config \<Rightarrow> ota_response \<Rightarrow> string option \<Rightarrow> nat
       \<Rightarrow> rc \<times> ota_response \<times> string option" where
  "ota_fetch env cfg out err err_size =
     (let fail = (\<lambda>msg. (- 1, out, ota_set_error err err_size (Some msg)));
          (built, body) = ota_build_request_json cfg 2048 [] in
      if built \<noteq> 0 then fail ''failed to build ota request body''
      else if \<not> oe_pipe env then fail ''failed to create ota pipe''
      else if \<not> oe_fork env then fail ''failed to fork ota curl process''
      else
        (let child = oe_curl env (curl_argv cfg body);
             (got, raw) = ota_append_pipe_output (cr_chunks child) (cr_eof child) 8192 [] in
         if got \<noteq> 0 then fail ''failed to read ota response''
         else if \<not> cr_waited child then fail ''failed to wait for ota curl process''
         else
           (let response = ota_trim_trailing_whitespace (c_str raw) in
            if \<not> cr_exited child \<or> cr_status child \<noteq> 0 then
              (if response \<noteq> [] then fail response
               else if cr_exited child \<and> cr_status child = 127 then fail ''curl command not found''
               else fail ''ota request failed'')
            else ota_parse_response (Some response) out err err_size)))"

subsection \<open>The pipe\<close>

lemma ota_read_loop_take:
  assumes "used = length dst" and "used \<le> n - 1"
  shows "ota_read_loop n chunks dst used = take (n - 1) (dst @ concat chunks)"
  using assms
proof (induction chunks arbitrary: dst used)
  case Nil
  then show ?case by simp
next
  case (Cons chunk chunks)
  show ?case
  proof (cases "used \<ge> n - 1")
    case True
    then show ?thesis using Cons.IH [OF Cons.prems] Cons.prems by simp
  next
    case False
    define k where "k = (if length chunk > n - 1 - used then n - 1 - used else length chunk)"
    have loop: "ota_read_loop n (chunk # chunks) dst used =
        ota_read_loop n chunks (dst @ take k chunk) (used + k)"
      using False by (simp add: k_def Let_def)
    also have "\<dots> = take (n - 1) ((dst @ take k chunk) @ concat chunks)"
      using Cons.prems False by (intro Cons.IH) (auto simp: k_def)
    also have "\<dots> = take (n - 1) (dst @ concat (chunk # chunks))"
      using Cons.prems False by (cases "length chunk \<le> n - 1 - used") (simp_all add: k_def)
    finally show ?thesis .
  qed
qed

lemma append_pipe_output_eq:
  "0 < dst_size \<Longrightarrow> ota_append_pipe_output chunks eof dst_size dst =
     (if eof then 0 else - 1, take (dst_size - 1) (concat chunks))"
  by (simp add: ota_append_pipe_output_def ota_read_loop_take)

text \<open>
  Whatever the sizes of the pieces in which the pipe delivers curl's output, the response
  buffer holds its first \<open>dst_size - 1\<close> bytes; the rest is read and dropped, never written
  past the buffer.
\<close>

theorem pipe_output_prefix:
  assumes "0 < dst_size"
  shows "ota_append_pipe_output chunks eof dst_size dst =
         (if eof then 0 else - 1, take (dst_size - 1) (concat chunks))"
  using assms by (rule append_pipe_output_eq)

theorem pipe_output_prefix_witness:
  "ota_append_pipe_output [''ab'', ''cde'', ''f''] True 5 [] = (0, ''abcd'')"
  using pipe_output_prefix [of 5 "[''ab'', ''cde'', ''f'']" True "[]"] by simp

subsection \<open>The request\<close>

definition json_member :: "cJSON option \<Rightarrow> string \<Rightarrow> cJSON option" where
  "json_member = cJSON_GetObjectItemCaseSensitive"

definition optional_string :: "string \<Rightarrow> cJSON option" where
  "optional_string v = (if v = [] then None else Some (cJSON_String v))"

lemma ota_request_wf: "config_wf cfg \<Longrightarrow> wf_json (ota_request_message cfg)"
  by (simp add: ota_request_message_def ota_add_optional_string_def cJSON_AddStringToObject_def
      cJSON_AddNumberToObject_def config_wf_def field_def Let_def)

lemma ota_request_members:
  assumes "config_wf cfg"
  shows "json_member (json_member (Some (ota_request_message cfg)) ''application'') ''version'' =
           Some (cJSON_String (oc_app_version (cf_ota cfg)))"
    "json_member (json_member (Some (ota_request_message cfg)) ''application'') ''elf_sha256'' =
       optional_string (oc_elf_sha256 (cf_ota cfg))"
    "json_member (json_member (Some (ota_request_message cfg)) ''board'') ''type'' =
       Some (cJSON_String (bc_type (cf_board cfg)))"
    "json_member (json_member (Some (ota_request_message cfg)) ''board'') ''name'' =
       Some (cJSON_String (bc_name (cf_board cfg)))"
    "json_member (json_member (Some (ota_request_message cfg)) ''board'') ''ssid'' =
       optional_string (bc_ssid (cf_board cfg))"
    "json_member (json_member (Some (ota_request_message cfg)) ''board'') ''rssi'' =
       (if bc_rssi (cf_board cfg) = 0 then None else Some (int_item (bc_rssi (cf_board cfg))))"
    "json_member (Some (ota_request_message cfg)) ''mac_address'' =
       optional_string (dc_device_id (cf_device cfg))"
    "json_member (Some (ota_request_message cfg)) ''uuid'' =
       optional_string (dc_client_id (cf_device cfg))"
  using assms
  by (simp_all add: ota_request_message_def ota_add_optional_string_def cJSON_AddStringToObject_def
      cJSON_AddNumberToObject_def Let_def json_member_def cJSON_GetObjectItemCaseSensitive_def
      optional_string_def int_item_def config_wf_def)

text \<open>
  C36: a request body that is built reaches the server as the configuration has it: it is JSON
  shorter than the buffer, and the server finds the application's version, the board and the
  ids in it, with every optional value left out exactly when it is empty (the signal strength
  when it is 0), for texts with any characters at all.
\<close>

theorem ota_request_carries_config:
  assumes "config_wf cfg" and "ota_build_request_json cfg out_size out = (0, body)"
  shows "length body < out_size \<and>
    (\<exists>root. cJSON_Parse body = Some root \<and>
      (let application = json_member (Some root) ''application'';
           board = json_member (Some root) ''board''
       in json_member application ''version'' = Some (cJSON_String (oc_app_version (cf_ota cfg))) \<and>
          json_member application ''elf_sha256'' = optional_string (oc_elf_sha256 (cf_ota cfg)) \<and>
          json_member board ''type'' = Some (cJSON_String (bc_type (cf_board cfg))) \<and>
          json_member board ''name'' = Some (cJSON_String (bc_name (cf_board cfg))) \<and>
          json_member board ''ssid'' = optional_string (bc_ssid (cf_board cfg)) \<and>
          json_member board ''rssi'' =
            (if bc_rssi (cf_board cfg) = 0 then None else Some (int_item (bc_rssi (cf_board cfg)))) \<and>
          json_member (Some root) ''mac_address'' = optional_string (dc_device_id (cf_device cfg)) \<and>
          json_member (Some root) ''uuid'' = optional_string (dc_client_id (cf_device cfg))))"
proof -
  obtain json where json: "cJSON_PrintUnformatted (ota_request_message cfg) = Some json"
    and fits: "length json < out_size" and body: "body = json"
    using assms(2)
    by (auto simp: ota_build_request_json_def snprintf_rc_def split: if_splits option.splits)
  from cJSON_Parse_of_print [OF ota_request_wf [OF assms(1)] json]
  show ?thesis using fits body ota_request_members [OF assms(1)] by simp
qed

definition config_plain :: "app_config \<Rightarrow> bool" where
  "config_plain cfg \<longleftrightarrow>
     plain (oc_app_version (cf_ota cfg)) \<and> plain (oc_elf_sha256 (cf_ota cfg)) \<and>
     plain (dc_device_id (cf_device cfg)) \<and> plain (dc_client_id (cf_device cfg)) \<and>
     plain (bc_type (cf_board cfg)) \<and> plain (bc_name (cf_board cfg)) \<and>
     plain (bc_ssid (cf_board cfg))"

text \<open>Texts without characters that need an escape always fit the 2048 bytes of the body.\<close>

definition optional_member :: "string \<Rightarrow> string \<Rightarrow> (string \<times> cJSON) list" where
  "optional_member key v = (if v = [] then [] else [(key, cJSON_String v)])"

lemma add_optional_string:
  "ota_add_optional_string (cJSON_Object ms) key v = cJSON_Object (ms @ optional_member key v)"
  by (simp add: ota_add_optional_string_def cJSON_AddStringToObject_def optional_member_def)

lemma ota_request_shape:
  assumes "config_wf cfg"
  shows "ota_request_message cfg = cJSON_Object
    ([(''application'', cJSON_Object ((''version'', cJSON_String (oc_app_version (cf_ota cfg))) #
        optional_member ''elf_sha256'' (oc_elf_sha256 (cf_ota cfg)))),
      (''board'', cJSON_Object ([(''type'', cJSON_String (bc_type (cf_board cfg))),
        (''name'', cJSON_String (bc_name (cf_board cfg)))] @
        optional_member ''ssid'' (bc_ssid (cf_board cfg)) @
        (if bc_rssi (cf_board cfg) \<noteq> 0 then [(''rssi'', int_item (bc_rssi (cf_board cfg)))] else [])))] @
     optional_member ''mac_address'' (dc_device_id (cf_device cfg)) @
     optional_member ''uuid'' (dc_client_id (cf_device cfg)))"
  using assms
  by (simp add: ota_request_message_def add_optional_string cJSON_AddStringToObject_def
      cJSON_AddNumberToObject_def Let_def int_item_def config_wf_def)

lemma ota_request_fits:
  assumes "config_wf cfg" and "config_plain cfg"
  shows "\<exists>body. ota_build_request_json cfg 2048 out = (0, body)"
proof -
  have len: "length (show_int (bc_rssi (cf_board cfg))) \<le> 11"
    using assms(1) by (intro length_show_int) (simp add: config_wf_def)
  have fields: "length (oc_app_version (cf_ota cfg)) < 64" "length (oc_elf_sha256 (cf_ota cfg)) < 96"
    "length (bc_type (cf_board cfg)) < 64" "length (bc_name (cf_board cfg)) < 64"
    "length (bc_ssid (cf_board cfg)) < 64" "length (dc_device_id (cf_device cfg)) < 64"
    "length (dc_client_id (cf_device cfg)) < 64"
    using assms(1) by (simp_all add: config_wf_def field_def)
  have "\<exists>json. cJSON_PrintUnformatted (ota_request_message cfg) = Some json \<and> length json < 2048"
    unfolding ota_request_shape [OF assms(1)] cJSON_PrintUnformatted_def optional_member_def
      int_item_def
    using assms(2) len fields
    by (cases "oc_elf_sha256 (cf_ota cfg) = []"; cases "bc_ssid (cf_board cfg) = []";
        cases "bc_rssi (cf_board cfg) = 0"; cases "dc_device_id (cf_device cfg) = []";
        cases "dc_client_id (cf_device cfg) = []"; simp add: print_plain config_plain_def)
  then show ?thesis by (auto simp: ota_build_request_json_def snprintf_rc_def)
qed

theorem ota_request_carries_config_witness:
  "\<exists>body root. ota_build_request_json sample_config 2048 [] = (0, body) \<and>
     cJSON_Parse body = Some root \<and>
     json_member (json_member (Some root) ''board'') ''name'' = Some (cJSON_String ''linux pc'') \<and>
     json_member (Some root) ''uuid'' = None"
proof -
  have wf: "config_wf sample_config" and plain: "config_plain sample_config"
    by (simp_all add: sample_config_def config_apply_defaults_def config_wf_def field_def
        copy_str_def is_int32_def config_plain_def)
  obtain body where b: "ota_build_request_json sample_config 2048 [] = (0, body)"
    using ota_request_fits [OF wf plain] by blast
  have "bc_name (cf_board sample_config) = ''linux pc''" "dc_client_id (cf_device sample_config) = []"
    by (simp_all add: sample_config_def config_apply_defaults_def)
  with ota_request_carries_config [OF wf b] show ?thesis
    by (auto simp: b Let_def optional_string_def)
qed

subsection \<open>The answer\<close>

text \<open>The answer as a server makes it; either part may be missing.\<close>

definition ota_reply :: "(string \<times> string) option \<Rightarrow> (string \<times> string) option \<Rightarrow> cJSON" where
  "ota_reply activation websocket = cJSON_Object
     ((case activation of None \<Rightarrow> [] | Some (code, msg) \<Rightarrow>
        [(''activation'', cJSON_Object [(''code'', cJSON_String code),
                                        (''message'', cJSON_String msg)])]) @
      (case websocket of None \<Rightarrow> [] | Some (url, token) \<Rightarrow>
        [(''websocket'', cJSON_Object [(''url'', cJSON_String url),
                                       (''token'', cJSON_String token)])]))"

definition texts_ok :: "(string \<times> string) option \<Rightarrow> bool" where
  "texts_ok p \<longleftrightarrow> (case p of None \<Rightarrow> True | Some (a, b) \<Rightarrow> c_ok a \<and> c_ok b)"

definition ota_reply_meaning ::
    "(string \<times> string) option \<Rightarrow> (string \<times> string) option \<Rightarrow> ota_response" where
  "ota_reply_meaning activation websocket =
     \<lparr>or_activation_required = (case activation of None \<Rightarrow> False | Some (code, msg) \<Rightarrow> code \<noteq> []),
      or_activation = (case activation of None \<Rightarrow> \<lparr>oa_code = [], oa_message = []\<rparr>
        | Some (code, msg) \<Rightarrow> \<lparr>oa_code = take 63 code, oa_message = take 255 msg\<rparr>),
      or_websocket = (case websocket of None \<Rightarrow> \<lparr>ow_url = [], ow_token = []\<rparr>
        | Some (url, token) \<Rightarrow> \<lparr>ow_url = take 255 url, ow_token = take 255 token\<rparr>)\<rparr>"

lemma ota_reply_wf: "texts_ok a \<Longrightarrow> texts_ok w \<Longrightarrow> wf_json (ota_reply a w)"
  by (auto simp: ota_reply_def texts_ok_def split: option.splits)

lemma parse_response_of_reply:
  assumes "texts_ok a" and "texts_ok w" and "cJSON_PrintUnformatted (ota_reply a w) = Some json"
  shows "ota_parse_response (Some json) out err n = (0, ota_reply_meaning a w, err)"
  using cJSON_Parse_of_print [OF ota_reply_wf [OF assms(1,2)] assms(3)]
  by (auto simp: ota_parse_response_def ota_reply_def ota_reply_meaning_def zero_ota_response_def
      cJSON_GetObjectItemCaseSensitive_def ota_copy_json_string_def snprintf_buf_def
      split: option.splits)

definition blank :: "string \<Rightarrow> bool" where
  "blank ws \<longleftrightarrow> set ws \<subseteq> {CHR '' '', CHR 0x0A, CHR 0x0D, CHR 0x09}"

lemma trim_trailing_blank:
  assumes "blank ws" and "s \<noteq> []" and "\<not> blank [last s]"
  shows "ota_trim_trailing_whitespace (s @ ws) = s"
proof -
  let ?P = "\<lambda>ch. ch = CHR '' '' \<or> ch = CHR 0x0A \<or> ch = CHR 0x0D \<or> ch = CHR 0x09"
  have "\<forall>c \<in> set (rev ws). ?P c" using assms(1) by (auto simp: blank_def)
  then have "dropWhile ?P (rev ws @ rev s) = dropWhile ?P (rev s)"
    by (subst dropWhile_append2) auto
  also have "\<dots> = rev s"
    using assms(2,3) by (cases s rule: rev_cases) (auto simp: blank_def)
  finally show ?thesis by (simp add: ota_trim_trailing_whitespace_def)
qed

lemma print_object_last:
  "cJSON_PrintUnformatted (cJSON_Object ms) = Some t \<Longrightarrow> t \<noteq> [] \<and> last t = CHR ''}''"
  by (auto simp: cJSON_PrintUnformatted_def split: if_splits option.splits)

lemma blank_c_ok: "blank ws \<Longrightarrow> c_ok ws"
  by (auto simp: blank_def c_ok_def)

lemma ota_fetch_of_reply:
  assumes "config_wf cfg" and "config_plain cfg" and "oe_pipe env" and "oe_fork env"
    and "ota_build_request_json cfg 2048 [] = (0, body)"
    and "oe_curl env (curl_argv cfg body) =
         \<lparr>cr_chunks = chunks, cr_eof = True, cr_waited = True, cr_exited = True, cr_status = 0\<rparr>"
    and "concat chunks = json @ ws" and "blank ws" and "length (json @ ws) \<le> 8191"
    and "texts_ok a" and "texts_ok w" and "cJSON_PrintUnformatted (ota_reply a w) = Some json"
  shows "ota_fetch env cfg out err n = (0, ota_reply_meaning a w, err)"
proof -
  have "c_ok json"
    using assms(12) print_c_ok(1) [OF _ ota_reply_wf [OF assms(10,11)]]
    by (simp add: cJSON_PrintUnformatted_def)
  then have raw: "c_str (json @ ws) = json @ ws" using blank_c_ok [OF assms(8)] by simp
  have "json \<noteq> []" "last json = CHR ''}''"
    using print_object_last assms(12) unfolding ota_reply_def by blast+
  then have "ota_trim_trailing_whitespace (json @ ws) = json"
    using assms(8) by (intro trim_trailing_blank) (simp_all add: blank_def)
  then show ?thesis
    using assms(3-7,9) raw parse_response_of_reply [OF assms(10-12)]
    by (simp add: ota_fetch_def append_pipe_output_eq)
qed

text \<open>
  C37: the whole bootstrap: when curl ends well and the pipe delivers, in pieces of any size,
  the server's JSON answer with any blanks and line ends after it, and all of it fits the
  8191 bytes the client keeps, then \<open>ota_fetch\<close> returns 0 with the url, the token, the
  activation code and message the server sent (cut to their fields), an activation being
  required exactly when the code is not empty.
\<close>

theorem ota_fetch_delivers:
  assumes "config_wf cfg" and "config_plain cfg" and "oe_pipe env" and "oe_fork env"
    and "ota_build_request_json cfg 2048 [] = (0, body)"
    and "oe_curl env (curl_argv cfg body) =
         \<lparr>cr_chunks = chunks, cr_eof = True, cr_waited = True, cr_exited = True, cr_status = 0\<rparr>"
    and "concat chunks = json @ ws" and "blank ws" and "length (json @ ws) \<le> 8191"
    and "texts_ok a" and "texts_ok w" and "cJSON_PrintUnformatted (ota_reply a w) = Some json"
  shows "ota_fetch env cfg out err n = (0, ota_reply_meaning a w, err)"
  by (rule ota_fetch_of_reply [OF assms])

definition sample_curl :: "string \<Rightarrow> string list \<Rightarrow> curl_result" where
  "sample_curl json argv =
     \<lparr>cr_chunks = [take 20 json, drop 20 json @ [newline]], cr_eof = True, cr_waited = True,
      cr_exited = True, cr_status = 0\<rparr>"

lemma sample_config_ok: "config_wf sample_config" "config_plain sample_config"
  by (simp_all add: sample_config_def config_apply_defaults_def config_wf_def field_def
      copy_str_def is_int32_def config_plain_def)

theorem ota_fetch_delivers_witness:
  "\<exists>json r. cJSON_PrintUnformatted (ota_reply (Some (''1234'', ''go'')) None) = Some json \<and>
     ota_fetch \<lparr>oe_pipe = True, oe_fork = True, oe_curl = sample_curl json\<rparr> sample_config
       zero_ota_response None 0 = (0, r, None) \<and>
     or_activation_required r \<and> oa_code (or_activation r) = ''1234''"
proof -
  obtain json where json: "cJSON_PrintUnformatted (ota_reply (Some (''1234'', ''go'')) None) = Some json"
    and len: "length json \<le> 100"
    by (simp add: ota_reply_def cJSON_PrintUnformatted_def print_plain)
  obtain body where b: "ota_build_request_json sample_config 2048 [] = (0, body)"
    using ota_request_fits [OF sample_config_ok] by blast
  have "ota_fetch \<lparr>oe_pipe = True, oe_fork = True, oe_curl = sample_curl json\<rparr> sample_config
          zero_ota_response None 0 =
        (0, ota_reply_meaning (Some (''1234'', ''go'')) None, None)"
    by (rule ota_fetch_delivers [OF sample_config_ok _ _ b,
          where json = json and ws = "[newline]"
            and chunks = "[take 20 json, drop 20 json @ [newline]]"])
       (use json len in \<open>simp_all add: sample_curl_def blank_def texts_ok_def\<close>)
  with json show ?thesis by (simp add: ota_reply_meaning_def)
qed

definition response_bounded :: "ota_response \<Rightarrow> bool" where
  "response_bounded r \<longleftrightarrow>
     length (oa_code (or_activation r)) < 64 \<and> length (oa_message (or_activation r)) < 256 \<and>
     length (ow_url (or_websocket r)) < 256 \<and> length (ow_token (or_websocket r)) < 256 \<and>
     (or_activation_required r \<longleftrightarrow> oa_code (or_activation r) \<noteq> [])"

lemma length_ota_copy:
  "length (ota_copy_json_string item key 64 []) < 64"
  "length (ota_copy_json_string item key 256 []) < 256"
  by (simp_all add: ota_copy_json_string_def Let_def)

lemma parse_response_outcome:
  assumes "ota_parse_response (Some s) out (Some e) n = (r, out', err')"
  shows "r = 0 \<and> response_bounded out' \<and> err' = Some e \<or>
         r = - 1 \<and> out' = zero_ota_response \<and>
         err' = ota_set_error (Some e) n (Some ''invalid ota response json'')"
  using assms
  by (auto simp: ota_parse_response_def response_bounded_def zero_ota_response_def Let_def
      length_ota_copy split: option.splits if_splits)

lemma ota_set_error_text:
  assumes "1 < n" and "msg \<noteq> []"
  shows "\<exists>m. ota_set_error (Some e) n (Some msg) = Some m \<and> m \<noteq> [] \<and> length m < n"
  using assms by (simp add: ota_set_error_def snprintf_buf_empty_iff)

text \<open>
  Every way a bootstrap can go, whatever curl does and writes: it returns 0 or -1; with 0
  every field of the answer is inside its array, an activation is required exactly when there
  is a code, and no error is reported; with -1 the answer is the caller's old one or all zero,
  and the error buffer holds a non-empty text that fits.
\<close>

theorem ota_fetch_outcomes:
  assumes "1 < n" and "ota_fetch env cfg out (Some e) n = (r, out', err')"
  shows "(r = 0 \<and> response_bounded out' \<and> err' = Some e) \<or>
         (r = - 1 \<and> out' \<in> {out, zero_ota_response} \<and>
          (\<exists>m. err' = Some m \<and> m \<noteq> [] \<and> length m < n))"
proof -
  obtain built body where b: "ota_build_request_json cfg 2048 [] = (built, body)" by fastforce
  define child where "child = oe_curl env (curl_argv cfg body)"
  define response where
    "response = ota_trim_trailing_whitespace (c_str (take 8191 (concat (cr_chunks child))))"
  consider msg where "msg \<noteq> []" "r = - 1" "out' = out"
      "err' = ota_set_error (Some e) n (Some msg)"
    | "ota_parse_response (Some response) out (Some e) n = (r, out', err')"
    using assms(2)
    by (simp add: ota_fetch_def b append_pipe_output_eq child_def [symmetric]
        response_def [symmetric] split: if_splits) blast+
  then show ?thesis
    using ota_set_error_text [OF assms(1)] parse_response_outcome
    by cases (simp, fastforce)
qed

theorem ota_fetch_outcomes_witness:
  "\<exists>m. snd (snd (ota_fetch \<lparr>oe_pipe = True, oe_fork = False, oe_curl = sample_curl []\<rparr>
      sample_config zero_ota_response (Some []) 256)) = Some m \<and> m \<noteq> []"
proof -
  obtain r out' err' where f: "ota_fetch \<lparr>oe_pipe = True, oe_fork = False, oe_curl = sample_curl []\<rparr>
      sample_config zero_ota_response (Some []) 256 = (r, out', err')"
    using prod_cases3 by blast
  have "r = - 1" using f by (simp add: ota_fetch_def split: prod.splits if_splits)
  with ota_fetch_outcomes [OF _ f] f show ?thesis by auto
qed

end
