(* ===== verification/Opus_Codec.thy ===== *)
theory Opus_Codec
  imports Xz_Prelude
begin

section \<open>The Opus wrappers (\<open>src/opus_codec.c\<close>)\<close>

text \<open>
  The encoder and the decoder objects around \<open>libopus\<close>. The library is not part of the
  sources: its calls are the fields of \<open>opus_lib\<close>, over types \<open>'e\<close> and \<open>'d\<close> of encoder and
  decoder states the wrappers never look into. \<open>opus_laws\<close> is what its manual promises and
  the code relies on: an encoded packet is never longer than the space offered, a decoded
  frame never longer than the frames offered.
\<close>

record ('e, 'd) opus_lib =
  ol_encoder_create :: "int \<Rightarrow> int \<Rightarrow> 'e option \<times> int"
  ol_encode :: "'e \<Rightarrow> sample list \<Rightarrow> int \<Rightarrow> int \<Rightarrow> int \<times> byte list \<times> 'e"
  ol_decoder_create :: "int \<Rightarrow> int \<Rightarrow> 'd option \<times> int"
  ol_decode :: "'d \<Rightarrow> byte list \<Rightarrow> int \<Rightarrow> int \<Rightarrow> int \<times> sample list \<times> 'd"

record 'e opus_encoder_wrapper =
  en_encoder :: "'e option"
  en_sample_rate :: int
  en_channels :: int
  en_frame_ms :: int
  en_samples_per_channel :: int

record 'd opus_decoder_wrapper =
  de_decoder :: "'d option"
  de_sample_rate :: int
  de_channels :: int

definition zero_encoder :: "'e opus_encoder_wrapper" where
  "zero_encoder = \<lparr>en_encoder = None, en_sample_rate = 0, en_channels = 0, en_frame_ms = 0,
     en_samples_per_channel = 0\<rparr>"

definition zero_decoder :: "'d opus_decoder_wrapper" where
  "zero_decoder = \<lparr>de_decoder = None, de_sample_rate = 0, de_channels = 0\<rparr>"

text \<open>\<open>OPUS_OK\<close> is 0.\<close>

subsection \<open>Operations\<close>

definition opus_encoder_wrapper_init ::
    "('e, 'd) opus_lib \<Rightarrow> 'e opus_encoder_wrapper \<Rightarrow> int \<Rightarrow> int \<Rightarrow> int
       \<Rightarrow> rc \<times> 'e opus_encoder_wrapper" where
  "opus_encoder_wrapper_init lib enc sample_rate channels frame_ms =
     (if sample_rate \<le> 0 \<or> channels \<le> 0 \<or> frame_ms \<le> 0 then (- 1, enc)
      else
        (let (encoder, err) = ol_encoder_create lib sample_rate channels;
             enc1 = zero_encoder\<lparr>en_encoder := encoder\<rparr>
         in if encoder = None \<or> err \<noteq> 0 then (- 1, enc1)
            else (0, enc1\<lparr>en_sample_rate := sample_rate, en_channels := channels,
                          en_frame_ms := frame_ms,
                          en_samples_per_channel := c_div (sample_rate * frame_ms) 1000\<rparr>)))"

text \<open>The result, the bytes written to \<open>out\<close> and the encoder after the call.\<close>

definition opus_encode_frame ::
    "('e, 'd) opus_lib \<Rightarrow> 'e opus_encoder_wrapper \<Rightarrow> sample list \<Rightarrow> int \<Rightarrow> nat
       \<Rightarrow> int \<times> byte list \<times> 'e opus_encoder_wrapper" where
  "opus_encode_frame lib enc pcm samples_per_channel out_size =
     (case en_encoder enc of
        None \<Rightarrow> (- 1, [], enc)
      | Some e \<Rightarrow>
          if out_size = 0 then (- 1, [], enc)
          else if samples_per_channel \<noteq> en_samples_per_channel enc then (- 1, [], enc)
          else
            (let (r, out, e1) = ol_encode lib e pcm samples_per_channel (int32 (int out_size))
             in (r, out, enc\<lparr>en_encoder := Some e1\<rparr>)))"

definition opus_encoder_wrapper_destroy :: "'e opus_encoder_wrapper \<Rightarrow> 'e opus_encoder_wrapper" where
  "opus_encoder_wrapper_destroy enc = zero_encoder"

definition opus_decoder_wrapper_init ::
    "('e, 'd) opus_lib \<Rightarrow> 'd opus_decoder_wrapper \<Rightarrow> int \<Rightarrow> int
       \<Rightarrow> rc \<times> 'd opus_decoder_wrapper" where
  "opus_decoder_wrapper_init lib dec sample_rate channels =
     (if sample_rate \<le> 0 \<or> channels \<le> 0 then (- 1, dec)
      else
        (let (decoder, err) = ol_decoder_create lib sample_rate channels;
             dec1 = zero_decoder\<lparr>de_decoder := decoder\<rparr>
         in if decoder = None \<or> err \<noteq> 0 then (- 1, dec1)
            else (0, dec1\<lparr>de_sample_rate := sample_rate, de_channels := channels\<rparr>)))"

definition opus_decode_frame ::
    "('e, 'd) opus_lib \<Rightarrow> 'd opus_decoder_wrapper \<Rightarrow> byte list \<Rightarrow> int
       \<Rightarrow> int \<times> sample list \<times> 'd opus_decoder_wrapper" where
  "opus_decode_frame lib dec packet pcm_capacity =
     (case de_decoder dec of
        None \<Rightarrow> (- 1, [], dec)
      | Some d \<Rightarrow>
          if packet = [] then (- 1, [], dec)
          else if de_channels dec \<le> 0 then (- 1, [], dec)
          else
            (let frame_capacity = c_div pcm_capacity (de_channels dec)
             in if frame_capacity \<le> 0 then (- 1, [], dec)
                else
                  (let (r, pcm, d1) =
                         ol_decode lib d packet (int32 (int (length packet))) frame_capacity
                   in (r, pcm, dec\<lparr>de_decoder := Some d1\<rparr>))))"

definition opus_decoder_wrapper_destroy :: "'d opus_decoder_wrapper \<Rightarrow> 'd opus_decoder_wrapper" where
  "opus_decoder_wrapper_destroy dec = zero_decoder"

subsection \<open>What the library promises\<close>

definition opus_encode_law :: "('e, 'd) opus_lib \<Rightarrow> bool" where
  "opus_encode_law lib \<longleftrightarrow>
     (\<forall>e pcm n m r out e1. ol_encode lib e pcm n m = (r, out, e1) \<longrightarrow>
        (0 < r \<longrightarrow> r \<le> m \<and> int (length out) = r))"

text \<open>\<open>chans\<close> is the channel count the decoder was created with.\<close>

definition opus_decode_law :: "('e, 'd) opus_lib \<Rightarrow> ('d \<Rightarrow> int) \<Rightarrow> bool" where
  "opus_decode_law lib chans \<longleftrightarrow>
     (\<forall>d packet n m r pcm d1. ol_decode lib d packet n m = (r, pcm, d1) \<longrightarrow>
        chans d1 = chans d \<and> (0 < r \<longrightarrow> r \<le> m \<and> int (length pcm) = r * chans d)) \<and>
     (\<forall>rate ch d err. ol_decoder_create lib rate ch = (Some d, err) \<longrightarrow> chans d = ch)"

lemma opus_encode_lawD:
  "opus_encode_law lib \<Longrightarrow> ol_encode lib e pcm n m = (r, out, e1) \<Longrightarrow>
     (0 < r \<longrightarrow> r \<le> m \<and> int (length out) = r)"
  unfolding opus_encode_law_def by blast

lemma opus_decode_lawD:
  "opus_decode_law lib chans \<Longrightarrow> ol_decode lib d packet n m = (r, pcm, d1) \<Longrightarrow>
     chans d1 = chans d \<and> (0 < r \<longrightarrow> r \<le> m \<and> int (length pcm) = r * chans d)"
  unfolding opus_decode_law_def by blast

text \<open>A wrapper around a decoder with the channel count the wrapper remembers.\<close>

definition decoder_ok :: "('d \<Rightarrow> int) \<Rightarrow> 'd opus_decoder_wrapper \<Rightarrow> bool" where
  "decoder_ok chans dec \<longleftrightarrow>
     (\<forall>d. de_decoder dec = Some d \<longrightarrow> de_channels dec \<le> 0 \<or> chans d = de_channels dec)"

lemma decoder_init_ok:
  assumes "opus_decode_law lib chans" and "decoder_ok chans dec"
  shows "decoder_ok chans (snd (opus_decoder_wrapper_init lib dec rate ch))"
proof (cases "ol_decoder_create lib rate ch")
  case (Pair o1 err)
  have "o1 = Some d \<Longrightarrow> chans d = ch" for d
    using assms(1) Pair unfolding opus_decode_law_def by blast
  then show ?thesis
    using assms(2)
    by (auto simp: opus_decoder_wrapper_init_def decoder_ok_def zero_decoder_def Pair Let_def)
qed

lemma encode_frame_bound:
  assumes "opus_encode_law lib" and "out_size \<le> 1000000"
    and "opus_encode_frame lib enc pcm n out_size = (r, out, enc')"
  shows "0 < r \<Longrightarrow> length out = nat r \<and> length out \<le> out_size \<and> n = en_samples_per_channel enc"
proof -
  assume "0 < r"
  then obtain e e1 where "ol_encode lib e pcm n (int32 (int out_size)) = (r, out, e1)"
    "n = en_samples_per_channel enc"
    using assms(3) by (auto simp: opus_encode_frame_def Let_def split: option.splits if_splits
        prod.splits)
  moreover have "int32 (int out_size) = int out_size"
    using assms(2) by (simp add: is_int32_def)
  ultimately show ?thesis using opus_encode_lawD [OF assms(1)] \<open>0 < r\<close> by fastforce
qed

subsection \<open>Properties\<close>

text \<open>A library for the witnesses: packets of three bytes, frames of two samples.\<close>

definition demo_opus :: "(unit, int) opus_lib" where
  "demo_opus =
     \<lparr>ol_encoder_create = (\<lambda>rate ch. (Some (), 0)),
      ol_encode = (\<lambda>e pcm n m. (if m < 3 then (- 2, [], e) else (3, [1, 2, 3], e))),
      ol_decoder_create = (\<lambda>rate ch. (Some ch, 0)),
      ol_decode = (\<lambda>ch packet n m. (if m < 2 \<or> ch < 0 then (- 2, [], ch)
                                      else (2, replicate (nat (2 * ch)) 7, ch)))\<rparr>"

lemma demo_opus_laws: "opus_encode_law demo_opus" "opus_decode_law demo_opus id"
  by (auto simp: opus_encode_law_def opus_decode_law_def demo_opus_def split: if_splits)

text \<open>
  The decoder never overruns the caller's sample buffer: after any successful
  initialisation, a frame decoded into a buffer of \<open>pcm_capacity\<close> samples has at most that many
  samples over all its channels, and the wrapper stays usable for the next frame.
\<close>

theorem decode_stays_in_buffer:
  assumes "opus_decode_law lib chans" and "decoder_ok chans dec" and "0 \<le> pcm_capacity"
    and "opus_decode_frame lib dec packet pcm_capacity = (r, pcm, dec')"
  shows "(0 < r \<longrightarrow> int (length pcm) = r * de_channels dec \<and> int (length pcm) \<le> pcm_capacity) \<and>
         decoder_ok chans dec' \<and> de_channels dec' = de_channels dec"
proof -
  have "r = - 1 \<and> dec' = dec \<or> (\<exists>d d1. de_decoder dec = Some d \<and> 0 < de_channels dec \<and>
      ol_decode lib d packet (int32 (int (length packet))) (pcm_capacity div de_channels dec) =
        (r, pcm, d1) \<and> dec' = dec\<lparr>de_decoder := Some d1\<rparr>)"
    using assms(3,4) unfolding opus_decode_frame_def Let_def not_le
    by (cases "de_decoder dec") (simp_all split: if_splits prod.splits)
  then consider "r = - 1" "dec' = dec"
    | d d1 where "de_decoder dec = Some d" "0 < de_channels dec"
        "ol_decode lib d packet (int32 (int (length packet))) (pcm_capacity div de_channels dec) =
           (r, pcm, d1)" "dec' = dec\<lparr>de_decoder := Some d1\<rparr>"
    by blast
  then show ?thesis
  proof cases
    case 1
    then show ?thesis using assms(2) by simp
  next
    case 2
    have ch: "chans d = de_channels dec" using assms(2) 2(1,2) by (auto simp: decoder_ok_def)
    have law: "chans d1 = chans d"
      "0 < r \<longrightarrow> r \<le> pcm_capacity div de_channels dec \<and> int (length pcm) = r * chans d"
      using opus_decode_lawD [OF assms(1) 2(3)] by auto
    have "r * de_channels dec \<le> pcm_capacity" if "r \<le> pcm_capacity div de_channels dec"
    proof -
      have "r * de_channels dec \<le> pcm_capacity div de_channels dec * de_channels dec"
        using mult_right_mono [OF that, of "de_channels dec"] 2(2) by simp
      then show ?thesis
        using div_mult_mod_eq [of pcm_capacity "de_channels dec"]
          pos_mod_sign [OF 2(2), of pcm_capacity] by linarith
    qed
    then show ?thesis using law ch 2(2,4) by (auto simp: decoder_ok_def)
  qed
qed

theorem decode_stays_in_buffer_witness:
  "let dec = snd (opus_decoder_wrapper_init demo_opus zero_decoder 24000 2);
       (r, pcm, dec') = opus_decode_frame demo_opus dec [1] 4096
   in r = 2 \<and> int (length pcm) \<le> 4096"
  using decode_stays_in_buffer [OF demo_opus_laws(2), of "snd (opus_decoder_wrapper_init demo_opus
      zero_decoder 24000 2)" 4096 "[1]"]
  by (simp add: demo_opus_def opus_decoder_wrapper_init_def opus_decode_frame_def zero_decoder_def
      decoder_ok_def)

text \<open>
  The capture thread hands over periods of 960 frames whatever the sample rate, and the
  encoder of 60 ms frames takes a period of 960 frames exactly for rates from 16000 to 16016;
  at every other configured rate each captured period is refused and nothing is uploaded.
\<close>

theorem capture_period_encodable:
  assumes "opus_encoder_wrapper_init lib enc0 rate 1 60 = (0, enc)"
  shows "(en_samples_per_channel enc = 960 \<longleftrightarrow> 16000 \<le> rate \<and> rate \<le> 16016) \<and>
         (16000 \<le> rate \<and> rate \<le> 16016 \<or>
            opus_encode_frame lib enc pcm 960 out_size = (- 1, [], enc))"
proof -
  have "en_samples_per_channel enc = rate * 60 div 1000"
    using assms by (auto simp: opus_encoder_wrapper_init_def Let_def split: if_splits prod.splits)
  then have iff: "en_samples_per_channel enc = 960 \<longleftrightarrow> 16000 \<le> rate \<and> rate \<le> 16016" by linarith
  have "en_samples_per_channel enc \<noteq> 960 \<Longrightarrow>
          opus_encode_frame lib enc pcm 960 out_size = (- 1, [], enc)"
    by (simp add: opus_encode_frame_def split: option.splits)
  with iff show ?thesis by blast
qed

theorem capture_period_encodable_witness:
  "opus_encode_frame demo_opus (snd (opus_encoder_wrapper_init demo_opus zero_encoder 48000 1 60))
     [] 960 512 =
   (- 1, [], snd (opus_encoder_wrapper_init demo_opus zero_encoder 48000 1 60))"
  using capture_period_encodable [of demo_opus zero_encoder 48000 _ "[]" 512]
  by (simp add: opus_encoder_wrapper_init_def demo_opus_def)

end
