(* ===== verification/Audio_Capture.thy ===== *)
theory Audio_Capture
  imports Event_Queue
begin

section \<open>Audio capture and silence detection (\<open>src/audio_capture.c\<close>)\<close>

text \<open>
  The capture thread: opening the ALSA device, reading periods, handing each to the
  application's callback, and adding up silence while an utterance is uploaded. ALSA is not
  part of the sources: the outcomes of its calls and the samples it delivers are arguments.
  An iteration is two steps, because the flags are read under the mutex and the period is
  handled after it is released: \<open>capture_flags\<close> and \<open>capture_period\<close>; the main thread's
  \<open>audio_capture_set_uploading\<close> may come between them.
\<close>

record audio_capture_config =
  cc_device :: string
  cc_sample_rate :: int
  cc_channels :: int
  cc_period_frames :: nat
  cc_silence_timeout_ms :: int
  cc_silence_threshold :: int

record audio_capture =
  cap_config :: audio_capture_config
  cap_has_cb :: bool
  cap_has_events :: bool
  cap_thread :: bool
  cap_running :: bool
  cap_uploading :: bool
  cap_silence_accumulator_ms :: int

definition zero_capture :: audio_capture where
  "zero_capture =
     \<lparr>cap_config = \<lparr>cc_device = [], cc_sample_rate = 0, cc_channels = 0, cc_period_frames = 0,
                    cc_silence_timeout_ms = 0, cc_silence_threshold = 0\<rparr>,
      cap_has_cb = False, cap_has_events = False, cap_thread = False, cap_running = False,
      cap_uploading = False, cap_silence_accumulator_ms = 0\<rparr>"

subsection \<open>Operations\<close>

text \<open>The cast to \<open>int16_t\<close> keeps the low 16 bits: the absolute value of -32768 is -32768.\<close>

definition abs_sample :: "sample \<Rightarrow> sample" where
  "abs_sample s = (let v = sint s in word_of_int (if v < 0 then - v else v))"

definition max_abs_sample :: "sample list \<Rightarrow> nat \<Rightarrow> int \<Rightarrow> sample" where
  "max_abs_sample pcm frames channels =
     foldl (\<lambda>peak s. if sint peak < sint (abs_sample s) then abs_sample s else peak) 0
       (take (frames * nat channels) pcm)"

definition silence_event :: app_event where
  "silence_event = zero_event\<lparr>ev_type := APP_EVENT_CAPTURE_SILENCE_TIMEOUT\<rparr>"

definition push_silence_timeout :: "audio_capture \<Rightarrow> event_queue \<Rightarrow> event_queue" where
  "push_silence_timeout cap events =
     (if \<not> cap_has_events cap then events else snd (event_queue_push events silence_event))"

text \<open>
  The results of the ALSA calls, in the order they are made, and the period size
  \<open>snd_pcm_hw_params_set_period_size_near\<close> chose. Besides the return code and the
  configuration the model counts the open handles and the parameter blocks left allocated.
\<close>

record capture_hw =
  hw_open :: int
  hw_malloc :: int
  hw_any :: int
  hw_access :: int
  hw_format :: int
  hw_channels :: int
  hw_rate :: int
  hw_period :: int
  hw_near :: nat
  hw_apply :: int

record alsa_held =
  held_handles :: nat
  held_params :: nat

definition audio_capture_open_device ::
    "capture_hw \<Rightarrow> audio_capture \<Rightarrow> rc \<times> audio_capture \<times> alsa_held" where
  "audio_capture_open_device hw cap =
     (let none = \<lparr>held_handles = 0, held_params = 0\<rparr>;
          opened = none\<lparr>held_handles := 1\<rparr>;
          with_params = opened\<lparr>held_params := 1\<rparr>;
          fail = (\<lambda>held. (- 1, cap, held
            \<lparr>held_params := (if held_params held = 0 then 0 else held_params held - 1),
             held_handles := held_handles held - 1\<rparr>))
      in if hw_open hw < 0 then (hw_open hw, cap, none)
         else if hw_malloc hw < 0 then fail opened
         else if hw_any hw < 0 then fail with_params
         else if hw_access hw < 0 then fail with_params
         else if hw_format hw < 0 then fail with_params
         else if hw_channels hw < 0 then fail with_params
         else if hw_rate hw < 0 then fail with_params
         else if hw_period hw < 0 then fail with_params
         else
           (let freed = with_params\<lparr>held_params := 0\<rparr> in
            if hw_apply hw < 0 then (hw_apply hw, cap, freed\<lparr>held_handles := 0\<rparr>)
            else (0, cap\<lparr>cap_config := (cap_config cap)\<lparr>cc_period_frames := hw_near hw\<rparr>\<rparr>, freed)))"

text \<open>The top of the loop: \<open>None\<close> leaves it, otherwise the \<open>uploading\<close> flag as read.\<close>

definition capture_flags :: "audio_capture \<Rightarrow> bool option" where
  "capture_flags cap = (if cap_running cap then Some (cap_uploading cap) else None)"

text \<open>
  The rest of an iteration, after \<open>snd_pcm_readi\<close> returned \<open>frames_read\<close> and left its samples
  in \<open>buffer\<close>: the new state, the queue, and the period given to the callback, if any. The
  accumulator is an \<open>int\<close>; where the code's addition overflows the model wraps around.
\<close>

definition capture_period ::
    "bool \<Rightarrow> int \<Rightarrow> sample list \<Rightarrow> audio_capture \<Rightarrow> event_queue
       \<Rightarrow> audio_capture \<times> event_queue \<times> (sample list \<times> nat) option" where
  "capture_period uploading frames_read buffer cap events =
     (if frames_read < 0 then (cap, events, None)
      else
        (let frames = nat frames_read;
             delivered = (if cap_has_cb cap then Some (buffer, frames) else None);
             cfg = cap_config cap
         in if uploading \<and> 0 < cc_silence_timeout_ms cfg then
              (let chunk_ms = int32 (c_div (frames_read * 1000) (cc_sample_rate cfg)) in
               if sint (max_abs_sample buffer frames (cc_channels cfg)) \<le> cc_silence_threshold cfg
               then
                 (let acc = int32 (cap_silence_accumulator_ms cap + chunk_ms) in
                  if acc \<ge> cc_silence_timeout_ms cfg
                  then (cap\<lparr>cap_silence_accumulator_ms := 0\<rparr>, push_silence_timeout cap events,
                        delivered)
                  else (cap\<lparr>cap_silence_accumulator_ms := acc\<rparr>, events, delivered))
               else (cap\<lparr>cap_silence_accumulator_ms := 0\<rparr>, events, delivered))
            else (cap\<lparr>cap_silence_accumulator_ms := 0\<rparr>, events, delivered)))"

text \<open>\<open>created\<close> is whether \<open>pthread_create\<close> succeeded.\<close>

definition audio_capture_start ::
    "bool \<Rightarrow> audio_capture_config option \<Rightarrow> bool \<Rightarrow> bool \<Rightarrow> rc \<times> audio_capture" where
  "audio_capture_start created cfg has_cb has_events =
     (let defaults = \<lparr>cc_device = snprintf_buf 64 ''default'', cc_sample_rate = 16000,
            cc_channels = 1, cc_period_frames = 960, cc_silence_timeout_ms = 1200,
            cc_silence_threshold = 500\<rparr>;
          c = (case cfg of None \<Rightarrow> defaults | Some given \<Rightarrow> given);
          c = c\<lparr>cc_sample_rate := (if cc_sample_rate c \<le> 0 then 16000 else cc_sample_rate c),
                cc_channels := (if cc_channels c \<le> 0 then 1 else cc_channels c),
                cc_period_frames := (if cc_period_frames c = 0 then 960 else cc_period_frames c),
                cc_silence_timeout_ms :=
                  (if cc_silence_timeout_ms c < 0 then 1200 else cc_silence_timeout_ms c),
                cc_silence_threshold :=
                  (if cc_silence_threshold c < 0 then 500 else cc_silence_threshold c),
                cc_device := (if cc_device c = [] then snprintf_buf 64 ''default'' else cc_device c)\<rparr>;
          cap = zero_capture\<lparr>cap_config := c, cap_has_cb := has_cb, cap_has_events := has_events,
                             cap_running := True\<rparr>
      in if \<not> created then (- 1, zero_capture) else (0, cap\<lparr>cap_thread := True\<rparr>))"

definition audio_capture_set_uploading :: "audio_capture \<Rightarrow> bool \<Rightarrow> audio_capture" where
  "audio_capture_set_uploading cap enabled =
     (let cap1 = cap\<lparr>cap_uploading := enabled\<rparr> in
      if \<not> cap_uploading cap1 then cap1\<lparr>cap_silence_accumulator_ms := 0\<rparr> else cap1)"

text \<open>
  The thread sees \<open>running = 0\<close> and is joined, and the object is cleared. The join returns when the
  \<open>snd_pcm_readi\<close> the thread is in does (\<open>reads_return\<close>); \<open>None\<close> otherwise.
\<close>

definition audio_capture_stop :: "bool \<Rightarrow> audio_capture \<Rightarrow> audio_capture option" where
  "audio_capture_stop reads_return cap =
     (if cap_thread cap \<and> \<not> reads_return then None else Some zero_capture)"

subsection \<open>Loudness\<close>

lemma sint_sample_range: "- 32768 \<le> sint (s :: sample)" "sint (s :: sample) \<le> 32767"
  using sint_range_size [of s] by (simp_all add: word_size)

lemma sint_small_sample: "- 32768 \<le> v \<Longrightarrow> v \<le> 32767 \<Longrightarrow> sint (word_of_int v :: sample) = v"
  by (simp add: sint_word_ariths sint_sbintrunc' signed_take_bit_int_eq_self)

lemma sint_abs_sample:
  "sint (abs_sample s) = (if sint s = - 32768 then - 32768 else \<bar>sint s\<bar>)"
proof (cases "sint s = - 32768")
  case True
  have "sint (word_of_int 32768 :: sample) = - 32768" by simp
  then show ?thesis using True by (simp add: abs_sample_def)
next
  case False
  then show ?thesis
    using sint_sample_range [of s] by (simp add: abs_sample_def Let_def sint_small_sample)
qed

lemma peak_fold:
  "sint (foldl (\<lambda>peak s. if sint peak < sint (abs_sample s) then abs_sample s else peak) p xs) \<le> t
     \<longleftrightarrow> sint p \<le> t \<and> (\<forall>s \<in> set xs. sint (abs_sample s) \<le> t)"
  by (induction xs arbitrary: p) auto

lemma max_abs_sample_le:
  assumes "0 \<le> t"
  shows "sint (max_abs_sample pcm frames channels) \<le> t \<longleftrightarrow>
    (\<forall>s \<in> set (take (frames * nat channels) pcm). sint s = - 32768 \<or> \<bar>sint s\<bar> \<le> t)"
  using assms unfolding max_abs_sample_def peak_fold by (auto simp: sint_abs_sample)

text \<open>
  A period counts as silent exactly when the magnitude of each of its samples, over all
  channels, is within the threshold, with one exception: a sample of -32768, the loudest there
  is, passes for silent, because its magnitude does not fit the 16 bits it is stored in.
\<close>

theorem silent_period_iff:
  assumes "0 \<le> threshold"
  shows "sint (max_abs_sample pcm frames channels) \<le> threshold \<longleftrightarrow>
    (\<forall>s \<in> set (take (frames * nat channels) pcm). sint s = - 32768 \<or> \<bar>sint s\<bar> \<le> threshold)"
  using assms by (rule max_abs_sample_le)

theorem silent_period_iff_witness:
  "sint (max_abs_sample (replicate 960 (word_of_int (- 32768))) 960 1) \<le> 0"
  using silent_period_iff [of 0 "replicate 960 (word_of_int (- 32768))" 960 1] by simp

subsection \<open>The silence accumulator\<close>

fun capture_run ::
    "(int \<times> sample list) list \<Rightarrow> bool \<Rightarrow> audio_capture \<Rightarrow> event_queue \<Rightarrow> audio_capture \<times> event_queue"
where
  "capture_run [] uploading cap events = (cap, events)"
| "capture_run ((n, buf) # ps) uploading cap events =
     (case capture_period uploading n buf cap events of
        (cap1, events1, _) \<Rightarrow> capture_run ps uploading cap1 events1)"

definition silent_period :: "audio_capture_config \<Rightarrow> int \<Rightarrow> int \<times> sample list \<Rightarrow> bool" where
  "silent_period cfg frames p \<longleftrightarrow> fst p = frames \<and>
     sint (max_abs_sample (snd p) (nat frames) (cc_channels cfg)) \<le> cc_silence_threshold cfg"

lemma capture_run_snoc:
  "capture_run (ps @ [p]) up cap q =
     (case capture_run ps up cap q of (cap1, q1) \<Rightarrow>
        (case capture_period up (fst p) (snd p) cap1 q1 of (cap2, q2, _) \<Rightarrow> (cap2, q2)))"
  by (induction ps arbitrary: cap q; cases p) (auto split: prod.splits)

lemma capture_period_config [simp]:
  "cap_config (fst (capture_period up n buf cap q)) = cap_config cap"
  "cap_has_events (fst (capture_period up n buf cap q)) = cap_has_events cap"
  by (simp_all add: capture_period_def Let_def)

lemma push_all_snoc: "push_all q (es @ [e]) = snd (event_queue_push (push_all q es) e)"
  by (simp add: push_all_def)

lemma periods_to_timeout:
  fixes T c :: int
  assumes "0 < T" and "0 < c"
  shows "0 < (T + c - 1) div c" and "T \<le> (k + 1) * c \<longleftrightarrow> (T + c - 1) div c \<le> k + 1"
proof -
  show "0 < (T + c - 1) div c"
    using assms by (simp add: pos_imp_zdiv_pos_iff)
  define q where "q = (T + c - 1) div c"
  define r where "r = (T + c - 1) mod c"
  have qr: "q * c + r = T + c - 1" "0 \<le> r" "r < c"
    using assms(2) by (simp_all add: q_def r_def)
  have "q * c \<le> (k + 1) * c" if "q \<le> k + 1"
    using mult_right_mono [OF that, of c] assms(2) by simp
  moreover have "(k + 2) * c \<le> q * c" if "k + 2 \<le> q"
    using mult_right_mono [OF that, of c] assms(2) by simp
  moreover have "(k + 2) * c = (k + 1) * c + c" by (simp add: algebra_simps)
  ultimately show "T \<le> (k + 1) * c \<longleftrightarrow> (T + c - 1) div c \<le> k + 1"
    using qr unfolding q_def [symmetric] by linarith
qed

text \<open>A run of silent periods, one by one.\<close>

lemma silent_run_counted:
  fixes c :: int
  assumes "0 < cc_silence_timeout_ms (cap_config cap)" and "0 \<le> frames"
    and "c = int32 (c_div (frames * 1000) (cc_sample_rate (cap_config cap)))" and "0 < c"
    and "K = nat ((cc_silence_timeout_ms (cap_config cap) + c - 1) div c)"
    and "cap_has_events cap" and "cap_silence_accumulator_ms cap = 0"
    and "\<forall>p \<in> set ps. silent_period (cap_config cap) frames p"
    and "capture_run ps True cap q = (cap', q')"
    and "cc_silence_timeout_ms (cap_config cap) + c \<le> 2 ^ 31"
  shows "q' = push_all q (replicate (length ps div K) silence_event) \<and>
         cap_silence_accumulator_ms cap' = int (length ps mod K) * c \<and>
         cap_config cap' = cap_config cap \<and> cap_has_events cap'"
proof -
  let ?T = "cc_silence_timeout_ms (cap_config cap)"
  have K: "0 < K" using periods_to_timeout(1) [OF assms(1,4)] assms(5) by simp
  have full: "?T \<le> (int k + 1) * c \<longleftrightarrow> K \<le> Suc k" for k
    using periods_to_timeout(2) [OF assms(1,4), of "int k"] assms(5) by linarith
  from assms(8,9) show ?thesis
  proof (induction ps arbitrary: cap' q' rule: rev_induct)
    case Nil
    then show ?case using assms(6,7) by simp
  next
    case (snoc p ps)
    obtain cap1 q1 where run: "capture_run ps True cap q = (cap1, q1)" by fastforce
    let ?n = "length ps"
    have ih: "q1 = push_all q (replicate (?n div K) silence_event)"
      "cap_silence_accumulator_ms cap1 = int (?n mod K) * c" "cap_config cap1 = cap_config cap"
      "cap_has_events cap1"
      using snoc.IH [OF _ run] snoc.prems(1) by simp_all
    have p: "fst p = frames"
      "sint (max_abs_sample (snd p) (nat frames) (cc_channels (cap_config cap))) \<le>
         cc_silence_threshold (cap_config cap)"
      using snoc.prems(1) by (simp_all add: silent_period_def)
    have sum: "int (?n mod K) * c + c = (int (?n mod K) + 1) * c" by (simp add: algebra_simps)
    have below: "int (?n mod K) * c < ?T"
    proof (cases "?n mod K")
      case 0
      then show ?thesis using assms(1) by simp
    next
      case (Suc k)
      then have "\<not> K \<le> Suc k" using mod_less_divisor [OF K, of ?n] by linarith
      then show ?thesis using full [of k] Suc by (simp add: add.commute)
    qed
    have "0 \<le> int (?n mod K) * c" "?T + c \<le> 2147483648" using assms(4,10) by simp_all
    then have "is_int32 (int (?n mod K) * c + c)"
      using below assms(4) unfolding is_int32_def by linarith
    then have acc: "int32 (int (?n mod K) * c + c) = (int (?n mod K) + 1) * c" using sum by simp
    have step: "(cap', q') =
        (if K \<le> Suc (?n mod K)
         then (cap1\<lparr>cap_silence_accumulator_ms := 0\<rparr>, push_silence_timeout cap1 q1)
         else (cap1\<lparr>cap_silence_accumulator_ms := (int (?n mod K) + 1) * c\<rparr>, q1))"
      using snoc.prems(2) p assms(1,2) ih(2-4) full [of "?n mod K"] acc
      by (auto simp: capture_run_snoc run capture_period_def assms(3) [symmetric] Let_def
          split: if_splits)
    show ?case
    proof (cases "Suc (?n mod K) = K")
      case True
      then have "Suc ?n div K = Suc (?n div K)" "Suc ?n mod K = 0"
        by (simp_all add: div_Suc mod_Suc)
      then show ?thesis
        using step ih True
        by (simp add: push_silence_timeout_def push_all_snoc replicate_append_same [symmetric])
    next
      case False
      then have "Suc ?n div K = ?n div K" "Suc ?n mod K = Suc (?n mod K)"
        by (simp_all add: div_Suc mod_Suc)
      moreover have "\<not> K \<le> Suc (?n mod K)"
        using False mod_less_divisor [OF K, of ?n] by linarith
      ultimately show ?thesis using step ih by (simp add: algebra_simps)
    qed
  qed
qed

text \<open>
  C38: while an utterance is uploaded, after \<open>n\<close> silent periods of equal length the thread has
  reported a timeout once for every \<open>K\<close> of them, \<open>K\<close> the least number of periods that lasts
  at least the configured timeout, and the accumulator holds the periods since the last
  report; the reports stand behind what was queued before, as far as the queue has room. The
  timeout and a period together must stay within an \<open>int\<close>, in which the code adds them up.
\<close>

theorem silence_timeouts_counted:
  fixes c :: int
  assumes "0 < cc_silence_timeout_ms (cap_config cap)" and "0 \<le> frames"
    and "c = int32 (c_div (frames * 1000) (cc_sample_rate (cap_config cap)))" and "0 < c"
    and "K = nat ((cc_silence_timeout_ms (cap_config cap) + c - 1) div c)"
    and "cap_has_events cap" and "cap_silence_accumulator_ms cap = 0"
    and "\<forall>p \<in> set ps. silent_period (cap_config cap) frames p"
    and "capture_run ps True cap q = (cap', q')"
    and "cc_silence_timeout_ms (cap_config cap) + c \<le> 2 ^ 31"
  shows "q' = push_all q (replicate (length ps div K) silence_event) \<and>
         cap_silence_accumulator_ms cap' = int (length ps mod K) * c"
  using silent_run_counted [OF assms] by blast

definition demo_capture :: audio_capture where
  "demo_capture = audio_capture_set_uploading (snd (audio_capture_start True None True True)) True"

theorem silence_timeouts_counted_witness:
  "\<exists>cap' q'. capture_run (replicate 45 (960, [0, 0])) True demo_capture
               (snd (event_queue_init True 4 zero_event_queue)) = (cap', q') \<and>
     q' = push_all (snd (event_queue_init True 4 zero_event_queue)) [silence_event, silence_event] \<and>
     cap_silence_accumulator_ms cap' = 300"
proof -
  obtain cap' q' where run: "capture_run (replicate 45 (960, [0, 0])) True demo_capture
               (snd (event_queue_init True 4 zero_event_queue)) = (cap', q')"
    by fastforce
  have cfg: "cc_silence_timeout_ms (cap_config demo_capture) = 1200"
    "cc_sample_rate (cap_config demo_capture) = 16000"
    "cc_silence_threshold (cap_config demo_capture) = 500" "cc_channels (cap_config demo_capture) = 1"
    "cap_has_events demo_capture" "cap_silence_accumulator_ms demo_capture = 0"
    by (simp_all add: demo_capture_def audio_capture_start_def audio_capture_set_uploading_def
        zero_capture_def)
  have silent: "silent_period (cap_config demo_capture) 960 (960, [0, 0])"
    by (simp add: silent_period_def cfg max_abs_sample_def abs_sample_def)
  have "q' = push_all (snd (event_queue_init True 4 zero_event_queue))
                (replicate (45 div 20) silence_event) \<and>
        cap_silence_accumulator_ms cap' = int (45 mod 20) * 60"
    using silence_timeouts_counted [OF _ _ _ _ _ cfg(5,6) _ run, of 960 60 20] silent
    by (simp add: cfg is_int32_def)
  then show ?thesis using run by (simp add: numeral_2_eq_2)
qed

text \<open>
  With a timeout at the end of the range, which the configuration accepts, the addition that should
  reach it overflows: nothing is reported, and the accumulated silence is negative.
\<close>

lemma silence_timeout_overflows:
  assumes "cap_config cap = \<lparr>cc_device = d, cc_sample_rate = 16000, cc_channels = 1, cc_period_frames = 960,
      cc_silence_timeout_ms = 2147483647, cc_silence_threshold = 500\<rparr>"
    and "cap_silence_accumulator_ms cap = 2147483640"
  shows "capture_period True 960 [0] cap q = (cap\<lparr>cap_silence_accumulator_ms := - 2147483596\<rparr>, q,
      if cap_has_cb cap then Some ([0], 960) else None)"
proof -
  have "int32 2147483700 = - 2147483596" "int32 60 = 60" by code_simp+
  then show ?thesis using assms
    by (simp add: capture_period_def c_div_nonneg max_abs_sample_def abs_sample_def)
qed

subsection \<open>Any interleaving\<close>

text \<open>
  What can happen to a running capture object: the thread reads its flags, later it handles a
  period with the flag it read, and the main thread switches the upload on or off at any
  point in between.
\<close>

datatype capture_step = Period bool int "sample list" | Set_Uploading bool

fun capture_do :: "capture_step \<Rightarrow> audio_capture \<times> event_queue \<Rightarrow> audio_capture \<times> event_queue" where
  "capture_do (Period up n buf) (cap, q) =
     (case capture_period up n buf cap q of (cap1, q1, _) \<Rightarrow> (cap1, q1))"
| "capture_do (Set_Uploading b) (cap, q) = (audio_capture_set_uploading cap b, q)"

definition capture_inv :: "audio_capture \<Rightarrow> bool" where
  "capture_inv cap \<longleftrightarrow>
     0 < cc_sample_rate (cap_config cap) \<and> 0 < cc_channels (cap_config cap) \<and>
     0 \<le> cc_silence_threshold (cap_config cap) \<and> 0 \<le> cc_silence_timeout_ms (cap_config cap) \<and>
     (cc_silence_timeout_ms (cap_config cap) \<le> 1147483647 \<longrightarrow> 0 \<le> cap_silence_accumulator_ms cap) \<and>
     (cap_silence_accumulator_ms cap < cc_silence_timeout_ms (cap_config cap) \<or>
      cap_silence_accumulator_ms cap = 0)"

definition sane_step :: "capture_step \<Rightarrow> bool" where
  "sane_step st \<longleftrightarrow> (case st of Period up n buf \<Rightarrow> n \<le> 1000000 | Set_Uploading b \<Rightarrow> True)"

lemma chunk_ms_range:
  assumes "0 \<le> n" and "n \<le> 1000000" and "0 < rate"
  shows "0 \<le> int32 (c_div (n * 1000) rate)" and "int32 (c_div (n * 1000) rate) \<le> 1000000000"
proof -
  have "0 \<le> n * 1000 div rate" "n * 1000 div rate \<le> n * 1000"
    using assms zdiv_mono2 [of "n * 1000" 1 rate] by (simp_all add: pos_imp_zdiv_nonneg_iff)
  then show "0 \<le> int32 (c_div (n * 1000) rate)" "int32 (c_div (n * 1000) rate) \<le> 1000000000"
    using assms by (simp_all add: is_int32_def)
qed

lemma sum_nonneg_int32: "0 \<le> a \<Longrightarrow> a < 1147483648 \<Longrightarrow> 0 \<le> b \<Longrightarrow> b \<le> 1000000000 \<Longrightarrow> 0 \<le> int32 (a + b)"
  by (simp add: is_int32_def)

lemma capture_start_inv:
  assumes "audio_capture_start created cfg has_cb has_events = (0, cap)"
  shows "capture_inv cap \<and> \<not> cap_uploading cap"
proof -
  define c where "c = (case cfg of None \<Rightarrow> \<lparr>cc_device = snprintf_buf 64 ''default'', cc_sample_rate = 16000,
            cc_channels = 1, cc_period_frames = 960, cc_silence_timeout_ms = 1200,
            cc_silence_threshold = 500\<rparr> | Some given \<Rightarrow> given)"
  have "created" using assms unfolding audio_capture_start_def Let_def by (rule contrapos_pp) simp
  have "cap = zero_capture\<lparr>cap_config := c\<lparr>cc_sample_rate := (if cc_sample_rate c \<le> 0 then 16000 else cc_sample_rate c),
                cc_channels := (if cc_channels c \<le> 0 then 1 else cc_channels c),
                cc_period_frames := (if cc_period_frames c = 0 then 960 else cc_period_frames c),
                cc_silence_timeout_ms :=
                  (if cc_silence_timeout_ms c < 0 then 1200 else cc_silence_timeout_ms c),
                cc_silence_threshold :=
                  (if cc_silence_threshold c < 0 then 500 else cc_silence_threshold c),
                cc_device := (if cc_device c = [] then snprintf_buf 64 ''default'' else cc_device c)\<rparr>,
       cap_has_cb := has_cb, cap_has_events := has_events, cap_running := True, cap_thread := True\<rparr>"
    using assms \<open>created\<close> unfolding audio_capture_start_def Let_def c_def [symmetric]
    by (simp split del: if_split)
  then show ?thesis by (simp add: capture_inv_def zero_capture_def)
qed

lemma capture_do_inv [inv_intros]:
  assumes "capture_inv cap" and "sane_step st" and "eq_inv q"
  shows "capture_inv (fst (capture_do st (cap, q))) \<and> eq_inv (snd (capture_do st (cap, q)))"
proof (cases st)
  case (Period up n buf)
  define chunk where "chunk = int32 (c_div (n * 1000) (cc_sample_rate (cap_config cap)))"
  have "0 \<le> n \<Longrightarrow> 0 \<le> chunk \<and> chunk \<le> 1000000000"
    using chunk_ms_range assms(1,2) Period by (simp add: capture_inv_def sane_step_def chunk_def)
  then have "0 \<le> n \<Longrightarrow> cc_silence_timeout_ms (cap_config cap) \<le> 1147483647 \<Longrightarrow>
      0 \<le> int32 (cap_silence_accumulator_ms cap + chunk)"
    using assms(1) by (intro sum_nonneg_int32) (auto simp: capture_inv_def)
  then show ?thesis
    using assms(1,3) Period
    by (auto simp: capture_period_def Let_def capture_inv_def push_silence_timeout_def
        chunk_def [symmetric] simp del: int32_id c_div_nonneg intro: eq_push_inv)
next
  case (Set_Uploading b)
  then show ?thesis
    using assms by (simp add: audio_capture_set_uploading_def capture_inv_def Let_def)
qed

text \<open>
  From \<open>audio_capture_start\<close>, whatever configuration it was given, and in every
  interleaving of the thread's periods with the main thread's switching, the rate and channel
  count stay positive (no division by zero), the accumulated silence never reaches the
  timeout between two periods, and the event queue stays well formed.
\<close>

theorem capture_invariant:
  assumes "audio_capture_start True cfg has_cb has_events = (0, cap)"
    and "eq_inv q" and "\<forall>st \<in> set steps. sane_step st"
    and "fold capture_do steps (cap, q) = (cap', q')"
  shows "capture_inv cap' \<and> eq_inv q'"
proof -
  have "capture_inv cap" using capture_start_inv [OF assms(1)] by simp
  with assms(2-4) show ?thesis
  proof (induction steps arbitrary: cap q)
    case Nil
    then show ?case by simp
  next
    case (Cons st steps)
    obtain cap1 q1 where st: "capture_do st (cap, q) = (cap1, q1)" by fastforce
    have "capture_inv cap1 \<and> eq_inv q1"
      using capture_do_inv [of cap st q] Cons.prems st by simp
    moreover have "fold capture_do steps (cap1, q1) = (cap', q')"
      using Cons.prems(3) st by simp
    ultimately show ?case using Cons.IH [of q1 cap1] Cons.prems(2) by simp
  qed
qed

theorem capture_invariant_witness:
  "capture_inv (fst (fold capture_do
     [Set_Uploading True, Period True 960 [0], Set_Uploading False, Period True 960 [0]]
     (snd (audio_capture_start True None True True), snd (event_queue_init True 4 zero_event_queue))))"
proof -
  have cap: "audio_capture_start True None True True =
     (0, snd (audio_capture_start True None True True))"
    by (simp add: audio_capture_start_def)
  have q: "eq_inv (snd (event_queue_init True 4 zero_event_queue))"
    using event_queue_init_ok [of True 4 zero_event_queue] by (simp add: event_queue_init_def)
  show ?thesis
    by (rule capture_invariant [OF cap q, THEN conjunct1, OF _ prod.collapse [symmetric]])
       (simp add: sane_step_def)
qed

text \<open>
  Opening the device leaks nothing: whichever call fails, the handle is closed and the
  parameter block freed; on success the handle is the only thing held.
\<close>

lemma capture_open_no_leak:
  "audio_capture_open_device hw cap = (r, cap', held) \<Longrightarrow>
     held_params held = 0 \<and> (r = 0 \<longrightarrow> held_handles held = 1) \<and> (r \<noteq> 0 \<longrightarrow> held_handles held = 0) \<and>
     r \<le> 0"
  by (auto simp: audio_capture_open_device_def Let_def split: if_splits)

end
