(* ===== verification/Audio_Playback.thy ===== *)
theory Audio_Playback
  imports Audio_Buffer Event_Queue
begin

section \<open>Audio playback (\<open>src/audio_playback.c\<close>)\<close>

text \<open>
  Decoded frames are copied into the audio buffer by the network thread and written to the
  ALSA device by the playback thread. The device is not part of the sources: it is a record
  of functions over a device state \<open>'c\<close>, the results of opening it and of \<open>snd_pcm_writei\<close>
  and \<open>snd_pcm_recover\<close>. One turn of the thread's loop is \<open>playback_turn\<close>, and again
  cut in two at the blocking write; the loop that writes a block may never return, so it is a
  \<open>partial_function\<close> whose value is then \<open>None\<close>, and with it that of joining the thread.
\<close>

record audio_playback_config =
  pc_device :: string
  pc_channels :: int
  pc_default_sample_rate :: int
  pc_queue_capacity :: nat
  pc_max_frame_bytes :: nat

record audio_playback =
  pb_config :: audio_playback_config
  pb_queue :: audio_buffer
  pb_has_events :: bool
  pb_thread :: bool
  pb_running :: bool
  pb_stop_requested :: bool

definition zero_playback :: audio_playback where
  "zero_playback =
     \<lparr>pb_config = \<lparr>pc_device = [], pc_channels = 0, pc_default_sample_rate = 0,
                   pc_queue_capacity = 0, pc_max_frame_bytes = 0\<rparr>,
      pb_queue = zero_audio_buffer, pb_has_events = False, pb_thread = False,
      pb_running = False, pb_stop_requested = False\<rparr>"

subsection \<open>Samples as bytes\<close>

text \<open>The casts between \<open>int16_t *\<close> and \<open>uint8_t *\<close>: low byte first.\<close>

definition sample_bytes :: "sample \<Rightarrow> byte list" where
  "sample_bytes s = [ucast s, ucast (drop_bit 8 s)]"

definition pcm_bytes :: "sample list \<Rightarrow> byte list" where
  "pcm_bytes pcm = concat (map sample_bytes pcm)"

fun bytes_pcm :: "byte list \<Rightarrow> sample list" where
  "bytes_pcm (lo # hi # bs) = word_cat hi lo # bytes_pcm bs"
| "bytes_pcm _ = []"

subsection \<open>Start threshold\<close>

definition SIZE_MAX :: nat where
  "SIZE_MAX = 2 ^ 64 - 1"

definition audio_playback_compute_start_threshold :: "nat \<Rightarrow> nat \<Rightarrow> nat \<Rightarrow> nat" where
  "audio_playback_compute_start_threshold buffer_frames period_frames periods_to_buffer =
     (if buffer_frames = 0 then 0
      else if period_frames = 0 \<or> periods_to_buffer = 0 then buffer_frames
      else if period_frames > SIZE_MAX div periods_to_buffer then buffer_frames
      else
        (let requested = period_frames * periods_to_buffer mod 2 ^ 64
         in if requested < buffer_frames then requested else buffer_frames))"

subsection \<open>Writing a block\<close>

partial_function (option) write_loop ::
    "('c \<Rightarrow> sample list \<Rightarrow> nat \<Rightarrow> int \<times> 'c) \<Rightarrow> ('c \<Rightarrow> int \<Rightarrow> int \<times> 'c) option \<Rightarrow> int
       \<Rightarrow> sample list \<Rightarrow> nat \<Rightarrow> nat \<Rightarrow> 'c \<Rightarrow> (rc \<times> 'c) option" where
  "write_loop write_frames recover channels pcm frames written c =
     (if written < frames then
        (case write_frames c (drop (written * nat channels) pcm) (frames - written) of
           (r, c1) \<Rightarrow>
             (if 0 < r then
                write_loop write_frames recover channels pcm frames (written + nat r) c1
              else if r = 0 then Some (- 1, c1)
              else
                (case recover of
                   None \<Rightarrow> Some (- 1, c1)
                 | Some rec \<Rightarrow>
                     (case rec c1 (int32 r) of
                        (rr, c2) \<Rightarrow>
                          (if rr \<noteq> 0 then Some (- 1, c2)
                           else write_loop write_frames recover channels pcm frames written c2)))))
      else Some (0, c))"

definition audio_playback_write_all_frames ::
    "sample list \<Rightarrow> nat \<Rightarrow> int \<Rightarrow> ('c \<Rightarrow> sample list \<Rightarrow> nat \<Rightarrow> int \<times> 'c)
       \<Rightarrow> ('c \<Rightarrow> int \<Rightarrow> int \<times> 'c) option \<Rightarrow> 'c \<Rightarrow> (rc \<times> 'c) option" where
  "audio_playback_write_all_frames pcm frames channels write_frames recover c =
     (if frames = 0 \<or> channels \<le> 0 then Some (- 1, c)
      else write_loop write_frames recover channels pcm frames 0 c)"

subsection \<open>The device\<close>

record sw_calls =
  sw_params :: "int \<times> nat \<times> nat"
  sw_malloc :: int
  sw_current :: int
  sw_avail :: int
  sw_start :: int
  sw_apply :: int

record playback_hw =
  pw_open :: int
  pw_malloc :: int
  pw_any :: int
  pw_access :: int
  pw_format :: int
  pw_channels :: int
  pw_rate :: int
  pw_apply :: int
  pw_sw :: sw_calls

record 'c alsa =
  al_hw :: "int \<Rightarrow> 'c \<Rightarrow> playback_hw \<times> 'c"
  al_writei :: "sample list \<Rightarrow> nat \<Rightarrow> 'c \<Rightarrow> int \<times> 'c"
  al_recover :: "int \<Rightarrow> 'c \<Rightarrow> int \<times> 'c"
  al_close :: "'c \<Rightarrow> 'c"
  al_prepare :: "'c \<Rightarrow> 'c"

text \<open>The return code and the start threshold handed to the device, if it gets that far.\<close>

definition audio_playback_apply_sw_params :: "sw_calls \<Rightarrow> rc \<times> nat option" where
  "audio_playback_apply_sw_params sw =
     (let (params_rc, buffer_size, period_size) = sw_params sw;
          threshold = audio_playback_compute_start_threshold buffer_size period_size 3;
          start_threshold = (if threshold = 0 then buffer_size else threshold)
      in if params_rc < 0 then (- 1, None)
         else if sw_malloc sw < 0 then (- 1, None)
         else if sw_current sw < 0 then (- 1, None)
         else if sw_avail sw < 0 then (- 1, None)
         else if sw_start sw < 0 then (- 1, Some start_threshold)
         else (if sw_apply sw < 0 then - 1 else 0, Some start_threshold))"

text \<open>Failing software parameters only cost a warning.\<close>

definition audio_playback_open_device :: "playback_hw \<Rightarrow> rc" where
  "audio_playback_open_device hw =
     (if pw_open hw < 0 then pw_open hw
      else if pw_malloc hw < 0 \<or> pw_any hw < 0 \<or> pw_access hw < 0 \<or> pw_format hw < 0 \<or>
              pw_channels hw < 0 \<or> pw_rate hw < 0 then - 1
      else if pw_apply hw < 0 then pw_apply hw
      else (case audio_playback_apply_sw_params (pw_sw hw) of (sw_rc, _) \<Rightarrow> 0))"

definition audio_playback_alsa_write_frames ::
    "'c alsa \<Rightarrow> 'c \<Rightarrow> sample list \<Rightarrow> nat \<Rightarrow> int \<times> 'c" where
  "audio_playback_alsa_write_frames dev c pcm frames =
     (if frames = 0 then (- 1, c) else al_writei dev pcm frames c)"

abbreviation EAGAIN :: int where "EAGAIN \<equiv> 11"
abbreviation EINTR :: int where "EINTR \<equiv> 4"

definition audio_playback_alsa_recover :: "'c alsa \<Rightarrow> 'c \<Rightarrow> int \<Rightarrow> int \<times> 'c" where
  "audio_playback_alsa_recover dev c err =
     (if err = - EAGAIN \<or> err = - EINTR then (0, c)
      else
        (let (r, c1) = al_recover dev err c in (if r < 0 then - 1 else 0, c1)))"

subsection \<open>The thread\<close>

definition finished_event :: app_event where
  "finished_event = zero_event\<lparr>ev_type := APP_EVENT_PLAYBACK_FINISHED\<rparr>"

definition push_playback_finished :: "audio_playback \<Rightarrow> event_queue \<Rightarrow> event_queue" where
  "push_playback_finished pb events =
     (if \<not> pb_has_events pb then events else snd (event_queue_push events finished_event))"

record playback_local =
  pl_pcm :: bool
  pl_rate :: int

datatype turn_status = Exit_Thread | Wait_Cond | Next_Turn

record 'c playback_world =
  pw_pb :: audio_playback
  pw_local :: playback_local
  pw_events :: event_queue
  pw_dev :: 'c

text \<open>Opening the device for a block, when it is closed or runs at another rate.\<close>

definition playback_device_for ::
    "'c alsa \<Rightarrow> int \<Rightarrow> playback_local \<Rightarrow> 'c \<Rightarrow> playback_local \<times> 'c" where
  "playback_device_for dev rate l c =
     (if \<not> pl_pcm l \<or> pl_rate l \<noteq> rate then
        (let c1 = (if pl_pcm l then al_close dev c else c);
             (hw, c2) = al_hw dev rate c1
         in if audio_playback_open_device hw \<noteq> 0 then (\<lparr>pl_pcm = False, pl_rate = 0\<rparr>, c2)
            else (\<lparr>pl_pcm = True, pl_rate = rate\<rparr>, c2))
      else (l, c))"

text \<open>\<open>None\<close>: the turn never ends, because writing the block does not.\<close>

definition playback_turn ::
    "'c alsa \<Rightarrow> 'c playback_world \<Rightarrow> (turn_status \<times> 'c playback_world) option" where
  "playback_turn dev w =
     (let pb = pw_pb w; l = pw_local w; c = pw_dev w in
      if pb_running pb \<and> audio_buffer_size (pb_queue pb) = 0 \<and> \<not> pb_stop_requested pb
      then Some (Wait_Cond, w)
      else if \<not> pb_running pb
      then Some (Exit_Thread, w\<lparr>pw_local := \<lparr>pl_pcm = False, pl_rate = pl_rate l\<rparr>,
                                 pw_dev := (if pl_pcm l then al_close dev c else c)\<rparr>)
      else if pb_stop_requested pb
      then Some (Next_Turn,
             w\<lparr>pw_pb := pb\<lparr>pb_stop_requested := False\<rparr>,
               pw_local := (if pl_pcm l then \<lparr>pl_pcm = False, pl_rate = 0\<rparr> else l),
               pw_dev := (if pl_pcm l then al_close dev c else c),
               pw_events := push_playback_finished pb (pw_events w)\<rparr>)
      else
        (case audio_buffer_pop (pb_queue pb) of
           (_, None, q1) \<Rightarrow> Some (Next_Turn, w)
         | (_, Some block, q1) \<Rightarrow>
             (let pb1 = pb\<lparr>pb_queue := q1\<rparr>;
                  (l1, c1) = playback_device_for dev (blk_rate block) l c
              in if \<not> pl_pcm l1
                 then Some (Next_Turn, w\<lparr>pw_pb := pb1, pw_local := l1, pw_dev := c1\<rparr>)
                 else
                   (let frames = blk_len block div (2 * nat (pc_channels (pb_config pb))) in
                    case audio_playback_write_all_frames (bytes_pcm (block_bytes q1 block)) frames
                           (pc_channels (pb_config pb)) (audio_playback_alsa_write_frames dev)
                           (Some (audio_playback_alsa_recover dev)) c1 of
                      None \<Rightarrow> None
                    | Some (r, c2) \<Rightarrow>
                        Some (Next_Turn,
                          w\<lparr>pw_pb := pb1, pw_local := l1,
                            pw_dev := (if r \<noteq> 0 then al_prepare dev c2 else c2),
                            pw_events := (if r = 0 \<and> audio_buffer_size q1 = 0
                                          then push_playback_finished pb1 (pw_events w)
                                          else pw_events w)\<rparr>)))))"

text \<open>
  The same turn, cut where the thread blocks: \<open>playback_take\<close> runs up to the write of a block,
  which it has popped by then, and \<open>playback_write\<close> writes what remains of it after \<open>written\<close>
  frames and ends the turn. Other threads run in between; the block is read through its pointer
  when it is written.
\<close>

definition playback_take ::
    "'c alsa \<Rightarrow> 'c playback_world \<Rightarrow> turn_status \<times> 'c playback_world \<times> audio_block option" where
  "playback_take dev w =
     (let pb = pw_pb w; l = pw_local w; c = pw_dev w in
      if pb_running pb \<and> audio_buffer_size (pb_queue pb) = 0 \<and> \<not> pb_stop_requested pb
      then (Wait_Cond, w, None)
      else if \<not> pb_running pb
      then (Exit_Thread, w\<lparr>pw_local := \<lparr>pl_pcm = False, pl_rate = pl_rate l\<rparr>,
                           pw_dev := (if pl_pcm l then al_close dev c else c)\<rparr>, None)
      else if pb_stop_requested pb
      then (Next_Turn,
             w\<lparr>pw_pb := pb\<lparr>pb_stop_requested := False\<rparr>,
               pw_local := (if pl_pcm l then \<lparr>pl_pcm = False, pl_rate = 0\<rparr> else l),
               pw_dev := (if pl_pcm l then al_close dev c else c),
               pw_events := push_playback_finished pb (pw_events w)\<rparr>, None)
      else
        (case audio_buffer_pop (pb_queue pb) of
           (_, None, q1) \<Rightarrow> (Next_Turn, w, None)
         | (_, Some block, q1) \<Rightarrow>
             (case playback_device_for dev (blk_rate block) l c of
                (l1, c1) \<Rightarrow>
                  (Next_Turn, w\<lparr>pw_pb := pb\<lparr>pb_queue := q1\<rparr>, pw_local := l1, pw_dev := c1\<rparr>,
                   if pl_pcm l1 then Some block else None))))"

definition playback_write ::
    "'c alsa \<Rightarrow> audio_block \<Rightarrow> nat \<Rightarrow> 'c playback_world \<Rightarrow> 'c playback_world option" where
  "playback_write dev block written w =
     (let pb = pw_pb w;
          ch = pc_channels (pb_config pb);
          frames = blk_len block div (2 * nat ch)
      in case (if frames = 0 \<or> ch \<le> 0 then Some (- 1, pw_dev w)
               else write_loop (audio_playback_alsa_write_frames dev)
                      (Some (audio_playback_alsa_recover dev)) ch
                      (bytes_pcm (block_bytes (pb_queue pb) block)) frames written (pw_dev w)) of
           None \<Rightarrow> None
         | Some (r, c2) \<Rightarrow>
             Some (w\<lparr>pw_dev := (if r \<noteq> 0 then al_prepare dev c2 else c2),
                     pw_events := (if r = 0 \<and> audio_buffer_size (pb_queue pb) = 0
                                   then push_playback_finished pb (pw_events w)
                                   else pw_events w)\<rparr>))"

lemma playback_turn_split:
  "playback_turn dev w =
     (case playback_take dev w of
        (st, w1, None) \<Rightarrow> Some (st, w1)
      | (st, w1, Some block) \<Rightarrow> map_option (Pair st) (playback_write dev block 0 w1))"
  by (auto simp: playback_turn_def playback_take_def playback_write_def
      audio_playback_write_all_frames_def Let_def push_playback_finished_def
      split: prod.split option.split)

subsection \<open>The interface\<close>

text \<open>\<open>alloc\<close> and \<open>created\<close>: whether the buffer's memory and the thread could be had.\<close>

definition audio_playback_init ::
    "bool \<Rightarrow> bool \<Rightarrow> audio_playback_config option \<Rightarrow> bool \<Rightarrow> rc \<times> audio_playback" where
  "audio_playback_init alloc created cfg has_events =
     (let defaults = \<lparr>pc_device = snprintf_buf 64 ''default'', pc_channels = 1,
            pc_default_sample_rate = 24000, pc_queue_capacity = 16, pc_max_frame_bytes = 4096\<rparr>;
          c = (case cfg of None \<Rightarrow> defaults | Some given \<Rightarrow> given);
          c = c\<lparr>pc_channels := (if pc_channels c \<le> 0 then 1 else pc_channels c),
                pc_queue_capacity := (if pc_queue_capacity c = 0 then 16 else pc_queue_capacity c),
                pc_max_frame_bytes :=
                  (if pc_max_frame_bytes c = 0 then 4096 else pc_max_frame_bytes c),
                pc_device := (if pc_device c = [] then snprintf_buf 64 ''default'' else pc_device c)\<rparr>;
          (r, q) = audio_buffer_init alloc (pc_queue_capacity c) (pc_max_frame_bytes c)
                     zero_audio_buffer;
          pb = zero_playback\<lparr>pb_config := c, pb_queue := q\<rparr>
      in if r \<noteq> 0 then (- 1, pb)
         else
           (let pb1 = pb\<lparr>pb_has_events := has_events, pb_running := True\<rparr> in
            if \<not> created then (- 1, pb1\<lparr>pb_queue := audio_buffer_destroy q\<rparr>)
            else (0, pb1\<lparr>pb_thread := True\<rparr>)))"

text \<open>\<open>pcm\<close> is the array the caller points at; it holds at least \<open>frames * channels\<close> samples.\<close>

definition audio_playback_enqueue ::
    "audio_playback \<Rightarrow> sample list \<Rightarrow> nat \<Rightarrow> int \<Rightarrow> rc \<times> audio_playback" where
  "audio_playback_enqueue pb pcm frames sample_rate =
     (if frames = 0 then (- 1, pb)
      else
        (let bytes = frames * 2 * nat (pc_channels (pb_config pb));
             (r, q) = audio_buffer_push (pb_queue pb) (take bytes (pcm_bytes pcm)) sample_rate
         in (r, pb\<lparr>pb_queue := q\<rparr>)))"

definition audio_playback_request_stop :: "audio_playback \<Rightarrow> audio_playback" where
  "audio_playback_request_stop pb = pb\<lparr>pb_stop_requested := True\<rparr>"

text \<open>
  Where the thread is when it is asked to end: before its look at \<open>running\<close>, just after it (the
  flag is only seen at the next turn), or writing a block of which some frames have been taken.
  It is joined, so that what it still does is part of destroying: \<open>None\<close> when the device never
  lets it finish.
\<close>

datatype playback_position = At_Top | Past_Check | Writing audio_block nat

definition playback_join ::
    "'c alsa \<Rightarrow> playback_position \<Rightarrow> 'c playback_world \<Rightarrow> 'c playback_world option" where
  "playback_join dev pos w =
     (let stop = (\<lambda>v. v\<lparr>pw_pb := (pw_pb v)\<lparr>pb_running := False\<rparr>\<rparr>) in
      case (case pos of
              At_Top \<Rightarrow> Some w
            | Past_Check \<Rightarrow> map_option snd (playback_turn dev w)
            | Writing block written \<Rightarrow> playback_write dev block written w) of
        None \<Rightarrow> None
      | Some w1 \<Rightarrow> map_option snd (playback_turn dev (stop w1)))"

text \<open>Then everything is freed and cleared.\<close>

definition audio_playback_destroy ::
    "'c alsa \<Rightarrow> playback_position \<Rightarrow> 'c playback_world \<Rightarrow> 'c playback_world option" where
  "audio_playback_destroy dev pos w =
     (let joined = (if pb_thread (pw_pb w) then playback_join dev pos w else Some w)
      in map_option (\<lambda>w1. w1\<lparr>pw_pb := zero_playback\<rparr>) joined)"

subsection \<open>Lemmas and properties: samples and thresholds\<close>

lemma bytes_of_sample: "word_cat (ucast (drop_bit 8 s) :: byte) (ucast s :: byte) = (s :: sample)"
  by (rule bit_word_eqI) (auto simp: bit_word_cat_iff bit_ucast_iff bit_drop_bit_eq)

lemma pcm_bytes_Cons [simp]:
  "pcm_bytes [] = []" "pcm_bytes (s # pcm) = ucast s # ucast (drop_bit 8 s) # pcm_bytes pcm"
  by (simp_all add: pcm_bytes_def sample_bytes_def)

lemma bytes_pcm_bytes [simp]: "bytes_pcm (pcm_bytes pcm) = pcm"
  by (induction pcm) (simp_all add: bytes_of_sample)

lemma length_pcm_bytes [simp]: "length (pcm_bytes pcm) = 2 * length pcm"
  by (induction pcm) simp_all

lemma take_pcm_bytes: "take (n * 2) (pcm_bytes pcm) = pcm_bytes (take n pcm)"
proof (induction pcm arbitrary: n)
  case (Cons s pcm)
  then show ?case by (cases n) simp_all
qed simp

text \<open>
  The start threshold is the requested number of periods, or the whole buffer when that is
  less, without wrap-around for any sizes a 64-bit \<open>size_t\<close> holds; 0 only for an empty buffer.
\<close>

theorem start_threshold_exact:
  assumes "buffer_frames < 2 ^ 64"
  shows "audio_playback_compute_start_threshold buffer_frames period_frames periods =
    (if period_frames * periods = 0 then buffer_frames else min (period_frames * periods) buffer_frames)"
proof (cases "period_frames \<le> SIZE_MAX div periods \<and> 0 < periods")
  case True
  then have "period_frames * periods \<le> SIZE_MAX"
    by (metis div_times_less_eq_dividend le_trans mult_le_mono1)
  then have "period_frames * periods < 2 ^ 64" by (simp add: SIZE_MAX_def)
  then show ?thesis
    using True by (auto simp: audio_playback_compute_start_threshold_def Let_def min_def)
next
  case False
  have "SIZE_MAX < period_frames * periods" if "0 < periods" "SIZE_MAX div periods < period_frames"
    using that by (metis div_less_iff_less_mult)
  then show ?thesis
    using False assms
    by (auto simp: audio_playback_compute_start_threshold_def SIZE_MAX_def)
qed

theorem start_threshold_exact_witness:
  "audio_playback_compute_start_threshold 5760 1440 3 = 4320"
  using start_threshold_exact [of 5760 1440 3] by simp

subsection \<open>Writing all of a block\<close>

text \<open>
  What the loop relies on: the device never takes more frames than offered, what it takes it
  plays, recovering plays nothing, and the loop can go on after an error only a bounded number
  of times (\<open>budget\<close>).
\<close>

definition device_law ::
    "nat \<Rightarrow> ('c \<Rightarrow> sample list \<Rightarrow> nat \<Rightarrow> int \<times> 'c) \<Rightarrow> ('c \<Rightarrow> int \<Rightarrow> int \<times> 'c)
       \<Rightarrow> ('c \<Rightarrow> sample list) \<Rightarrow> ('c \<Rightarrow> nat) \<Rightarrow> bool" where
  "device_law ch write_frames recover played budget \<longleftrightarrow>
     (\<forall>c buf n r c1. write_frames c buf n = (r, c1) \<longrightarrow>
        r \<le> int n \<and> played c1 = played c @ take (nat r * ch) buf \<and>
        (0 < r \<longrightarrow> budget c1 \<le> budget c) \<and>
        (r < 0 \<longrightarrow> (\<forall>rr c2. recover c1 (int32 r) = (rr, c2) \<longrightarrow>
           played c2 = played c1 \<and> (rr = 0 \<longrightarrow> budget c2 < budget c))))"

lemma device_law_write:
  "device_law ch wr rec played budget \<Longrightarrow> wr c buf n = (r, c1) \<Longrightarrow>
     r \<le> int n \<and> played c1 = played c @ take (nat r * ch) buf \<and> (0 < r \<longrightarrow> budget c1 \<le> budget c)"
  unfolding device_law_def by blast

lemma device_law_recover:
  "device_law ch wr rec played budget \<Longrightarrow> wr c buf n = (r, c1) \<Longrightarrow> r < 0 \<Longrightarrow>
     rec c1 (int32 r) = (rr, c2) \<Longrightarrow> played c2 = played c1 \<and> (rr = 0 \<longrightarrow> budget c2 < budget c)"
  unfolding device_law_def by blast

lemma take_drop_append: "take a xs @ take b (drop a xs) = take (a + b) xs"
  by (simp add: take_add)

lemma write_loop_result:
  assumes "device_law (nat ch) wr rec played budget" and "0 < ch"
    and "written \<le> frames" and "played c = base @ take (written * nat ch) pcm"
  shows "\<exists>r c1. write_loop wr (Some rec) ch pcm frames written c = Some (r, c1) \<and>
    (r = 0 \<and> played c1 = base @ take (frames * nat ch) pcm \<or>
     r = - 1 \<and> (\<exists>k < frames. played c1 = base @ take (k * nat ch) pcm))"
  using assms(3,4)
proof (induction "budget c + (frames - written)" arbitrary: c written rule: less_induct)
  case less
  show ?case
  proof (cases "written < frames")
    case False
    then have "written = frames" using less.prems(1) by simp
    then show ?thesis using less.prems by (subst write_loop.simps) simp
  next
    case True
    obtain r c1 where w: "wr c (drop (written * nat ch) pcm) (frames - written) = (r, c1)"
      by fastforce
    note law = device_law_write [OF assms(1) w]
    consider (progress) "0 < r" | (zero) "r = 0" | (fail) "r < 0" by linarith
    then show ?thesis
    proof cases
      case progress
      have le: "written + nat r \<le> frames" using law progress True by linarith
      have "written * nat ch + nat r * nat ch = (written + nat r) * nat ch"
        by (simp add: algebra_simps)
      then have "played c1 = base @ take ((written + nat r) * nat ch) pcm"
        using law less.prems(2) by (simp add: take_drop_append)
      moreover have "budget c1 + (frames - (written + nat r)) < budget c + (frames - written)"
        using law progress True by linarith
      ultimately show ?thesis
        using less.hyps [OF _ le] w True progress by (subst write_loop.simps) simp
    next
      case zero
      then show ?thesis
        using w True law less.prems(2) by (subst write_loop.simps) auto
    next
      case fail
      obtain rr c2 where rec: "rec c1 (int32 r) = (rr, c2)" by fastforce
      note rlaw = device_law_recover [OF assms(1) w fail rec]
      have same: "played c2 = base @ take (written * nat ch) pcm"
        using law rlaw fail less.prems(2) by simp
      show ?thesis
      proof (cases "rr = 0")
        case False
        then show ?thesis using w rec fail True same by (subst write_loop.simps) auto
      next
        case True2: True
        have "budget c2 + (frames - written) < budget c + (frames - written)"
          using law rlaw True2 by linarith
        then show ?thesis
          using less.hyps [OF _ less.prems(1) same] w rec True True2 fail
          by (subst write_loop.simps) simp
      qed
    qed
  qed
qed

lemma write_all_frames_result:
  assumes "device_law (nat ch) wr rec played budget" and "0 < ch" and "0 < frames"
    and "length pcm = frames * nat ch"
  shows "\<exists>r c1. audio_playback_write_all_frames pcm frames ch wr (Some rec) c = Some (r, c1) \<and>
    (r = 0 \<and> played c1 = played c @ pcm \<or>
     r = - 1 \<and> (\<exists>k < frames. played c1 = played c @ take (k * nat ch) pcm))"
  using write_loop_result [OF assms(1,2), of 0 frames c "played c" pcm] assms(2-4)
  by (simp add: audio_playback_write_all_frames_def)

text \<open>
  C39: on a device that recovers from errors only finitely often the write loop always returns;
  when it returns 0 the device has played every frame of the block exactly once and in order,
  however it split and interrupted the writes, and when it returns -1 the device has played a
  proper prefix of whole frames, nothing twice.
\<close>

theorem write_all_frames_exact:
  assumes "device_law (nat channels) write_frames recover played budget"
    and "0 < channels" and "0 < frames"
    and "length pcm = frames * nat channels"
  shows "\<exists>r c1. audio_playback_write_all_frames pcm frames channels write_frames (Some recover) c
             = Some (r, c1) \<and>
    (r = 0 \<and> played c1 = played c @ pcm \<or>
     r = - 1 \<and> (\<exists>k < frames. played c1 = played c @ take (k * nat channels) pcm))"
  by (rule write_all_frames_result [OF assms])

text \<open>A device for the witnesses: a script of results, recoveries left, what was played.\<close>

record scripted =
  sd_script :: "int list"
  sd_recoveries :: nat
  sd_played :: "sample list"

definition scripted_write :: "scripted \<Rightarrow> sample list \<Rightarrow> nat \<Rightarrow> int \<times> scripted" where
  "scripted_write d buf n =
     (let r = (case sd_script d of [] \<Rightarrow> int n | r # _ \<Rightarrow> min r (int n)) in
      (r, d\<lparr>sd_script := drop 1 (sd_script d), sd_played := sd_played d @ take (nat r) buf\<rparr>))"

definition scripted_recover :: "scripted \<Rightarrow> int \<Rightarrow> int \<times> scripted" where
  "scripted_recover d e =
     (if sd_recoveries d = 0 then (- 1, d) else (0, d\<lparr>sd_recoveries := sd_recoveries d - 1\<rparr>))"

lemma scripted_law: "device_law 1 scripted_write scripted_recover sd_played sd_recoveries"
  by (auto simp: device_law_def scripted_write_def scripted_recover_def Let_def
      split: list.splits if_splits)

theorem write_all_frames_exact_witness:
  "\<exists>r c1. audio_playback_write_all_frames [1, 2, 3] 3 1 scripted_write (Some scripted_recover)
        \<lparr>sd_script = [1, - 32, 5], sd_recoveries = 1, sd_played = []\<rparr> = Some (r, c1) \<and>
     (r = 0 \<and> sd_played c1 = [1, 2, 3] \<or> r = - 1)"
  using write_all_frames_exact [of 1 scripted_write scripted_recover sd_played sd_recoveries
      3 "[1, 2, 3]" "\<lparr>sd_script = [1, - 32, 5], sd_recoveries = 1, sd_played = []\<rparr>"] scripted_law
  by fastforce

subsection \<open>Turns of the thread\<close>

definition alsa_law :: "'c alsa \<Rightarrow> nat \<Rightarrow> ('c \<Rightarrow> sample list) \<Rightarrow> ('c \<Rightarrow> nat) \<Rightarrow> bool" where
  "alsa_law dev ch played budget \<longleftrightarrow>
     device_law ch (audio_playback_alsa_write_frames dev) (audio_playback_alsa_recover dev)
       played budget \<and>
     (\<forall>rate c. played (snd (al_hw dev rate c)) = played c) \<and>
     (\<forall>c. played (al_close dev c) = played c) \<and> (\<forall>c. played (al_prepare dev c) = played c)"

definition playback_busy :: "'c playback_world \<Rightarrow> bool" where
  "playback_busy w \<longleftrightarrow>
     ab_inv (pb_queue (pw_pb w)) \<and> pb_running (pw_pb w) \<and> \<not> pb_stop_requested (pw_pb w) \<and>
     0 < pc_channels (pb_config (pw_pb w))"

lemma device_for_played:
  assumes "alsa_law dev ch played budget"
  shows "played (snd (playback_device_for dev rate l c)) = played c"
  using assms by (auto simp: alsa_law_def playback_device_for_def Let_def split: prod.splits)
    (metis snd_conv)+

text \<open>A turn with a block in the queue, as the code runs through it.\<close>

lemma playback_turn_pop:
  assumes "playback_busy w" and "ab_contents (pb_queue (pw_pb w)) = (pcm_bytes pcm, rate) # rest"
    and "playback_device_for dev rate (pw_local w) (pw_dev w) = (l1, c1)"
  obtains q1 where "ab_contents q1 = rest" "ab_inv q1" "audio_buffer_size q1 = length rest"
    "playback_turn dev w =
       (if \<not> pl_pcm l1
        then Some (Next_Turn, w\<lparr>pw_pb := (pw_pb w)\<lparr>pb_queue := q1\<rparr>, pw_local := l1, pw_dev := c1\<rparr>)
        else
          (case audio_playback_write_all_frames pcm
                  (2 * length pcm div (2 * nat (pc_channels (pb_config (pw_pb w)))))
                  (pc_channels (pb_config (pw_pb w))) (audio_playback_alsa_write_frames dev)
                  (Some (audio_playback_alsa_recover dev)) c1 of
             None \<Rightarrow> None
           | Some (r, c2) \<Rightarrow>
               Some (Next_Turn,
                 w\<lparr>pw_pb := (pw_pb w)\<lparr>pb_queue := q1\<rparr>, pw_local := l1,
                   pw_dev := (if r \<noteq> 0 then al_prepare dev c2 else c2),
                   pw_events := (if r = 0 \<and> rest = []
                                 then push_playback_finished (pw_pb w) (pw_events w)
                                 else pw_events w)\<rparr>)))"
proof -
  let ?q = "pb_queue (pw_pb w)"
  have inv: "ab_inv ?q" and count: "0 < ab_count ?q"
    using assms(1,2) length_ab_contents [of ?q] by (auto simp: playback_busy_def)
  obtain blk q1 where pop: "audio_buffer_pop ?q = (1, Some blk, q1)"
    and entry: "ab_entry q1 blk = (pcm_bytes pcm, rate)" and rest: "ab_contents q1 = rest"
    and q1: "ab_inv q1"
    using pop_step [OF inv count] assms(2) by force
  have blk: "block_bytes q1 blk = pcm_bytes pcm" "blk_rate blk = rate"
    using entry by (simp_all add: ab_entry_def)
  have slot: "blk_data blk + blk_len blk \<le> length (ab_storage q1)"
  proof -
    have h: "ab_head ?q < ab_capacity ?q" using inv count by (auto simp: ab_inv_def ring_ok_def)
    have b: "blk = ab_blocks ?q ! ab_head ?q" "ab_storage q1 = ab_storage ?q"
      using pop count by (auto simp: audio_buffer_pop_def)
    show ?thesis
      using slot_in_storage [OF inv h, of "blk_len blk"] inv h b by (simp add: ab_inv_def)
  qed
  then have len: "blk_len blk = 2 * length pcm"
    using arg_cong [OF blk(1), of length] by (simp add: block_bytes_def mem_read_def)
  have size: "audio_buffer_size q1 = length rest"
    using rest length_ab_contents [of q1] by (simp add: audio_buffer_size_def)
  have fin: "push_playback_finished ((pw_pb w)\<lparr>pb_queue := q1\<rparr>) = push_playback_finished (pw_pb w)"
    by (simp add: push_playback_finished_def fun_eq_iff)
  show thesis
    by (rule that [OF rest q1 size])
       (use assms(1,3) count in \<open>simp add: playback_turn_def playback_busy_def
          audio_buffer_size_def [of "pb_queue (pw_pb w)"] pop blk len Let_def,
          simp add: fin size split: option.splits\<close>)
qed

lemma write_on_device:
  assumes law: "alsa_law dev (nat ch) played budget" and "0 < ch" and "length pcm = frames * nat ch" and "0 < frames"
  shows "\<exists>r c'. audio_playback_write_all_frames pcm frames ch
      (audio_playback_alsa_write_frames dev) (Some (audio_playback_alsa_recover dev)) c = Some (r, c') \<and>
    (r = 0 \<and> played c' = played c @ pcm \<or>
     r = - 1 \<and> (\<exists>n < length pcm. played (al_prepare dev c') = played c @ take n pcm))"
proof -
  obtain r c' where wr: "audio_playback_write_all_frames pcm frames ch
      (audio_playback_alsa_write_frames dev) (Some (audio_playback_alsa_recover dev)) c = Some (r, c')"
    and res: "r = 0 \<and> played c' = played c @ pcm \<or>
      r = - 1 \<and> (\<exists>k < frames. played c' = played c @ take (k * nat ch) pcm)"
    using write_all_frames_result [OF _ assms(2,4,3), of "audio_playback_alsa_write_frames dev"
        "audio_playback_alsa_recover dev" played budget c] law
    unfolding alsa_law_def by blast
  have "played (al_prepare dev c') = played c'" using law by (simp add: alsa_law_def)
  moreover have "k * nat ch < length pcm" if "k < frames" for k using that assms(2,3) by simp
  ultimately show ?thesis using wr res by fastforce
qed

text \<open>
  C40: a turn of the playback thread with blocks waiting always ends, takes exactly the first
  block, and either plays all its samples once and in order, reporting that playback finished
  precisely when it was the last block, or drops the rest of the block on a device failure,
  having played a prefix of it, and reports nothing even when it was the last.
\<close>

theorem playback_turn_plays:
  assumes "alsa_law dev (nat (pc_channels (pb_config (pw_pb w)))) played budget"
    and "playback_busy w" and "ab_contents (pb_queue (pw_pb w)) = (pcm_bytes pcm, rate) # rest"
    and "length pcm = frames * nat (pc_channels (pb_config (pw_pb w)))" and "0 < frames"
  shows "\<exists>w'. playback_turn dev w = Some (Next_Turn, w') \<and> playback_busy w' \<and>
    ab_contents (pb_queue (pw_pb w')) = rest \<and>
    (played (pw_dev w') = played (pw_dev w) @ pcm \<and>
       pw_events w' = (if rest = [] then push_playback_finished (pw_pb w) (pw_events w)
                       else pw_events w) \<or>
     (\<exists>n < length pcm. played (pw_dev w') = played (pw_dev w) @ take n pcm) \<and>
       pw_events w' = pw_events w)"
proof -
  let ?ch = "pc_channels (pb_config (pw_pb w))"
  have ch: "0 < ?ch" using assms(2) by (simp add: playback_busy_def)
  obtain l1 c1 where dev: "playback_device_for dev rate (pw_local w) (pw_dev w) = (l1, c1)"
    by fastforce
  have c1: "played c1 = played (pw_dev w)"
    using device_for_played [OF assms(1), of rate "pw_local w" "pw_dev w"] dev by simp
  obtain q1 where q1: "ab_contents q1 = rest" "ab_inv q1"
    and turn: "playback_turn dev w =
       (if \<not> pl_pcm l1
        then Some (Next_Turn, w\<lparr>pw_pb := (pw_pb w)\<lparr>pb_queue := q1\<rparr>, pw_local := l1, pw_dev := c1\<rparr>)
        else
          (case audio_playback_write_all_frames pcm (2 * length pcm div (2 * nat ?ch)) ?ch
                  (audio_playback_alsa_write_frames dev) (Some (audio_playback_alsa_recover dev)) c1 of
             None \<Rightarrow> None
           | Some (r, c2) \<Rightarrow>
               Some (Next_Turn,
                 w\<lparr>pw_pb := (pw_pb w)\<lparr>pb_queue := q1\<rparr>, pw_local := l1,
                   pw_dev := (if r \<noteq> 0 then al_prepare dev c2 else c2),
                   pw_events := (if r = 0 \<and> rest = []
                                 then push_playback_finished (pw_pb w) (pw_events w)
                                 else pw_events w)\<rparr>)))"
    by (rule playback_turn_pop [OF assms(2,3) dev])
  have frames: "2 * length pcm div (2 * nat ?ch) = frames" using assms(4) ch by simp
  have pos: "0 < length pcm" using assms(4,5) ch by simp
  have busy: "pw_pb v = (pw_pb w)\<lparr>pb_queue := q1\<rparr> \<Longrightarrow> playback_busy v" for v :: "'a playback_world"
    using assms(2) q1 by (simp add: playback_busy_def)
  show ?thesis
  proof (cases "pl_pcm l1")
    case False
    have "played (pw_dev w) @ take 0 pcm = played (pw_dev w)" by simp
    then show ?thesis
      using turn False q1 c1 pos busy
      by (auto intro!: exI [of _ 0])
  next
    case True
    obtain r c2 where wr: "audio_playback_write_all_frames pcm frames ?ch
        (audio_playback_alsa_write_frames dev) (Some (audio_playback_alsa_recover dev)) c1 = Some (r, c2)"
      and "r = 0 \<and> played c2 = played c1 @ pcm \<or>
        r = - 1 \<and> (\<exists>n < length pcm. played (al_prepare dev c2) = played c1 @ take n pcm)"
      using write_on_device [OF assms(1) ch assms(4,5)] by blast
    then show ?thesis using turn True frames q1 c1 busy by auto
  qed
qed

text \<open>A scripted device behind the ALSA interface, which opens at any rate.\<close>

definition opened_hw :: playback_hw where
  "opened_hw = \<lparr>pw_open = 0, pw_malloc = 0, pw_any = 0, pw_access = 0, pw_format = 0,
     pw_channels = 0, pw_rate = 0, pw_apply = 0,
     pw_sw = \<lparr>sw_params = (0, 5760, 1440), sw_malloc = 0, sw_current = 0, sw_avail = 0,
             sw_start = 0, sw_apply = 0\<rparr>\<rparr>"

definition scripted_alsa :: "scripted alsa" where
  "scripted_alsa = \<lparr>al_hw = (\<lambda>rate d. (opened_hw, d)),
     al_writei = (\<lambda>buf n d. scripted_write d buf n),
     al_recover = (\<lambda>e d. scripted_recover d e), al_close = id, al_prepare = id\<rparr>"

definition demo_playback :: audio_playback where
  "demo_playback = snd (audio_playback_init True True None True)"

definition demo_world :: "audio_playback \<Rightarrow> int list \<Rightarrow> scripted playback_world" where
  "demo_world pb script =
     \<lparr>pw_pb = pb, pw_local = \<lparr>pl_pcm = False, pl_rate = 0\<rparr>,
      pw_events = snd (event_queue_init True 4 zero_event_queue),
      pw_dev = \<lparr>sd_script = script, sd_recoveries = 5, sd_played = []\<rparr>\<rparr>"

lemma scripted_alsa_law:
  "alsa_law scripted_alsa 1 sd_played (\<lambda>d. length (sd_script d) + sd_recoveries d)"
proof -
  have minus_1: "int32 (- 1) = - 1" by (simp add: is_int32_def)
  have wr: "r \<le> int n \<and> sd_played d1 = sd_played d @ take (nat r) buf \<and>
      sd_recoveries d1 = sd_recoveries d \<and> length (sd_script d1) \<le> length (sd_script d) \<and>
      (r < 0 \<longrightarrow> length (sd_script d1) < length (sd_script d))"
    if "scripted_write d buf n = (r, d1)" for d buf n r d1
    using that by (auto simp: scripted_write_def Let_def split: list.splits)
  have rec: "sd_played d2 = sd_played d1 \<and> sd_script d2 = sd_script d1 \<and>
      (rr = 0 \<longrightarrow> sd_recoveries d2 < sd_recoveries d1) \<and> sd_recoveries d2 \<le> sd_recoveries d1 \<and>
      (rr = 0 \<or> rr = - 1)"
    if "scripted_recover d1 e = (rr, d2)" for d1 e rr d2
    using that by (auto simp: scripted_recover_def split: if_splits)
  have step: "r \<le> int n \<and> sd_played c1 = sd_played c @ take (nat r * 1) buf \<and>
      (0 < r \<longrightarrow> length (sd_script c1) + sd_recoveries c1 \<le> length (sd_script c) + sd_recoveries c) \<and>
      (r < 0 \<longrightarrow> (\<forall>rr c2. audio_playback_alsa_recover scripted_alsa c1 (int32 r) = (rr, c2) \<longrightarrow>
         sd_played c2 = sd_played c1 \<and>
         (rr = 0 \<longrightarrow> length (sd_script c2) + sd_recoveries c2 < length (sd_script c) + sd_recoveries c)))"
    if w: "audio_playback_alsa_write_frames scripted_alsa c buf n = (r, c1)" for c buf n r c1
  proof (cases "n = 0")
    case True
    then have r: "r = - 1" "c1 = c" using w by (simp_all add: audio_playback_alsa_write_frames_def)
    have "sd_played c2 = sd_played c \<and> (rr = 0 \<longrightarrow>
        length (sd_script c2) + sd_recoveries c2 < length (sd_script c) + sd_recoveries c)"
      if rr: "audio_playback_alsa_recover scripted_alsa c (- 1) = (rr, c2)" for rr c2
    proof -
      obtain r1 where "scripted_recover c (- 1) = (r1, c2)" "rr = (if r1 < 0 then - 1 else 0)"
        using rr
        by (cases "scripted_recover c (- 1)")
           (auto simp: audio_playback_alsa_recover_def scripted_alsa_def)
      then show ?thesis using rec [of c "- 1" r1 c2] by auto
    qed
    then show ?thesis using r minus_1 by simp
  next
    case False
    then have w': "scripted_write c buf n = (r, c1)"
      using w by (simp add: audio_playback_alsa_write_frames_def scripted_alsa_def)
    have "sd_played c2 = sd_played c1 \<and>
        length (sd_script c2) + sd_recoveries c2 \<le> length (sd_script c1) + sd_recoveries c1"
      if "audio_playback_alsa_recover scripted_alsa c1 e = (rr, c2)" for e rr c2
      using that rec
      by (auto simp: audio_playback_alsa_recover_def scripted_alsa_def split: if_splits prod.splits)
    then show ?thesis using wr [OF w'] by fastforce
  qed
  show ?thesis
    unfolding alsa_law_def device_law_def
    using step by (simp add: scripted_alsa_def)
qed

lemma demo_playback_simps:
  "pb_config demo_playback = \<lparr>pc_device = ''default'', pc_channels = 1,
     pc_default_sample_rate = 24000, pc_queue_capacity = 16, pc_max_frame_bytes = 4096\<rparr>"
  "pb_running demo_playback" "\<not> pb_stop_requested demo_playback" "pb_has_events demo_playback"
  "pb_queue demo_playback = snd (audio_buffer_init True 16 4096 zero_audio_buffer)"
  by (simp_all add: demo_playback_def audio_playback_init_def audio_buffer_init_def zero_playback_def
      Let_def)

lemma demo_queue_ok:
  "ab_inv (pb_queue demo_playback)" "ab_contents (pb_queue demo_playback) = []"
  "ab_capacity (pb_queue demo_playback) = 16" "ab_block_capacity (pb_queue demo_playback) = 4096"
  using audio_buffer_init_ok [of True 16 4096 zero_audio_buffer "pb_queue demo_playback"]
  by (simp_all add: demo_playback_simps audio_buffer_init_def)

lemma enqueue_contents [queue_simps]:
  assumes "ab_inv (pb_queue pb)" and "0 < frames"
    and "frames * 2 * nat (pc_channels (pb_config pb)) \<le> ab_block_capacity (pb_queue pb)"
    and "ab_count (pb_queue pb) < ab_capacity (pb_queue pb)"
  shows "ab_contents (pb_queue (snd (audio_playback_enqueue pb pcm frames rate))) =
           ab_contents (pb_queue pb) @
             [(pcm_bytes (take (frames * nat (pc_channels (pb_config pb))) pcm), rate)] \<and>
         ab_inv (pb_queue (snd (audio_playback_enqueue pb pcm frames rate)))"
proof -
  let ?d = "take (frames * 2 * nat (pc_channels (pb_config pb))) (pcm_bytes pcm)"
  have d: "?d = pcm_bytes (take (frames * nat (pc_channels (pb_config pb))) pcm)"
    using take_pcm_bytes [of "frames * nat (pc_channels (pb_config pb))" pcm]
    by (simp add: mult.assoc mult.commute mult.left_commute)
  have "length ?d \<le> ab_block_capacity (pb_queue pb)"
    using assms(3) by (metis length_take min.coboundedI2 min.bounded_iff order_trans min_def)
  then show ?thesis
    using push_contents [OF assms(1) _ assms(4), of ?d rate] push_inv [OF assms(1)] assms(2) d
    by (simp add: audio_playback_enqueue_def Let_def split: prod.splits) (metis snd_conv)
qed

definition demo_loaded :: audio_playback where
  "demo_loaded = snd (audio_playback_enqueue demo_playback [1, 2] 2 24000)"

lemma demo_loaded_ok:
  "pb_config demo_loaded = pb_config demo_playback" "pb_running demo_loaded"
  "\<not> pb_stop_requested demo_loaded" "pb_has_events demo_loaded"
  "ab_contents (pb_queue demo_loaded) = [(pcm_bytes [1, 2], 24000)]" "ab_inv (pb_queue demo_loaded)"
proof -
  show "pb_config demo_loaded = pb_config demo_playback" "pb_running demo_loaded"
    "\<not> pb_stop_requested demo_loaded" "pb_has_events demo_loaded"
    by (simp_all add: demo_loaded_def audio_playback_enqueue_def demo_playback_simps Let_def
        split: prod.splits)
  have "ab_count (pb_queue demo_playback) = 0"
    using length_ab_contents [of "pb_queue demo_playback"] demo_queue_ok(2) by simp
  then show "ab_contents (pb_queue demo_loaded) = [(pcm_bytes [1, 2], 24000)]"
    "ab_inv (pb_queue demo_loaded)"
    using enqueue_contents [of demo_playback 2 "[1, 2]" 24000] demo_queue_ok
    by (simp_all add: demo_loaded_def demo_playback_simps(1))
qed

theorem playback_turn_plays_witness:
  "\<exists>w'. playback_turn scripted_alsa (demo_world demo_loaded [1]) = Some (Next_Turn, w') \<and>
     ab_contents (pb_queue (pw_pb w')) = []"
proof -
  have "playback_busy (demo_world demo_loaded [1])"
    using demo_loaded_ok by (simp add: playback_busy_def demo_world_def demo_playback_simps)
  moreover have "alsa_law scripted_alsa
      (nat (pc_channels (pb_config (pw_pb (demo_world demo_loaded [1]))))) sd_played
      (\<lambda>d. length (sd_script d) + sd_recoveries d)"
    using scripted_alsa_law by (simp add: demo_world_def demo_loaded_ok(1) demo_playback_simps(1))
  ultimately show ?thesis
    using playback_turn_plays [of scripted_alsa "demo_world demo_loaded [1]" sd_played _ "[1, 2]"
        24000 "[]" 2] demo_loaded_ok
    by (auto simp: demo_world_def demo_playback_simps)
qed

text \<open>
  When the device cannot be opened for the last queued block, the block is gone, the
  thread goes back to waiting, and no event tells the application that playback ended.
\<close>

theorem playback_open_failure_silent:
  assumes "playback_busy w" and "ab_contents (pb_queue (pw_pb w)) = [(pcm_bytes pcm, rate)]"
    and "\<not> pl_pcm (pw_local w)" and "audio_playback_open_device (fst (al_hw dev rate (pw_dev w))) \<noteq> 0"
  shows "\<exists>w'. playback_turn dev w = Some (Next_Turn, w') \<and> ab_contents (pb_queue (pw_pb w')) = [] \<and>
    pw_events w' = pw_events w \<and> playback_turn dev w' = Some (Wait_Cond, w')"
proof -
  obtain l1 c1 where dev: "playback_device_for dev rate (pw_local w) (pw_dev w) = (l1, c1)"
    by fastforce
  have closed: "\<not> pl_pcm l1"
    using dev assms(3,4) by (auto simp: playback_device_for_def split: prod.splits)
  obtain q1 where q1: "ab_contents q1 = []" "ab_inv q1" "audio_buffer_size q1 = 0"
    and "playback_turn dev w =
      Some (Next_Turn, w\<lparr>pw_pb := (pw_pb w)\<lparr>pb_queue := q1\<rparr>, pw_local := l1, pw_dev := c1\<rparr>)"
    by (rule playback_turn_pop [OF assms(1,2) dev]) (simp add: closed)
  moreover have "playback_turn dev v = Some (Wait_Cond, v)"
    if "pw_pb v = (pw_pb w)\<lparr>pb_queue := q1\<rparr>" for v :: "'a playback_world"
    using that assms(1) q1(3) by (simp add: playback_turn_def playback_busy_def Let_def)
  ultimately show ?thesis by simp
qed

definition broken_alsa :: "scripted alsa" where
  "broken_alsa = scripted_alsa\<lparr>al_hw := (\<lambda>rate d. (opened_hw\<lparr>pw_rate := - 22\<rparr>, d))\<rparr>"

theorem playback_open_failure_silent_witness:
  "\<exists>w'. playback_turn broken_alsa (demo_world demo_loaded []) = Some (Next_Turn, w') \<and>
     playback_turn broken_alsa w' = Some (Wait_Cond, w')"
proof -
  have "playback_busy (demo_world demo_loaded [])"
    using demo_loaded_ok by (simp add: playback_busy_def demo_world_def demo_playback_simps)
  then show ?thesis
    using playback_open_failure_silent [of "demo_world demo_loaded []" "[1, 2]" 24000 broken_alsa]
      demo_loaded_ok
    by (auto simp: demo_world_def broken_alsa_def opened_hw_def audio_playback_open_device_def)
qed

text \<open>
  On a device that recovers only finitely often the thread can be joined wherever it is: the write
  loop ends, even in the middle of a block.
\<close>

lemma write_loop_ends:
  assumes "device_law n wr rec played budget"
  shows "\<exists>res. write_loop wr (Some rec) ch pcm frames written c = Some res"
proof (induction "budget c + (frames - written)" arbitrary: c written rule: less_induct)
  case less
  obtain r c1 where w: "wr c (drop (written * nat ch) pcm) (frames - written) = (r, c1)" by fastforce
  obtain rr c2 where rec: "rec c1 (int32 r) = (rr, c2)" by fastforce
  note law = device_law_write [OF assms w]
  have again: "\<exists>res. write_loop wr (Some rec) ch pcm frames (written + nat r) c1 = Some res"
    if "0 < r" "written < frames"
  proof (rule less)
    show "budget c1 + (frames - (written + nat r)) < budget c + (frames - written)"
      using law that by linarith
  qed
  have retry: "\<exists>res. write_loop wr (Some rec) ch pcm frames written c2 = Some res"
    if "r < 0" "rr = 0" "written < frames"
  proof (rule less)
    show "budget c2 + (frames - written) < budget c + (frames - written)"
      using device_law_recover [OF assms w that(1) rec] that(2) by linarith
  qed
  show ?case
    using again retry w rec by (subst write_loop.simps) (auto split: prod.split)
qed

lemma playback_write_ends:
  assumes "alsa_law dev n played budget"
  shows "\<exists>w'. playback_write dev block written w = Some w'"
proof -
  let ?ch = "pc_channels (pb_config (pw_pb w))"
  obtain res where "write_loop (audio_playback_alsa_write_frames dev)
      (Some (audio_playback_alsa_recover dev)) ?ch (bytes_pcm (block_bytes (pb_queue (pw_pb w)) block))
      (blk_len block div (2 * nat ?ch)) written (pw_dev w) = Some res"
    using write_loop_ends [OF conjunct1 [OF assms [unfolded alsa_law_def]]] by metis
  then show ?thesis by (cases res) (simp add: playback_write_def Let_def)
qed

lemma playback_turn_ends:
  assumes "alsa_law dev n played budget"
  shows "\<exists>res. playback_turn dev w = Some res"
proof -
  obtain st w1 b where take: "playback_take dev w = (st, w1, b)" using prod_cases3 by blast
  show ?thesis
    using playback_write_ends [OF assms, of "the b" 0 w1] take
    by (cases b) (auto simp: playback_turn_split)
qed

lemma playback_join_ends:
  assumes "alsa_law dev n played budget"
  shows "\<exists>w'. playback_join dev pos w = Some w'"
proof -
  obtain w1 where "(case pos of At_Top \<Rightarrow> Some w
      | Past_Check \<Rightarrow> map_option snd (playback_turn dev w)
      | Writing block written \<Rightarrow> playback_write dev block written w) = Some w1"
    using playback_turn_ends [OF assms, of w] playback_write_ends [OF assms, of _ _ w]
    by (cases pos) auto
  then show ?thesis
    using playback_turn_ends [OF assms, of "w1\<lparr>pw_pb := (pw_pb w1)\<lparr>pb_running := False\<rparr>\<rparr>"]
    by (auto simp: playback_join_def Let_def)
qed

lemma playback_destroy_ends:
  "alsa_law dev n played budget \<Longrightarrow> \<exists>w'. audio_playback_destroy dev pos w = Some w'"
  using playback_join_ends by (auto simp: audio_playback_destroy_def Let_def)

text \<open>
  A stop request only interrupts the device: in the next turn the thread closes it,
  reports that playback finished and clears the request, but every queued block is still
  there and is played in the turns that follow.
\<close>

theorem playback_stop_keeps_queue:
  assumes "pb_running pb"
  shows "\<exists>w'. playback_turn dev (w\<lparr>pw_pb := audio_playback_request_stop pb\<rparr>) = Some (Next_Turn, w') \<and>
    pb_queue (pw_pb w') = pb_queue pb \<and> \<not> pb_stop_requested (pw_pb w') \<and>
    \<not> pl_pcm (pw_local w') \<and> pw_events w' = push_playback_finished pb (pw_events w)"
  using assms
  by (auto simp: playback_turn_def audio_playback_request_stop_def push_playback_finished_def Let_def)

theorem playback_stop_keeps_queue_witness:
  "\<exists>w'. playback_turn scripted_alsa
          (demo_world demo_loaded [] \<lparr>pw_pb := audio_playback_request_stop demo_loaded\<rparr>) = Some (Next_Turn, w') \<and>
     ab_contents (pb_queue (pw_pb w')) = [(pcm_bytes [1, 2], 24000)]"
  using playback_stop_keeps_queue [OF demo_loaded_ok(2), of scripted_alsa "demo_world demo_loaded []"]
    demo_loaded_ok(5) by auto

end
