(* ===== verification/Ws_Client.thy ===== *)
theory Ws_Client
  imports Audio_Buffer
begin

section \<open>The websocket client (\<open>src/xiaozhi_client.c\<close>)\<close>

text \<open>
  The client owns a queue of text messages, an audio buffer of binary messages and the two
  buffers in which received fragments are put together. \<open>libwebsockets\<close> is not part of the
  sources: it calls \<open>xiaozhi_client_callback\<close>, which is modelled as a function of the
  callback reason (with what the library passes along and what its calls return) to the
  result, the client after it, and the effects: application callbacks, frames written and
  requests to the library, in the order the code makes them.
\<close>

record xiaozhi_client_config =
  xc_url :: string
  xc_protocol_version :: int
  xc_authorization :: string
  xc_device_id :: string
  xc_client_id :: string

text \<open>Which of the function pointers are set.\<close>

record xiaozhi_client_callbacks =
  cb_on_connected :: bool
  cb_on_disconnected :: bool
  cb_on_text :: bool
  cb_on_binary :: bool
  cb_on_error :: bool

datatype client_effect =
    On_Connected
  | On_Disconnected int
  | On_Text string
  | On_Binary "byte list"
  | On_Error string
  | Write_Text string
  | Write_Binary "byte list"
  | Ask_Writable
  | Cancel_Service
  | Add_Header string string

text \<open>
  The array of message pointers: \<open>None\<close> where it was never written. \<open>tq_overrun\<close> is not in the
  code: it becomes true when the code writes past the array's end.
\<close>

record text_queue =
  tq_items :: "string option list"
  tq_count :: nat
  tq_capacity :: nat
  tq_overrun :: bool

record xiaozhi_client =
  cl_config :: xiaozhi_client_config
  cl_callbacks :: xiaozhi_client_callbacks
  cl_pending_text :: text_queue
  cl_pending_binary :: audio_buffer
  cl_thread :: bool
  cl_context :: bool
  cl_wsi :: bool
  cl_running :: bool
  cl_connected :: bool
  cl_recv_text :: string
  cl_recv_text_len :: nat
  cl_recv_binary :: "byte list"
  cl_recv_binary_len :: nat

definition no_callbacks :: xiaozhi_client_callbacks where
  "no_callbacks = \<lparr>cb_on_connected = False, cb_on_disconnected = False, cb_on_text = False,
     cb_on_binary = False, cb_on_error = False\<rparr>"

definition zero_client :: xiaozhi_client where
  "zero_client =
     \<lparr>cl_config = \<lparr>xc_url = [], xc_protocol_version = 0, xc_authorization = [],
                   xc_device_id = [], xc_client_id = []\<rparr>,
      cl_callbacks = no_callbacks,
      cl_pending_text = \<lparr>tq_items = [], tq_count = 0, tq_capacity = 0, tq_overrun = False\<rparr>,
      cl_pending_binary = zero_audio_buffer, cl_thread = False, cl_context = False,
      cl_wsi = False, cl_running = False, cl_connected = False,
      cl_recv_text = replicate 4096 nul, cl_recv_text_len = 0,
      cl_recv_binary = replicate 4096 0, cl_recv_binary_len = 0\<rparr>"

subsection \<open>The text queue\<close>

text \<open>The doubling loop; with the capacity 0 it would not end, and is never called.\<close>

function grow_capacity :: "nat \<Rightarrow> nat \<Rightarrow> nat" where
  "grow_capacity new_capacity needed =
     (if new_capacity = 0 \<or> needed \<le> new_capacity then new_capacity
      else grow_capacity (new_capacity * 2) needed)"
  by auto
termination
  by (relation "measure (\<lambda>(n, needed). needed - n)") auto

declare grow_capacity.simps [simp del]

text \<open>\<open>realloc_ok\<close>: whether memory was found; the new slots are not initialised.\<close>

definition ensure_text_capacity :: "bool \<Rightarrow> text_queue \<Rightarrow> nat \<Rightarrow> rc \<times> text_queue" where
  "ensure_text_capacity realloc_ok q needed =
     (if tq_capacity q \<ge> needed then (0, q)
      else
        (let new_capacity =
               grow_capacity (if tq_capacity q \<noteq> 0 then tq_capacity q * 2 else 4) needed
         in if \<not> realloc_ok then (- 1, q)
            else (0, q\<lparr>tq_items := tq_items q @ replicate (new_capacity - tq_capacity q) None,
                       tq_capacity := new_capacity\<rparr>)))"

definition text_append :: "text_queue \<Rightarrow> string \<Rightarrow> text_queue" where
  "text_append q copy =
     (if tq_count q < tq_capacity q
      then q\<lparr>tq_items := (tq_items q)[tq_count q := Some copy], tq_count := tq_count q + 1\<rparr>
      else q\<lparr>tq_overrun := True, tq_count := tq_count q + 1\<rparr>)"

definition xiaozhi_client_pop_text_locked ::
    "xiaozhi_client \<Rightarrow> int \<times> string option \<times> xiaozhi_client" where
  "xiaozhi_client_pop_text_locked client =
     (let q = cl_pending_text client in
      if tq_count q = 0 then (0, None, client)
      else
        (1, tq_items q ! 0,
         client\<lparr>cl_pending_text :=
           q\<lparr>tq_items := (if tq_count q > 1
                          then take (tq_count q - 1) (drop 1 (tq_items q)) @
                               drop (tq_count q - 1) (tq_items q)
                          else tq_items q),
             tq_count := tq_count q - 1\<rparr>\<rparr>))"

definition xiaozhi_client_pop_binary_locked ::
    "bool \<Rightarrow> xiaozhi_client \<Rightarrow> int \<times> byte list option \<times> xiaozhi_client" where
  "xiaozhi_client_pop_binary_locked malloc_ok client =
     (case audio_buffer_pop (cl_pending_binary client) of
        (_, None, b) \<Rightarrow> (0, None, client)
      | (_, Some block, b) \<Rightarrow>
          (let client1 = client\<lparr>cl_pending_binary := b\<rparr> in
           if \<not> malloc_ok then (- 1, None, client1)
           else (1, Some (block_bytes b block), client1)))"

definition xiaozhi_client_signal_writable :: "xiaozhi_client \<Rightarrow> client_effect list" where
  "xiaozhi_client_signal_writable client =
     (if cl_wsi client then [Ask_Writable] else []) @
     (if cl_context client then [Cancel_Service] else [])"

definition xiaozhi_client_notify_error :: "xiaozhi_client \<Rightarrow> string option \<Rightarrow> client_effect list" where
  "xiaozhi_client_notify_error client message =
     (if cb_on_error (cl_callbacks client)
      then [On_Error (case message of None \<Rightarrow> ''unknown'' | Some m \<Rightarrow> m)] else [])"

subsection \<open>Queueing\<close>

text \<open>
  \<open>xiaozhi_client_queue_text\<close> takes the mutex twice; other threads may run in between. The two
  critical sections are definitions of their own.
\<close>

definition queue_text_reserve :: "bool \<Rightarrow> xiaozhi_client \<Rightarrow> rc \<times> xiaozhi_client" where
  "queue_text_reserve realloc_ok client =
     (case ensure_text_capacity realloc_ok (cl_pending_text client)
             (tq_count (cl_pending_text client) + 1) of
        (r, q) \<Rightarrow> (r, client\<lparr>cl_pending_text := q\<rparr>))"

definition queue_text_append :: "xiaozhi_client \<Rightarrow> string \<Rightarrow> xiaozhi_client" where
  "queue_text_append client copy =
     client\<lparr>cl_pending_text := text_append (cl_pending_text client) copy\<rparr>"

definition xiaozhi_client_queue_text ::
    "bool \<Rightarrow> bool \<Rightarrow> xiaozhi_client \<Rightarrow> string option \<Rightarrow> rc \<times> xiaozhi_client \<times> client_effect list" where
  "xiaozhi_client_queue_text realloc_ok strdup_ok client payload =
     (case payload of
        None \<Rightarrow> (- 1, client, [])
      | Some s \<Rightarrow>
          (case queue_text_reserve realloc_ok client of
             (r, client1) \<Rightarrow>
               (if r \<noteq> 0 then (- 1, client1, [])
                else if \<not> strdup_ok then (- 1, client1, [])
                else
                  (let client2 = queue_text_append client1 s
                   in (0, client2, xiaozhi_client_signal_writable client2)))))"

definition xiaozhi_client_queue_binary ::
    "xiaozhi_client \<Rightarrow> byte list \<Rightarrow> rc \<times> xiaozhi_client \<times> client_effect list" where
  "xiaozhi_client_queue_binary client payload =
     (if payload = [] then (- 1, client, [])
      else
        (case audio_buffer_push (cl_pending_binary client) payload 0 of
           (r, b) \<Rightarrow>
             (let client1 = client\<lparr>cl_pending_binary := b\<rparr>
              in (r, client1, if r = 0 then xiaozhi_client_signal_writable client1 else []))))"

definition xiaozhi_client_pending_text_count :: "xiaozhi_client \<Rightarrow> nat" where
  "xiaozhi_client_pending_text_count client = tq_count (cl_pending_text client)"

definition xiaozhi_client_peek_pending_text :: "xiaozhi_client \<Rightarrow> nat \<Rightarrow> string option" where
  "xiaozhi_client_peek_pending_text client index =
     (if index \<ge> tq_count (cl_pending_text client) then None
      else tq_items (cl_pending_text client) ! index)"

definition xiaozhi_client_is_connected :: "xiaozhi_client \<Rightarrow> bool" where
  "xiaozhi_client_is_connected client = cl_connected client"

subsection \<open>Receiving\<close>

definition xiaozhi_client_feed_binary_fragment ::
    "xiaozhi_client \<Rightarrow> byte list \<Rightarrow> bool \<Rightarrow> rc \<times> xiaozhi_client \<times> client_effect list" where
  "xiaozhi_client_feed_binary_fragment client payload is_final_fragment =
     (if payload = [] then (- 1, client, [])
      else if cl_recv_binary_len client + length payload > 4096
      then (- 1, client\<lparr>cl_recv_binary_len := 0\<rparr>, [])
      else
        (let client1 = client
               \<lparr>cl_recv_binary := mem_write (cl_recv_binary_len client) payload (cl_recv_binary client),
                cl_recv_binary_len := cl_recv_binary_len client + length payload\<rparr>
         in if \<not> is_final_fragment then (0, client1, [])
            else (0, client1\<lparr>cl_recv_binary_len := 0\<rparr>,
                  if cb_on_binary (cl_callbacks client1)
                  then [On_Binary (mem_read 0 (cl_recv_binary_len client1) (cl_recv_binary client1))]
                  else [])))"

text \<open>
  The callback reasons, with the library's data: the frame received (\<open>remaining\<close> and \<open>final\<close>
  are what \<open>lws_remaining_packet_payload\<close> and \<open>lws_is_final_fragment\<close> return), the outcomes
  of \<open>malloc\<close> and \<open>lws_write\<close>, the results of adding headers.
\<close>

datatype lws_reason =
    LWS_CLIENT_APPEND_HANDSHAKE_HEADER "string \<Rightarrow> int"
  | LWS_CLIENT_ESTABLISHED
  | LWS_CLIENT_RECEIVE bool "byte list" nat bool
  | LWS_CLIENT_WRITEABLE bool bool int
  | LWS_CLIENT_CONNECTION_ERROR "string option"
  | LWS_CLIENT_CLOSED
  | LWS_OTHER

definition chars_of :: "byte list \<Rightarrow> string" where
  "chars_of bs = map (\<lambda>b. char_of (unat b)) bs"

definition xiaozhi_client_append_header ::
    "(string \<Rightarrow> int) \<Rightarrow> string \<Rightarrow> string \<Rightarrow> int \<times> client_effect list" where
  "xiaozhi_client_append_header add name val =
     (if val = [] then (0, []) else (add name, [Add_Header name val]))"

fun append_headers :: "(string \<Rightarrow> int) \<Rightarrow> (string \<times> string) list \<Rightarrow> int \<times> client_effect list" where
  "append_headers add [] = (0, [])"
| "append_headers add ((name, val) # hs) =
     (case xiaozhi_client_append_header add name val of
        (r, effs) \<Rightarrow>
          (if r \<noteq> 0 then (- 1, effs)
           else (case append_headers add hs of (r1, effs1) \<Rightarrow> (r1, effs @ effs1))))"

definition handshake_headers :: "xiaozhi_client_config \<Rightarrow> (string \<times> string) list" where
  "handshake_headers cfg =
     [(''Authorization:'', xc_authorization cfg),
      (''Protocol-Version:'', snprintf_buf 16 (show_int (xc_protocol_version cfg))),
      (''Device-Id:'', xc_device_id cfg),
      (''Client-Id:'', xc_client_id cfg)]"

definition receive_text ::
    "xiaozhi_client \<Rightarrow> string \<Rightarrow> bool \<Rightarrow> xiaozhi_client \<times> client_effect list" where
  "receive_text client data message_end =
     (if cl_recv_text_len client + length data \<ge> 4096
      then (client\<lparr>cl_recv_text_len := 0\<rparr>,
            xiaozhi_client_notify_error client (Some ''received text frame too large''))
      else
        (let len = cl_recv_text_len client + length data;
             buf = mem_write (cl_recv_text_len client) data (cl_recv_text client);
             client1 = client\<lparr>cl_recv_text := buf, cl_recv_text_len := len\<rparr>
         in if message_end
            then
              (let terminated = buf[len := nul]
               in (client1\<lparr>cl_recv_text := terminated, cl_recv_text_len := 0\<rparr>,
                   if cb_on_text (cl_callbacks client1) then [On_Text (c_str terminated)] else []))
            else (client1, [])))"

definition writeable ::
    "bool \<Rightarrow> bool \<Rightarrow> int \<Rightarrow> xiaozhi_client \<Rightarrow> int \<times> xiaozhi_client \<times> client_effect list" where
  "writeable pop_malloc buf_malloc write_rc client =
     (let (text_rc, text_payload, client1) = xiaozhi_client_pop_text_locked client;
          (pop_rc, binary_payload, client2) =
            (if text_rc = 0 then xiaozhi_client_pop_binary_locked pop_malloc client1
             else (text_rc, None, client1));
          more = (if tq_count (cl_pending_text client2) > 0 \<or>
                     audio_buffer_size (cl_pending_binary client2) > 0
                  then [Ask_Writable] else [])
      in case text_payload of
           Some s \<Rightarrow>
             (if pop_rc = 1 then
                (if \<not> buf_malloc then (- 1, client2, [])
                 else if write_rc < 0 then (- 1, client2, [Write_Text s])
                 else (0, client2, Write_Text s # more))
              else if pop_rc < 0 then (- 1, client2, []) else (0, client2, more))
         | None \<Rightarrow>
             (case binary_payload of
                Some d \<Rightarrow>
                  (if pop_rc = 1 then
                     (if \<not> buf_malloc then (- 1, client2, [])
                      else if write_rc < 0 then (- 1, client2, [Write_Binary d])
                      else (0, client2, Write_Binary d # more))
                   else if pop_rc < 0 then (- 1, client2, []) else (0, client2, more))
              | None \<Rightarrow> (if pop_rc < 0 then (- 1, client2, []) else (0, client2, more))))"

fun xiaozhi_client_callback ::
    "lws_reason \<Rightarrow> xiaozhi_client \<Rightarrow> int \<times> xiaozhi_client \<times> client_effect list" where
  "xiaozhi_client_callback (LWS_CLIENT_APPEND_HANDSHAKE_HEADER add) client =
     (case append_headers add (handshake_headers (cl_config client)) of
        (r, effs) \<Rightarrow> (r, client, effs))"
| "xiaozhi_client_callback LWS_CLIENT_ESTABLISHED client =
     (let client1 = client\<lparr>cl_wsi := True, cl_connected := True\<rparr>
      in (0, client1,
          (if cb_on_connected (cl_callbacks client1) then [On_Connected] else []) @
          xiaozhi_client_signal_writable client1))"
| "xiaozhi_client_callback (LWS_CLIENT_RECEIVE bin data remaining final) client =
     (let message_end = (remaining = 0 \<and> final) in
      if bin then
        (case xiaozhi_client_feed_binary_fragment client data message_end of
           (r, client1, effs) \<Rightarrow>
             (0, client1, effs @
                (if r \<noteq> 0
                 then xiaozhi_client_notify_error client1 (Some ''received binary frame too large'')
                 else [])))
      else
        (case receive_text client (chars_of data) message_end of
           (client1, effs) \<Rightarrow> (0, client1, effs)))"
| "xiaozhi_client_callback (LWS_CLIENT_WRITEABLE pop_malloc buf_malloc write_rc) client =
     writeable pop_malloc buf_malloc write_rc client"
| "xiaozhi_client_callback (LWS_CLIENT_CONNECTION_ERROR msg) client =
     (let client1 = client\<lparr>cl_connected := False, cl_wsi := False\<rparr>
      in (0, client1, xiaozhi_client_notify_error client1
                        (Some (case msg of None \<Rightarrow> ''client connection error'' | Some m \<Rightarrow> m))))"
| "xiaozhi_client_callback LWS_CLIENT_CLOSED client =
     (let client1 = client\<lparr>cl_connected := False, cl_wsi := False\<rparr>
      in (0, client1, if cb_on_disconnected (cl_callbacks client1) then [On_Disconnected 0] else []))"
| "xiaozhi_client_callback LWS_OTHER client = (0, client, [])"

text \<open>A sequence of callbacks, as the library's service loop makes them.\<close>

fun run_callbacks :: "lws_reason list \<Rightarrow> xiaozhi_client \<Rightarrow> xiaozhi_client \<times> client_effect list" where
  "run_callbacks [] client = (client, [])"
| "run_callbacks (reason # reasons) client =
     (case xiaozhi_client_callback reason client of
        (_, client1, effs) \<Rightarrow>
          (case run_callbacks reasons client1 of (client2, effs2) \<Rightarrow> (client2, effs @ effs2)))"

subsection \<open>The network thread\<close>

text \<open>
  What the library answers while the thread sets up the connection: whether a context was
  created, how the url was taken apart, whether the connection was initiated, and the
  callbacks it makes during that call.
\<close>

record parsed_uri =
  uri_prot :: "string option"
  uri_address :: string
  uri_port :: int
  uri_path :: "string option"

record connect_env =
  ce_context :: bool
  ce_parse :: "string \<Rightarrow> parsed_uri option"
  ce_calls :: "lws_reason list"
  ce_connect :: bool

record connect_info =
  ci_address :: string
  ci_port :: int
  ci_path :: string
  ci_ssl :: bool

text \<open>The thread up to its service loop: \<open>True\<close> when it gets there.\<close>

definition client_thread_connect ::
    "connect_env \<Rightarrow> xiaozhi_client
       \<Rightarrow> bool \<times> connect_info option \<times> xiaozhi_client \<times> client_effect list" where
  "client_thread_connect env client =
     (if \<not> ce_context env then
        (False, None, client\<lparr>cl_context := False\<rparr>,
         xiaozhi_client_notify_error client (Some ''failed to create lws context''))
      else
        (let client1 = client\<lparr>cl_context := True\<rparr> in
         case ce_parse env (snprintf_buf 256 (xc_url (cl_config client))) of
           None \<Rightarrow>
             (False, None, client1\<lparr>cl_context := False\<rparr>,
              xiaozhi_client_notify_error client1 (Some ''failed to parse websocket url''))
         | Some uri \<Rightarrow>
             (let info = \<lparr>ci_address = uri_address uri, ci_port = uri_port uri,
                    ci_path = snprintf_buf 256
                      (''/'' @ (case uri_path uri of None \<Rightarrow> [] | Some p \<Rightarrow> p)),
                    ci_ssl = (uri_prot uri = Some ''wss'')\<rparr>
              in case run_callbacks (ce_calls env) client1 of
                   (client2, effs) \<Rightarrow>
                     (if \<not> ce_connect env then
                        (False, Some info, client2\<lparr>cl_context := False\<rparr>,
                         effs @ xiaozhi_client_notify_error client2
                                  (Some ''failed to initiate websocket connection''))
                      else (True, Some info, client2, effs)))))"

text \<open>After the loop: destroying the context makes the callbacks \<open>teardown\<close>.\<close>

definition client_thread_end ::
    "lws_reason list \<Rightarrow> xiaozhi_client \<Rightarrow> xiaozhi_client \<times> client_effect list" where
  "client_thread_end teardown client =
     (case run_callbacks teardown client of
        (client1, effs) \<Rightarrow>
          (client1\<lparr>cl_context := False, cl_wsi := False, cl_connected := False\<rparr>, effs))"

subsection \<open>Starting and stopping\<close>

definition xiaozhi_client_init ::
    "bool \<Rightarrow> xiaozhi_client_config option \<Rightarrow> xiaozhi_client_callbacks option \<Rightarrow> xiaozhi_client
       \<Rightarrow> rc \<times> xiaozhi_client" where
  "xiaozhi_client_init alloc config callbacks client =
     (case config of
        None \<Rightarrow> (- 1, client)
      | Some cfg \<Rightarrow>
          if xc_url cfg = [] then (- 1, client)
          else
            (let client1 = zero_client\<lparr>cl_config := cfg,
                   cl_callbacks := (case callbacks of None \<Rightarrow> no_callbacks | Some cb \<Rightarrow> cb)\<rparr>
             in case audio_buffer_init alloc 32 4096 (cl_pending_binary client1) of
                  (r, b) \<Rightarrow>
                    (if r \<noteq> 0 then - 1 else 0, client1\<lparr>cl_pending_binary := b\<rparr>)))"

definition xiaozhi_client_start :: "bool \<Rightarrow> xiaozhi_client \<Rightarrow> rc \<times> xiaozhi_client" where
  "xiaozhi_client_start created client =
     (if cl_running client then (0, client)
      else
        (let client1 = client\<lparr>cl_running := True\<rparr>
         in if \<not> created then (- 1, client1\<lparr>cl_running := False\<rparr>)
            else (0, client1\<lparr>cl_thread := True\<rparr>)))"

text \<open>
  Stopping joins the thread. A thread that is in its service loop (it has a context) leaves the
  loop and destroys the context, with the callbacks of \<open>teardown\<close>; one that gave up earlier
  has nothing left to do.
\<close>

definition xiaozhi_client_stop ::
    "lws_reason list \<Rightarrow> xiaozhi_client \<Rightarrow> xiaozhi_client \<times> client_effect list" where
  "xiaozhi_client_stop teardown client =
     (if \<not> cl_running client then (client, [])
      else
        (let client1 = client\<lparr>cl_running := False\<rparr>;
             cancel = (if cl_context client1 then [Cancel_Service] else []);
             (client2, effs) = (if cl_context client1 then client_thread_end teardown client1
                                else (client1, []))
         in (client2\<lparr>cl_thread := False\<rparr>, cancel @ effs)))"

definition xiaozhi_client_destroy ::
    "lws_reason list \<Rightarrow> xiaozhi_client \<Rightarrow> xiaozhi_client \<times> client_effect list" where
  "xiaozhi_client_destroy teardown client =
     (case xiaozhi_client_stop teardown client of (client1, effs) \<Rightarrow> (zero_client, effs))"

subsection \<open>Invariant\<close>

definition tq_ok :: "text_queue \<Rightarrow> bool" where
  "tq_ok q \<longleftrightarrow> length (tq_items q) = tq_capacity q \<and> tq_count q \<le> tq_capacity q \<and>
     (\<forall>i < tq_count q. tq_items q ! i \<noteq> None) \<and> \<not> tq_overrun q"

definition tq_contents :: "text_queue \<Rightarrow> string list" where
  "tq_contents q = map the (take (tq_count q) (tq_items q))"

definition client_inv :: "xiaozhi_client \<Rightarrow> bool" where
  "client_inv client \<longleftrightarrow>
     tq_ok (cl_pending_text client) \<and> ab_inv (cl_pending_binary client) \<and>
     ab_block_capacity (cl_pending_binary client) = 4096 \<and>
     length (cl_recv_text client) = 4096 \<and> cl_recv_text_len client < 4096 \<and>
     length (cl_recv_binary client) = 4096 \<and> cl_recv_binary_len client \<le> 4096"

lemma grow_capacity_ge: "0 < n \<Longrightarrow> needed \<le> grow_capacity n needed \<and> n \<le> grow_capacity n needed"
proof (induction n needed rule: grow_capacity.induct)
  case (1 n needed)
  then show ?case by (subst (1 2) grow_capacity.simps) auto
qed

lemma ensure_ok:
  assumes "tq_ok q" and "ensure_text_capacity ok q (tq_count q + 1) = (r, q')"
  shows "tq_ok q'" "tq_contents q' = tq_contents q" "tq_count q' = tq_count q"
    "r = 0 \<Longrightarrow> tq_count q' < tq_capacity q'" "r = 0 \<or> r = - 1"
proof -
  have grow: "tq_count q + 1 \<le> grow_capacity n (tq_count q + 1)" if "0 < n" for n
    using grow_capacity_ge [OF that] by blast
  have ge: "tq_capacity q \<le> grow_capacity (tq_capacity q * 2) (tq_count q + 1)" if "0 < tq_capacity q"
    using grow_capacity_ge [of "tq_capacity q * 2" "tq_count q + 1"] that by linarith
  show "tq_ok q'" "tq_contents q' = tq_contents q" "tq_count q' = tq_count q"
    "r = 0 \<Longrightarrow> tq_count q' < tq_capacity q'" "r = 0 \<or> r = - 1"
    using assms grow [of 4] grow [of "tq_capacity q * 2"] ge
    by (auto simp: ensure_text_capacity_def tq_ok_def tq_contents_def Let_def nth_append
        split: if_splits)
qed

lemma text_append_ok:
  assumes "tq_ok q" and "tq_count q < tq_capacity q"
  shows "tq_ok (text_append q s)" "tq_contents (text_append q s) = tq_contents q @ [s]"
proof -
  have len: "tq_count q < length (tq_items q)" using assms by (simp add: tq_ok_def)
  show "tq_ok (text_append q s)"
    using assms by (auto simp: text_append_def tq_ok_def nth_list_update)
  show "tq_contents (text_append q s) = tq_contents q @ [s]"
    using assms(2) len by (simp add: text_append_def tq_contents_def take_Suc_conv_app_nth)
qed

lemma pop_text_empty:
  "tq_count (cl_pending_text c) = 0 \<Longrightarrow> xiaozhi_client_pop_text_locked c = (0, None, c)"
  by (simp add: xiaozhi_client_pop_text_locked_def)

lemma pop_text_first:
  assumes "tq_ok (cl_pending_text c)" and "tq_contents (cl_pending_text c) = s # rest"
  obtains q where "xiaozhi_client_pop_text_locked c = (1, Some s, c\<lparr>cl_pending_text := q\<rparr>)"
    "tq_ok q" "tq_contents q = rest"
proof -
  let ?q = "cl_pending_text c"
  obtain items where items: "tq_items ?q = items" by simp
  have len: "length (tq_contents ?q) = tq_count ?q"
    using assms(1) by (simp add: tq_contents_def tq_ok_def)
  then have count: "tq_count ?q = Suc (length rest)" using assms(2) by simp
  then obtain x xs where xs: "tq_items ?q = x # xs" and lenxs: "length rest \<le> length xs"
    using assms(1) by (cases "tq_items ?q") (auto simp: tq_ok_def)
  have x: "x = Some s"
    using assms count xs by (auto simp: tq_contents_def tq_ok_def)
  have rest: "rest = map the (take (length rest) xs)"
    using assms(2) count xs by (simp add: tq_contents_def)
  define q where "q = ?q\<lparr>tq_items := (if tq_count ?q > 1
      then take (tq_count ?q - 1) (drop 1 (tq_items ?q)) @ drop (tq_count ?q - 1) (tq_items ?q)
      else tq_items ?q), tq_count := tq_count ?q - 1\<rparr>"
  have defd: "xs ! i \<noteq> None" if "i < length rest" for i
    using assms(1) that count xs unfolding tq_ok_def by (metis Suc_less_eq nth_Cons_Suc)
  have "tq_ok q"
    using assms(1) count xs lenxs defd
    by (auto simp: q_def tq_ok_def nth_append)
  moreover have "tq_contents q = rest"
    using count xs lenxs rest by (simp add: q_def tq_contents_def)
  moreover have "xiaozhi_client_pop_text_locked c = (1, Some s, c\<lparr>cl_pending_text := q\<rparr>)"
    using count xs x by (simp add: xiaozhi_client_pop_text_locked_def q_def Let_def)
  ultimately show thesis by (rule that [rotated])
qed

subsection \<open>Every operation keeps the invariant\<close>

lemma client_inv_cong:
  assumes "client_inv c"
    and "cl_pending_text d = cl_pending_text c" "cl_pending_binary d = cl_pending_binary c"
    "cl_recv_text d = cl_recv_text c" "cl_recv_text_len d = cl_recv_text_len c"
    "cl_recv_binary d = cl_recv_binary c" "cl_recv_binary_len d = cl_recv_binary_len c"
  shows "client_inv d"
  using assms by (simp add: client_inv_def)

lemma ab_pop_inv:
  assumes "ab_inv b" and "audio_buffer_pop b = (r, o1, b')"
  shows "ab_inv b' \<and> ab_block_capacity b' = ab_block_capacity b"
proof (cases "ab_count b = 0")
  case True
  then show ?thesis using assms by (simp add: audio_buffer_pop_def)
next
  case False
  then show ?thesis using pop_step [OF assms(1)] assms(2) by force
qed

lemma pop_text_inv:
  assumes "client_inv c" and "xiaozhi_client_pop_text_locked c = (r, o1, c')"
  shows "client_inv c' \<and> (r = 0 \<and> o1 = None \<and> c' = c \<or> r = 1 \<and> o1 \<noteq> None)"
proof (cases "tq_contents (cl_pending_text c)")
  case Nil
  then have "tq_count (cl_pending_text c) = 0"
    using assms(1) by (auto simp: client_inv_def tq_ok_def tq_contents_def)
  then show ?thesis using assms pop_text_empty [of c] by simp
next
  case (Cons s rest)
  have ok: "tq_ok (cl_pending_text c)" using assms(1) by (simp add: client_inv_def)
  obtain q where "xiaozhi_client_pop_text_locked c = (1, Some s, c\<lparr>cl_pending_text := q\<rparr>)" "tq_ok q"
    by (rule pop_text_first [OF ok Cons])
  then show ?thesis using assms by (auto simp: client_inv_def)
qed

lemma pop_binary_inv:
  assumes "client_inv c" and "xiaozhi_client_pop_binary_locked m c = (r, o1, c')"
  shows "client_inv c'"
  using assms ab_pop_inv [of "cl_pending_binary c"]
  by (auto simp: xiaozhi_client_pop_binary_locked_def client_inv_def Let_def
      split: prod.splits option.splits if_splits)

lemma writeable_inv:
  assumes "client_inv c" and "writeable m b w c = (r, c', effs)"
  shows "client_inv c'"
proof -
  obtain tr tp c1 where t: "xiaozhi_client_pop_text_locked c = (tr, tp, c1)" using prod_cases3 by blast
  obtain pr bp c2 where p: "(if tr = 0 then xiaozhi_client_pop_binary_locked m c1
      else (tr, None, c1)) = (pr, bp, c2)" using prod_cases3 by blast
  have "client_inv c1" using pop_text_inv [OF assms(1) t] by blast
  then have "client_inv c2" using p pop_binary_inv by (auto split: if_splits)
  moreover have "c' = c2"
    using assms(2) unfolding writeable_def t p Let_def prod.case
    by (auto split: option.splits if_splits)
  ultimately show ?thesis by simp
qed

lemma feed_binary_inv:
  "client_inv c \<Longrightarrow> xiaozhi_client_feed_binary_fragment c d fin = (r, c', effs) \<Longrightarrow> client_inv c'"
  by (auto simp: xiaozhi_client_feed_binary_fragment_def client_inv_def Let_def split: if_splits)

lemma receive_text_inv:
  "client_inv c \<Longrightarrow> receive_text c d e = (c', effs) \<Longrightarrow> client_inv c'"
  by (auto simp: receive_text_def client_inv_def Let_def split: if_splits)

lemma callback_inv [inv_intros]:
  assumes "client_inv c"
  shows "client_inv (fst (snd (xiaozhi_client_callback reason c)))"
proof (cases reason)
  case (LWS_CLIENT_WRITEABLE m b w)
  then show ?thesis using writeable_inv [OF assms] by (cases "writeable m b w c") auto
next
  case (LWS_CLIENT_RECEIVE bin d rm fin)
  then show ?thesis
    using feed_binary_inv [OF assms, of d "rm = 0 \<and> fin"]
      receive_text_inv [OF assms, of "chars_of d" "rm = 0 \<and> fin"]
    by (cases bin; cases "receive_text c (chars_of d) (rm = 0 \<and> fin)")
       (auto simp: Let_def split: prod.splits)
qed (use assms in \<open>auto simp: Let_def client_inv_def split: prod.splits\<close>)

lemma run_callbacks_inv [inv_intros]:
  "client_inv c \<Longrightarrow> client_inv (fst (run_callbacks rs c))"
proof (induction rs arbitrary: c)
  case (Cons r rs)
  obtain x c1 e1 where cb: "xiaozhi_client_callback r c = (x, c1, e1)" using prod_cases3 by blast
  have "client_inv c1" using callback_inv [OF Cons.prems, of r] cb by simp
  then show ?case using Cons.IH [of c1] cb by (auto split: prod.splits)
qed simp

lemma queue_text_inv [inv_intros]:
  assumes "client_inv c"
  shows "client_inv (fst (snd (xiaozhi_client_queue_text m d c payload)))"
proof -
  have ok: "tq_ok (cl_pending_text c)" using assms by (simp add: client_inv_def)
  obtain r q where e: "ensure_text_capacity m (cl_pending_text c) (tq_count (cl_pending_text c) + 1) = (r, q)"
    by fastforce
  note ens = ensure_ok [OF ok e]
  show ?thesis
    using assms ens text_append_ok(1) [OF ens(1)] e
    by (auto simp: xiaozhi_client_queue_text_def queue_text_reserve_def queue_text_append_def
        client_inv_def Let_def split: option.splits)
qed

lemma queue_binary_inv [inv_intros]:
  "client_inv c \<Longrightarrow> client_inv (fst (snd (xiaozhi_client_queue_binary c d)))"
  using push_inv [of "cl_pending_binary c" d 0] push_frame_simps(2) [of "cl_pending_binary c" d 0]
  by (cases "audio_buffer_push (cl_pending_binary c) d 0")
     (simp add: xiaozhi_client_queue_binary_def client_inv_def Let_def)

lemma client_init_inv:
  "xiaozhi_client_init alloc cfg cb c0 = (0, c) \<Longrightarrow> client_inv c"
  using audio_buffer_init_ok [of alloc 32 4096 zero_audio_buffer]
  by (auto simp: xiaozhi_client_init_def client_inv_def zero_client_def tq_ok_def Let_def
      split: option.splits if_splits prod.splits)

lemma client_start_inv [inv_intros]:
  "client_inv c \<Longrightarrow> client_inv (snd (xiaozhi_client_start created c))"
  by (simp add: xiaozhi_client_start_def client_inv_def Let_def)

lemma client_thread_end_inv:
  assumes "client_inv c"
  shows "client_inv (fst (client_thread_end td c))"
  using run_callbacks_inv [OF assms, of td]
  by (auto simp: client_thread_end_def client_inv_def split: prod.splits)

lemma client_stop_inv [inv_intros]:
  assumes "client_inv c"
  shows "client_inv (fst (xiaozhi_client_stop td c))"
proof -
  have "client_inv (c\<lparr>cl_running := False\<rparr>)" using assms by (simp add: client_inv_def)
  then have "client_inv (fst (client_thread_end td (c\<lparr>cl_running := False\<rparr>)))"
    by (rule client_thread_end_inv)
  then show ?thesis
    using assms by (auto simp: xiaozhi_client_stop_def Let_def client_inv_def split: prod.splits)
qed

lemma client_connect_inv [inv_intros]:
  assumes "client_inv c"
  shows "client_inv (fst (snd (snd (client_thread_connect env c))))"
proof -
  have "client_inv (c\<lparr>cl_context := True\<rparr>)" using assms by (simp add: client_inv_def)
  from run_callbacks_inv [OF this, of "ce_calls env"] show ?thesis
    using assms by (auto simp: client_thread_connect_def client_inv_def Let_def
        split: option.splits prod.splits)
qed

text \<open>Everything another thread, the library or the application can do to a client.\<close>

datatype client_op =
    Callback lws_reason
  | Queue_Text bool bool "string option"
  | Queue_Binary "byte list"
  | Connect connect_env
  | Start bool
  | Stop "lws_reason list"

fun client_do :: "client_op \<Rightarrow> xiaozhi_client \<Rightarrow> xiaozhi_client" where
  "client_do (Callback r) c = fst (snd (xiaozhi_client_callback r c))"
| "client_do (Queue_Text m d s) c = fst (snd (xiaozhi_client_queue_text m d c s))"
| "client_do (Queue_Binary d) c = fst (snd (xiaozhi_client_queue_binary c d))"
| "client_do (Connect env) c = fst (snd (snd (client_thread_connect env c)))"
| "client_do (Start created) c = snd (xiaozhi_client_start created c)"
| "client_do (Stop td) c = fst (xiaozhi_client_stop td c)"

lemma client_do_inv [inv_intros]: "client_inv c \<Longrightarrow> client_inv (client_do op c)"
  by (cases op) (simp_all add: inv_intros)

text \<open>
  C16: from \<open>xiaozhi_client_init\<close> on, and after any sequence of callbacks, queueing, connecting,
  starting and stopping, the receive buffers are never overrun (a text of at most 4095 bytes
  and a terminator, a binary message of at most 4096 bytes), the message queues are well
  formed, and no message pointer is written outside its array.
\<close>

theorem client_buffers_safe:
  assumes "xiaozhi_client_init alloc cfg cb c0 = (0, c)"
  shows "client_inv (fold client_do ops c)"
  using client_init_inv [OF assms]
  by (induction ops arbitrary: c) (simp_all add: client_do_inv)

definition demo_client_config :: xiaozhi_client_config where
  "demo_client_config = \<lparr>xc_url = ''ws://h'', xc_protocol_version = 1, xc_authorization = [],
     xc_device_id = ''d'', xc_client_id = ''c''\<rparr>"

definition all_callbacks :: xiaozhi_client_callbacks where
  "all_callbacks = \<lparr>cb_on_connected = True, cb_on_disconnected = True, cb_on_text = True,
     cb_on_binary = True, cb_on_error = True\<rparr>"

definition demo_client :: xiaozhi_client where
  "demo_client = snd (xiaozhi_client_init True (Some demo_client_config) (Some all_callbacks) zero_client)"

lemma demo_client_init:
  "xiaozhi_client_init True (Some demo_client_config) (Some all_callbacks) zero_client = (0, demo_client)"
  by (simp add: demo_client_def xiaozhi_client_init_def demo_client_config_def audio_buffer_init_def
      zero_client_def)

theorem client_buffers_safe_witness:
  "client_inv (fold client_do [Queue_Text True True (Some ''hi''),
     Callback LWS_CLIENT_ESTABLISHED, Callback (LWS_CLIENT_WRITEABLE True True 0),
     Callback (LWS_CLIENT_RECEIVE False [65] 0 True)] demo_client)"
  by (rule client_buffers_safe [OF demo_client_init])

subsection \<open>Sending\<close>

text \<open>What is waiting to be sent, in the order it will be: texts first, then binary messages.\<close>

definition outbox :: "xiaozhi_client \<Rightarrow> client_effect list" where
  "outbox c = map Write_Text (tq_contents (cl_pending_text c)) @
     map (\<lambda>m. Write_Binary (fst m)) (ab_contents (cl_pending_binary c))"

lemma tq_contents_Nil_iff: "tq_ok q \<Longrightarrow> tq_contents q = [] \<longleftrightarrow> tq_count q = 0"
  by (auto simp: tq_ok_def tq_contents_def)

lemma ab_contents_Nil_iff: "ab_contents b = [] \<longleftrightarrow> ab_count b = 0"
  by (metis length_0_conv length_ab_contents)

lemma outbox_Nil_iff:
  "client_inv c \<Longrightarrow> outbox c = [] \<longleftrightarrow>
     \<not> (tq_count (cl_pending_text c) > 0 \<or> audio_buffer_size (cl_pending_binary c) > 0)"
  using tq_contents_Nil_iff [of "cl_pending_text c"]
  by (auto simp: outbox_def client_inv_def audio_buffer_size_def ab_contents_Nil_iff)

lemma writeable_sends:
  assumes "client_inv c" and "outbox c = m # rest" and "0 \<le> w"
  shows "\<exists>c'. writeable True True w c =
     (0, c', m # (if rest = [] then [] else [Ask_Writable])) \<and> outbox c' = rest \<and> client_inv c'"
proof (cases "tq_contents (cl_pending_text c)")
  case (Cons s texts)
  have ok: "tq_ok (cl_pending_text c)" using assms(1) by (simp add: client_inv_def)
  obtain q where pop: "xiaozhi_client_pop_text_locked c = (1, Some s, c\<lparr>cl_pending_text := q\<rparr>)"
    and q: "tq_ok q" "tq_contents q = texts"
    by (rule pop_text_first [OF ok Cons])
  let ?c = "c\<lparr>cl_pending_text := q\<rparr>"
  have inv: "client_inv ?c" using assms(1) q(1) by (simp add: client_inv_def)
  have m: "m = Write_Text s" "outbox ?c = rest"
    using assms(2) Cons q(2) by (simp_all add: outbox_def)
  show ?thesis
    using pop assms(3) inv m outbox_Nil_iff [OF inv]
    by (auto simp: writeable_def)
next
  case Nil
  then have "tq_count (cl_pending_text c) = 0"
    using assms(1) tq_contents_Nil_iff by (simp add: client_inv_def)
  note empty = this pop_text_empty [OF this]
  let ?b = "cl_pending_binary c"
  have ab: "ab_inv ?b" using assms(1) by (simp add: client_inv_def)
  have "ab_contents ?b \<noteq> []" using assms(2) Nil by (auto simp: outbox_def)
  then have "0 < ab_count ?b" using length_ab_contents [of ?b] by (metis length_greater_0_conv)
  from pop_step [OF ab this] obtain blk b' where
    pop: "audio_buffer_pop ?b = (1, Some blk, b')" "ab_contents ?b = ab_entry b' blk # ab_contents b'"
    "ab_inv b'" "ab_block_capacity b' = ab_block_capacity ?b" by blast
  let ?c = "c\<lparr>cl_pending_binary := b'\<rparr>"
  have inv: "client_inv ?c" using assms(1) pop by (simp add: client_inv_def)
  have m: "m = Write_Binary (block_bytes b' blk)" "outbox ?c = rest"
    using assms(2) Nil pop(2) by (simp_all add: outbox_def ab_entry_def)
  show ?thesis
    using empty pop(1) assms(3) inv m outbox_Nil_iff [OF inv]
    by (auto simp: writeable_def xiaozhi_client_pop_binary_locked_def)
qed

fun with_requests :: "client_effect list \<Rightarrow> client_effect list" where
  "with_requests [] = []"
| "with_requests [m] = [m]"
| "with_requests (m # ms) = m # Ask_Writable # with_requests ms"

lemma with_requests_Cons:
  "with_requests (m # ms) = m # (if ms = [] then [] else [Ask_Writable]) @ with_requests ms"
  by (cases ms) simp_all

lemma outbox_runs:
  assumes "client_inv c"
  shows "\<exists>c'. run_callbacks (replicate (length (outbox c)) (LWS_CLIENT_WRITEABLE True True 0)) c =
           (c', with_requests (outbox c)) \<and> outbox c' = [] \<and> client_inv c'"
  using assms
proof (induction "outbox c" arbitrary: c)
  case Nil
  then show ?case by (metis list.size(3) replicate_0 run_callbacks.simps(1) with_requests.simps(1))
next
  case (Cons m rest)
  obtain c1 where step: "writeable True True 0 c =
      (0, c1, m # (if rest = [] then [] else [Ask_Writable]))" and c1: "outbox c1 = rest" "client_inv c1"
    using writeable_sends [OF Cons.prems Cons.hyps(2) [symmetric], of 0] by auto
  obtain c2 where run: "run_callbacks (replicate (length (outbox c1)) (LWS_CLIENT_WRITEABLE True True 0)) c1 =
      (c2, with_requests (outbox c1))" "outbox c2 = []" "client_inv c2"
    using Cons.hyps(1) [OF c1(1) [symmetric] c1(2)] by blast
  show ?case
    using step run c1 by (simp add: Cons.hyps(2) [symmetric] with_requests_Cons)
qed

text \<open>
  C17: the queued messages go out one per writable callback, texts in the order they were
  queued and then binary messages in theirs, and after each but the last the client asks to be
  called again, so that the queue is emptied without any further prompting.
\<close>

theorem outbox_drains:
  assumes "client_inv c"
  shows "\<exists>c'. run_callbacks (replicate (length (outbox c)) (LWS_CLIENT_WRITEABLE True True 0)) c =
           (c', with_requests (outbox c)) \<and> outbox c' = [] \<and> client_inv c'"
  by (rule outbox_runs [OF assms])

theorem outbox_drains_witness:
  "\<exists>c'. run_callbacks (replicate (length (outbox demo_client)) (LWS_CLIENT_WRITEABLE True True 0))
          demo_client = (c', with_requests (outbox demo_client)) \<and> outbox c' = []"
  using outbox_drains [OF client_init_inv [OF demo_client_init]] by blast

subsection \<open>Putting fragments together\<close>

definition recv_binary :: "xiaozhi_client \<Rightarrow> byte list" where
  "recv_binary c = take (cl_recv_binary_len c) (cl_recv_binary c)"

lemma feed_fits:
  assumes "client_inv c" and "d \<noteq> []" and "cl_recv_binary_len c + length d \<le> 4096"
    and "cb_on_binary (cl_callbacks c)"
  shows "\<exists>c'. xiaozhi_client_feed_binary_fragment c d fin =
       (0, c', if fin then [On_Binary (recv_binary c @ d)] else []) \<and>
     recv_binary c' = (if fin then [] else recv_binary c @ d) \<and>
     cl_recv_binary_len c' = (if fin then 0 else cl_recv_binary_len c + length d) \<and>
     cl_callbacks c' = cl_callbacks c \<and> client_inv c'"
proof -
  obtain r c' effs where f: "xiaozhi_client_feed_binary_fragment c d fin = (r, c', effs)"
    using prod_cases3 by blast
  have "client_inv c'" using feed_binary_inv [OF assms(1) f] .
  then show ?thesis
    using assms f
    by (auto simp: xiaozhi_client_feed_binary_fragment_def client_inv_def recv_binary_def
        mem_write_def mem_read_def Let_def split: if_splits)
qed

lemma feed_fragments:
  assumes "client_inv c" and "cb_on_binary (cl_callbacks c)" and "\<forall>d \<in> set ds. d \<noteq> []"
    and "cl_recv_binary_len c + length (concat ds) \<le> 4096"
  shows "\<exists>c'. run_callbacks (map (\<lambda>d. LWS_CLIENT_RECEIVE True d 0 False) ds) c = (c', []) \<and>
     client_inv c' \<and> cl_callbacks c' = cl_callbacks c \<and>
     recv_binary c' = recv_binary c @ concat ds \<and>
     cl_recv_binary_len c' = cl_recv_binary_len c + length (concat ds)"
  using assms
proof (induction ds arbitrary: c)
  case (Cons d ds)
  obtain c1 where f: "xiaozhi_client_feed_binary_fragment c d False = (0, c1, [])"
    and c1: "recv_binary c1 = recv_binary c @ d"
      "cl_recv_binary_len c1 = cl_recv_binary_len c + length d"
      "cl_callbacks c1 = cl_callbacks c" "client_inv c1"
    using feed_fits [OF Cons.prems(1) _ _ Cons.prems(2), of d False] Cons.prems(3,4) by auto
  then obtain c2 where "run_callbacks (map (\<lambda>d. LWS_CLIENT_RECEIVE True d 0 False) ds) c1 = (c2, [])"
     "client_inv c2" "cl_callbacks c2 = cl_callbacks c1"
     "recv_binary c2 = recv_binary c1 @ concat ds"
     "cl_recv_binary_len c2 = cl_recv_binary_len c1 + length (concat ds)"
    using Cons.IH [of c1] Cons.prems(2-4) by auto
  then show ?case using f c1 by simp
qed simp

lemma run_callbacks_append:
  "run_callbacks (rs @ ss) c =
     (case run_callbacks rs c of (c1, e1) \<Rightarrow>
        (case run_callbacks ss c1 of (c2, e2) \<Rightarrow> (c2, e1 @ e2)))"
  by (induction rs arbitrary: c) (auto split: prod.splits)

text \<open>
  C18: a binary message that arrives in any number of non-empty fragments reaches the
  application exactly once, whole and in order, when it has at most 4096 bytes; one that is
  larger is dropped with an error, but what follows the fragment that did not fit is taken for
  a new message: the tail of an oversized message is delivered as if it were complete.
\<close>

theorem binary_reassembly:
  assumes "client_inv c" and "cl_recv_binary_len c = 0" and "cl_callbacks c = all_callbacks"
    and "\<forall>d \<in> set (ds @ [lst]). d \<noteq> []" and "length (concat ds) \<le> 4096"
    and "length lst \<le> 4096"
  shows "snd (run_callbacks (map (\<lambda>d. LWS_CLIENT_RECEIVE True d 0 False) ds @
               [LWS_CLIENT_RECEIVE True lst 0 True]) c) =
           (if length (concat (ds @ [lst])) \<le> 4096 then [On_Binary (concat (ds @ [lst]))]
            else [On_Error ''received binary frame too large'']) \<and>
         (length (concat (ds @ [lst])) > 4096 \<longrightarrow> tail \<noteq> [] \<longrightarrow> length tail \<le> 4096 \<longrightarrow>
            snd (run_callbacks (map (\<lambda>d. LWS_CLIENT_RECEIVE True d 0 False) (ds @ [lst]) @
                   [LWS_CLIENT_RECEIVE True tail 0 True]) c) =
              [On_Error ''received binary frame too large'', On_Binary tail])"
proof -
  have cb: "cb_on_binary (cl_callbacks c)" by (simp add: assms(3) all_callbacks_def)
  obtain c1 where run: "run_callbacks (map (\<lambda>d. LWS_CLIENT_RECEIVE True d 0 False) ds) c = (c1, [])"
    and c1: "client_inv c1" "cl_callbacks c1 = all_callbacks" "recv_binary c1 = concat ds"
      "cl_recv_binary_len c1 = length (concat ds)"
    using feed_fragments [OF assms(1) cb, of ds] assms(2-5) by (auto simp: recv_binary_def)
  have cb1: "cb_on_binary (cl_callbacks c1)" "cb_on_error (cl_callbacks c1)"
    by (simp_all add: c1(2) all_callbacks_def)
  show ?thesis
  proof (cases "length (concat (ds @ [lst])) \<le> 4096")
    case True
    then obtain c2 where "xiaozhi_client_feed_binary_fragment c1 lst True =
        (0, c2, [On_Binary (recv_binary c1 @ lst)])"
      using feed_fits [OF c1(1) _ _ cb1(1), of lst True] assms(4) c1(4) by auto
    then show ?thesis using True run c1(3) by (simp add: run_callbacks_append)
  next
    case False
    then have over: "xiaozhi_client_feed_binary_fragment c1 lst fin =
        (- 1, c1\<lparr>cl_recv_binary_len := 0\<rparr>, [])" for fin
      using c1(4) assms(4) by (simp add: xiaozhi_client_feed_binary_fragment_def)
    let ?c2 = "c1\<lparr>cl_recv_binary_len := 0\<rparr>"
    have c2: "client_inv ?c2" "cb_on_binary (cl_callbacks ?c2)" "recv_binary ?c2 = []"
      using c1(1) cb1 by (simp_all add: client_inv_def recv_binary_def)
    have "\<exists>c3. xiaozhi_client_feed_binary_fragment ?c2 tail True = (0, c3, [On_Binary tail])"
      if "tail \<noteq> []" "length tail \<le> 4096"
      using feed_fits [OF c2(1) that(1) _ c2(2), of True] that(2) c2(3) by auto
    then show ?thesis
      using False run over cb1
      by (auto simp: run_callbacks_append xiaozhi_client_notify_error_def)
  qed
qed

lemma demo_client_simps:
  "client_inv demo_client" "cl_recv_binary_len demo_client = 0" "cl_recv_text_len demo_client = 0"
  "cl_callbacks demo_client = all_callbacks" "\<not> cl_running demo_client"
  "tq_contents (cl_pending_text demo_client) = []"
  using client_init_inv [OF demo_client_init]
  by (simp_all add: demo_client_def xiaozhi_client_init_def demo_client_config_def zero_client_def
      tq_contents_def split: prod.splits)

theorem binary_reassembly_witness:
  "snd (run_callbacks (map (\<lambda>d. LWS_CLIENT_RECEIVE True d 0 False) [replicate 4096 1, [2]] @
          [LWS_CLIENT_RECEIVE True [9] 0 True]) demo_client) =
     [On_Error ''received binary frame too large'', On_Binary [9]]"
  using binary_reassembly [OF demo_client_simps(1,2,4), of "[replicate 4096 1]" "[2]" "[9]"]
  by (simp del: run_callbacks.simps xiaozhi_client_callback.simps)

text \<open>
  An empty final fragment, which the protocol allows, is reported as \<open>too large\<close>, and the
  fragments before it are kept: they are delivered glued to the front of the next message.
\<close>

theorem empty_final_fragment_glues:
  assumes "client_inv c" and "cl_recv_binary_len c = 0" and "cl_callbacks c = all_callbacks"
    and "a \<noteq> []" and "b \<noteq> []" and "length (a @ b) \<le> 4096"
  shows "snd (run_callbacks [LWS_CLIENT_RECEIVE True a 0 False, LWS_CLIENT_RECEIVE True [] 0 True,
            LWS_CLIENT_RECEIVE True b 0 True] c) =
           [On_Error ''received binary frame too large'', On_Binary (a @ b)]"
proof -
  have cb: "cb_on_binary (cl_callbacks c)" by (simp add: assms(3) all_callbacks_def)
  have "recv_binary c = []" using assms(2) by (simp add: recv_binary_def)
  then obtain c1 where f1: "xiaozhi_client_feed_binary_fragment c a False = (0, c1, [])"
    and c1: "recv_binary c1 = a" "cl_recv_binary_len c1 = length a" "client_inv c1"
      "cl_callbacks c1 = all_callbacks"
    using feed_fits [OF assms(1,4) _ cb, of False] assms(2,3,6) by auto
  have f2: "xiaozhi_client_feed_binary_fragment c1 [] True = (- 1, c1, [])"
    by (simp add: xiaozhi_client_feed_binary_fragment_def)
  have cb1: "cb_on_binary (cl_callbacks c1)" using c1(4) by (simp add: all_callbacks_def)
  obtain c2 where "xiaozhi_client_feed_binary_fragment c1 b True = (0, c2, [On_Binary (a @ b)])"
    using feed_fits [OF c1(3) assms(5) _ cb1, of True] c1(1,2) assms(6) by auto
  then show ?thesis
    using f1 f2 c1(4) by (simp add: xiaozhi_client_notify_error_def all_callbacks_def)
qed

theorem empty_final_fragment_glues_witness:
  "snd (run_callbacks [LWS_CLIENT_RECEIVE True [1] 0 False, LWS_CLIENT_RECEIVE True [] 0 True,
          LWS_CLIENT_RECEIVE True [2] 0 True] demo_client) =
     [On_Error ''received binary frame too large'', On_Binary [1, 2]]"
  using empty_final_fragment_glues [OF demo_client_simps(1,2,4), of "[1]" "[2]"] by simp

lemma text_fragments:
  assumes "client_inv c" and "cl_recv_text_len c + length (concat ds) < 4096"
  shows "\<exists>c'. run_callbacks (map (\<lambda>d. LWS_CLIENT_RECEIVE False d 0 False) ds) c = (c', []) \<and>
     client_inv c' \<and> cl_callbacks c' = cl_callbacks c \<and>
     cl_recv_text_len c' = cl_recv_text_len c + length (concat ds) \<and>
     take (cl_recv_text_len c') (cl_recv_text c') =
       take (cl_recv_text_len c) (cl_recv_text c) @ chars_of (concat ds)"
  using assms
proof (induction ds arbitrary: c)
  case (Cons d ds)
  let ?c = "c\<lparr>cl_recv_text := mem_write (cl_recv_text_len c) (chars_of d) (cl_recv_text c),
              cl_recv_text_len := cl_recv_text_len c + length d\<rparr>"
  have len: "length (chars_of d) = length d" by (simp add: chars_of_def)
  have f: "receive_text c (chars_of d) False = (?c, [])"
    using Cons.prems(2) by (simp add: receive_text_def len)
  have "take (cl_recv_text_len ?c) (cl_recv_text ?c) =
      take (cl_recv_text_len c) (cl_recv_text c) @ chars_of d"
    using Cons.prems by (simp add: client_inv_def mem_write_def len)
  moreover have "client_inv ?c" using receive_text_inv [OF Cons.prems(1) f] .
  moreover obtain c2 where "run_callbacks (map (\<lambda>d. LWS_CLIENT_RECEIVE False d 0 False) ds) ?c = (c2, [])"
    "client_inv c2" "cl_callbacks c2 = cl_callbacks ?c"
    "cl_recv_text_len c2 = cl_recv_text_len ?c + length (concat ds)"
    "take (cl_recv_text_len c2) (cl_recv_text c2) =
       take (cl_recv_text_len ?c) (cl_recv_text ?c) @ chars_of (concat ds)"
    using Cons.IH [OF \<open>client_inv ?c\<close>] Cons.prems(2) by auto
  ultimately show ?case using f by (simp add: chars_of_def)
qed (simp add: chars_of_def)

text \<open>
  A text message of at most 4095 bytes without NUL bytes is delivered exactly once, whole,
  as a terminated string, however the network cuts it into pieces, and leaves the buffer ready
  for the next message.
\<close>

theorem text_reassembly:
  assumes "client_inv c" and "cl_recv_text_len c = 0" and "cl_callbacks c = all_callbacks"
    and "length (concat ds) < 4096" and "0 \<notin> set (concat ds)" and "ds \<noteq> []"
  shows "\<exists>c'. run_callbacks (map (\<lambda>d. LWS_CLIENT_RECEIVE False d 0 False) (butlast ds) @
               [LWS_CLIENT_RECEIVE False (last ds) 0 True]) c =
           (c', [On_Text (chars_of (concat ds))]) \<and> cl_recv_text_len c' = 0 \<and> client_inv c'"
proof -
  obtain es e where ds: "ds = es @ [e]" using assms(6) by (metis append_butlast_last_id)
  have len: "length (chars_of x) = length x" for x by (simp add: chars_of_def)
  obtain c1 where run: "run_callbacks (map (\<lambda>d. LWS_CLIENT_RECEIVE False d 0 False) es) c = (c1, [])"
    and c1: "client_inv c1" "cl_callbacks c1 = all_callbacks"
      "cl_recv_text_len c1 = length (concat es)"
      "take (cl_recv_text_len c1) (cl_recv_text c1) = chars_of (concat es)"
    using text_fragments [OF assms(1), of es] assms(2-4) ds by auto
  let ?buf = "(mem_write (length (concat es)) (chars_of e) (cl_recv_text c1))
      [length (concat es) + length e := nul]"
  obtain c2 where f: "receive_text c1 (chars_of e) True = (c2, [On_Text (c_str ?buf)])"
    and c2: "cl_recv_text_len c2 = 0"
    using assms(4) c1 ds by (simp add: receive_text_def len all_callbacks_def Let_def)
  have inv: "client_inv c2" using receive_text_inv [OF c1(1) f] .
  have "?buf = chars_of (concat ds) @ nul #
      drop (Suc (length (concat ds))) (cl_recv_text c1)"
    using c1 assms(4) ds
    by (simp add: mem_write_def len chars_of_def list_update_append client_inv_def
        upd_conv_take_nth_drop split: list.splits)
  moreover have "nul \<notin> set (chars_of (concat ds))"
  proof
    assume "nul \<in> set (chars_of (concat ds))"
    then have "nul \<in> (\<lambda>b. char_of (unat b)) ` set (concat ds)"
      by (simp only: chars_of_def set_map)
    then obtain b :: byte where b: "b \<in> set (concat ds)" "char_of (unat b) = nul"
      by (elim imageE) metis
    have "unat b < 256" using unsigned_less [of b, where 'a = nat] by simp
    moreover have "of_char (char_of (unat b) :: char) = (0 :: nat)" using b(2) by simp
    ultimately have "unat b = 0" by simp
    then have "b = 0" by (simp add: unat_eq_0)
    with b(1) assms(5) show False by simp
  qed
  ultimately have "c_str ?buf = chars_of (concat ds)"
    by (simp add: c_str_def takeWhile_until)
  then show ?thesis
    using run f c2 inv ds by (simp add: run_callbacks_append)
qed

theorem text_reassembly_witness:
  "\<exists>c'. run_callbacks [LWS_CLIENT_RECEIVE False [123] 0 False, LWS_CLIENT_RECEIVE False [125] 0 True]
          demo_client = (c', [On_Text ''{}'']) \<and> client_inv c'"
proof -
  have "chars_of [123, 125] = ''{}''"
    using char_of_char [of "CHR ''{''", where 'a = nat]
      char_of_char [of "CHR ''}''", where 'a = nat]
    by (simp add: chars_of_def)
  then show ?thesis
    using text_reassembly [OF demo_client_simps(1,3,4), of "[[123], [125]]"]
    by (auto simp del: run_callbacks.simps xiaozhi_client_callback.simps)
qed

subsection \<open>Queueing texts, one producer and two\<close>

text \<open>The library's callbacks never add texts and never shrink the array.\<close>

lemma pop_text_room:
  "xiaozhi_client_pop_text_locked c = (r, o1, c') \<Longrightarrow>
     tq_capacity (cl_pending_text c') = tq_capacity (cl_pending_text c) \<and>
     tq_count (cl_pending_text c') \<le> tq_count (cl_pending_text c)"
  by (auto simp: xiaozhi_client_pop_text_locked_def Let_def split: if_splits)

lemma pop_binary_text:
  "xiaozhi_client_pop_binary_locked m c = (r, o1, c') \<Longrightarrow> cl_pending_text c' = cl_pending_text c"
  by (auto simp: xiaozhi_client_pop_binary_locked_def Let_def split: prod.splits option.splits if_splits)

lemma writeable_text_room:
  assumes "writeable m b w c = (r, c', effs)"
  shows "tq_capacity (cl_pending_text c') = tq_capacity (cl_pending_text c) \<and>
     tq_count (cl_pending_text c') \<le> tq_count (cl_pending_text c)"
proof -
  obtain tr tp c1 where t: "xiaozhi_client_pop_text_locked c = (tr, tp, c1)" using prod_cases3 by blast
  obtain pr bp c2 where p: "(if tr = 0 then xiaozhi_client_pop_binary_locked m c1
      else (tr, None, c1)) = (pr, bp, c2)" using prod_cases3 by blast
  have "cl_pending_text c2 = cl_pending_text c1" using p pop_binary_text by (auto split: if_splits)
  moreover have "c' = c2"
    using assms unfolding writeable_def t p Let_def prod.case
    by (auto split: option.splits if_splits)
  ultimately show ?thesis using pop_text_room [OF t] by simp
qed

lemma callback_text_room:
  assumes "xiaozhi_client_callback x c = (r, c', effs)"
  shows "tq_capacity (cl_pending_text c') = tq_capacity (cl_pending_text c) \<and>
     tq_count (cl_pending_text c') \<le> tq_count (cl_pending_text c)"
proof (cases x)
  case (LWS_CLIENT_RECEIVE bin d rm fin)
  then show ?thesis using assms
    by (cases bin) (auto simp: receive_text_def xiaozhi_client_feed_binary_fragment_def Let_def
        split: prod.splits if_splits)
next
  case (LWS_CLIENT_WRITEABLE m b w)
  then show ?thesis using assms writeable_text_room by simp
qed (use assms in \<open>auto simp: Let_def split: prod.splits\<close>)

text \<open>
  With one producer, whatever callbacks the library runs between its two critical
  sections, a text for which memory is found is put at the end of the queue and never outside
  the array; when memory is short the call fails and the queue holds what it held.
\<close>

theorem queue_text_one_producer:
  assumes "client_inv c" and "queue_text_reserve realloc_ok c = (r, c1)"
  shows "client_inv c1 \<and> outbox c1 = outbox c \<and> (r = 0 \<or> r = - 1) \<and>
    (r = 0 \<longrightarrow>
       (let c2 = fst (run_callbacks cbs c1)
        in client_inv (queue_text_append c2 s) \<and>
           tq_contents (cl_pending_text (queue_text_append c2 s)) =
             tq_contents (cl_pending_text c2) @ [s]))"
proof -
  have ok: "tq_ok (cl_pending_text c)" using assms(1) by (simp add: client_inv_def)
  obtain q where e: "ensure_text_capacity realloc_ok (cl_pending_text c)
      (tq_count (cl_pending_text c) + 1) = (r, q)" and c1: "c1 = c\<lparr>cl_pending_text := q\<rparr>"
    using assms(2) by (auto simp: queue_text_reserve_def split: prod.splits)
  note ens = ensure_ok [OF ok e]
  have inv: "client_inv c1" using assms(1) ens(1) c1 by (simp add: client_inv_def)
  have room: "tq_count (cl_pending_text (fst (run_callbacks rs d))) <
      tq_capacity (cl_pending_text (fst (run_callbacks rs d)))"
    if "client_inv d" "tq_count (cl_pending_text d) < tq_capacity (cl_pending_text d)" for rs d
    using that
  proof (induction rs arbitrary: d)
    case (Cons x rs)
    obtain z d1 effs where cb: "xiaozhi_client_callback x d = (z, d1, effs)" using prod_cases3 by blast
    have "tq_capacity (cl_pending_text d1) = tq_capacity (cl_pending_text d) \<and>
        tq_count (cl_pending_text d1) \<le> tq_count (cl_pending_text d)"
      using cb by (rule callback_text_room)
    moreover have "client_inv d1" using callback_inv [OF Cons.prems(1), of x] cb by simp
    ultimately show ?case
      using Cons.IH [of d1] Cons.prems(2) cb by (auto split: prod.splits)
  qed simp
  have "client_inv (queue_text_append c2 s) \<and> tq_contents (cl_pending_text (queue_text_append c2 s)) =
      tq_contents (cl_pending_text c2) @ [s]"
    if "r = 0" "c2 = fst (run_callbacks cbs c1)" for c2
  proof -
    have "client_inv c2" using run_callbacks_inv [OF inv] that(2) by simp
    moreover have "tq_count (cl_pending_text c2) < tq_capacity (cl_pending_text c2)"
      using room [OF inv] ens(4) [OF that(1)] c1 that(2) by simp
    ultimately show ?thesis
      using text_append_ok [of "cl_pending_text c2" s]
      by (simp add: queue_text_append_def client_inv_def)
  qed
  then show ?thesis
    using inv ens c1 by (simp add: outbox_def Let_def)
qed

theorem queue_text_one_producer_witness:
  "tq_contents (cl_pending_text (queue_text_append
     (fst (run_callbacks [LWS_CLIENT_ESTABLISHED] (snd (queue_text_reserve True demo_client)))) ''x'')) =
   [''x'']"
proof -
  have "fst (queue_text_reserve True demo_client) = 0"
    by (simp add: queue_text_reserve_def ensure_text_capacity_def demo_client_def
        xiaozhi_client_init_def demo_client_config_def zero_client_def Let_def split: prod.splits)
  then have "queue_text_reserve True demo_client = (0, snd (queue_text_reserve True demo_client))"
    by (metis prod.collapse)
  from queue_text_one_producer [OF demo_client_simps(1) this, of "[LWS_CLIENT_ESTABLISHED]" "''x''"]
  show ?thesis using demo_client_simps(6)
    by (simp add: outbox_def queue_text_reserve_def Let_def split: prod.splits)
qed

text \<open>
  With two producers the queue can be overrun: when both have passed the capacity check
  while one slot was left, the second append writes past the end of the array.
\<close>

theorem queue_text_two_producers_overrun:
  assumes "client_inv c" and "tq_capacity (cl_pending_text c) = tq_count (cl_pending_text c) + 1"
  shows "let (r1, c1) = queue_text_reserve m1 c;
             (r2, c2) = queue_text_reserve m2 c1;
             c3 = queue_text_append c2 s1;
             c4 = queue_text_append c3 s2
         in r1 = 0 \<and> r2 = 0 \<and> \<not> tq_overrun (cl_pending_text c3) \<and> tq_overrun (cl_pending_text c4)"
  using assms
  by (simp add: queue_text_reserve_def ensure_text_capacity_def queue_text_append_def text_append_def
      client_inv_def tq_ok_def)

definition three_texts :: xiaozhi_client where
  "three_texts = fold (\<lambda>s c. fst (snd (xiaozhi_client_queue_text True True c (Some s))))
     [''a'', ''b'', ''c''] demo_client"

theorem queue_text_two_producers_overrun_witness:
  "tq_overrun (cl_pending_text (queue_text_append (queue_text_append
     (snd (queue_text_reserve True (snd (queue_text_reserve True three_texts)))) ''d'') ''e''))"
proof -
  have inv: "client_inv three_texts"
    by (simp add: three_texts_def queue_text_inv demo_client_simps(1))
  have "cl_pending_text demo_client =
      \<lparr>tq_items = [], tq_count = 0, tq_capacity = 0, tq_overrun = False\<rparr>"
    by (simp add: demo_client_def xiaozhi_client_init_def demo_client_config_def zero_client_def
        split: prod.splits)
  then have "tq_capacity (cl_pending_text three_texts) = tq_count (cl_pending_text three_texts) + 1"
    by (simp add: three_texts_def xiaozhi_client_queue_text_def queue_text_reserve_def
        ensure_text_capacity_def grow_capacity.simps queue_text_append_def text_append_def Let_def)
  from queue_text_two_producers_overrun [OF inv this, of True True "''d''" "''e''"]
  show ?thesis by (simp add: Let_def split: prod.splits)
qed

text \<open>
  Stopping a running client ends its thread and leaves it disconnected; a library that
  closes the connection while the context is destroyed makes the client report the
  disconnection to the application as if the server had hung up. Queued messages survive a
  stop, and stopping twice is harmless.
\<close>

theorem client_stop_effect:
  assumes "cl_running c" and "cl_context c" and "cb_on_disconnected (cl_callbacks c)"
  shows "\<exists>c'. xiaozhi_client_stop [LWS_CLIENT_CLOSED] c = (c', [Cancel_Service, On_Disconnected 0]) \<and>
    \<not> cl_running c' \<and> \<not> cl_connected c' \<and> \<not> cl_context c' \<and> \<not> cl_thread c' \<and>
    outbox c' = outbox c \<and> xiaozhi_client_stop td c' = (c', [])"
  using assms by (simp add: xiaozhi_client_stop_def client_thread_end_def outbox_def)

theorem client_stop_effect_witness:
  "snd (xiaozhi_client_stop [LWS_CLIENT_CLOSED]
     (demo_client\<lparr>cl_running := True, cl_context := True\<rparr>)) = [Cancel_Service, On_Disconnected 0]"
  using client_stop_effect [of "demo_client\<lparr>cl_running := True, cl_context := True\<rparr>" "[]"]
    demo_client_simps(4) by (auto simp: all_callbacks_def)

end
