(* ===== verification/Log_Levels.thy ===== *)
theory Log_Levels
  imports Xz_Prelude
begin

section \<open>Log levels (\<open>src/log.c\<close>)\<close>

text \<open>
  Which messages reach \<open>stderr\<close>. The level is a static variable, so it is an argument and a
  result here; the formatted message and the time stamp are arguments. The levels are ordered
  the way the enumeration numbers them.
\<close>

datatype log_level = LOG_LEVEL_ERROR | LOG_LEVEL_WARN | LOG_LEVEL_INFO | LOG_LEVEL_DEBUG

fun log_level_num :: "log_level \<Rightarrow> nat" where
  "log_level_num LOG_LEVEL_ERROR = 0"
| "log_level_num LOG_LEVEL_WARN = 1"
| "log_level_num LOG_LEVEL_INFO = 2"
| "log_level_num LOG_LEVEL_DEBUG = 3"

lemma log_level_num_inject [simp]: "log_level_num a = log_level_num b \<longleftrightarrow> a = b"
  by (cases a; cases b) simp_all

instantiation log_level :: linorder
begin

definition less_eq_log_level :: "log_level \<Rightarrow> log_level \<Rightarrow> bool" where
  "less_eq_log_level a b \<longleftrightarrow> log_level_num a \<le> log_level_num b"

definition less_log_level :: "log_level \<Rightarrow> log_level \<Rightarrow> bool" where
  "less_log_level a b \<longleftrightarrow> log_level_num a < log_level_num b"

instance
  by standard (auto simp: less_eq_log_level_def less_log_level_def)

end

lemmas log_level_order = less_eq_log_level_def less_log_level_def

fun log_level_name :: "log_level \<Rightarrow> string" where
  "log_level_name LOG_LEVEL_ERROR = ''ERROR''"
| "log_level_name LOG_LEVEL_WARN = ''WARN''"
| "log_level_name LOG_LEVEL_INFO = ''INFO''"
| "log_level_name LOG_LEVEL_DEBUG = ''DEBUG''"

text \<open>\<open>current\<close> is \<open>current_level\<close>, \<open>ts\<close> what \<open>strftime\<close> made of the time.\<close>

definition log_write :: "log_level \<Rightarrow> string \<Rightarrow> log_level \<Rightarrow> string \<Rightarrow> string option" where
  "log_write current ts level msg =
     (if level > current then None
      else Some (''['' @ ts @ ''] '' @ log_level_name level @ '' '' @ msg @ [CHR 0x0A]))"

definition log_set_level :: "log_level \<Rightarrow> log_level \<Rightarrow> log_level" where
  "log_set_level level current = level"

definition log_error :: "log_level \<Rightarrow> string \<Rightarrow> string \<Rightarrow> string option" where
  "log_error current ts msg = log_write current ts LOG_LEVEL_ERROR msg"

definition log_warn :: "log_level \<Rightarrow> string \<Rightarrow> string \<Rightarrow> string option" where
  "log_warn current ts msg = log_write current ts LOG_LEVEL_WARN msg"

definition log_info :: "log_level \<Rightarrow> string \<Rightarrow> string \<Rightarrow> string option" where
  "log_info current ts msg = log_write current ts LOG_LEVEL_INFO msg"

definition log_debug :: "log_level \<Rightarrow> string \<Rightarrow> string \<Rightarrow> string option" where
  "log_debug current ts msg = log_write current ts LOG_LEVEL_DEBUG msg"

lemmas log_defs = log_error_def log_warn_def log_info_def log_debug_def log_write_def

text \<open>Errors are always written; lowering the level never hides a message that was written.\<close>

lemma log_error_written: "log_error current ts msg \<noteq> None"
  by (cases current) (simp_all add: log_defs log_level_order)

lemma log_write_mono:
  "current \<le> current' \<Longrightarrow> log_write current ts level msg \<noteq> None \<Longrightarrow>
     log_write current' ts level msg = log_write current ts level msg"
  by (auto simp: log_write_def split: if_splits)

end
