(* ===== verification/Opus_Dump.thy ===== *)
theory Opus_Dump
  imports Opus_Codec Audio_Playback
begin

unbundle bit_operations_syntax

section \<open>The dump of uploaded packets (\<open>src/app.c\<close>, \<open>tools/decode_opus_dump.c\<close>)\<close>

text \<open>
  While an utterance is uploaded, the application also writes its Opus packets to a file, each
  behind its length in two bytes, low byte first. \<open>tools/decode_opus_dump.c\<close> reads such a file
  and writes the decoded speech as a WAV file. Here: the frame the writer makes, the tool, and
  the agreement of the two. The files are lists of bytes.
\<close>

definition packet_header :: "nat \<Rightarrow> byte list" where
  "packet_header len = [word_of_nat (len mod 256), word_of_nat (len div 256 mod 256)]"

definition packet_frame :: "byte list \<Rightarrow> byte list" where
  "packet_frame packet = packet_header (length packet) @ packet"

definition dump_of :: "byte list list \<Rightarrow> byte list" where
  "dump_of packets = concat (map packet_frame packets)"

lemma dump_of_simps [simp]:
  "dump_of [] = []"
  "dump_of (p # ps) = packet_frame p @ dump_of ps"
  "dump_of (ps @ qs) = dump_of ps @ dump_of qs"
  by (simp_all add: dump_of_def)

subsection \<open>The WAV header\<close>

definition le16 :: "16 word \<Rightarrow> byte list" where
  "le16 w = [ucast (w AND 0xFF), ucast (drop_bit 8 w AND 0xFF)]"

definition le32 :: "32 word \<Rightarrow> byte list" where
  "le32 w = [ucast (w AND 0xFF), ucast (drop_bit 8 w AND 0xFF), ucast (drop_bit 16 w AND 0xFF),
     ucast (drop_bit 24 w AND 0xFF)]"

definition ascii_bytes :: "string \<Rightarrow> byte list" where
  "ascii_bytes s = map of_char s"

definition wav_header :: "32 word \<Rightarrow> 32 word \<Rightarrow> 16 word \<Rightarrow> 16 word \<Rightarrow> byte list" where
  "wav_header data_size sample_rate channels bits_per_sample =
     (let byte_rate = sample_rate * ucast channels * ucast bits_per_sample div 8;
          block_align = word_of_int (c_div (uint channels * uint bits_per_sample) 8) :: 16 word;
          riff_size = 36 + data_size
      in ascii_bytes ''RIFF'' @ le32 riff_size @ ascii_bytes ''WAVE'' @ ascii_bytes ''fmt '' @
         le32 16 @ le16 1 @ le16 channels @ le32 sample_rate @ le32 byte_rate @
         le16 block_align @ le16 bits_per_sample @ ascii_bytes ''data'' @ le32 data_size)"

text \<open>Written at the start of the file, over what is there.\<close>

definition write_wav_header ::
    "byte list \<Rightarrow> 32 word \<Rightarrow> 32 word \<Rightarrow> 16 word \<Rightarrow> 16 word \<Rightarrow> byte list" where
  "write_wav_header out data_size sample_rate channels bits_per_sample =
     (let header = wav_header data_size sample_rate channels bits_per_sample
      in header @ drop (length header) out)"

subsection \<open>The tool\<close>

text \<open>
  The number of arguments, the content of the input if it could be opened, whether the output
  could, the codec, whether the packet buffer can grow to a size, and how much of a block
  \<open>fwrite\<close> writes.
\<close>

record ('e, 'd) dump_env =
  du_argc :: int
  du_input :: "byte list option"
  du_output :: bool
  du_opus :: "('e, 'd) opus_lib"
  du_realloc :: "nat \<Rightarrow> bool"
  du_fwrite :: "byte list \<Rightarrow> nat"

definition packet_len :: "byte \<Rightarrow> byte \<Rightarrow> nat" where
  "packet_len lo hi = unat ((ucast lo :: 16 word) OR push_bit 8 (ucast hi))"

text \<open>\<open>False\<close>: left because the packet buffer could not grow.\<close>

function decode_loop ::
    "('e, 'd) dump_env \<Rightarrow> 'd \<Rightarrow> nat \<Rightarrow> byte list \<Rightarrow> byte list \<Rightarrow> 32 word
       \<Rightarrow> bool \<times> byte list \<times> 32 word" where
  "decode_loop env decoder capacity (lo # hi # input) out data_size =
     (let len = packet_len lo hi in
      if len = 0 then decode_loop env decoder capacity input out data_size
      else if len > capacity \<and> \<not> du_realloc env len then (False, out, data_size)
      else if length input < len then (True, out, data_size)
      else
        (case ol_decode (du_opus env) decoder (take len input) (int len) 5760 of
           (samples, pcm, decoder1) \<Rightarrow>
             (if samples < 0
              then decode_loop env decoder1 (max capacity len) (drop len input) out data_size
              else
                (let block = take (2 * nat samples) (pcm_bytes pcm);
                     n = du_fwrite env block
                 in if n \<noteq> 2 * nat samples then (True, out @ take n block, data_size)
                    else decode_loop env decoder1 (max capacity len) (drop len input)
                           (out @ take n block) (data_size + word_of_nat (2 * nat samples))))))"
| "decode_loop env decoder capacity [] out data_size = (True, out, data_size)"
| "decode_loop env decoder capacity [lo] out data_size = (True, out, data_size)"
  by pat_completeness auto
termination
  by (relation "measure (\<lambda>(env, d, c, input, out, n). length input)") auto

declare decode_loop.simps(1) [simp del]

text \<open>The exit code and the output file, if one was opened.\<close>

definition decode_opus_dump_main :: "('e, 'd) dump_env \<Rightarrow> int \<times> byte list option" where
  "decode_opus_dump_main env =
     (if du_argc env \<noteq> 3 then (1, None)
      else
        (case du_input env of
           None \<Rightarrow> (1, None)
         | Some input \<Rightarrow>
             (if \<not> du_output env then (1, None)
              else
                (let out = write_wav_header [] 0 16000 1 16 in
                 case ol_decoder_create (du_opus env) 16000 1 of
                   (None, err) \<Rightarrow> (1, Some out)
                 | (Some decoder, err) \<Rightarrow>
                     (if err \<noteq> 0 then (1, Some out)
                      else
                        (case decode_loop env decoder 0 input out 0 of
                           (done, out1, data_size) \<Rightarrow>
                             (if \<not> done then (1, Some out1)
                              else (0, Some (write_wav_header out1 data_size 16000 1 16)))))))))"

subsection \<open>Frames and their reader\<close>

lemma packet_len_value: "packet_len lo hi = unat lo + 256 * unat hi"
proof -
  have "(ucast lo :: 16 word) OR push_bit 8 (ucast hi) = ucast lo + push_bit 8 (ucast hi)"
    by (rule disjunctive_add [symmetric]) (auto simp: bit_ucast_iff bit_push_bit_iff dest: bit_imp_le_length)
  moreover have "unat (ucast lo :: 16 word) = unat lo" "unat (ucast hi :: 16 word) = unat hi"
    using unsigned_less [of lo, where ?'a = nat] unsigned_less [of hi, where ?'a = nat] by (simp_all add: unsigned_ucast_eq take_bit_nat_eq_self)
  ultimately show ?thesis
    using unsigned_less [of lo, where ?'a = nat] unsigned_less [of hi, where ?'a = nat]
    by (simp add: packet_len_def push_bit_eq_mult unat_word_ariths)
qed

lemma packet_len_header:
  assumes "n < 65536"
  shows "packet_len (word_of_nat (n mod 256)) (word_of_nat (n div 256 mod 256)) = n"
proof -
  have "n div 256 < 256" using assms by (simp add: less_mult_imp_div_less)
  then show ?thesis
    by (simp add: packet_len_value unat_of_nat)
qed

text \<open>What the tool sees in a dump: the packets up to the first that is cut off.\<close>

function read_packets :: "byte list \<Rightarrow> byte list list" where
  "read_packets (lo # hi # input) =
     (let len = packet_len lo hi in
      if len = 0 then read_packets input
      else if length input < len then []
      else take len input # read_packets (drop len input))"
| "read_packets [] = []"
| "read_packets [lo] = []"
  by pat_completeness auto
termination
  by (relation "measure length") auto

declare read_packets.simps(1) [simp del]

definition packet_ok :: "byte list \<Rightarrow> bool" where
  "packet_ok p \<longleftrightarrow> p \<noteq> [] \<and> length p < 65536"

lemma read_packets_frame:
  "packet_ok p \<Longrightarrow> read_packets (packet_frame p @ rest) = p # read_packets rest"
  by (simp add: packet_frame_def packet_header_def read_packets.simps(1) packet_len_header
      packet_ok_def)

lemma read_packets_dump:
  "\<forall>p \<in> set ps. packet_ok p \<Longrightarrow> read_packets (dump_of ps) = ps"
  by (induction ps) (simp_all add: read_packets_frame)

lemma read_packets_cut:
  assumes "packet_ok p" and "k < length (packet_frame p)"
  shows "read_packets (take k (packet_frame p)) = []"
proof (cases "k < 2")
  case True
  then have "k = 0 \<or> k = 1" by auto
  then show ?thesis by (auto simp: packet_frame_def packet_header_def)
next
  case False
  then obtain j where k: "k = Suc (Suc j)" by (cases k; cases "k - 1") auto
  then show ?thesis
    using assms
    by (simp add: packet_frame_def packet_header_def read_packets.simps(1) packet_len_header
        packet_ok_def)
qed

lemma read_packets_take:
  assumes "\<forall>p \<in> set ps. packet_ok p"
  shows "\<exists>m. read_packets (take k (dump_of ps)) = take m ps \<and>
    length (dump_of (take m ps)) \<le> k \<and> (m < length ps \<longrightarrow> k < length (dump_of (take (Suc m) ps)))"
  using assms
proof (induction ps arbitrary: k)
  case Nil
  show ?case by (rule exI [of _ 0]) simp
next
  case (Cons p ps)
  then have p: "packet_ok p" by simp
  show ?case
  proof (cases "k < length (packet_frame p)")
    case True
    then show ?thesis
      using read_packets_cut [OF p True] by (intro exI [of _ 0]) simp
  next
    case False
    then obtain j where k: "k = length (packet_frame p) + j"
      using le_Suc_ex linorder_not_less by blast
    obtain m where m: "read_packets (take j (dump_of ps)) = take m ps"
      "length (dump_of (take m ps)) \<le> j"
      "m < length ps \<longrightarrow> j < length (dump_of (take (Suc m) ps))"
      using Cons.IH [of j] Cons.prems by auto
    show ?thesis
      by (rule exI [of _ "Suc m"]) (use m k read_packets_frame [OF p] in simp)
  qed
qed

subsection \<open>Decoding\<close>

text \<open>Decoding a list of packets in order; a packet the codec refuses leaves no samples.\<close>

fun decode_packets ::
    "('e, 'd) opus_lib \<Rightarrow> 'd \<Rightarrow> byte list list \<Rightarrow> sample list" where
  "decode_packets lib decoder [] = []"
| "decode_packets lib decoder (p # ps) =
     (case ol_decode lib decoder p (int (length p)) 5760 of
        (samples, pcm, decoder1) \<Rightarrow>
          (if samples < 0 then [] else take (nat samples) pcm) @ decode_packets lib decoder1 ps)"

definition dump_env_ok :: "('e, 'd) dump_env \<Rightarrow> bool" where
  "dump_env_ok env \<longleftrightarrow> (\<forall>n. du_realloc env n) \<and> (\<forall>bs. du_fwrite env bs = length bs) \<and>
     (\<forall>d p n m samples pcm d1. ol_decode (du_opus env) d p n m = (samples, pcm, d1) \<longrightarrow>
        nat samples \<le> length pcm)"

lemma decode_loop_packets:
  assumes "dump_env_ok env"
  shows "decode_loop env d capacity input out data_size =
    (let pcm = pcm_bytes (decode_packets (du_opus env) d (read_packets input))
     in (True, out @ pcm, data_size + word_of_nat (length pcm)))"
  using assms
proof (induction env d capacity input out data_size rule: decode_loop.induct)
  case (1 env d capacity lo hi input out data_size)
  define n where "n = packet_len lo hi"
  obtain samples pcm d1 where
    dec: "ol_decode (du_opus env) d (take n input) (int n) 5760 = (samples, pcm, d1)"
    by (metis prod_cases3)
  have env: "du_realloc env n" "\<And>bs. du_fwrite env bs = length bs"
    using "1.prems" by (auto simp: dump_env_ok_def)
  have env_pcm: "nat samples \<le> length pcm"
    using "1.prems" dec unfolding dump_env_ok_def by blast
  consider (empty) "n = 0" | (cut) "n \<noteq> 0" "length input < n"
    | (refused) "n \<noteq> 0" "n \<le> length input" "samples < 0"
    | (decoded) "n \<noteq> 0" "n \<le> length input" "0 \<le> samples"
    by linarith
  then show ?case
  proof cases
    case empty
    then show ?thesis
      using "1.IH"(1) [OF n_def] "1.prems"
      by (simp add: decode_loop.simps(1) read_packets.simps(1) n_def [symmetric])
  next
    case cut
    then show ?thesis
      using env by (simp add: decode_loop.simps(1) read_packets.simps(1) n_def [symmetric])
  next
    case refused
    then show ?thesis
      using "1.IH"(2) [OF n_def] "1.prems" env env_pcm dec
      by (simp add: decode_loop.simps(1) read_packets.simps(1) n_def [symmetric] min_absorb2 Let_def)
  next
    case decoded
    have "take (2 * nat samples) (pcm_bytes pcm) = pcm_bytes (take (nat samples) pcm)"
      using take_pcm_bytes [of "nat samples" pcm] by (simp add: mult.commute)
    moreover have "pcm_bytes (a @ b) = pcm_bytes a @ pcm_bytes b" for a b
      by (simp add: pcm_bytes_def)
    ultimately show ?thesis
      using "1.IH"(3) [OF n_def] "1.prems" env env_pcm dec decoded
      by (simp add: decode_loop.simps(1) read_packets.simps(1) n_def [symmetric] min_absorb2 Let_def)
  qed
qed simp_all

subsection \<open>Properties\<close>

lemma length_le [simp]: "length (le16 a) = 2" "length (le32 b) = 4"
  by (simp_all add: le16_def le32_def)

lemma length_ascii_bytes [simp]: "length (ascii_bytes s) = length s"
  by (simp add: ascii_bytes_def)

lemma length_wav_header [simp]: "length (wav_header n rate chans bits) = 44"
  by (simp add: wav_header_def Let_def)

text \<open>A number in a file, low byte first.\<close>

fun le_value :: "byte list \<Rightarrow> nat" where
  "le_value [] = 0"
| "le_value (b # bs) = unat b + 256 * le_value bs"

lemma unat_low_byte: "unat (ucast (w AND 0xFF) :: byte) = unat w mod 256"
proof -
  have "(w AND 0xFF :: 'a::len word) = take_bit 8 w" by (simp add: take_bit_eq_mask mask_eq_exp_minus_1)
  then have "(ucast (w AND 0xFF) :: byte) = ucast w"
    by (auto intro!: bit_word_eqI simp: bit_simps)
  then show ?thesis by (simp add: unsigned_ucast_eq take_bit_eq_mod)
qed

lemma le_value_le32: "le_value (le32 w) = unat w"
proof -
  have "le_value (le32 w) = unat w mod 256 + 256 * (unat w div 256 mod 256 +
      256 * (unat w div 65536 mod 256 + 256 * (unat w div 16777216 mod 256)))"
    by (simp add: le32_def unat_low_byte unat_drop_bit_eq) (simp add: drop_bit_eq_div)
  also have "\<dots> = unat w mod (256 * (256 * (256 * 256)))"
    by (simp only: mod_mult2_eq) (simp add: div_mult2_eq [symmetric] algebra_simps)
  also have "\<dots> = unat w" using unsigned_less [of w, where ?'a = nat] by simp
  finally show ?thesis .
qed

lemma le_value_le16: "le_value (le16 w) = unat w"
proof -
  have "le_value (le16 w) = unat w mod 256 + 256 * (unat w div 256 mod 256)"
    by (simp add: le16_def unat_low_byte unat_drop_bit_eq) (simp add: drop_bit_eq_div)
  also have "\<dots> = unat w mod (256 * 256)"
    by (simp only: mod_mult2_eq)
  also have "\<dots> = unat w" using unsigned_less [of w, where ?'a = nat] by simp
  finally show ?thesis .
qed

definition file_field :: "nat \<Rightarrow> nat \<Rightarrow> byte list \<Rightarrow> nat" where
  "file_field pos n file = le_value (take n (drop pos file))"

text \<open>
  The WAV file the tool makes describes itself: as long as the samples take less than 4 GiB,
  the RIFF size is the file's length less 8, the data size is the number of sample bytes, and
  the rates and the block size agree with 16-bit mono at 16 kHz.
\<close>

theorem wav_file_consistent:
  assumes "length pcm + 36 < 2 ^ 32"
    and "file = wav_header (word_of_nat (length pcm)) 16000 1 16 @ pcm"
  shows "take 4 file = ascii_bytes ''RIFF'' \<and> file_field 4 4 file + 8 = length file \<and>
    take 8 (drop 8 file) = ascii_bytes ''WAVEfmt '' \<and> file_field 16 4 file = 16 \<and>
    file_field 22 2 file = 1 \<and> file_field 24 4 file = 16000 \<and>
    file_field 28 4 file = 16000 * file_field 32 2 file \<and> file_field 32 2 file = 2 \<and>
    file_field 34 2 file = 16 \<and> file_field 40 4 file = length pcm \<and> drop 44 file = pcm"
proof -
  have size: "unat (word_of_nat (length pcm) :: 32 word) = length pcm"
    "unat (36 + word_of_nat (length pcm) :: 32 word) = 36 + length pcm"
    using assms(1) by (simp_all add: unat_word_ariths unat_of_nat)
  let ?n = "word_of_nat (length pcm) :: 32 word"
  from size le_value_le32 [of ?n] le_value_le32 [of "36 + ?n"] show ?thesis
    by (simp add: assms(2) wav_header_def Let_def file_field_def ascii_bytes_def le16_def le32_def)
qed

theorem wav_file_consistent_witness:
  "let file = wav_header (word_of_nat (length [1, 2 :: byte])) 16000 1 16 @ [1, 2]
   in length [1, 2 :: byte] + 36 < 2 ^ 32 \<and> file_field 4 4 file + 8 = length file \<and>
      file_field 40 4 file = length [1, 2 :: byte]"
  using wav_file_consistent [of "[1, 2]" "wav_header (word_of_nat (length [1, 2 :: byte])) 16000 1 16 @ [1, 2]"]
  by (simp add: Let_def)

lemma write_wav_header_over [simp]:
  "write_wav_header (wav_header n rate chans bits @ pcm) m rate1 chans1 bits1 =
     wav_header m rate1 chans1 bits1 @ pcm"
  "write_wav_header [] m rate1 chans1 bits1 = wav_header m rate1 chans1 bits1"
  by (simp_all add: write_wav_header_def Let_def)

text \<open>
  C15: The tool decodes what the application wrote, also when the file was cut off anywhere, as a
  crash leaves it: it exits with 0 and the WAV file holds the decoded samples of exactly the
  packets that are whole in the part that is left, in order, behind a header with their size.
\<close>

theorem dump_decodes:
  assumes "dump_env_ok env" and "du_argc env = 3" and "du_output env"
    and "\<forall>p \<in> set packets. packet_ok p"
    and "du_input env = Some (take k (dump_of packets))"
    and "ol_decoder_create (du_opus env) 16000 1 = (Some d, 0)"
  shows "\<exists>m pcm. pcm = pcm_bytes (decode_packets (du_opus env) d (take m packets)) \<and>
    length (dump_of (take m packets)) \<le> k \<and>
    (m < length packets \<longrightarrow> k < length (dump_of (take (Suc m) packets))) \<and>
    decode_opus_dump_main env =
      (0, Some (wav_header (word_of_nat (length pcm)) 16000 1 16 @ pcm))"
proof -
  from read_packets_take [OF assms(4), of k] obtain m where m:
    "read_packets (take k (dump_of packets)) = take m packets"
    "length (dump_of (take m packets)) \<le> k"
    "m < length packets \<longrightarrow> k < length (dump_of (take (Suc m) packets))"
    by blast
  have "decode_opus_dump_main env =
      (0, Some (wav_header (word_of_nat (length (pcm_bytes
        (decode_packets (du_opus env) d (take m packets))))) 16000 1 16 @
        pcm_bytes (decode_packets (du_opus env) d (take m packets))))"
    using assms m(1)
    by (simp add: decode_opus_dump_main_def decode_loop_packets Let_def)
  with m show ?thesis by blast
qed

definition demo_codec :: "(unit, nat) opus_lib" where
  "demo_codec =
     \<lparr>ol_encoder_create = (\<lambda>rate chans. (Some (), 0)),
      ol_encode = (\<lambda>e pcm n m. (int (min (length pcm) (nat m)), map ucast (take (nat m) pcm), e)),
      ol_decoder_create = (\<lambda>rate chans. (Some 0, 0)),
      ol_decode = (\<lambda>d packet n m. (int (length packet), map ucast packet, d + 1))\<rparr>"

definition demo_dump_env :: "(unit, nat) dump_env" where
  "demo_dump_env =
     \<lparr>du_argc = 3, du_input = Some (take 8 (dump_of [[1, 2], [3], [4, 5, 6]])), du_output = True,
      du_opus = demo_codec, du_realloc = (\<lambda>n. True), du_fwrite = length\<rparr>"

theorem dump_decodes_witness:
  "\<exists>m pcm. pcm = pcm_bytes (decode_packets demo_codec 0 (take m [[1, 2], [3], [4, 5, 6]])) \<and>
    length (dump_of (take m [[1, 2], [3], [4, 5, 6]])) \<le> 8 \<and>
    decode_opus_dump_main demo_dump_env =
      (0, Some (wav_header (word_of_nat (length pcm)) 16000 1 16 @ pcm))"
  using dump_decodes [of demo_dump_env "[[1, 2], [3], [4, 5, 6]]" 8 0]
  by (auto simp: demo_dump_env_def demo_codec_def dump_env_ok_def packet_ok_def)

end
