(* ===== verification/App.thy ===== *)
theory App
  imports Session_FSM Protocol Ota_Client Opus_Codec Audio_Capture Audio_Playback Ws_Client Log_Levels Opus_Dump
begin

section \<open>The application (\<open>src/app.c\<close>)\<close>

text \<open>
  The runtime that ties the components together: bootstrap, the client's and the capture
  thread's callbacks, the actions of the session machine, the handling of protocol events, and
  the main loop. Everything the code asks of the outside world is in \<open>app_env\<close>: the opus
  library, whether threads and files could be had and how much was written, and which
  callbacks the websocket library makes while a context is torn down. A handler is a function on
  the runtime's state, that of an error the composition of two, before and after its sleep; the
  threads are interleaved piece by piece (theory \<open>App_System\<close>). \<open>xiaozhi_client_stop\<close>, which joins
  the network thread, is taken to return: the service call of the library that thread is in ends.
  Log output is not modelled, except for the level.
\<close>

type_synonym ota_fetch_fn =
  "Config.app_config \<Rightarrow> ota_response \<Rightarrow> string option \<Rightarrow> nat \<Rightarrow> rc \<times> ota_response \<times> string option"

record app_options =
  op_config_path :: "string option"
  op_check_only :: bool
  op_skip_runtime_init :: bool
  op_ota_fetch :: "ota_fetch_fn option"

text \<open>
  The open dump file is what was written to it; \<open>ap_dumps\<close> (not in the code) keeps the
  contents of the files closed so far, \<open>ap_slept_us\<close> (not in the code either) the time slept
  before reconnecting.
\<close>

record ('e, 'd) app_runtime =
  ap_options :: app_options
  ap_config :: Config.app_config
  ap_events :: event_queue
  ap_session :: session
  ap_client :: xiaozhi_client
  ap_encoder :: "'e opus_encoder_wrapper"
  ap_decoder :: "'d opus_decoder_wrapper"
  ap_capture :: audio_capture
  ap_playback :: audio_playback
  ap_ota_response :: ota_response
  ap_initialized :: bool
  ap_check_only :: bool
  ap_skip_runtime_init :: bool
  ap_stop_requested :: bool
  ap_client_started :: bool
  ap_runtime_modules_initialized :: bool
  ap_activation_pending :: bool
  ap_upload_enabled :: bool
  ap_decoder_sample_rate :: int
  ap_tts_done :: bool
  ap_dump_mutex_initialized :: bool
  ap_dump_file :: "byte list option"
  ap_dump_index :: int
  ap_dump_path :: string
  ap_session_id :: string
  ap_log_level :: log_level
  ap_dumps :: "(string \<times> byte list) list"
  ap_slept_us :: nat

record ('e, 'd) app_env =
  ae_opus :: "('e, 'd) opus_lib"
  ae_thread :: bool
  ae_realloc :: bool
  ae_strdup :: bool
  ae_fopen :: "string \<Rightarrow> bool"
  ae_fwrite :: "byte list \<Rightarrow> nat"
  ae_teardown :: "lws_reason list"

subsection \<open>Events and the dump file\<close>

definition app_push_event ::
    "('e, 'd) app_runtime \<Rightarrow> app_event_type \<Rightarrow> string option \<Rightarrow> int \<Rightarrow> ('e, 'd) app_runtime" where
  "app_push_event app type msg code =
     (let txt = (case msg of None \<Rightarrow> [] | Some s \<Rightarrow> snprintf_buf 1024 s);
          event = \<lparr>ev_type = type, ev_code = code,
                   ev_data_len = (case msg of None \<Rightarrow> 0 | Some s \<Rightarrow> length txt), ev_text = txt\<rparr>
      in app\<lparr>ap_events := snd (event_queue_push (ap_events app) event)\<rparr>)"

definition show_03d :: "int \<Rightarrow> string" where
  "show_03d i = (let s = show_int i in replicate (3 - length s) CHR ''0'' @ s)"

definition app_close_dump :: "('e, 'd) app_runtime \<Rightarrow> ('e, 'd) app_runtime" where
  "app_close_dump app =
     (case ap_dump_file app of
        None \<Rightarrow> app
      | Some bytes \<Rightarrow> app\<lparr>ap_dump_file := None, ap_dumps := ap_dumps app @ [(ap_dump_path app, bytes)]\<rparr>)"

definition app_open_opus_dump_file ::
    "('e, 'd) app_env \<Rightarrow> ('e, 'd) app_runtime \<Rightarrow> rc \<times> ('e, 'd) app_runtime" where
  "app_open_opus_dump_file env app =
     (let app1 = app_close_dump app;
          index = ap_dump_index app1 + 1;
          path1 = snprintf_buf 256 (''build/upload_'' @ show_03d index @ ''.opusbin'');
          path2 = snprintf_buf 256 (''/tmp/xiaozhi-upload-'' @ show_03d index @ ''.opusbin'');
          app2 = app1\<lparr>ap_dump_index := index\<rparr>
      in if ae_fopen env path1 then (0, app2\<lparr>ap_dump_path := path1, ap_dump_file := Some []\<rparr>)
         else if ae_fopen env path2 then (0, app2\<lparr>ap_dump_path := path2, ap_dump_file := Some []\<rparr>)
         else (- 1, app2\<lparr>ap_dump_path := path2, ap_dump_file := None\<rparr>))"

definition app_close_opus_dump_file :: "('e, 'd) app_runtime \<Rightarrow> ('e, 'd) app_runtime" where
  "app_close_opus_dump_file app =
     (if \<not> ap_dump_mutex_initialized app then app else app_close_dump app)"

text \<open>\<open>fwrite\<close> appends as many bytes as it reports; a short write ends the call.\<close>

definition app_write_opus_packet ::
    "('e, 'd) app_env \<Rightarrow> ('e, 'd) app_runtime \<Rightarrow> byte list \<Rightarrow> rc \<times> ('e, 'd) app_runtime" where
  "app_write_opus_packet env app packet =
     (if packet = [] \<or> length packet > 65535 \<or> \<not> ap_dump_mutex_initialized app then (- 1, app)
      else
        (case ap_dump_file app of
           None \<Rightarrow> (- 1, app)
         | Some bytes \<Rightarrow>
             (let header = packet_header (length packet);
                  n1 = ae_fwrite env header;
                  n2 = ae_fwrite env packet;
                  bytes1 = bytes @ take n1 header
              in if n1 \<noteq> length header then (- 1, app\<lparr>ap_dump_file := Some bytes1\<rparr>)
                 else (if n2 \<noteq> length packet then - 1 else 0,
                       app\<lparr>ap_dump_file := Some (bytes1 @ take n2 packet)\<rparr>))))"

subsection \<open>Bootstrap helpers\<close>

definition app_parse_log_level :: "string option \<Rightarrow> log_level" where
  "app_parse_log_level name =
     (if name = None \<or> name = Some ''info'' then LOG_LEVEL_INFO
      else if name = Some ''debug'' then LOG_LEVEL_DEBUG
      else if name = Some ''warn'' then LOG_LEVEL_WARN
      else if name = Some ''error'' then LOG_LEVEL_ERROR
      else LOG_LEVEL_INFO)"

definition app_fill_default_ids :: "('e, 'd) app_runtime \<Rightarrow> ('e, 'd) app_runtime" where
  "app_fill_default_ids app =
     (let dev = cf_device (ap_config app);
          dev1 = dev\<lparr>dc_device_id := (if dc_device_id dev = []
                     then snprintf_buf 64 ''desktop-device'' else dc_device_id dev),
                     dc_client_id := (if dc_client_id dev = []
                     then snprintf_buf 64 ''desktop-client'' else dc_client_id dev)\<rparr>
      in app\<lparr>ap_config := (ap_config app)\<lparr>cf_device := dev1\<rparr>\<rparr>)"

text \<open>\<open>default_fetch\<close> is \<open>ota_fetch\<close>, used unless the options carry another fetcher.\<close>

definition app_bootstrap_ota ::
    "ota_fetch_fn \<Rightarrow> ('e, 'd) app_runtime \<Rightarrow> rc \<times> ('e, 'd) app_runtime" where
  "app_bootstrap_ota default_fetch app =
     (let fetcher = (case op_ota_fetch (ap_options app) of None \<Rightarrow> default_fetch | Some f \<Rightarrow> f);
          (r, response, err) = fetcher (ap_config app) (ap_ota_response app) (Some []) 256;
          app1 = app\<lparr>ap_ota_response := response\<rparr>
      in if r \<noteq> 0 then (- 1, app1)
         else
           (let ws = or_websocket response;
                sv = cf_server (ap_config app1);
                sv1 = sv\<lparr>sv_url := (if ow_url ws \<noteq> [] then snprintf_buf 256 (ow_url ws) else sv_url sv),
                         sv_token := (if ow_token ws \<noteq> [] then snprintf_buf 256 (ow_token ws)
                                      else sv_token sv)\<rparr>;
                app2 = app1\<lparr>ap_config := (ap_config app1)\<lparr>cf_server := sv1\<rparr>\<rparr>
            in if or_activation_required response then (0, app2\<lparr>ap_activation_pending := True\<rparr>)
               else if sv_url sv1 = [] then (- 1, app2)
               else (0, app2)))"

subsection \<open>Callbacks of the websocket client\<close>

definition app_client_on_connected :: "('e, 'd) app_runtime \<Rightarrow> ('e, 'd) app_runtime" where
  "app_client_on_connected app = app_push_event app APP_EVENT_WS_CONNECTED None 0"

definition app_client_on_disconnected :: "int \<Rightarrow> ('e, 'd) app_runtime \<Rightarrow> ('e, 'd) app_runtime" where
  "app_client_on_disconnected code app =
     (let message = snprintf_buf 128 (''websocket disconnected (code='' @ show_int code @ '')'')
      in if ap_stop_requested app then app
         else app_push_event app APP_EVENT_ERROR (Some message) code)"

definition app_client_on_text :: "string \<Rightarrow> ('e, 'd) app_runtime \<Rightarrow> ('e, 'd) app_runtime" where
  "app_client_on_text payload app = app_push_event app APP_EVENT_WS_TEXT (Some payload) 0"

definition app_client_on_binary ::
    "('e, 'd) app_env \<Rightarrow> byte list \<Rightarrow> ('e, 'd) app_runtime \<Rightarrow> ('e, 'd) app_runtime" where
  "app_client_on_binary env data app =
     (if ap_upload_enabled app \<or> data = [] then app
      else
        (let (frames, pcm, dec) = opus_decode_frame (ae_opus env) (ap_decoder app) data 4096;
             app1 = app\<lparr>ap_decoder := dec\<rparr>
         in if 0 < frames then
              (case audio_playback_enqueue (ap_playback app1) pcm (nat frames)
                      (ap_decoder_sample_rate app1) of
                 (r, pb) \<Rightarrow> app1\<lparr>ap_playback := pb\<rparr>)
            else app1))"

definition app_client_on_error :: "string \<Rightarrow> ('e, 'd) app_runtime \<Rightarrow> ('e, 'd) app_runtime" where
  "app_client_on_error message app = app_push_event app APP_EVENT_ERROR (Some message) (- 1)"

text \<open>What the application does with the effects of a client operation.\<close>

fun app_effect ::
    "('e, 'd) app_env \<Rightarrow> client_effect \<Rightarrow> ('e, 'd) app_runtime \<Rightarrow> ('e, 'd) app_runtime" where
  "app_effect env On_Connected app = app_client_on_connected app"
| "app_effect env (On_Disconnected code) app = app_client_on_disconnected code app"
| "app_effect env (On_Text payload) app = app_client_on_text payload app"
| "app_effect env (On_Binary data) app = app_client_on_binary env data app"
| "app_effect env (On_Error message) app = app_client_on_error message app"
| "app_effect env _ app = app"

definition app_effects ::
    "('e, 'd) app_env \<Rightarrow> client_effect list \<Rightarrow> ('e, 'd) app_runtime \<Rightarrow> ('e, 'd) app_runtime" where
  "app_effects env effs app = fold (app_effect env) effs app"

subsection \<open>Callback of the capture thread\<close>

definition app_queue_binary :: "byte list \<Rightarrow> ('e, 'd) app_runtime \<Rightarrow> rc \<times> ('e, 'd) app_runtime" where
  "app_queue_binary packet app =
     (case xiaozhi_client_queue_binary (ap_client app) packet of
        (r, client, effs) \<Rightarrow> (r, app\<lparr>ap_client := client\<rparr>))"

definition app_capture_on_pcm ::
    "('e, 'd) app_env \<Rightarrow> sample list \<Rightarrow> nat \<Rightarrow> ('e, 'd) app_runtime \<Rightarrow> ('e, 'd) app_runtime" where
  "app_capture_on_pcm env pcm frames app =
     (if \<not> ap_upload_enabled app then app
      else
        (let (packet_len, packet, enc) =
               opus_encode_frame (ae_opus env) (ap_encoder app) pcm (int frames) 512;
             app1 = app\<lparr>ap_encoder := enc\<rparr>
         in if 0 < packet_len then
              (let bytes = take (nat packet_len) packet;
                   (wr, app2) = app_write_opus_packet env app1 bytes;
                   (qr, app3) = app_queue_binary bytes app2
               in app3)
            else app1))"

subsection \<open>Sending\<close>

definition app_queue_text ::
    "('e, 'd) app_env \<Rightarrow> string \<Rightarrow> ('e, 'd) app_runtime \<Rightarrow> rc \<times> ('e, 'd) app_runtime" where
  "app_queue_text env payload app =
     (case xiaozhi_client_queue_text (ae_realloc env) (ae_strdup env) (ap_client app) (Some payload) of
        (r, client, effs) \<Rightarrow> (r, app\<lparr>ap_client := client\<rparr>))"

definition app_hello_config :: "Config.app_config \<Rightarrow> xiaozhi_hello_config" where
  "app_hello_config cfg =
     \<lparr>protocol_version = sv_protocol_version (cf_server cfg),
      sample_rate = au_input_sample_rate (cf_audio cfg), channels = 1, frame_duration_ms = 60\<rparr>"

definition app_send_hello ::
    "('e, 'd) app_env \<Rightarrow> ('e, 'd) app_runtime \<Rightarrow> rc \<times> ('e, 'd) app_runtime" where
  "app_send_hello env app =
     (case xiaozhi_build_hello (Some (app_hello_config (ap_config app))) 512 of
        (r, payload) \<Rightarrow> (if r \<noteq> 0 then (- 1, app) else app_queue_text env payload app))"

definition app_send_listen_start ::
    "('e, 'd) app_env \<Rightarrow> ('e, 'd) app_runtime \<Rightarrow> rc \<times> ('e, 'd) app_runtime" where
  "app_send_listen_start env app =
     (if ap_session_id app = [] then (- 1, app)
      else
        (case xiaozhi_build_listen_start_manual (Some (ap_session_id app)) 256 of
           (r, payload) \<Rightarrow> (if r \<noteq> 0 then (- 1, app) else app_queue_text env payload app)))"

definition app_send_listen_stop ::
    "('e, 'd) app_env \<Rightarrow> ('e, 'd) app_runtime \<Rightarrow> rc \<times> ('e, 'd) app_runtime" where
  "app_send_listen_stop env app =
     (if ap_session_id app = [] then (- 1, app)
      else
        (case xiaozhi_build_listen_stop_manual (Some (ap_session_id app)) 256 of
           (r, payload) \<Rightarrow> (if r \<noteq> 0 then (- 1, app) else app_queue_text env payload app)))"

definition app_send_abort ::
    "('e, 'd) app_env \<Rightarrow> ('e, 'd) app_runtime \<Rightarrow> rc \<times> ('e, 'd) app_runtime" where
  "app_send_abort env app =
     (case xiaozhi_build_abort (Some ''manual_interrupt'') 256 of
        (r, payload) \<Rightarrow> (if r \<noteq> 0 then (- 1, app) else app_queue_text env payload app))"

subsection \<open>Actions\<close>

definition app_set_uploading :: "bool \<Rightarrow> ('e, 'd) app_runtime \<Rightarrow> ('e, 'd) app_runtime" where
  "app_set_uploading b app =
     app\<lparr>ap_capture := audio_capture_set_uploading (ap_capture app) b\<rparr>"

definition app_set_state :: "session_state \<Rightarrow> ('e, 'd) app_runtime \<Rightarrow> ('e, 'd) app_runtime" where
  "app_set_state st app = app\<lparr>ap_session := (ap_session app)\<lparr>ss_state := st\<rparr>\<rparr>"

definition app_client_start ::
    "('e, 'd) app_env \<Rightarrow> ('e, 'd) app_runtime \<Rightarrow> rc \<times> ('e, 'd) app_runtime" where
  "app_client_start env app =
     (case xiaozhi_client_start (ae_thread env) (ap_client app) of
        (r, client) \<Rightarrow> (r, app\<lparr>ap_client := client\<rparr>))"

text \<open>Stopping joins the network thread, whose last callbacks reach the application.\<close>

definition app_client_stop ::
    "('e, 'd) app_env \<Rightarrow> ('e, 'd) app_runtime \<Rightarrow> ('e, 'd) app_runtime" where
  "app_client_stop env app =
     (case xiaozhi_client_stop (ae_teardown env) (ap_client app) of
        (client, effs) \<Rightarrow> app_effects env effs (app\<lparr>ap_client := client\<rparr>))"

text \<open>\<open>(useconds_t)ms * 1000U\<close>, an unsigned 32-bit product.\<close>

definition backoff_us :: "int \<Rightarrow> nat" where
  "backoff_us ms = (if 0 < ms then nat (ms * 1000 mod 2 ^ 32) else 0)"

definition app_handle_connect ::
    "('e, 'd) app_env \<Rightarrow> ('e, 'd) app_runtime \<Rightarrow> ('e, 'd) app_runtime" where
  "app_handle_connect env app =
     (case app_client_start env (app\<lparr>ap_session_id := [], ap_tts_done := False\<rparr>) of
        (r, app1) \<Rightarrow>
          (if r = 0 then app1\<lparr>ap_client_started := True\<rparr>
           else app_push_event app1 APP_EVENT_ERROR (Some ''failed to start websocket client'') (- 1)))"

definition app_handle_start_listen ::
    "('e, 'd) app_env \<Rightarrow> ('e, 'd) app_runtime \<Rightarrow> ('e, 'd) app_runtime" where
  "app_handle_start_listen env app =
     (case app_send_listen_start env app of
        (r, app1) \<Rightarrow>
          (if r \<noteq> 0 then
             app_push_event app1 APP_EVENT_ERROR (Some ''failed to queue listen start'') (- 1)
           else
             (case app_open_opus_dump_file env app1 of
                (r2, app2) \<Rightarrow>
                  (if r2 \<noteq> 0 then
                     app_push_event app2 APP_EVENT_ERROR (Some ''failed to open opus dump file'') (- 1)
                   else
                     app_set_uploading True
                       (app_set_state SESSION_STATE_UPLOADING_AUDIO
                          (app2\<lparr>ap_upload_enabled := True\<rparr>))))))"

definition app_handle_abort ::
    "('e, 'd) app_env \<Rightarrow> ('e, 'd) app_runtime \<Rightarrow> ('e, 'd) app_runtime" where
  "app_handle_abort env app =
     (let app1 = app_close_opus_dump_file
                   (app_set_uploading False (app\<lparr>ap_upload_enabled := False\<rparr>));
          app2 = snd (app_send_abort env app1);
          app3 = app2\<lparr>ap_playback := audio_playback_request_stop (ap_playback app2)\<rparr>;
          app4 = (if ap_client_started app3 then app_client_stop env app3 else app3);
          app5 = app4\<lparr>ap_client_started := False, ap_session_id := []\<rparr>
      in case app_client_start env app5 of
           (r, app6) \<Rightarrow>
             (if r = 0 then app6\<lparr>ap_client_started := True\<rparr>
              else app_push_event app6 APP_EVENT_ERROR
                     (Some ''failed to restart websocket client'') (- 1)))"

text \<open>
  Returning after an error: the sleep, and what follows it. While the thread sleeps the session is in
  \<open>ERROR_BACKOFF\<close> and everything else, the upload included, goes on; theory \<open>App_System\<close> lets the
  other threads run between the two.
\<close>

definition app_sleep_backoff :: "('e, 'd) app_runtime \<Rightarrow> ('e, 'd) app_runtime" where
  "app_sleep_backoff app =
     app\<lparr>ap_slept_us := ap_slept_us app + backoff_us (rt_reconnect_backoff_ms (cf_runtime (ap_config app)))\<rparr>"

definition app_after_backoff ::
    "('e, 'd) app_env \<Rightarrow> ('e, 'd) app_runtime \<Rightarrow> ('e, 'd) app_runtime" where
  "app_after_backoff env app =
     (let app1 = app_set_uploading False (app\<lparr>ap_upload_enabled := False, ap_tts_done := False\<rparr>);
          app2 = (app_close_opus_dump_file app1)\<lparr>ap_session_id := []\<rparr>;
          app3 = (if ap_client_started app2
                  then (app_client_stop env app2)\<lparr>ap_client_started := False\<rparr> else app2);
          app4 = app_set_state SESSION_STATE_CONNECTING app3
      in case app_client_start env app4 of
           (r, app5) \<Rightarrow> (if r = 0 then app5\<lparr>ap_client_started := True\<rparr> else app5))"

definition app_handle_return_to_wake ::
    "('e, 'd) app_env \<Rightarrow> ('e, 'd) app_runtime \<Rightarrow> ('e, 'd) app_runtime" where
  "app_handle_return_to_wake env app = app_after_backoff env (app_sleep_backoff app)"

definition app_handle_action ::
    "('e, 'd) app_env \<Rightarrow> session_action \<Rightarrow> ('e, 'd) app_runtime \<Rightarrow> ('e, 'd) app_runtime" where
  "app_handle_action env action app =
     (case action of
        SESSION_ACTION_CONNECT \<Rightarrow> app_handle_connect env app
      | SESSION_ACTION_SEND_HELLO \<Rightarrow>
          (case app_send_hello env app of
             (r, app1) \<Rightarrow>
               (if r \<noteq> 0 then
                  app_push_event app1 APP_EVENT_ERROR (Some ''failed to queue hello'') (- 1)
                else app1))
      | SESSION_ACTION_START_LISTEN \<Rightarrow> app_handle_start_listen env app
      | SESSION_ACTION_STOP_LISTEN \<Rightarrow>
          (case app_send_listen_stop env
                  (app_close_opus_dump_file
                     (app_set_uploading False (app\<lparr>ap_upload_enabled := False\<rparr>))) of
             (r, app1) \<Rightarrow>
               (if r \<noteq> 0 then
                  app_push_event app1 APP_EVENT_ERROR (Some ''failed to queue listen stop'') (- 1)
                else app1))
      | SESSION_ACTION_ABORT \<Rightarrow> app_handle_abort env app
      | SESSION_ACTION_RETURN_TO_WAKE \<Rightarrow> app_handle_return_to_wake env app
      | _ \<Rightarrow> app)"

definition app_reset_to_idle :: "('e, 'd) app_runtime \<Rightarrow> ('e, 'd) app_runtime" where
  "app_reset_to_idle app =
     (let app1 = app_close_opus_dump_file (app_set_uploading False
                   (app\<lparr>ap_upload_enabled := False, ap_tts_done := False\<rparr>))
      in app_set_state
           (if ap_client_started app1 \<and> xiaozhi_client_is_connected (ap_client app1)
            then SESSION_STATE_READY else SESSION_STATE_IDLE) app1)"

subsection \<open>Protocol events\<close>

definition app_update_decoder_from_hello ::
    "('e, 'd) app_env \<Rightarrow> xiaozhi_incoming_event \<Rightarrow> ('e, 'd) app_runtime \<Rightarrow> ('e, 'd) app_runtime" where
  "app_update_decoder_from_hello env event app =
     (let rate = (if xe_output_sample_rate event > 0 then xe_output_sample_rate event
                  else ap_decoder_sample_rate app);
          chans = (if xe_output_channels event > 0 then xe_output_channels event else 1)
      in if rate = ap_decoder_sample_rate app \<and> chans = 1 then app
         else
           (case opus_decoder_wrapper_init (ae_opus env)
                   (opus_decoder_wrapper_destroy (ap_decoder app)) rate chans of
              (r, dec) \<Rightarrow>
                app\<lparr>ap_decoder := dec,
                    ap_decoder_sample_rate := (if r = 0 then rate else ap_decoder_sample_rate app)\<rparr>))"

definition app_session_event ::
    "('e, 'd) app_env \<Rightarrow> app_event_type \<Rightarrow> ('e, 'd) app_runtime \<Rightarrow> ('e, 'd) app_runtime" where
  "app_session_event env type app =
     (case session_handle_event (ap_session app) type of
        (session, action) \<Rightarrow> app_handle_action env action (app\<lparr>ap_session := session\<rparr>))"

definition app_handle_protocol_event ::
    "('e, 'd) app_env \<Rightarrow> xiaozhi_incoming_event \<Rightarrow> ('e, 'd) app_runtime \<Rightarrow> ('e, 'd) app_runtime" where
  "app_handle_protocol_event env event app =
     (case xe_type event of
        XIAOZHI_EVENT_HELLO \<Rightarrow>
          (let app1 = (if xe_session_id event \<noteq> []
                       then app\<lparr>ap_session_id := snprintf_buf 64 (xe_session_id event)\<rparr> else app)
           in app_session_event env APP_EVENT_WS_HELLO
                (app_update_decoder_from_hello env event app1))
      | XIAOZHI_EVENT_TTS_START \<Rightarrow>
          (app_set_state SESSION_STATE_PLAYING_TTS
             (app_set_uploading False (app\<lparr>ap_upload_enabled := False\<rparr>)))\<lparr>ap_tts_done := False\<rparr>
      | XIAOZHI_EVENT_TTS_STOP \<Rightarrow>
          (let app1 = app\<lparr>ap_tts_done := True\<rparr>
           in if audio_buffer_size (pb_queue (ap_playback app1)) = 0 then app_reset_to_idle app1
              else app1)
      | _ \<Rightarrow> app)"

subsection \<open>The main loop\<close>

definition app_request_stop :: "('e, 'd) app_runtime \<Rightarrow> ('e, 'd) app_runtime" where
  "app_request_stop app =
     app_push_event (app\<lparr>ap_stop_requested := True\<rparr>) APP_EVENT_SHUTDOWN None 0"

definition app_handle_manual_line :: "string option \<Rightarrow> ('e, 'd) app_runtime \<Rightarrow> ('e, 'd) app_runtime" where
  "app_handle_manual_line line app =
     (case line of
        None \<Rightarrow> app
      | Some s \<Rightarrow>
          if s = ''q'' @ [CHR 0x0A] \<or> s = ''q'' @ [CHR 0x0D, CHR 0x0A] then app_request_stop app
          else if s \<noteq> [CHR 0x0A] \<and> s \<noteq> [CHR 0x0D, CHR 0x0A] then app
          else if ss_state (ap_session app) = SESSION_STATE_UPLOADING_AUDIO
          then app_push_event app APP_EVENT_MANUAL_STOP None 0
          else app_push_event app APP_EVENT_MANUAL_START None 0)"

text \<open>
  What the terminal offers: it is not a terminal or nothing is ready, a line (as much of it
  as 127 characters hold), its end, or a read error.
\<close>

datatype stdin_state = No_Input | Input_Line string | End_Of_Input | Read_Error

definition app_poll_stdin :: "stdin_state \<Rightarrow> ('e, 'd) app_runtime \<Rightarrow> ('e, 'd) app_runtime" where
  "app_poll_stdin input app =
     (case input of
        No_Input \<Rightarrow> app
      | Input_Line s \<Rightarrow> app_handle_manual_line (Some (take 127 s)) app
      | End_Of_Input \<Rightarrow> app_request_stop app
      | Read_Error \<Rightarrow> app)"

text \<open>The switch of the main loop.\<close>

definition app_dispatch ::
    "('e, 'd) app_env \<Rightarrow> app_event \<Rightarrow> ('e, 'd) app_runtime \<Rightarrow> ('e, 'd) app_runtime" where
  "app_dispatch env event app =
     (case ev_type event of
        APP_EVENT_MANUAL_START \<Rightarrow> app_session_event env APP_EVENT_MANUAL_START app
      | APP_EVENT_WAKEWORD_DETECTED \<Rightarrow> app_session_event env APP_EVENT_WAKEWORD_DETECTED app
      | APP_EVENT_MANUAL_STOP \<Rightarrow> app_session_event env APP_EVENT_MANUAL_STOP app
      | APP_EVENT_WS_CONNECTED \<Rightarrow> app_session_event env APP_EVENT_WS_CONNECTED app
      | APP_EVENT_WS_TEXT \<Rightarrow>
          (case xiaozhi_parse_incoming_json (Some (ev_text event)) zero_incoming_event of
             (r, protocol_event) \<Rightarrow>
               (if r = 0 then app_handle_protocol_event env protocol_event app else app))
      | APP_EVENT_CAPTURE_SILENCE_TIMEOUT \<Rightarrow>
          app_session_event env APP_EVENT_CAPTURE_SILENCE_TIMEOUT app
      | APP_EVENT_PLAYBACK_FINISHED \<Rightarrow> (if ap_tts_done app then app_reset_to_idle app else app)
      | APP_EVENT_ERROR \<Rightarrow> app_session_event env APP_EVENT_ERROR app
      | APP_EVENT_SHUTDOWN \<Rightarrow> app\<lparr>ap_stop_requested := True\<rparr>
      | _ \<Rightarrow> app)"

text \<open>
  One round of the loop: the timed pop over its script (theory \<open>Event_Queue\<close>), then the event,
  then the terminal. \<open>None\<close>: the pop is still waiting at the end of the script.
\<close>

datatype ('e, 'd) loop_round = Go_On "('e, 'd) app_runtime" | Leave rc "('e, 'd) app_runtime"

definition app_loop_round ::
    "('e, 'd) app_env \<Rightarrow> wait_script \<Rightarrow> stdin_state \<Rightarrow> ('e, 'd) app_runtime
       \<Rightarrow> ('e, 'd) loop_round option" where
  "app_loop_round env script input app =
     (if ap_stop_requested app then Some (Leave 0 app)
      else
        (case event_queue_pop script (ap_events app) 100 of
           None \<Rightarrow> None
         | Some (r, popped, q) \<Rightarrow>
             (let app1 = app\<lparr>ap_events := q\<rparr> in
              if r < 0 then Some (Leave (- 1) app1)
              else if r = 0 then Some (Go_On (app_poll_stdin input app1))
              else Some (Go_On (app_poll_stdin input (app_dispatch env (the popped) app1))))))"

text \<open>What \<open>app_run\<close> does before its loop: \<open>Inl\<close> when it returns at once.\<close>

definition app_run_begin ::
    "('e, 'd) app_env \<Rightarrow> ('e, 'd) app_runtime \<Rightarrow> rc + ('e, 'd) app_runtime" where
  "app_run_begin env app =
     (if \<not> ap_initialized app then Inl (- 1)
      else if ap_activation_pending app then Inl 1
      else if ap_skip_runtime_init app then Inl 0
      else
        (let app1 = app_reset_to_idle app
         in if \<not> ap_client_started app1
            then Inr (app_handle_action env SESSION_ACTION_CONNECT
                        (app_set_state SESSION_STATE_CONNECTING app1))
            else Inr app1))"

fun app_run_loop ::
    "('e, 'd) app_env \<Rightarrow> (wait_script \<times> stdin_state) list \<Rightarrow> ('e, 'd) app_runtime
       \<Rightarrow> ('e, 'd) loop_round option" where
  "app_run_loop env [] app =
     (if ap_stop_requested app then Some (Leave 0 app) else Some (Go_On app))"
| "app_run_loop env ((script, input) # rounds) app =
     (case app_loop_round env script input app of
        None \<Rightarrow> None
      | Some (Leave r app1) \<Rightarrow> Some (Leave r app1)
      | Some (Go_On app1) \<Rightarrow> app_run_loop env rounds app1)"

subsection \<open>What is logged about the connection\<close>

definition app_log_ws_request_headers :: "('e, 'd) app_runtime \<Rightarrow> string list" where
  "app_log_ws_request_headers app =
     (let token = sv_token (cf_server (ap_config app));
          auth_preview = (if token = [] then snprintf_buf 96 ''(not set)''
            else snprintf_buf 96
                   (''Bearer '' @ take 24 token @ (if length token > 24 then ''...'' else [])))
      in [''ws request headers:'',
          ''Authorization: '' @ auth_preview,
          ''Protocol-Version: '' @ show_int (sv_protocol_version (cf_server (ap_config app))),
          ''Device-Id: '' @ dc_device_id (cf_device (ap_config app)),
          ''Client-Id: '' @ dc_client_id (cf_device (ap_config app))])"

definition app_log_activation_required :: "('e, 'd) app_runtime \<Rightarrow> string list" where
  "app_log_activation_required app =
     (if \<not> ap_activation_pending app then []
      else
        (let a = or_activation (ap_ota_response app) in
         [''activation required'',
          ''activation code: '' @ (if oa_code a \<noteq> [] then oa_code a else ''(missing)'')] @
         (if oa_message a \<noteq> [] then [''activation message: '' @ oa_message a] else []) @
         [''please activate the device, then restart the client'']))"

subsection \<open>Initialisation and destruction\<close>

definition zero_config :: Config.app_config where
  "zero_config =
     \<lparr>cf_ota = \<lparr>oc_url = [], oc_accept_language = [], oc_app_version = [], oc_elf_sha256 = []\<rparr>,
      cf_server = \<lparr>sv_url = [], sv_token = [], sv_protocol_version = 0\<rparr>,
      cf_device = \<lparr>dc_device_id = [], dc_client_id = []\<rparr>,
      cf_board = \<lparr>bc_type = [], bc_name = [], bc_ssid = [], bc_rssi = 0\<rparr>,
      cf_audio = \<lparr>au_capture_device = [], au_playback_device = [], au_input_sample_rate = 0,
                  au_silence_timeout_ms = 0, au_silence_threshold = 0, au_max_utterance_ms = 0\<rparr>,
      cf_runtime = \<lparr>rt_log_level = [], rt_reconnect_backoff_ms = 0\<rparr>\<rparr>"

definition zero_options :: app_options where
  "zero_options = \<lparr>op_config_path = None, op_check_only = False, op_skip_runtime_init = False,
     op_ota_fetch = None\<rparr>"

text \<open>
  \<open>memset(app, 0, ...)\<close>: everything but the log level, which is a variable of \<open>log.c\<close>, and the
  two histories.
\<close>

definition app_clear :: "('e, 'd) app_runtime \<Rightarrow> ('e, 'd) app_runtime" where
  "app_clear app =
     \<lparr>ap_options = zero_options, ap_config = zero_config, ap_events = zero_event_queue,
      ap_session = \<lparr>ss_state = SESSION_STATE_IDLE\<rparr>, ap_client = zero_client,
      ap_encoder = zero_encoder, ap_decoder = zero_decoder, ap_capture = zero_capture,
      ap_playback = zero_playback, ap_ota_response = zero_ota_response, ap_initialized = False,
      ap_check_only = False, ap_skip_runtime_init = False, ap_stop_requested = False,
      ap_client_started = False, ap_runtime_modules_initialized = False,
      ap_activation_pending = False, ap_upload_enabled = False, ap_decoder_sample_rate = 0,
      ap_tts_done = False, ap_dump_mutex_initialized = False, ap_dump_file = None,
      ap_dump_index = 0, ap_dump_path = [], ap_session_id = [],
      ap_log_level = ap_log_level app, ap_dumps = ap_dumps app, ap_slept_us = ap_slept_us app\<rparr>"

text \<open>
  Which of the resources asked for during initialisation could be had: the configuration
  file, the memory of the queues and buffers, the threads, and the OTA request.
\<close>

record init_env =
  ie_file :: file_io
  ie_queue :: bool
  ie_ota :: ota_env
  ie_client :: bool
  ie_playback :: bool
  ie_playback_thread :: bool
  ie_capture_thread :: bool

definition app_client_config :: "Config.app_config \<Rightarrow> xiaozhi_client_config" where
  "app_client_config cfg =
     \<lparr>xc_url = snprintf_buf 256 (sv_url (cf_server cfg)),
      xc_protocol_version = sv_protocol_version (cf_server cfg),
      xc_authorization = (if sv_token (cf_server cfg) \<noteq> []
        then snprintf_buf 256 (''Bearer '' @ take 240 (sv_token (cf_server cfg))) else []),
      xc_device_id = snprintf_buf 64 (dc_device_id (cf_device cfg)),
      xc_client_id = snprintf_buf 64 (dc_client_id (cf_device cfg))\<rparr>"

definition app_callbacks :: xiaozhi_client_callbacks where
  "app_callbacks = \<lparr>cb_on_connected = True, cb_on_disconnected = True, cb_on_text = True,
     cb_on_binary = True, cb_on_error = True\<rparr>"

definition app_playback_config :: "Config.app_config \<Rightarrow> audio_playback_config" where
  "app_playback_config cfg =
     \<lparr>pc_device = snprintf_buf 64 (au_playback_device (cf_audio cfg)), pc_channels = 1,
      pc_default_sample_rate = 24000, pc_queue_capacity = 32, pc_max_frame_bytes = 8192\<rparr>"

definition app_capture_config :: "Config.app_config \<Rightarrow> audio_capture_config" where
  "app_capture_config cfg =
     \<lparr>cc_device = snprintf_buf 64 (au_capture_device (cf_audio cfg)),
      cc_sample_rate = au_input_sample_rate (cf_audio cfg), cc_channels = 1,
      cc_period_frames = 960, cc_silence_timeout_ms = au_silence_timeout_ms (cf_audio cfg),
      cc_silence_threshold = au_silence_threshold (cf_audio cfg)\<rparr>"

definition app_init_runtime_modules ::
    "('e, 'd) app_env \<Rightarrow> init_env \<Rightarrow> ('e, 'd) app_runtime \<Rightarrow> rc \<times> ('e, 'd) app_runtime" where
  "app_init_runtime_modules env ienv app =
     (let cfg = ap_config app;
          app0 = app\<lparr>ap_dump_mutex_initialized := True\<rparr>;
          (cl_rc, client) = xiaozhi_client_init (ie_client ienv) (Some (app_client_config cfg))
                              (Some app_callbacks) (ap_client app0);
          app1 = app0\<lparr>ap_client := client\<rparr>
      in if cl_rc \<noteq> 0 then (- 1, app1)
         else
           (let (en_rc, enc) = opus_encoder_wrapper_init (ae_opus env) (ap_encoder app1)
                                 (au_input_sample_rate (cf_audio cfg)) 1 60;
                app2 = app1\<lparr>ap_encoder := enc\<rparr>
            in if en_rc \<noteq> 0 then (- 1, app2)
               else
                 (let (de_rc, dec) = opus_decoder_wrapper_init (ae_opus env) (ap_decoder app2) 24000 1;
                      app3 = app2\<lparr>ap_decoder := dec\<rparr>
                  in if de_rc \<noteq> 0 then (- 1, app3)
                     else
                       (let app4 = app3\<lparr>ap_decoder_sample_rate := 24000\<rparr>;
                            (pb_rc, pb) = audio_playback_init (ie_playback ienv)
                              (ie_playback_thread ienv) (Some (app_playback_config cfg)) True;
                            app5 = app4\<lparr>ap_playback := pb\<rparr>
                        in if pb_rc \<noteq> 0 then (- 1, app5)
                           else
                             (let (cap_rc, cap) = audio_capture_start (ie_capture_thread ienv)
                                    (Some (app_capture_config cfg)) True True;
                                  app6 = app5\<lparr>ap_capture := cap\<rparr>
                              in if cap_rc \<noteq> 0 then (- 1, app6)
                                 else (0, app6\<lparr>ap_runtime_modules_initialized := True\<rparr>))))))"

definition app_init ::
    "('e, 'd) app_env \<Rightarrow> init_env \<Rightarrow> ('e, 'd) app_runtime \<Rightarrow> app_options option
       \<Rightarrow> rc \<times> ('e, 'd) app_runtime" where
  "app_init env ienv app opts =
     (let options = (case opts of None \<Rightarrow> zero_options | Some given \<Rightarrow> given);
          app0 = (app_clear app)\<lparr>ap_options := options\<rparr>;
          path = (case op_config_path options of None \<Rightarrow> ''config/xiaozhi.ini'' | Some p \<Rightarrow> p);
          (cf_rc, cfg, err) =
            config_load_file (Some path) (ie_file ienv) (ap_config app0) (Some []) 256;
          app1 = app0\<lparr>ap_config := cfg\<rparr>
      in if cf_rc \<noteq> 0 then (- 1, app1)
         else
           (let app2 = app_fill_default_ids
                  (app1\<lparr>ap_log_level := app_parse_log_level (Some (rt_log_level (cf_runtime cfg)))\<rparr>);
                (q_rc, q) = event_queue_init (ie_queue ienv) 64 (ap_events app2);
                app3 = app2\<lparr>ap_events := q\<rparr>
            in if q_rc \<noteq> 0 then (- 1, app3)
               else
                 (let app4 = app3\<lparr>ap_session := session_init (ap_session app3),
                                  ap_check_only := op_check_only options,
                                  ap_skip_runtime_init := op_skip_runtime_init options,
                                  ap_initialized := True\<rparr>
                  in if ap_check_only app4 then (0, app4)
                     else
                       (let (ota_rc, app5) = app_bootstrap_ota (ota_fetch (ie_ota ienv)) app4
                        in if ota_rc \<noteq> 0 then (- 1, app5)
                           else if ap_activation_pending app5 then (0, app5)
                           else if ap_skip_runtime_init app5 then (0, app5)
                           else
                             (let (rt_rc, app6) = app_init_runtime_modules env ienv app5
                              in (if rt_rc \<noteq> 0 then - 1 else 0, app6))))))"

text \<open>
  What ending the threads depends on: where the playback thread is and its device, and whether the
  calls return in which the network thread (\<open>lws_service\<close>) and the capture thread
  (\<open>snd_pcm_readi\<close>) are.
\<close>

record 'c shutdown =
  sh_alsa :: "'c alsa"
  sh_position :: playback_position
  sh_local :: playback_local
  sh_dev :: 'c
  sh_service_returns :: bool
  sh_read_returns :: bool

text \<open>
  The threads are joined in this order; \<open>None\<close> when one of them never ends. The client is stopped
  twice, here and inside \<open>xiaozhi_client_destroy\<close>; the second time only if it runs although it
  was not marked as started.
\<close>

definition app_end_threads ::
    "('e, 'd) app_env \<Rightarrow> 'c shutdown \<Rightarrow> ('e, 'd) app_runtime \<Rightarrow> ('e, 'd) app_runtime option" where
  "app_end_threads env sh app =
     (let a = app_close_opus_dump_file app in
      if cl_running (ap_client a) \<and> cl_thread (ap_client a) \<and> \<not> sh_service_returns sh then None
      else
        (let a1 = (if ap_client_started a then app_client_stop env a else a) in
         case audio_capture_stop (sh_read_returns sh) (ap_capture a1) of
           None \<Rightarrow> None
         | Some cap \<Rightarrow>
             (let a2 = a1\<lparr>ap_capture := cap\<rparr> in
              case audio_playback_destroy (sh_alsa sh) (sh_position sh)
                     \<lparr>pw_pb = ap_playback a2, pw_local = sh_local sh, pw_events = ap_events a2,
                      pw_dev = sh_dev sh\<rparr> of
                None \<Rightarrow> None
              | Some w \<Rightarrow>
                  (let a3 = a2\<lparr>ap_playback := pw_pb w, ap_events := pw_events w,
                               ap_encoder := opus_encoder_wrapper_destroy (ap_encoder a2),
                               ap_decoder := opus_decoder_wrapper_destroy (ap_decoder a2)\<rparr>;
                       (client, effs) = xiaozhi_client_destroy (ae_teardown env) (ap_client a3)
                   in Some (app_effects env effs (a3\<lparr>ap_client := client\<rparr>))))))"

definition app_destroy ::
    "('e, 'd) app_env \<Rightarrow> 'c shutdown \<Rightarrow> ('e, 'd) app_runtime \<Rightarrow> ('e, 'd) app_runtime option" where
  "app_destroy env sh app =
     (if \<not> ap_initialized app then Some app
      else
        (case (if \<not> ap_check_only app \<and> ap_runtime_modules_initialized app
               then app_end_threads env sh app else Some app) of
           None \<Rightarrow> None
         | Some app1 \<Rightarrow>
             (let app2 = (if ap_dump_mutex_initialized app1
                          then app1\<lparr>ap_dump_mutex_initialized := False\<rparr> else app1)
              in Some (app_clear (app2\<lparr>ap_events := event_queue_destroy (ap_events app2)\<rparr>)))))"

end
