(* ===== verification/App_Facts.thy ===== *)
theory App_Facts
  imports App
begin

section \<open>What the handlers of the application leave alone, and what they keep\<close>

text \<open>
  For every operation of theory \<open>App\<close>: the fields of the runtime it does not touch (as
  simplification rules, so that a handler built from several operations can be evaluated field
  by field), and the invariants of the components it goes through.
\<close>

subsection \<open>Frames of the client\<close>

text \<open>Callbacks change neither the configuration nor whether the client runs.\<close>

definition same_client :: "xiaozhi_client \<Rightarrow> xiaozhi_client \<Rightarrow> bool" where
  "same_client c d \<longleftrightarrow> cl_config d = cl_config c \<and> cl_callbacks d = cl_callbacks c \<and>
     cl_running d = cl_running c \<and> cl_thread d = cl_thread c"

lemma same_client_refl [simp]: "same_client c c"
  by (simp add: same_client_def)

lemma same_client_trans: "same_client c d \<Longrightarrow> same_client d e \<Longrightarrow> same_client c e"
  by (simp add: same_client_def)

lemma same_client_simps:
  "same_client c d \<Longrightarrow> cl_config d = cl_config c" "same_client c d \<Longrightarrow> cl_callbacks d = cl_callbacks c"
  "same_client c d \<Longrightarrow> cl_running d = cl_running c" "same_client c d \<Longrightarrow> cl_thread d = cl_thread c"
  by (simp_all add: same_client_def)

lemma pop_text_same: "same_client c (snd (snd (xiaozhi_client_pop_text_locked c)))"
  by (simp add: xiaozhi_client_pop_text_locked_def same_client_def Let_def)

lemma pop_binary_same: "same_client c (snd (snd (xiaozhi_client_pop_binary_locked m c)))"
  by (auto simp: xiaozhi_client_pop_binary_locked_def same_client_def Let_def
      split: prod.splits option.splits)

lemma writeable_same: "same_client c (fst (snd (writeable m b w c)))"
proof -
  obtain tr tp c1 where t: "xiaozhi_client_pop_text_locked c = (tr, tp, c1)" using prod_cases3 by blast
  obtain pr bp c2 where p: "(if tr = 0 then xiaozhi_client_pop_binary_locked m c1
      else (tr, None, c1)) = (pr, bp, c2)" using prod_cases3 by blast
  have "same_client c c1" using pop_text_same [of c] t by simp
  moreover have "same_client c1 c2" using pop_binary_same [of c1 m] p by (auto split: if_splits)
  moreover have "fst (snd (writeable m b w c)) = c2"
    unfolding writeable_def t p Let_def prod.case by (auto split: option.splits)
  ultimately show ?thesis using same_client_trans by metis
qed

lemma callback_same: "same_client c (fst (snd (xiaozhi_client_callback reason c)))"
proof (cases reason)
  case (LWS_CLIENT_WRITEABLE m b w)
  then show ?thesis using writeable_same by simp
qed (auto simp: same_client_def Let_def xiaozhi_client_feed_binary_fragment_def receive_text_def
      split: prod.splits if_splits)

lemma run_callbacks_same: "same_client c (fst (run_callbacks rs c))"
proof (induction rs arbitrary: c)
  case (Cons r rs)
  obtain x c1 e1 where cb: "xiaozhi_client_callback r c = (x, c1, e1)" using prod_cases3 by blast
  have "same_client c c1" using callback_same [of c r] cb by simp
  then show ?case using Cons.IH [of c1] cb same_client_trans by (auto split: prod.splits)
qed simp

lemma connect_same: "same_client c (fst (snd (snd (client_thread_connect env c))))"
  using run_callbacks_same [of "c\<lparr>cl_context := True\<rparr>" "ce_calls env"]
  by (auto simp: client_thread_connect_def same_client_def Let_def split: option.splits prod.splits)

lemma queue_text_same: "same_client c (fst (snd (xiaozhi_client_queue_text m d c payload)))"
  by (auto simp: xiaozhi_client_queue_text_def queue_text_reserve_def queue_text_append_def
      same_client_def Let_def split: option.splits prod.splits)

lemma queue_binary_same: "same_client c (fst (snd (xiaozhi_client_queue_binary c d)))"
  by (auto simp: xiaozhi_client_queue_binary_def same_client_def Let_def split: prod.splits)

lemma client_start_fields:
  assumes "xiaozhi_client_start created c = (r, d)"
  shows "cl_callbacks d = cl_callbacks c" "cl_config d = cl_config c"
    "r = 0 \<Longrightarrow> cl_running d" "r \<noteq> 0 \<Longrightarrow> \<not> cl_running d \<and> \<not> cl_running c"
    "cl_connected d = cl_connected c"
  using assms by (auto simp: xiaozhi_client_start_def Let_def split: if_splits)

lemma client_stop_fields:
  assumes "xiaozhi_client_stop td c = (d, effs)"
  shows "cl_callbacks d = cl_callbacks c" "cl_config d = cl_config c" "\<not> cl_running d"
proof -
  have "cl_callbacks d = cl_callbacks c \<and> cl_config d = cl_config c \<and> \<not> cl_running d"
    using assms run_callbacks_same [of "c\<lparr>cl_running := False\<rparr>" td]
    by (auto simp: xiaozhi_client_stop_def client_thread_end_def same_client_def Let_def
        split: if_splits prod.splits)
  then show "cl_callbacks d = cl_callbacks c" "cl_config d = cl_config c" "\<not> cl_running d"
    by simp_all
qed

subsection \<open>Frames of the runtime\<close>

lemma push_event_frame [simp]:
  "ap_config (app_push_event app t m c) = ap_config app"
  "ap_session (app_push_event app t m c) = ap_session app"
  "ap_client (app_push_event app t m c) = ap_client app"
  "ap_encoder (app_push_event app t m c) = ap_encoder app"
  "ap_decoder (app_push_event app t m c) = ap_decoder app"
  "ap_capture (app_push_event app t m c) = ap_capture app"
  "ap_playback (app_push_event app t m c) = ap_playback app"
  "ap_stop_requested (app_push_event app t m c) = ap_stop_requested app"
  "ap_client_started (app_push_event app t m c) = ap_client_started app"
  "ap_upload_enabled (app_push_event app t m c) = ap_upload_enabled app"
  "ap_decoder_sample_rate (app_push_event app t m c) = ap_decoder_sample_rate app"
  "ap_tts_done (app_push_event app t m c) = ap_tts_done app"
  "ap_dump_mutex_initialized (app_push_event app t m c) = ap_dump_mutex_initialized app"
  "ap_dump_file (app_push_event app t m c) = ap_dump_file app"
  "ap_dump_path (app_push_event app t m c) = ap_dump_path app"
  "ap_session_id (app_push_event app t m c) = ap_session_id app"
  "ap_dumps (app_push_event app t m c) = ap_dumps app"
  by (simp_all add: app_push_event_def Let_def)

lemma effect_frame [simp]:
  "ap_config (app_effect env e app) = ap_config app"
  "ap_session (app_effect env e app) = ap_session app"
  "ap_client (app_effect env e app) = ap_client app"
  "ap_encoder (app_effect env e app) = ap_encoder app"
  "ap_capture (app_effect env e app) = ap_capture app"
  "ap_stop_requested (app_effect env e app) = ap_stop_requested app"
  "ap_client_started (app_effect env e app) = ap_client_started app"
  "ap_upload_enabled (app_effect env e app) = ap_upload_enabled app"
  "ap_decoder_sample_rate (app_effect env e app) = ap_decoder_sample_rate app"
  "ap_tts_done (app_effect env e app) = ap_tts_done app"
  "ap_dump_mutex_initialized (app_effect env e app) = ap_dump_mutex_initialized app"
  "ap_dump_file (app_effect env e app) = ap_dump_file app"
  "ap_dump_path (app_effect env e app) = ap_dump_path app"
  "ap_session_id (app_effect env e app) = ap_session_id app"
  "ap_dumps (app_effect env e app) = ap_dumps app"
  by (cases e; simp add: app_client_on_connected_def app_client_on_disconnected_def
      app_client_on_text_def app_client_on_error_def app_client_on_binary_def Let_def
      split: prod.split)+

lemma effects_frame [simp]:
  "ap_config (app_effects env effs app) = ap_config app"
  "ap_session (app_effects env effs app) = ap_session app"
  "ap_client (app_effects env effs app) = ap_client app"
  "ap_encoder (app_effects env effs app) = ap_encoder app"
  "ap_capture (app_effects env effs app) = ap_capture app"
  "ap_stop_requested (app_effects env effs app) = ap_stop_requested app"
  "ap_client_started (app_effects env effs app) = ap_client_started app"
  "ap_upload_enabled (app_effects env effs app) = ap_upload_enabled app"
  "ap_decoder_sample_rate (app_effects env effs app) = ap_decoder_sample_rate app"
  "ap_tts_done (app_effects env effs app) = ap_tts_done app"
  "ap_dump_mutex_initialized (app_effects env effs app) = ap_dump_mutex_initialized app"
  "ap_dump_file (app_effects env effs app) = ap_dump_file app"
  "ap_dump_path (app_effects env effs app) = ap_dump_path app"
  "ap_session_id (app_effects env effs app) = ap_session_id app"
  "ap_dumps (app_effects env effs app) = ap_dumps app"
  unfolding app_effects_def by (induction effs arbitrary: app) simp_all

lemma queue_binary_frame [simp]:
  "ap_config (snd (app_queue_binary d app)) = ap_config app"
  "ap_events (snd (app_queue_binary d app)) = ap_events app"
  "ap_session (snd (app_queue_binary d app)) = ap_session app"
  "ap_encoder (snd (app_queue_binary d app)) = ap_encoder app"
  "ap_decoder (snd (app_queue_binary d app)) = ap_decoder app"
  "ap_capture (snd (app_queue_binary d app)) = ap_capture app"
  "ap_playback (snd (app_queue_binary d app)) = ap_playback app"
  "ap_stop_requested (snd (app_queue_binary d app)) = ap_stop_requested app"
  "ap_client_started (snd (app_queue_binary d app)) = ap_client_started app"
  "ap_upload_enabled (snd (app_queue_binary d app)) = ap_upload_enabled app"
  "ap_decoder_sample_rate (snd (app_queue_binary d app)) = ap_decoder_sample_rate app"
  "ap_tts_done (snd (app_queue_binary d app)) = ap_tts_done app"
  "ap_dump_mutex_initialized (snd (app_queue_binary d app)) = ap_dump_mutex_initialized app"
  "ap_dump_file (snd (app_queue_binary d app)) = ap_dump_file app"
  "ap_dump_path (snd (app_queue_binary d app)) = ap_dump_path app"
  "ap_session_id (snd (app_queue_binary d app)) = ap_session_id app"
  "ap_dumps (snd (app_queue_binary d app)) = ap_dumps app"
  by (simp_all add: app_queue_binary_def split: prod.split)

lemma queue_text_frame [simp]:
  "ap_config (snd (app_queue_text env s app)) = ap_config app"
  "ap_events (snd (app_queue_text env s app)) = ap_events app"
  "ap_session (snd (app_queue_text env s app)) = ap_session app"
  "ap_encoder (snd (app_queue_text env s app)) = ap_encoder app"
  "ap_decoder (snd (app_queue_text env s app)) = ap_decoder app"
  "ap_capture (snd (app_queue_text env s app)) = ap_capture app"
  "ap_playback (snd (app_queue_text env s app)) = ap_playback app"
  "ap_stop_requested (snd (app_queue_text env s app)) = ap_stop_requested app"
  "ap_client_started (snd (app_queue_text env s app)) = ap_client_started app"
  "ap_upload_enabled (snd (app_queue_text env s app)) = ap_upload_enabled app"
  "ap_decoder_sample_rate (snd (app_queue_text env s app)) = ap_decoder_sample_rate app"
  "ap_tts_done (snd (app_queue_text env s app)) = ap_tts_done app"
  "ap_dump_mutex_initialized (snd (app_queue_text env s app)) = ap_dump_mutex_initialized app"
  "ap_dump_file (snd (app_queue_text env s app)) = ap_dump_file app"
  "ap_dump_path (snd (app_queue_text env s app)) = ap_dump_path app"
  "ap_session_id (snd (app_queue_text env s app)) = ap_session_id app"
  "ap_dumps (snd (app_queue_text env s app)) = ap_dumps app"
  by (simp_all add: app_queue_text_def split: prod.split)

lemma send_hello_frame [simp]:
  "ap_config (snd (app_send_hello env app)) = ap_config app"
  "ap_events (snd (app_send_hello env app)) = ap_events app"
  "ap_session (snd (app_send_hello env app)) = ap_session app"
  "ap_encoder (snd (app_send_hello env app)) = ap_encoder app"
  "ap_decoder (snd (app_send_hello env app)) = ap_decoder app"
  "ap_capture (snd (app_send_hello env app)) = ap_capture app"
  "ap_playback (snd (app_send_hello env app)) = ap_playback app"
  "ap_stop_requested (snd (app_send_hello env app)) = ap_stop_requested app"
  "ap_client_started (snd (app_send_hello env app)) = ap_client_started app"
  "ap_upload_enabled (snd (app_send_hello env app)) = ap_upload_enabled app"
  "ap_decoder_sample_rate (snd (app_send_hello env app)) = ap_decoder_sample_rate app"
  "ap_tts_done (snd (app_send_hello env app)) = ap_tts_done app"
  "ap_dump_mutex_initialized (snd (app_send_hello env app)) = ap_dump_mutex_initialized app"
  "ap_dump_file (snd (app_send_hello env app)) = ap_dump_file app"
  "ap_dump_path (snd (app_send_hello env app)) = ap_dump_path app"
  "ap_session_id (snd (app_send_hello env app)) = ap_session_id app"
  "ap_dumps (snd (app_send_hello env app)) = ap_dumps app"
  by (simp_all add: app_send_hello_def split: prod.split)

lemma send_listen_start_frame [simp]:
  "ap_config (snd (app_send_listen_start env app)) = ap_config app"
  "ap_events (snd (app_send_listen_start env app)) = ap_events app"
  "ap_session (snd (app_send_listen_start env app)) = ap_session app"
  "ap_encoder (snd (app_send_listen_start env app)) = ap_encoder app"
  "ap_decoder (snd (app_send_listen_start env app)) = ap_decoder app"
  "ap_capture (snd (app_send_listen_start env app)) = ap_capture app"
  "ap_playback (snd (app_send_listen_start env app)) = ap_playback app"
  "ap_stop_requested (snd (app_send_listen_start env app)) = ap_stop_requested app"
  "ap_client_started (snd (app_send_listen_start env app)) = ap_client_started app"
  "ap_upload_enabled (snd (app_send_listen_start env app)) = ap_upload_enabled app"
  "ap_decoder_sample_rate (snd (app_send_listen_start env app)) = ap_decoder_sample_rate app"
  "ap_tts_done (snd (app_send_listen_start env app)) = ap_tts_done app"
  "ap_dump_mutex_initialized (snd (app_send_listen_start env app)) = ap_dump_mutex_initialized app"
  "ap_dump_file (snd (app_send_listen_start env app)) = ap_dump_file app"
  "ap_dump_path (snd (app_send_listen_start env app)) = ap_dump_path app"
  "ap_session_id (snd (app_send_listen_start env app)) = ap_session_id app"
  "ap_dumps (snd (app_send_listen_start env app)) = ap_dumps app"
  by (simp_all add: app_send_listen_start_def split: prod.split)

lemma send_listen_stop_frame [simp]:
  "ap_config (snd (app_send_listen_stop env app)) = ap_config app"
  "ap_events (snd (app_send_listen_stop env app)) = ap_events app"
  "ap_session (snd (app_send_listen_stop env app)) = ap_session app"
  "ap_encoder (snd (app_send_listen_stop env app)) = ap_encoder app"
  "ap_decoder (snd (app_send_listen_stop env app)) = ap_decoder app"
  "ap_capture (snd (app_send_listen_stop env app)) = ap_capture app"
  "ap_playback (snd (app_send_listen_stop env app)) = ap_playback app"
  "ap_stop_requested (snd (app_send_listen_stop env app)) = ap_stop_requested app"
  "ap_client_started (snd (app_send_listen_stop env app)) = ap_client_started app"
  "ap_upload_enabled (snd (app_send_listen_stop env app)) = ap_upload_enabled app"
  "ap_decoder_sample_rate (snd (app_send_listen_stop env app)) = ap_decoder_sample_rate app"
  "ap_tts_done (snd (app_send_listen_stop env app)) = ap_tts_done app"
  "ap_dump_mutex_initialized (snd (app_send_listen_stop env app)) = ap_dump_mutex_initialized app"
  "ap_dump_file (snd (app_send_listen_stop env app)) = ap_dump_file app"
  "ap_dump_path (snd (app_send_listen_stop env app)) = ap_dump_path app"
  "ap_session_id (snd (app_send_listen_stop env app)) = ap_session_id app"
  "ap_dumps (snd (app_send_listen_stop env app)) = ap_dumps app"
  by (simp_all add: app_send_listen_stop_def split: prod.split)

lemma send_abort_frame [simp]:
  "ap_config (snd (app_send_abort env app)) = ap_config app"
  "ap_events (snd (app_send_abort env app)) = ap_events app"
  "ap_session (snd (app_send_abort env app)) = ap_session app"
  "ap_encoder (snd (app_send_abort env app)) = ap_encoder app"
  "ap_decoder (snd (app_send_abort env app)) = ap_decoder app"
  "ap_capture (snd (app_send_abort env app)) = ap_capture app"
  "ap_playback (snd (app_send_abort env app)) = ap_playback app"
  "ap_stop_requested (snd (app_send_abort env app)) = ap_stop_requested app"
  "ap_client_started (snd (app_send_abort env app)) = ap_client_started app"
  "ap_upload_enabled (snd (app_send_abort env app)) = ap_upload_enabled app"
  "ap_decoder_sample_rate (snd (app_send_abort env app)) = ap_decoder_sample_rate app"
  "ap_tts_done (snd (app_send_abort env app)) = ap_tts_done app"
  "ap_dump_mutex_initialized (snd (app_send_abort env app)) = ap_dump_mutex_initialized app"
  "ap_dump_file (snd (app_send_abort env app)) = ap_dump_file app"
  "ap_dump_path (snd (app_send_abort env app)) = ap_dump_path app"
  "ap_session_id (snd (app_send_abort env app)) = ap_session_id app"
  "ap_dumps (snd (app_send_abort env app)) = ap_dumps app"
  by (simp_all add: app_send_abort_def split: prod.split)

lemma set_uploading_frame [simp]:
  "ap_config (app_set_uploading b app) = ap_config app"
  "ap_events (app_set_uploading b app) = ap_events app"
  "ap_session (app_set_uploading b app) = ap_session app"
  "ap_client (app_set_uploading b app) = ap_client app"
  "ap_encoder (app_set_uploading b app) = ap_encoder app"
  "ap_decoder (app_set_uploading b app) = ap_decoder app"
  "ap_playback (app_set_uploading b app) = ap_playback app"
  "ap_stop_requested (app_set_uploading b app) = ap_stop_requested app"
  "ap_client_started (app_set_uploading b app) = ap_client_started app"
  "ap_upload_enabled (app_set_uploading b app) = ap_upload_enabled app"
  "ap_decoder_sample_rate (app_set_uploading b app) = ap_decoder_sample_rate app"
  "ap_tts_done (app_set_uploading b app) = ap_tts_done app"
  "ap_dump_mutex_initialized (app_set_uploading b app) = ap_dump_mutex_initialized app"
  "ap_dump_file (app_set_uploading b app) = ap_dump_file app"
  "ap_dump_path (app_set_uploading b app) = ap_dump_path app"
  "ap_session_id (app_set_uploading b app) = ap_session_id app"
  "ap_dumps (app_set_uploading b app) = ap_dumps app"
  by (simp_all add: app_set_uploading_def)

lemma set_state_frame [simp]:
  "ap_config (app_set_state st app) = ap_config app"
  "ap_events (app_set_state st app) = ap_events app"
  "ap_client (app_set_state st app) = ap_client app"
  "ap_encoder (app_set_state st app) = ap_encoder app"
  "ap_decoder (app_set_state st app) = ap_decoder app"
  "ap_capture (app_set_state st app) = ap_capture app"
  "ap_playback (app_set_state st app) = ap_playback app"
  "ap_stop_requested (app_set_state st app) = ap_stop_requested app"
  "ap_client_started (app_set_state st app) = ap_client_started app"
  "ap_upload_enabled (app_set_state st app) = ap_upload_enabled app"
  "ap_decoder_sample_rate (app_set_state st app) = ap_decoder_sample_rate app"
  "ap_tts_done (app_set_state st app) = ap_tts_done app"
  "ap_dump_mutex_initialized (app_set_state st app) = ap_dump_mutex_initialized app"
  "ap_dump_file (app_set_state st app) = ap_dump_file app"
  "ap_dump_path (app_set_state st app) = ap_dump_path app"
  "ap_session_id (app_set_state st app) = ap_session_id app"
  "ap_dumps (app_set_state st app) = ap_dumps app"
  by (simp_all add: app_set_state_def)

lemma close_dump_frame [simp]:
  "ap_config (app_close_opus_dump_file app) = ap_config app"
  "ap_events (app_close_opus_dump_file app) = ap_events app"
  "ap_session (app_close_opus_dump_file app) = ap_session app"
  "ap_client (app_close_opus_dump_file app) = ap_client app"
  "ap_encoder (app_close_opus_dump_file app) = ap_encoder app"
  "ap_decoder (app_close_opus_dump_file app) = ap_decoder app"
  "ap_capture (app_close_opus_dump_file app) = ap_capture app"
  "ap_playback (app_close_opus_dump_file app) = ap_playback app"
  "ap_stop_requested (app_close_opus_dump_file app) = ap_stop_requested app"
  "ap_client_started (app_close_opus_dump_file app) = ap_client_started app"
  "ap_upload_enabled (app_close_opus_dump_file app) = ap_upload_enabled app"
  "ap_decoder_sample_rate (app_close_opus_dump_file app) = ap_decoder_sample_rate app"
  "ap_tts_done (app_close_opus_dump_file app) = ap_tts_done app"
  "ap_dump_mutex_initialized (app_close_opus_dump_file app) = ap_dump_mutex_initialized app"
  "ap_dump_path (app_close_opus_dump_file app) = ap_dump_path app"
  "ap_session_id (app_close_opus_dump_file app) = ap_session_id app"
  by (simp_all add: app_close_opus_dump_file_def app_close_dump_def split: option.split)

lemma open_dump_frame [simp]:
  "ap_config (snd (app_open_opus_dump_file env app)) = ap_config app"
  "ap_events (snd (app_open_opus_dump_file env app)) = ap_events app"
  "ap_session (snd (app_open_opus_dump_file env app)) = ap_session app"
  "ap_client (snd (app_open_opus_dump_file env app)) = ap_client app"
  "ap_encoder (snd (app_open_opus_dump_file env app)) = ap_encoder app"
  "ap_decoder (snd (app_open_opus_dump_file env app)) = ap_decoder app"
  "ap_capture (snd (app_open_opus_dump_file env app)) = ap_capture app"
  "ap_playback (snd (app_open_opus_dump_file env app)) = ap_playback app"
  "ap_stop_requested (snd (app_open_opus_dump_file env app)) = ap_stop_requested app"
  "ap_client_started (snd (app_open_opus_dump_file env app)) = ap_client_started app"
  "ap_upload_enabled (snd (app_open_opus_dump_file env app)) = ap_upload_enabled app"
  "ap_decoder_sample_rate (snd (app_open_opus_dump_file env app)) = ap_decoder_sample_rate app"
  "ap_tts_done (snd (app_open_opus_dump_file env app)) = ap_tts_done app"
  "ap_dump_mutex_initialized (snd (app_open_opus_dump_file env app)) = ap_dump_mutex_initialized app"
  "ap_session_id (snd (app_open_opus_dump_file env app)) = ap_session_id app"
  by (cases "ap_dump_file app"; cases "ae_fopen env (snprintf_buf 256 (''build/upload_'' @
      show_03d (ap_dump_index app + 1) @ ''.opusbin''))";
      simp add: app_open_opus_dump_file_def app_close_dump_def Let_def)+

lemma write_packet_frame [simp]:
  "ap_config (snd (app_write_opus_packet env app p)) = ap_config app"
  "ap_events (snd (app_write_opus_packet env app p)) = ap_events app"
  "ap_session (snd (app_write_opus_packet env app p)) = ap_session app"
  "ap_client (snd (app_write_opus_packet env app p)) = ap_client app"
  "ap_encoder (snd (app_write_opus_packet env app p)) = ap_encoder app"
  "ap_decoder (snd (app_write_opus_packet env app p)) = ap_decoder app"
  "ap_capture (snd (app_write_opus_packet env app p)) = ap_capture app"
  "ap_playback (snd (app_write_opus_packet env app p)) = ap_playback app"
  "ap_stop_requested (snd (app_write_opus_packet env app p)) = ap_stop_requested app"
  "ap_client_started (snd (app_write_opus_packet env app p)) = ap_client_started app"
  "ap_upload_enabled (snd (app_write_opus_packet env app p)) = ap_upload_enabled app"
  "ap_decoder_sample_rate (snd (app_write_opus_packet env app p)) = ap_decoder_sample_rate app"
  "ap_tts_done (snd (app_write_opus_packet env app p)) = ap_tts_done app"
  "ap_dump_mutex_initialized (snd (app_write_opus_packet env app p)) = ap_dump_mutex_initialized app"
  "ap_dump_path (snd (app_write_opus_packet env app p)) = ap_dump_path app"
  "ap_session_id (snd (app_write_opus_packet env app p)) = ap_session_id app"
  "ap_dumps (snd (app_write_opus_packet env app p)) = ap_dumps app"
  by (simp_all add: app_write_opus_packet_def Let_def split: option.split)

lemma client_start_frame [simp]:
  "ap_config (snd (app_client_start env app)) = ap_config app"
  "ap_events (snd (app_client_start env app)) = ap_events app"
  "ap_session (snd (app_client_start env app)) = ap_session app"
  "ap_encoder (snd (app_client_start env app)) = ap_encoder app"
  "ap_decoder (snd (app_client_start env app)) = ap_decoder app"
  "ap_capture (snd (app_client_start env app)) = ap_capture app"
  "ap_playback (snd (app_client_start env app)) = ap_playback app"
  "ap_stop_requested (snd (app_client_start env app)) = ap_stop_requested app"
  "ap_client_started (snd (app_client_start env app)) = ap_client_started app"
  "ap_upload_enabled (snd (app_client_start env app)) = ap_upload_enabled app"
  "ap_decoder_sample_rate (snd (app_client_start env app)) = ap_decoder_sample_rate app"
  "ap_tts_done (snd (app_client_start env app)) = ap_tts_done app"
  "ap_dump_mutex_initialized (snd (app_client_start env app)) = ap_dump_mutex_initialized app"
  "ap_dump_file (snd (app_client_start env app)) = ap_dump_file app"
  "ap_dump_path (snd (app_client_start env app)) = ap_dump_path app"
  "ap_session_id (snd (app_client_start env app)) = ap_session_id app"
  "ap_dumps (snd (app_client_start env app)) = ap_dumps app"
  by (simp_all add: app_client_start_def split: prod.split)

lemma client_stop_frame [simp]:
  "ap_config (app_client_stop env app) = ap_config app"
  "ap_session (app_client_stop env app) = ap_session app"
  "ap_encoder (app_client_stop env app) = ap_encoder app"
  "ap_capture (app_client_stop env app) = ap_capture app"
  "ap_stop_requested (app_client_stop env app) = ap_stop_requested app"
  "ap_client_started (app_client_stop env app) = ap_client_started app"
  "ap_upload_enabled (app_client_stop env app) = ap_upload_enabled app"
  "ap_decoder_sample_rate (app_client_stop env app) = ap_decoder_sample_rate app"
  "ap_tts_done (app_client_stop env app) = ap_tts_done app"
  "ap_dump_mutex_initialized (app_client_stop env app) = ap_dump_mutex_initialized app"
  "ap_dump_file (app_client_stop env app) = ap_dump_file app"
  "ap_dump_path (app_client_stop env app) = ap_dump_path app"
  "ap_session_id (app_client_stop env app) = ap_session_id app"
  "ap_dumps (app_client_stop env app) = ap_dumps app"
  by (simp_all add: app_client_stop_def split: prod.split)

end
