(* ===== verification/App_Invariant.thy ===== *)
theory App_Invariant
  imports App_Facts
begin

section \<open>The invariant of the application's runtime\<close>

text \<open>
  What holds of the runtime between two handlers, whichever thread runs them (and, but for the
  session's state, while the main thread sleeps in one of them): the queues and
  buffers are well formed, the upload flag agrees with the capture thread, the dump file, the
  session id and the session state, and the client runs exactly when the application believes
  it does. Each handler of theory \<open>App\<close> is shown to keep it.
\<close>

subsection \<open>The invariant of the runtime\<close>

definition app_ok :: "('e, 'd) app_runtime \<Rightarrow> bool" where
  "app_ok app \<longleftrightarrow>
     eq_inv (ap_events app) \<and> client_inv (ap_client app) \<and> capture_inv (ap_capture app) \<and>
     ab_inv (pb_queue (ap_playback app)) \<and> ap_dump_mutex_initialized app \<and>
     cl_callbacks (ap_client app) = app_callbacks \<and> length (ap_session_id app) < 64 \<and>
     cap_uploading (ap_capture app) = ap_upload_enabled app"

text \<open>An upload is going on only with an open dump file and in a session the server named.\<close>

definition upload_ok :: "('e, 'd) app_runtime \<Rightarrow> bool" where
  "upload_ok app \<longleftrightarrow>
     (ap_upload_enabled app \<longrightarrow> ap_dump_file app \<noteq> None \<and> ap_session_id app \<noteq> [] \<and>
        ss_state (ap_session app) = SESSION_STATE_UPLOADING_AUDIO)"

definition client_linked :: "('e, 'd) app_runtime \<Rightarrow> bool" where
  "client_linked app \<longleftrightarrow> cl_running (ap_client app) = ap_client_started app"

definition state_ok :: "('e, 'd) app_runtime \<Rightarrow> bool" where
  "state_ok app \<longleftrightarrow>
     ss_state (ap_session app) \<noteq> SESSION_STATE_WAKE_DETECTING \<and>
     ss_state (ap_session app) \<noteq> SESSION_STATE_ERROR_BACKOFF"

definition app_inv :: "('e, 'd) app_runtime \<Rightarrow> bool" where
  "app_inv app \<longleftrightarrow> app_ok app \<and> upload_ok app \<and> client_linked app \<and> state_ok app"

lemmas app_inv_defs = app_inv_def app_ok_def upload_ok_def client_linked_def state_ok_def

subsection \<open>Operations on the components\<close>

lemma push_event_inv [inv_intros]:
  "eq_inv (ap_events app) \<Longrightarrow> eq_inv (ap_events (app_push_event app t m c))"
  by (simp add: app_push_event_def Let_def eq_push_inv)

lemma enqueue_inv [inv_intros]:
  "ab_inv (pb_queue pb) \<Longrightarrow> ab_inv (pb_queue (snd (audio_playback_enqueue pb pcm n rate)))"
  using push_inv by (simp add: audio_playback_enqueue_def Let_def split: prod.split) (metis snd_conv)

lemma effects_inv [inv_intros]:
  "eq_inv (ap_events app) \<Longrightarrow> eq_inv (ap_events (app_effects env effs app))"
  "ab_inv (pb_queue (ap_playback app)) \<Longrightarrow>
     ab_inv (pb_queue (ap_playback (app_effects env effs app)))"
proof -
  have ev: "eq_inv (ap_events a) \<Longrightarrow> eq_inv (ap_events (app_effect env e a))" for e a
    by (cases e) (auto simp: app_client_on_connected_def app_client_on_disconnected_def
        app_client_on_text_def app_client_on_error_def app_client_on_binary_def Let_def
        push_event_inv split: prod.split)
  have pb: "ab_inv (pb_queue (ap_playback a)) \<Longrightarrow>
      ab_inv (pb_queue (ap_playback (app_effect env e a)))" for e a
    using enqueue_inv [of "ap_playback a"]
    by (cases e) (auto simp: app_client_on_connected_def app_client_on_disconnected_def
        app_client_on_text_def app_client_on_error_def app_client_on_binary_def Let_def
        split: prod.split dest: sym, metis snd_conv)
  show "eq_inv (ap_events app) \<Longrightarrow> eq_inv (ap_events (app_effects env effs app))"
    unfolding app_effects_def by (induction effs arbitrary: app) (simp_all add: ev)
  show "ab_inv (pb_queue (ap_playback app)) \<Longrightarrow>
     ab_inv (pb_queue (ap_playback (app_effects env effs app)))"
    unfolding app_effects_def by (induction effs arbitrary: app) (simp_all add: pb)
qed

lemma set_uploading_inv [inv_intros]:
  "capture_inv cap \<Longrightarrow> capture_inv (audio_capture_set_uploading cap b)"
  by (simp add: audio_capture_set_uploading_def capture_inv_def Let_def)

lemma set_uploading_flag [simp]: "cap_uploading (audio_capture_set_uploading cap b) = b"
  by (simp add: audio_capture_set_uploading_def Let_def)

lemma set_uploading_capture [simp]:
  "ap_capture (app_set_uploading b app) = audio_capture_set_uploading (ap_capture app) b"
  by (simp add: app_set_uploading_def)

lemma set_state_session [simp]: "ap_session (app_set_state st app) = (ap_session app)\<lparr>ss_state := st\<rparr>"
  by (simp add: app_set_state_def)

subsection \<open>Operations on the runtime\<close>

text \<open>What queueing and starting do to the client, in terms of the invariant.\<close>

definition same_peer :: "('e, 'd) app_runtime \<Rightarrow> ('e, 'd) app_runtime \<Rightarrow> bool" where
  "same_peer a b \<longleftrightarrow> (client_inv (ap_client a) \<longrightarrow> client_inv (ap_client b)) \<and>
     cl_callbacks (ap_client b) = cl_callbacks (ap_client a) \<and>
     cl_running (ap_client b) = cl_running (ap_client a) \<and>
     cl_connected (ap_client b) = cl_connected (ap_client a)"

lemma same_peer_refl [simp]: "same_peer a a"
  by (simp add: same_peer_def)

lemma queue_text_peer: "same_peer app (snd (app_queue_text env s app))"
proof -
  obtain r c effs where q: "xiaozhi_client_queue_text (ae_realloc env) (ae_strdup env)
      (ap_client app) (Some s) = (r, c, effs)" using prod_cases3 by blast
  have "cl_connected c = cl_connected (ap_client app)"
    using q by (auto simp: xiaozhi_client_queue_text_def queue_text_reserve_def
        queue_text_append_def Let_def split: prod.splits if_splits)
  then show ?thesis
    using queue_text_inv [of "ap_client app" "ae_realloc env" "ae_strdup env" "Some s"]
      queue_text_same [of "ap_client app" "ae_realloc env" "ae_strdup env" "Some s"] q
    by (auto simp: app_queue_text_def same_peer_def same_client_def)
qed

lemma send_peer:
  "same_peer app (snd (app_send_hello env app))"
  "same_peer app (snd (app_send_listen_start env app))"
  "same_peer app (snd (app_send_listen_stop env app))"
  "same_peer app (snd (app_send_abort env app))"
  by (simp_all add: queue_text_peer app_send_hello_def app_send_listen_start_def app_send_listen_stop_def
      app_send_abort_def split: prod.split)

lemma client_start_peer:
  assumes "app_client_start env app = (r, app')"
  shows "client_inv (ap_client app) \<Longrightarrow> client_inv (ap_client app')"
    "cl_callbacks (ap_client app') = cl_callbacks (ap_client app)"
    "r = 0 \<Longrightarrow> cl_running (ap_client app')"
    "r \<noteq> 0 \<Longrightarrow> \<not> cl_running (ap_client app') \<and> \<not> cl_running (ap_client app)"
  using assms client_start_inv [of "ap_client app" "ae_thread env"] client_start_fields
  by (auto simp: app_client_start_def split: prod.splits)

lemma client_stop_peer:
  "client_inv (ap_client app) \<Longrightarrow> client_inv (ap_client (app_client_stop env app))"
  "cl_callbacks (ap_client (app_client_stop env app)) = cl_callbacks (ap_client app)"
  "\<not> cl_running (ap_client (app_client_stop env app))"
  "eq_inv (ap_events app) \<Longrightarrow> eq_inv (ap_events (app_client_stop env app))"
  "ab_inv (pb_queue (ap_playback app)) \<Longrightarrow>
     ab_inv (pb_queue (ap_playback (app_client_stop env app)))"
  using client_stop_inv [of "ap_client app" "ae_teardown env"] client_stop_fields
  by (auto simp: app_client_stop_def effects_inv split: prod.split)

subsection \<open>Actions\<close>

lemma app_okD:
  assumes "app_ok app"
  shows "eq_inv (ap_events app)" "client_inv (ap_client app)" "capture_inv (ap_capture app)"
    "ab_inv (pb_queue (ap_playback app))" "ap_dump_mutex_initialized app"
    "cl_callbacks (ap_client app) = app_callbacks" "length (ap_session_id app) < 64"
    "cap_uploading (ap_capture app) = ap_upload_enabled app"
  using assms by (simp_all add: app_ok_def)

lemmas ok_simps = app_ok_def push_event_inv set_uploading_inv client_stop_peer effects_inv

text \<open>The session id is cut to its field.\<close>

lemma push_event_ok [inv_intros]: "app_ok app \<Longrightarrow> app_ok (app_push_event app t m c)"
  by (simp add: ok_simps)

lemma same_peer_ok:
  assumes "app_ok a" and "same_peer a b" and "ap_events b = ap_events a"
    and "ap_capture b = ap_capture a" and "ap_playback b = ap_playback a"
    and "ap_dump_mutex_initialized b = ap_dump_mutex_initialized a"
    and "ap_session_id b = ap_session_id a" and "ap_upload_enabled b = ap_upload_enabled a"
  shows "app_ok b"
  using assms by (simp add: app_ok_def same_peer_def)

lemma send_ok [inv_intros]:
  assumes "app_ok app"
  shows "app_ok (snd (app_send_hello env app))" "app_ok (snd (app_send_listen_start env app))"
    "app_ok (snd (app_send_listen_stop env app))" "app_ok (snd (app_send_abort env app))"
  using send_peer [of app env] by (auto intro: same_peer_ok [OF assms])

lemma upload_off_ok [inv_intros]:
  "app_ok app \<Longrightarrow> app_ok (app_set_uploading b (app\<lparr>ap_upload_enabled := b\<rparr>))"
  by (simp add: ok_simps)

lemma close_dump_ok [inv_intros]: "app_ok app \<Longrightarrow> app_ok (app_close_opus_dump_file app)"
  by (simp add: ok_simps)

lemma open_dump_ok [inv_intros]: "app_ok app \<Longrightarrow> app_ok (snd (app_open_opus_dump_file env app))"
  by (simp add: ok_simps)

lemma set_state_ok [inv_intros]: "app_ok app \<Longrightarrow> app_ok (app_set_state st app)"
  by (simp add: ok_simps)

lemma client_start_ok [inv_intros]: "app_ok app \<Longrightarrow> app_ok (snd (app_client_start env app))"
  using client_start_peer(1,2) [of env app]
  by (cases "app_client_start env app") (auto simp: ok_simps dest!: arg_cong [where f = snd])

lemma client_stop_ok [inv_intros]: "app_ok app \<Longrightarrow> app_ok (app_client_stop env app)"
  by (simp add: ok_simps)

lemma client_start_same:
  assumes "app_client_start env app = (r, b)"
  shows "ap_session b = ap_session app" "ap_upload_enabled b = ap_upload_enabled app"
    "ap_session_id b = ap_session_id app" "ap_tts_done b = ap_tts_done app"
    "ap_dump_file b = ap_dump_file app" "ap_events b = ap_events app"
    "ap_stop_requested b = ap_stop_requested app" "ap_client_started b = ap_client_started app"
    "ap_config b = ap_config app"
  using client_start_frame [of env app] assms by simp_all

text \<open>Starting keeps the link between the running client and the application's flag.\<close>

lemma client_start_linked:
  assumes "client_linked app" and "app_client_start env app = (r, app')"
  shows "client_linked (if r = 0 then app'\<lparr>ap_client_started := True\<rparr> else app')"
proof -
  have "ap_client_started app' = ap_client_started app"
    using client_start_frame [of env app] assms(2) by (metis snd_conv)
  then show ?thesis
    using client_start_peer(3,4) [OF assms(2)] assms(1) by (simp add: client_linked_def)
qed

definition linked_ok :: "('e, 'd) app_runtime \<Rightarrow> bool" where
  "linked_ok app \<longleftrightarrow> app_ok app \<and> client_linked app"

lemma linked_ok_push [inv_intros]: "linked_ok app \<Longrightarrow> linked_ok (app_push_event app t m c)"
  by (simp add: linked_ok_def push_event_ok client_linked_def)

lemma linked_ok_same_peer:
  "linked_ok a \<Longrightarrow> app_ok b \<Longrightarrow> same_peer a b \<Longrightarrow> ap_client_started b = ap_client_started a \<Longrightarrow>
     linked_ok b"
  by (simp add: linked_ok_def client_linked_def same_peer_def)

lemma linked_ok_send [inv_intros]:
  assumes "linked_ok app"
  shows "linked_ok (snd (app_send_hello env app))" "linked_ok (snd (app_send_listen_start env app))"
    "linked_ok (snd (app_send_listen_stop env app))" "linked_ok (snd (app_send_abort env app))"
  using assms send_peer [of app env] send_ok [of app env]
  by (simp_all add: linked_ok_def client_linked_def same_peer_def)

lemma linked_ok_frame:
  assumes "linked_ok app"
  shows "linked_ok (app_set_uploading b (app\<lparr>ap_upload_enabled := b\<rparr>))"
    "linked_ok (app_close_opus_dump_file app)" "linked_ok (snd (app_open_opus_dump_file env app))"
    "linked_ok (app_set_state st app)" "linked_ok (app\<lparr>ap_tts_done := t\<rparr>)"
    "linked_ok (app\<lparr>ap_slept_us := n\<rparr>)" "linked_ok (app\<lparr>ap_session_id := []\<rparr>)"
    "linked_ok (app\<lparr>ap_playback := audio_playback_request_stop (ap_playback app)\<rparr>)"
    "linked_ok (app\<lparr>ap_session := ses\<rparr>)"
  using assms upload_off_ok [of app b] close_dump_ok [of app] open_dump_ok [of app env]
    set_state_ok [of app st]
  by (simp_all add: linked_ok_def client_linked_def)
     (simp_all add: app_ok_def audio_playback_request_stop_def)

declare linked_ok_frame [inv_intros]

lemma linked_ok_start:
  assumes "linked_ok app" and "app_client_start env app = (r, app')"
  shows "linked_ok (if r = 0 then app'\<lparr>ap_client_started := True\<rparr> else app')"
  using client_start_linked [of app env r app'] client_start_ok [of app env] assms
  by (simp add: linked_ok_def app_ok_def)

lemma linked_ok_restart:
  assumes "linked_ok app"
  shows "linked_ok ((if ap_client_started app then app_client_stop env app else app)
    \<lparr>ap_client_started := False\<rparr>)"
  using assms client_stop_ok [of app env] client_stop_peer(3) [of env app]
  by (auto simp: linked_ok_def client_linked_def app_ok_def)

lemma connect_kept:
  assumes "linked_ok app"
  shows "linked_ok (app_handle_connect env app) \<and>
    ap_upload_enabled (app_handle_connect env app) = ap_upload_enabled app \<and>
    ap_session (app_handle_connect env app) = ap_session app"
proof -
  let ?a = "app\<lparr>ap_session_id := [], ap_tts_done := False\<rparr>"
  obtain r b where start: "app_client_start env ?a = (r, b)" by fastforce
  have "linked_ok ?a" using assms by (simp add: linked_ok_def app_ok_def client_linked_def)
  from linked_ok_start [OF this start] show ?thesis
    using client_start_frame [of env ?a] start
    by (auto simp: app_handle_connect_def linked_ok_push split: if_splits)
qed

lemma start_listen_kept:
  assumes "linked_ok app" and "\<not> ap_upload_enabled app"
  shows "linked_ok (app_handle_start_listen env app)"
    and "ap_upload_enabled (app_handle_start_listen env app) \<Longrightarrow>
      ap_dump_file (app_handle_start_listen env app) \<noteq> None \<and>
      ap_session_id (app_handle_start_listen env app) = ap_session_id app \<and>
      ap_session_id app \<noteq> []"
    and "ap_session (app_handle_start_listen env app) = ap_session app \<or>
      ap_session (app_handle_start_listen env app) =
        (ap_session app)\<lparr>ss_state := SESSION_STATE_UPLOADING_AUDIO\<rparr>"
    and "ap_upload_enabled (app_handle_start_listen env app) \<Longrightarrow>
      ss_state (ap_session (app_handle_start_listen env app)) = SESSION_STATE_UPLOADING_AUDIO"
proof -
  obtain r1 a1 where send: "app_send_listen_start env app = (r1, a1)" by fastforce
  obtain r2 a2 where dump: "app_open_opus_dump_file env a1 = (r2, a2)" by fastforce
  have sid: "r1 = 0 \<Longrightarrow> ap_session_id app \<noteq> []"
    using send by (auto simp: app_send_listen_start_def split: if_splits)
  have dumping: "r2 = 0 \<Longrightarrow> ap_dump_file a2 \<noteq> None"
    using dump by (auto simp: app_open_opus_dump_file_def Let_def split: if_splits)
  have a1: "linked_ok a1" "ap_session a1 = ap_session app" "ap_session_id a1 = ap_session_id app"
    "\<not> ap_upload_enabled a1"
    using linked_ok_send(2) [OF assms(1), of env] send_listen_start_frame [of env app] send assms(2)
    by simp_all
  have a2: "linked_ok a2" "ap_session a2 = ap_session app" "ap_session_id a2 = ap_session_id app"
    "\<not> ap_upload_enabled a2"
    using linked_ok_frame(3) [OF a1(1), of env] open_dump_frame [of env a1] dump a1 by simp_all
  have up: "app_set_uploading True (app_set_state st (a2\<lparr>ap_upload_enabled := True\<rparr>)) =
      app_set_state st (app_set_uploading True (a2\<lparr>ap_upload_enabled := True\<rparr>))" for st
    by (simp add: app_set_uploading_def app_set_state_def)
  show "linked_ok (app_handle_start_listen env app)"
    using a1 a2 by (simp add: app_handle_start_listen_def send dump up linked_ok_push linked_ok_frame)
  show "ap_session (app_handle_start_listen env app) = ap_session app \<or>
      ap_session (app_handle_start_listen env app) =
        (ap_session app)\<lparr>ss_state := SESSION_STATE_UPLOADING_AUDIO\<rparr>"
    using a1 a2 by (simp add: app_handle_start_listen_def send dump)
  show "ap_upload_enabled (app_handle_start_listen env app) \<Longrightarrow>
      ap_dump_file (app_handle_start_listen env app) \<noteq> None \<and>
      ap_session_id (app_handle_start_listen env app) = ap_session_id app \<and>
      ap_session_id app \<noteq> []"
    "ap_upload_enabled (app_handle_start_listen env app) \<Longrightarrow>
      ss_state (ap_session (app_handle_start_listen env app)) = SESSION_STATE_UPLOADING_AUDIO"
    using a1 a2 sid dumping assms(2)
    by (simp_all add: app_handle_start_listen_def send dump split: if_splits)
qed

lemma abort_kept:
  assumes "linked_ok app"
  shows "linked_ok (app_handle_abort env app) \<and> \<not> ap_upload_enabled (app_handle_abort env app) \<and>
    ap_session (app_handle_abort env app) = ap_session app"
proof -
  let ?a1 = "app_close_opus_dump_file (app_set_uploading False (app\<lparr>ap_upload_enabled := False\<rparr>))"
  let ?a2 = "snd (app_send_abort env ?a1)"
  let ?a3 = "?a2\<lparr>ap_playback := audio_playback_request_stop (ap_playback ?a2)\<rparr>"
  let ?a4 = "if ap_client_started ?a3 then app_client_stop env ?a3 else ?a3"
  let ?a5 = "?a4\<lparr>ap_client_started := False, ap_session_id := []\<rparr>"
  have "linked_ok ?a3" using assms by (intro inv_intros)
  then have a5: "linked_ok ?a5"
    using linked_ok_frame(7) [OF linked_ok_restart [of ?a3 env]] by simp
  obtain r b where start: "app_client_start env ?a5 = (r, b)" by fastforce
  have "\<not> ap_upload_enabled b" "ap_session b = ap_session app"
    using client_start_same(1,2) [OF start] by simp_all
  moreover have "app_handle_abort env app =
      (if r = 0 then b\<lparr>ap_client_started := True\<rparr>
       else app_push_event b APP_EVENT_ERROR (Some ''failed to restart websocket client'') (- 1))"
    using start by (simp add: app_handle_abort_def Let_def)
  ultimately show ?thesis
    using linked_ok_start [OF a5 start] by (auto simp: linked_ok_push)
qed

lemma after_backoff_kept:
  assumes "linked_ok app"
  shows "linked_ok (app_after_backoff env app) \<and> \<not> ap_upload_enabled (app_after_backoff env app) \<and>
    ap_session (app_after_backoff env app) = (ap_session app)\<lparr>ss_state := SESSION_STATE_CONNECTING\<rparr>"
proof -
  let ?a1 = "app_set_uploading False (app\<lparr>ap_upload_enabled := False, ap_tts_done := False\<rparr>)"
  let ?a2 = "(app_close_opus_dump_file ?a1)\<lparr>ap_session_id := []\<rparr>"
  let ?a3 = "if ap_client_started ?a2 then (app_client_stop env ?a2)\<lparr>ap_client_started := False\<rparr> else ?a2"
  let ?a4 = "app_set_state SESSION_STATE_CONNECTING ?a3"
  have "linked_ok ?a1"
    using assms by (simp add: linked_ok_def app_ok_def client_linked_def set_uploading_inv)
  then have a2: "linked_ok ?a2" by (intro inv_intros)
  have "linked_ok ?a3"
    using a2 linked_ok_restart [OF a2, of env] by (cases "ap_client_started ?a2") simp_all
  then have a4: "linked_ok ?a4" by (rule linked_ok_frame)
  obtain r b where start: "app_client_start env ?a4 = (r, b)" by fastforce
  have "\<not> ap_upload_enabled b"
    "ap_session b = (ap_session app)\<lparr>ss_state := SESSION_STATE_CONNECTING\<rparr>"
    using client_start_same(1,2) [OF start] by simp_all
  moreover have "app_after_backoff env app = (if r = 0 then b\<lparr>ap_client_started := True\<rparr> else b)"
    using start by (simp add: app_after_backoff_def Let_def)
  ultimately show ?thesis
    using linked_ok_start [OF a4 start] by auto
qed

lemma return_to_wake_kept:
  assumes "linked_ok app"
  shows "linked_ok (app_handle_return_to_wake env app) \<and>
    \<not> ap_upload_enabled (app_handle_return_to_wake env app) \<and>
    ap_session (app_handle_return_to_wake env app) =
      (ap_session app)\<lparr>ss_state := SESSION_STATE_CONNECTING\<rparr>"
  using after_backoff_kept [of "app_sleep_backoff app" env] linked_ok_frame(6) [OF assms]
  by (simp add: app_handle_return_to_wake_def app_sleep_backoff_def)

lemma reset_kept:
  assumes "linked_ok app"
  shows "linked_ok (app_reset_to_idle app) \<and> \<not> ap_upload_enabled (app_reset_to_idle app) \<and>
    ss_state (ap_session (app_reset_to_idle app)) \<in> {SESSION_STATE_IDLE, SESSION_STATE_READY}"
proof -
  have "linked_ok (app\<lparr>ap_upload_enabled := False, ap_tts_done := False,
      ap_capture := audio_capture_set_uploading (ap_capture app) False\<rparr>)"
    using assms by (simp add: linked_ok_def app_ok_def client_linked_def set_uploading_inv)
  then have "linked_ok (app_close_opus_dump_file (app_set_uploading False
      (app\<lparr>ap_upload_enabled := False, ap_tts_done := False\<rparr>)))"
    unfolding app_set_uploading_def by (intro inv_intros) simp
  then show ?thesis by (auto simp: app_reset_to_idle_def Let_def intro: inv_intros)
qed

lemma app_invD:
  "app_inv app \<Longrightarrow> linked_ok app" "app_inv app \<Longrightarrow> upload_ok app" "app_inv app \<Longrightarrow> state_ok app"
  by (simp_all add: app_inv_def linked_ok_def)

lemma app_invI: "linked_ok app \<Longrightarrow> upload_ok app \<Longrightarrow> state_ok app \<Longrightarrow> app_inv app"
  by (simp add: app_inv_def linked_ok_def)

lemma upload_ok_off: "\<not> ap_upload_enabled app \<Longrightarrow> upload_ok app"
  by (simp add: upload_ok_def)

text \<open>The session machine and the action it asks for, as the main loop runs them.\<close>

lemma action_other:
  "a \<notin> {SESSION_ACTION_CONNECT, SESSION_ACTION_SEND_HELLO, SESSION_ACTION_START_LISTEN,
     SESSION_ACTION_STOP_LISTEN, SESSION_ACTION_ABORT, SESSION_ACTION_RETURN_TO_WAKE} \<Longrightarrow>
     app_handle_action env a app = app"
  by (cases a) (simp_all add: app_handle_action_def)

lemma hello_kept:
  assumes "linked_ok app"
  shows "linked_ok (app_handle_action env SESSION_ACTION_SEND_HELLO app) \<and>
    ap_session (app_handle_action env SESSION_ACTION_SEND_HELLO app) = ap_session app \<and>
    ap_upload_enabled (app_handle_action env SESSION_ACTION_SEND_HELLO app) = ap_upload_enabled app"
  using linked_ok_send(1) [OF assms, of env] send_hello_frame [of env app]
  by (cases "app_send_hello env app") (simp add: app_handle_action_def linked_ok_push)

lemma stop_listen_kept:
  assumes "linked_ok app"
  shows "linked_ok (app_handle_action env SESSION_ACTION_STOP_LISTEN app) \<and>
    ap_session (app_handle_action env SESSION_ACTION_STOP_LISTEN app) = ap_session app \<and>
    \<not> ap_upload_enabled (app_handle_action env SESSION_ACTION_STOP_LISTEN app)"
proof -
  let ?a = "app_close_opus_dump_file (app_set_uploading False (app\<lparr>ap_upload_enabled := False\<rparr>))"
  have "linked_ok ?a" using assms by (intro inv_intros)
  then show ?thesis
    using linked_ok_send(3) [of ?a env] send_listen_stop_frame [of env ?a]
    by (cases "app_send_listen_stop env ?a") (simp add: app_handle_action_def linked_ok_push)
qed

lemma session_event_inv:
  assumes "app_inv app"
  shows "app_inv (app_session_event env t app)"
proof -
  obtain ses a where ev: "session_handle_event (ap_session app) t = (ses, a)" by fastforce
  let ?b = "app\<lparr>ap_session := ses\<rparr>"
  have b: "linked_ok ?b" using app_invD(1) [OF assms] by (rule linked_ok_frame)
  have off: "\<not> ap_upload_enabled app"
    if "ss_state (ap_session app) \<noteq> SESSION_STATE_UPLOADING_AUDIO"
    using assms that by (auto simp: app_inv_def upload_ok_def)
  from ev have "app_inv (app_handle_action env a ?b)"
  proof (cases rule: session_handle_event_cases)
    case ignored
    then have "?b = app" by simp
    then show ?thesis using assms ignored by (simp add: app_handle_action_def)
  next
    case arrow
    then show ?thesis
    proof (cases rule: session_arrow.cases)
      case fail
      then show ?thesis
        using return_to_wake_kept [OF b, of env]
        by (auto simp: app_handle_action_def state_ok_def intro: app_invI upload_ok_off)
    next
      case connect
      then show ?thesis
        using connect_kept [OF b, of env] off
        by (auto simp: app_handle_action_def state_ok_def intro!: app_invI upload_ok_off)
    next
      case connected
      then show ?thesis
        using hello_kept [OF b, of env] off
        by (auto simp: state_ok_def intro!: app_invI upload_ok_off)
    next
      case hello
      then show ?thesis
        using b off by (auto simp: app_handle_action_def state_ok_def
            intro!: app_invI upload_ok_off)
    next
      case talk
      have "\<not> ap_upload_enabled ?b" using off talk by simp
      note start = start_listen_kept [OF b this, of env]
      have "ss_state ses = SESSION_STATE_UPLOADING_AUDIO" using talk by simp
      with start(3) have "ss_state (ap_session (app_handle_start_listen env ?b)) =
          SESSION_STATE_UPLOADING_AUDIO" by auto
      with start talk show ?thesis
        by (auto simp: app_handle_action_def state_ok_def upload_ok_def intro!: app_invI)
    next
      case stop
      then show ?thesis
        using stop_listen_kept [OF b, of env]
        by (auto simp: state_ok_def intro!: app_invI upload_ok_off)
    next
      case barge_in
      then show ?thesis
        using abort_kept [OF b, of env]
        by (auto simp: app_handle_action_def state_ok_def intro!: app_invI upload_ok_off)
    qed
  qed
  then show ?thesis by (simp add: app_session_event_def ev)
qed

lemma update_decoder_shape:
  obtains dec rate where "app_update_decoder_from_hello env event app =
    app\<lparr>ap_decoder := dec, ap_decoder_sample_rate := rate\<rparr>"
proof -
  define rate where "rate = (if xe_output_sample_rate event > 0 then xe_output_sample_rate event
      else ap_decoder_sample_rate app)"
  define chans where "chans = (if xe_output_channels event > 0 then xe_output_channels event else 1)"
  obtain r dec where init: "opus_decoder_wrapper_init (ae_opus env)
      (opus_decoder_wrapper_destroy (ap_decoder app)) rate chans = (r, dec)" by fastforce
  have keep: "app = app\<lparr>ap_decoder := ap_decoder app,
      ap_decoder_sample_rate := ap_decoder_sample_rate app\<rparr>" by simp
  have "app_update_decoder_from_hello env event app =
      (if rate = ap_decoder_sample_rate app \<and> chans = 1 then app
       else app\<lparr>ap_decoder := dec,
              ap_decoder_sample_rate := (if r = 0 then rate else ap_decoder_sample_rate app)\<rparr>)"
    unfolding app_update_decoder_from_hello_def Let_def rate_def [symmetric] chans_def [symmetric] init
    by simp
  then show thesis using that keep by (metis (full_types))
qed

lemma hello_data_inv:
  assumes "app_inv app"
  shows "app_inv (app_update_decoder_from_hello env event
    (if xe_session_id event \<noteq> [] then app\<lparr>ap_session_id := snprintf_buf 64 (xe_session_id event)\<rparr>
     else app))"
proof -
  let ?a = "if xe_session_id event \<noteq> [] then app\<lparr>ap_session_id := snprintf_buf 64 (xe_session_id event)\<rparr>
     else app"
  obtain dec rate where "app_update_decoder_from_hello env event ?a =
      ?a\<lparr>ap_decoder := dec, ap_decoder_sample_rate := rate\<rparr>"
    by (rule update_decoder_shape)
  moreover have "app_inv ?a"
    using assms by (simp add: app_inv_defs snprintf_buf_empty_iff)
  ultimately show ?thesis by (simp add: app_inv_defs)
qed

lemma protocol_event_inv:
  assumes "app_inv app"
  shows "app_inv (app_handle_protocol_event env event app)"
proof -
  have quiet: "linked_ok (app_set_state st (app_set_uploading False (app\<lparr>ap_upload_enabled := False\<rparr>)))" for st
    using app_invD(1) [OF assms] by (intro inv_intros)
  have speak: "app_inv ((app_set_state SESSION_STATE_PLAYING_TTS
      (app_set_uploading False (app\<lparr>ap_upload_enabled := False\<rparr>)))\<lparr>ap_tts_done := False\<rparr>)"
    by (rule app_invI [OF linked_ok_frame(5) [OF quiet]]) (simp_all add: upload_ok_def state_ok_def)
  have "app_inv (app_reset_to_idle (app\<lparr>ap_tts_done := True\<rparr>))"
    using reset_kept [OF linked_ok_frame(5) [OF app_invD(1) [OF assms]], of True]
    by (auto simp: state_ok_def intro!: app_invI upload_ok_off)
  moreover have "app_inv (app\<lparr>ap_tts_done := True\<rparr>)"
    using assms by (simp add: app_inv_defs)
  ultimately show ?thesis
    using assms speak session_event_inv [OF hello_data_inv [OF assms], of env APP_EVENT_WS_HELLO env event]
    by (cases "xe_type event") (simp_all add: app_handle_protocol_event_def Let_def)
qed

lemma dispatch_inv:
  assumes "app_inv app"
  shows "app_inv (app_dispatch env event app)"
proof -
  have "app_inv (app_reset_to_idle app)"
    using reset_kept [OF app_invD(1) [OF assms]]
    by (auto simp: state_ok_def intro!: app_invI upload_ok_off)
  moreover have "app_inv (app\<lparr>ap_stop_requested := True\<rparr>)"
    using assms by (simp add: app_inv_defs)
  ultimately show ?thesis
    using assms by (cases "ev_type event")
      (simp_all add: app_dispatch_def session_event_inv protocol_event_inv split: prod.split)
qed

lemma push_app_inv [inv_intros]: "app_inv app \<Longrightarrow> app_inv (app_push_event app t m c)"
  by (simp add: app_inv_defs push_event_inv)

lemma request_stop_inv: "app_inv app \<Longrightarrow> app_inv (app_request_stop app)"
  unfolding app_request_stop_def by (rule push_app_inv) (simp add: app_inv_defs)

lemma poll_stdin_inv: "app_inv app \<Longrightarrow> app_inv (app_poll_stdin input app)"
  by (cases input)
     (simp_all add: app_poll_stdin_def app_handle_manual_line_def request_stop_inv push_app_inv)

subsection \<open>The other threads\<close>

lemma try_pop_inv:
  assumes "app_inv app" and "event_queue_try_pop (ap_events app) = Some (e, q)"
  shows "app_inv (app\<lparr>ap_events := q\<rparr>)"
proof -
  have ev: "eq_inv (ap_events app)" using assms(1) by (simp add: app_inv_defs)
  have "eq_contents (ap_events app) \<noteq> []"
    using assms(2) eq_try_pop_empty length_eq_contents [of "ap_events app"] by force
  then obtain x xs where "eq_contents (ap_events app) = x # xs" by (cases "eq_contents (ap_events app)") auto
  from eq_try_pop_first [OF ev this] assms have "eq_inv q" by auto
  then show ?thesis using assms(1) by (simp add: app_inv_defs)
qed

text \<open>
  The part of the invariant that does not speak of the session's state. The other threads keep it
  in every state, and they change neither the session nor the upload flag.
\<close>

definition core_inv :: "('e, 'd) app_runtime \<Rightarrow> bool" where
  "core_inv app \<longleftrightarrow> linked_ok app \<and>
     (ap_upload_enabled app \<longrightarrow> ap_dump_file app \<noteq> None \<and> ap_session_id app \<noteq> [])"

lemmas core_inv_defs = core_inv_def linked_ok_def app_ok_def client_linked_def

lemma app_inv_core:
  "app_inv app \<longleftrightarrow> core_inv app \<and> state_ok app \<and>
     (ap_upload_enabled app \<longrightarrow> ss_state (ap_session app) = SESSION_STATE_UPLOADING_AUDIO)"
  by (auto simp: app_inv_def core_inv_def upload_ok_def linked_ok_def)

lemma core_inv_session [simp]: "core_inv (app\<lparr>ap_session := ses\<rparr>) = core_inv app"
  by (simp add: core_inv_defs)

lemma network_core:
  assumes "core_inv app" and "client_inv c" and "same_client (ap_client app) c"
  shows "core_inv (app_effects env effs (app\<lparr>ap_client := c\<rparr>))"
  using assms by (simp add: core_inv_defs same_client_def effects_inv)

lemma capture_core:
  assumes "core_inv app" and "n \<le> 1000000"
    and "capture_period up n buf (ap_capture app) (ap_events app) = (cap, q, out)"
  shows "core_inv (app\<lparr>ap_capture := cap, ap_events := q\<rparr>)"
proof -
  have "capture_do (Period up n buf) (ap_capture app, ap_events app) = (cap, q)"
    using assms(3) by simp
  then have "capture_inv cap" "eq_inv q"
    using capture_do_inv [of "ap_capture app" "Period up n buf" "ap_events app"] assms
    by (simp_all add: core_inv_defs sane_step_def)
  moreover have "cap_uploading cap = cap_uploading (ap_capture app)"
    using assms(3) by (auto simp: capture_period_def Let_def split: if_splits)
  ultimately show ?thesis using assms(1) by (simp add: core_inv_defs)
qed

lemma on_pcm_core:
  assumes "core_inv app"
  shows "core_inv (app_capture_on_pcm env pcm frames app)"
proof (cases "ap_upload_enabled app")
  case False
  then show ?thesis using assms by (simp add: app_capture_on_pcm_def)
next
  case True
  obtain n packet enc where en: "opus_encode_frame (ae_opus env) (ap_encoder app) pcm (int frames) 512
      = (n, packet, enc)" using prod_cases3 by blast
  let ?a = "app\<lparr>ap_encoder := enc\<rparr>"
  have a: "core_inv ?a" using assms by (simp add: core_inv_defs)
  obtain r b where w: "app_write_opus_packet env ?a (take (nat n) packet) = (r, b)" by fastforce
  have "ap_dump_file app \<noteq> None" using assms True by (simp add: core_inv_def)
  then have "ap_dump_file b \<noteq> None"
    using w by (auto simp: app_write_opus_packet_def Let_def split: if_splits option.splits)
  then have b: "core_inv b"
    using a write_packet_frame [of env ?a "take (nat n) packet"] w by (simp add: core_inv_defs)
  have "core_inv (snd (app_queue_binary p b))" for p
    using b queue_binary_inv [of "ap_client b" p] queue_binary_same [of "ap_client b" p]
    by (auto simp: app_queue_binary_def core_inv_defs same_client_def split: prod.split)
  then show ?thesis
    using True a by (auto simp: app_capture_on_pcm_def en w Let_def split: prod.split)
       (metis snd_conv)
qed

lemma playback_take_inv:
  assumes "playback_take dev w = (st, w', blk)" and "ab_inv (pb_queue (pw_pb w))"
    and "eq_inv (pw_events w)"
  shows "ab_inv (pb_queue (pw_pb w')) \<and> eq_inv (pw_events w')"
proof -
  have fin: "eq_inv (push_playback_finished pb q)" if "eq_inv q" for pb q
    using that eq_push_inv by (simp add: push_playback_finished_def)
  obtain r b q1 where pop: "audio_buffer_pop (pb_queue (pw_pb w)) = (r, b, q1)"
    using prod_cases3 by blast
  have "ab_inv q1" using ab_pop_inv [OF assms(2) pop] by simp
  then show ?thesis
    using assms fin pop
    by (auto simp: playback_take_def Let_def split: if_splits option.splits prod.splits)
qed

lemma playback_write_inv:
  assumes "playback_write dev blk k w = Some w'" and "eq_inv (pw_events w)"
  shows "pw_pb w' = pw_pb w \<and> eq_inv (pw_events w')"
proof -
  have "eq_inv (push_playback_finished pb q)" if "eq_inv q" for pb q
    using that eq_push_inv by (simp add: push_playback_finished_def)
  then show ?thesis
    using assms by (auto simp: playback_write_def Let_def split: if_splits option.splits prod.splits)
qed

subsection \<open>Initialisation establishes the invariant\<close>

lemma playback_init_inv:
  assumes "audio_playback_init alloc created cfg has_events = (0, pb)"
  shows "ab_inv (pb_queue pb)"
proof -
  obtain n m where "audio_buffer_init alloc n m zero_audio_buffer = (0, pb_queue pb)"
    using assms by (auto simp: audio_playback_init_def Let_def split: prod.splits if_splits)
  then show ?thesis using audio_buffer_init_ok by blast
qed

lemma client_init_fields:
  "xiaozhi_client_init alloc (Some cfg) (Some cb) c0 = (0, c) \<Longrightarrow>
     cl_callbacks c = cb \<and> cl_config c = cfg \<and> \<not> cl_running c \<and> \<not> cl_connected c"
  by (auto simp: xiaozhi_client_init_def zero_client_def Let_def split: if_splits prod.splits)

lemma init_runtime_inv:
  assumes "app_init_runtime_modules env ienv app = (0, b)" and "eq_inv (ap_events app)"
    and "\<not> ap_client_started app" and "\<not> ap_upload_enabled app"
    and "length (ap_session_id app) < 64" and "state_ok app"
  shows "app_inv b \<and> ap_runtime_modules_initialized b"
proof -
  let ?cfg = "ap_config app"
  obtain r1 client where client: "xiaozhi_client_init (ie_client ienv) (Some (app_client_config ?cfg))
      (Some app_callbacks) (ap_client app) = (r1, client)" by fastforce
  obtain r2 enc where enc: "opus_encoder_wrapper_init (ae_opus env) (ap_encoder app)
      (au_input_sample_rate (cf_audio ?cfg)) 1 60 = (r2, enc)" by fastforce
  obtain r3 dec where dec: "opus_decoder_wrapper_init (ae_opus env) (ap_decoder app) 24000 1 = (r3, dec)"
    by fastforce
  obtain r4 pb where pb: "audio_playback_init (ie_playback ienv) (ie_playback_thread ienv)
      (Some (app_playback_config ?cfg)) True = (r4, pb)" by fastforce
  obtain r5 cap where cap: "audio_capture_start (ie_capture_thread ienv)
      (Some (app_capture_config ?cfg)) True True = (r5, cap)" by fastforce
  have zero: "r1 = 0" "r4 = 0" "r5 = 0" and
    b: "b = app\<lparr>ap_dump_mutex_initialized := True, ap_client := client, ap_encoder := enc,
      ap_decoder := dec, ap_decoder_sample_rate := 24000, ap_playback := pb, ap_capture := cap,
      ap_runtime_modules_initialized := True\<rparr>"
    using assms(1) client enc dec pb cap
    by (simp_all add: app_init_runtime_modules_def Let_def split: if_splits)
  show ?thesis
    using assms(2-6) client_init_inv [OF client [unfolded zero]]
      client_init_fields [OF client [unfolded zero]] playback_init_inv [OF pb [unfolded zero]]
      capture_start_inv [OF cap [unfolded zero]]
    by (simp add: b app_inv_defs)
qed

lemma app_init_inv:
  assumes "app_init env ienv a opts = (0, app)" and "ap_runtime_modules_initialized app"
  shows "app_inv app"
proof -
  let ?opts = "case opts of None \<Rightarrow> zero_options | Some given \<Rightarrow> given"
  let ?path = "case op_config_path ?opts of None \<Rightarrow> ''config/xiaozhi.ini'' | Some p \<Rightarrow> p"
  obtain r1 cfg err where load: "config_load_file (Some ?path) (ie_file ienv) zero_config (Some []) 256
      = (r1, cfg, err)" using prod_cases3 by blast
  obtain r2 q where q: "event_queue_init (ie_queue ienv) 64 zero_event_queue = (r2, q)" by fastforce
  let ?app2 = "app_fill_default_ids ((app_clear a)\<lparr>ap_options := ?opts, ap_config := cfg,
      ap_log_level := app_parse_log_level (Some (rt_log_level (cf_runtime cfg)))\<rparr>)"
  let ?app4 = "?app2\<lparr>ap_events := q, ap_session := session_init (ap_session ?app2),
      ap_check_only := op_check_only ?opts, ap_skip_runtime_init := op_skip_runtime_init ?opts,
      ap_initialized := True\<rparr>"
  obtain r3 app5 where boot: "app_bootstrap_ota (ota_fetch (ie_ota ienv)) ?app4 = (r3, app5)" by fastforce
  obtain r4 app6 where rt: "app_init_runtime_modules env ienv app5 = (r4, app6)" by fastforce
  have fresh: "ap_events ?app2 = zero_event_queue" "\<not> ap_runtime_modules_initialized ?app4"
    "\<not> ap_client_started ?app4" "\<not> ap_upload_enabled ?app4" "ap_session_id ?app4 = []"
    "ss_state (ap_session ?app4) = SESSION_STATE_IDLE"
    by (simp_all add: app_fill_default_ids_def app_clear_def session_init_def Let_def)
  have same: "ap_events app5 = q" "\<not> ap_runtime_modules_initialized app5"
    "\<not> ap_client_started app5" "\<not> ap_upload_enabled app5" "ap_session_id app5 = []"
    "ss_state (ap_session app5) = SESSION_STATE_IDLE"
    using boot fresh(2-) by (auto simp: app_bootstrap_ota_def Let_def split: prod.splits if_splits)
  have zero: "r2 = 0" "r4 = 0" "app = app6"
    using assms load q boot rt fresh same
    by (auto simp: app_init_def Let_def app_clear_def [of a] split: if_splits)
  have "eq_inv q" using event_queue_init_ok q zero(1) by blast
  then show ?thesis
    using init_runtime_inv [OF rt [unfolded zero(2)]] same zero(3) by (simp add: state_ok_def)
qed

lemma run_begin_inv:
  assumes "app_inv app" and "app_run_begin env app = Inr app'"
  shows "app_inv app'"
proof -
  let ?a = "app_reset_to_idle app"
  have a: "app_inv ?a" "linked_ok ?a" "\<not> ap_upload_enabled ?a"
    using reset_kept [OF app_invD(1) [OF assms(1)]]
    by (auto simp: state_ok_def intro!: app_invI upload_ok_off)
  have "linked_ok (app_set_state SESSION_STATE_CONNECTING ?a)" using a(2) by (rule linked_ok_frame)
  from connect_kept [OF this, of env] have
    "app_inv (app_handle_connect env (app_set_state SESSION_STATE_CONNECTING ?a))"
    using a(3) by (auto simp: state_ok_def intro!: app_invI upload_ok_off)
  then show ?thesis
    using assms(2) a(1)
    by (auto simp: app_run_begin_def app_handle_action_def Let_def split: if_splits)
qed

end
