(* ===== verification/App_Boot.thy ===== *)
theory App_Boot
  imports App_Invariant
begin

section \<open>Starting the client\<close>

text \<open>
  \<open>app_init\<close> from the configuration file and the OTA answer to a running set of modules, and
  what \<open>app_run\<close> makes of its outcomes.
\<close>

subsection \<open>Each module can be initialised\<close>

lemma audio_buffer_init_rc: "fst (audio_buffer_init alloc n m b) = 0 \<longleftrightarrow> alloc \<and> 0 < n \<and> 0 < m"
  by (auto simp: audio_buffer_init_def)

lemma client_init_rc:
  "fst (xiaozhi_client_init alloc (Some cfg) cb c) = 0 \<longleftrightarrow> alloc \<and> xc_url cfg \<noteq> []"
  using audio_buffer_init_rc [of alloc 32 4096]
  by (auto simp: xiaozhi_client_init_def Let_def split: prod.split) (metis fst_conv)+

lemma playback_init_rc:
  "fst (audio_playback_init alloc created (Some (app_playback_config cfg)) ev) = 0 \<longleftrightarrow>
     alloc \<and> created"
  using audio_buffer_init_rc [of alloc 32 8192]
  by (auto simp: audio_playback_init_def app_playback_config_def Let_def split: prod.split)
     (metis fst_conv)+

lemma capture_start_rc: "fst (audio_capture_start created cfg cb ev) = 0 \<longleftrightarrow> created"
  unfolding audio_capture_start_def Let_def by (simp only: if_distrib [of fst] fst_conv) simp

text \<open>What \<open>app_init_runtime_modules\<close> needs to succeed.\<close>

definition modules_available ::
    "('e, 'd) app_env \<Rightarrow> init_env \<Rightarrow> Config.app_config \<Rightarrow> ('e, 'd) app_runtime \<Rightarrow> bool" where
  "modules_available env ienv cfg app \<longleftrightarrow>
     ie_client ienv \<and> ie_playback ienv \<and> ie_playback_thread ienv \<and> ie_capture_thread ienv \<and>
     sv_url (cf_server cfg) \<noteq> [] \<and>
     fst (opus_encoder_wrapper_init (ae_opus env) (ap_encoder app)
            (au_input_sample_rate (cf_audio cfg)) 1 60) = 0 \<and>
     fst (opus_decoder_wrapper_init (ae_opus env) (ap_decoder app) 24000 1) = 0"

lemma init_runtime_rc:
  "fst (app_init_runtime_modules env ienv app) = 0 \<longleftrightarrow> modules_available env ienv (ap_config app) app"
proof -
  let ?cfg = "ap_config app"
  have url: "xc_url (app_client_config ?cfg) \<noteq> [] \<longleftrightarrow> sv_url (cf_server ?cfg) \<noteq> []"
    by (simp add: app_client_config_def snprintf_buf_empty_iff)
  obtain r1 c where client: "xiaozhi_client_init (ie_client ienv) (Some (app_client_config ?cfg))
      (Some app_callbacks) (ap_client app) = (r1, c)" by fastforce
  obtain r2 enc where enc: "opus_encoder_wrapper_init (ae_opus env) (ap_encoder app)
      (au_input_sample_rate (cf_audio ?cfg)) 1 60 = (r2, enc)" by fastforce
  obtain r3 dec where dec: "opus_decoder_wrapper_init (ae_opus env) (ap_decoder app) 24000 1 = (r3, dec)"
    by fastforce
  obtain r4 pb where pb: "audio_playback_init (ie_playback ienv) (ie_playback_thread ienv)
      (Some (app_playback_config ?cfg)) True = (r4, pb)" by fastforce
  obtain r5 cap where cap: "audio_capture_start (ie_capture_thread ienv)
      (Some (app_capture_config ?cfg)) True True = (r5, cap)" by fastforce
  show ?thesis
    using client_init_rc [of "ie_client ienv" "app_client_config ?cfg" "Some app_callbacks" "ap_client app"]
      playback_init_rc [of "ie_playback ienv" "ie_playback_thread ienv" ?cfg True]
      capture_start_rc [of "ie_capture_thread ienv" "Some (app_capture_config ?cfg)" True True]
    by (auto simp: app_init_runtime_modules_def modules_available_def Let_def client enc dec pb cap url)
qed

subsection \<open>The whole of \<open>app_init\<close>\<close>

definition options_of :: "app_options option \<Rightarrow> app_options" where
  "options_of opts = (case opts of None \<Rightarrow> zero_options | Some given \<Rightarrow> given)"

definition config_path :: "app_options \<Rightarrow> string" where
  "config_path opts = (case op_config_path opts of None \<Rightarrow> ''config/xiaozhi.ini'' | Some p \<Rightarrow> p)"

definition with_default_ids :: "Config.app_config \<Rightarrow> Config.app_config" where
  "with_default_ids cfg = cfg\<lparr>cf_device :=
     \<lparr>dc_device_id = (if dc_device_id (cf_device cfg) = [] then ''desktop-device''
                      else dc_device_id (cf_device cfg)),
      dc_client_id = (if dc_client_id (cf_device cfg) = [] then ''desktop-client''
                      else dc_client_id (cf_device cfg))\<rparr>\<rparr>"

text \<open>The server's settings replace those of the file, each on its own, unless it sent none.\<close>

definition with_ota :: "ota_response \<Rightarrow> Config.app_config \<Rightarrow> Config.app_config" where
  "with_ota response cfg = cfg\<lparr>cf_server := (cf_server cfg)
     \<lparr>sv_url := (if ow_url (or_websocket response) \<noteq> [] then snprintf_buf 256 (ow_url (or_websocket response))
                 else sv_url (cf_server cfg)),
      sv_token := (if ow_token (or_websocket response) \<noteq> []
                   then snprintf_buf 256 (ow_token (or_websocket response))
                   else sv_token (cf_server cfg))\<rparr>\<rparr>"

definition fetcher_of :: "init_env \<Rightarrow> app_options \<Rightarrow> ota_fetch_fn" where
  "fetcher_of ienv opts = (case op_ota_fetch opts of None \<Rightarrow> ota_fetch (ie_ota ienv) | Some f \<Rightarrow> f)"

lemma fill_default_ids: "app_fill_default_ids app = app\<lparr>ap_config := with_default_ids (ap_config app)\<rparr>"
  by (simp add: app_fill_default_ids_def with_default_ids_def Let_def)

lemma bootstrap_ota:
  assumes "(case op_ota_fetch (ap_options app) of None \<Rightarrow> f | Some g \<Rightarrow> g)
      (ap_config app) (ap_ota_response app) (Some []) 256 = (0, response, err)"
  shows "app_bootstrap_ota f app =
    (if or_activation_required response
     then (0, app\<lparr>ap_ota_response := response, ap_config := with_ota response (ap_config app),
                  ap_activation_pending := True\<rparr>)
     else (if sv_url (cf_server (with_ota response (ap_config app))) = [] then - 1 else 0,
           app\<lparr>ap_ota_response := response, ap_config := with_ota response (ap_config app)\<rparr>))"
  unfolding app_bootstrap_ota_def Let_def assms
  by (simp add: with_ota_def)

text \<open>What is in the runtime when the configuration has been read and the queue made.\<close>

definition loaded_app ::
    "('e, 'd) app_runtime \<Rightarrow> app_options \<Rightarrow> Config.app_config \<Rightarrow> event_queue \<Rightarrow> ('e, 'd) app_runtime" where
  "loaded_app a opts cfg q = (app_clear a)
     \<lparr>ap_options := opts, ap_config := with_default_ids cfg, ap_events := q,
      ap_log_level := app_parse_log_level (Some (rt_log_level (cf_runtime cfg))),
      ap_check_only := op_check_only opts, ap_skip_runtime_init := op_skip_runtime_init opts,
      ap_initialized := True\<rparr>"

lemma app_init_loaded:
  assumes "config_load_file (Some (config_path (options_of opts))) (ie_file ienv) zero_config
      (Some []) 256 = (0, cfg, err)"
    and "event_queue_init (ie_queue ienv) 64 zero_event_queue = (0, q)"
  shows "app_init env ienv a opts =
    (let app = loaded_app a (options_of opts) cfg q in
     if op_check_only (options_of opts) then (0, app)
     else
       (let (r, app1) = app_bootstrap_ota (ota_fetch (ie_ota ienv)) app
        in if r \<noteq> 0 then (- 1, app1)
           else if ap_activation_pending app1 \<or> ap_skip_runtime_init app1 then (0, app1)
           else
             (let (r2, app2) = app_init_runtime_modules env ienv app1
              in (if r2 \<noteq> 0 then - 1 else 0, app2))))"
proof -
  let ?o = "options_of opts"
  have load: "config_load_file (Some (case op_config_path ?o of None \<Rightarrow> ''config/xiaozhi.ini'' | Some p \<Rightarrow> p))
      (ie_file ienv) (ap_config ((app_clear a)\<lparr>ap_options := ?o\<rparr>)) (Some []) 256 = (0, cfg, err)"
    using assms(1) by (simp add: config_path_def app_clear_def)
  let ?l = "app_fill_default_ids ((app_clear a)\<lparr>ap_options := ?o, ap_config := cfg,
      ap_log_level := app_parse_log_level (Some (rt_log_level (cf_runtime cfg)))\<rparr>)"
  have queue: "event_queue_init (ie_queue ienv) 64 (ap_events ?l) = (0, q)"
    using assms(2) by (simp add: fill_default_ids app_clear_def)
  have loaded: "?l\<lparr>ap_events := q\<rparr>\<lparr>ap_session := session_init (ap_session (?l\<lparr>ap_events := q\<rparr>)),
      ap_check_only := op_check_only ?o, ap_skip_runtime_init := op_skip_runtime_init ?o,
      ap_initialized := True\<rparr> = loaded_app a ?o cfg q"
    by (simp add: fill_default_ids loaded_app_def app_clear_def session_init_def)
  have flag: "ap_check_only (loaded_app a ?o cfg q) = op_check_only ?o"
    by (simp add: loaded_app_def)
  show ?thesis
    unfolding app_init_def options_of_def [symmetric] Let_def load prod.case queue loaded flag
    by (simp add: Let_def split: prod.split)
qed

lemma event_queue_init_alloc:
  "event_queue_init True 64 q0 =
     (0, zero_event_queue\<lparr>eq_items := replicate 64 zero_event, eq_capacity := 64\<rparr>)"
  by (simp add: event_queue_init_def)

lemma app_init_ready_run:
  assumes "config_load_file (Some (config_path (options_of opts))) (ie_file ienv) zero_config
      (Some []) 256 = (0, cfg, err)"
    and "ie_queue ienv" and "\<not> op_check_only (options_of opts)"
    and "\<not> op_skip_runtime_init (options_of opts)"
    and "fetcher_of ienv (options_of opts) (with_default_ids cfg) zero_ota_response (Some []) 256 =
      (0, response, err2)"
    and "\<not> or_activation_required response"
    and "cfg' = with_ota response (with_default_ids cfg)"
    and "app_init env ienv a opts = (r, app)"
  shows "(r = 0 \<longleftrightarrow> sv_url (cf_server cfg') \<noteq> [] \<and> modules_available env ienv cfg' (app_clear a)) \<and>
    (r = 0 \<longrightarrow> ap_runtime_modules_initialized app \<and> ap_initialized app \<and>
       \<not> ap_activation_pending app \<and> \<not> ap_skip_runtime_init app \<and> ap_config app = cfg' \<and>
       cl_config (ap_client app) = app_client_config cfg')"
proof -
  let ?o = "options_of opts"
  obtain q where q: "event_queue_init (ie_queue ienv) 64 zero_event_queue = (0, q)"
    using assms(2) event_queue_init_alloc by simp
  let ?l = "loaded_app a ?o cfg q"
  let ?b = "?l\<lparr>ap_ota_response := response, ap_config := cfg'\<rparr>"
  have l: "ap_options ?l = ?o" "ap_config ?l = with_default_ids cfg"
    "ap_ota_response ?l = zero_ota_response" "\<not> ap_activation_pending ?l"
    "ap_skip_runtime_init ?l = op_skip_runtime_init ?o" "ap_initialized ?l"
    "ap_encoder ?l = ap_encoder (app_clear a)" "ap_decoder ?l = ap_decoder (app_clear a)"
    by (simp_all add: loaded_app_def app_clear_def)
  have boot: "app_bootstrap_ota (ota_fetch (ie_ota ienv)) ?l =
      (if sv_url (cf_server cfg') = [] then - 1 else 0, ?b)"
    using bootstrap_ota [of "ota_fetch (ie_ota ienv)" ?l response err2] assms(5,6)
    by (simp add: l assms(7) fetcher_of_def)
  obtain r2 c where rt: "app_init_runtime_modules env ienv ?b = (r2, c)" by fastforce
  have rc: "r2 = 0 \<longleftrightarrow> modules_available env ienv cfg' (app_clear a)"
    using init_runtime_rc [of env ienv ?b] rt l(7,8) by (simp add: modules_available_def)
  have ready: "ap_runtime_modules_initialized c \<and> ap_initialized c \<and> \<not> ap_activation_pending c \<and>
      \<not> ap_skip_runtime_init c \<and> ap_config c = cfg' \<and> cl_config (ap_client c) = app_client_config cfg'" if "r2 = 0"
  proof -
    obtain r1 client where client: "xiaozhi_client_init (ie_client ienv)
        (Some (app_client_config cfg')) (Some app_callbacks) (ap_client ?b) = (r1, client)"
      by fastforce
    have "r1 = 0" "ap_runtime_modules_initialized c" "ap_initialized c" "\<not> ap_activation_pending c"
      "\<not> ap_skip_runtime_init c" "ap_config c = cfg'" "ap_client c = client"
      using rt that l(4-6) assms(4) client
      by (auto simp: app_init_runtime_modules_def Let_def split: prod.splits if_splits)
    then show ?thesis using client_init_fields client by metis
  qed
  have "(r, app) = (if sv_url (cf_server cfg') = [] then (- 1, ?b) else (if r2 \<noteq> 0 then - 1 else 0, c))"
    using assms(8) app_init_loaded [OF assms(1) q, of env a] assms(3,4) boot rt l(4,5)
    by (simp add: Let_def split: if_splits)
  then show ?thesis using rc ready by (auto split: if_splits)
qed

lemma app_init_rc: "app_init env ienv a opts = (r, app) \<Longrightarrow> r = 0 \<or> r = - 1"
  unfolding app_init_def Let_def by (auto split: prod.splits if_splits)

text \<open>The stages of the start that come before the modules, each with its end.\<close>

lemma app_init_unloaded:
  assumes "config_load_file (Some (config_path (options_of opts))) (ie_file ienv) zero_config
      (Some []) 256 = (l, cfg, err)"
    and "l \<noteq> 0 \<or> \<not> ie_queue ienv"
  shows "fst (app_init env ienv a opts) = - 1 \<and>
    \<not> ap_runtime_modules_initialized (snd (app_init env ienv a opts))"
proof -
  have load: "config_load_file (Some (case op_config_path (options_of opts) of
      None \<Rightarrow> ''config/xiaozhi.ini'' | Some p \<Rightarrow> p)) (ie_file ienv)
      (ap_config ((app_clear a)\<lparr>ap_options := options_of opts\<rparr>)) (Some []) 256 = (l, cfg, err)"
    using assms(1) by (simp add: config_path_def app_clear_def)
  let ?p = "(app_clear a)\<lparr>ap_options := options_of opts, ap_config := cfg,
      ap_log_level := app_parse_log_level (Some (rt_log_level (cf_runtime cfg)))\<rparr>"
  show ?thesis
  proof (cases "l = 0")
    case False
    then show ?thesis
      unfolding app_init_def options_of_def [symmetric] Let_def load prod.case by (simp add: app_clear_def)
  next
    case True
    then have "\<not> ie_queue ienv" using assms(2) by simp
    then obtain r q where "r \<noteq> 0" "event_queue_init (ie_queue ienv) 64 (ap_events (app_fill_default_ids ?p)) = (r, q)"
      by (cases "event_queue_init False 64 (ap_events (app_fill_default_ids ?p))")
         (auto simp: event_queue_init_def)
    with True show ?thesis
      unfolding app_init_def options_of_def [symmetric] Let_def load prod.case
      by (simp add: fill_default_ids app_clear_def)
  qed
qed

lemma app_init_before_modules:
  assumes "config_load_file (Some (config_path (options_of opts))) (ie_file ienv) zero_config
      (Some []) 256 = (0, cfg, err)"
    and "ie_queue ienv"
    and "fetcher_of ienv (options_of opts) (with_default_ids cfg) zero_ota_response (Some []) 256 =
      (f, response, err2)"
    and "app_init env ienv a opts = (r, app)"
  shows "op_check_only (options_of opts) \<Longrightarrow> r = 0 \<and> ap_initialized app \<and>
      \<not> ap_runtime_modules_initialized app \<and> ap_ota_response app = zero_ota_response"
    and "\<not> op_check_only (options_of opts) \<Longrightarrow> f \<noteq> 0 \<Longrightarrow> r = - 1 \<and> \<not> ap_runtime_modules_initialized app"
    and "\<not> op_check_only (options_of opts) \<Longrightarrow> f = 0 \<Longrightarrow> or_activation_required response \<Longrightarrow>
      r = 0 \<and> \<not> ap_runtime_modules_initialized app \<and> app_run_begin env app = Inl 1 \<and>
      (oa_code (or_activation response) \<noteq> [] \<longrightarrow>
         ''activation code: '' @ oa_code (or_activation response) \<in> set (app_log_activation_required app))"
    and "\<not> op_check_only (options_of opts) \<Longrightarrow> f = 0 \<Longrightarrow> \<not> or_activation_required response \<Longrightarrow>
      sv_url (cf_server (with_ota response (with_default_ids cfg))) = [] \<Longrightarrow>
      r = - 1 \<and> \<not> ap_runtime_modules_initialized app"
    and "\<not> op_check_only (options_of opts) \<Longrightarrow> f = 0 \<Longrightarrow> \<not> or_activation_required response \<Longrightarrow>
      sv_url (cf_server (with_ota response (with_default_ids cfg))) \<noteq> [] \<Longrightarrow>
      op_skip_runtime_init (options_of opts) \<Longrightarrow>
      r = 0 \<and> \<not> ap_runtime_modules_initialized app \<and> app_run_begin env app = Inl 0"
proof -
  let ?o = "options_of opts"
  obtain q where q: "event_queue_init (ie_queue ienv) 64 zero_event_queue = (0, q)"
    using assms(2) event_queue_init_alloc by simp
  let ?l = "loaded_app a ?o cfg q"
  have l: "ap_options ?l = ?o" "ap_config ?l = with_default_ids cfg"
    "ap_ota_response ?l = zero_ota_response" "ap_initialized ?l" "\<not> ap_runtime_modules_initialized ?l"
    "\<not> ap_activation_pending ?l" "ap_skip_runtime_init ?l = op_skip_runtime_init ?o"
    by (simp_all add: loaded_app_def app_clear_def)
  note init = app_init_loaded [OF assms(1) q, of env a, unfolded assms(4)]
  have fetch: "(case op_ota_fetch (ap_options ?l) of None \<Rightarrow> ota_fetch (ie_ota ienv) | Some g \<Rightarrow> g)
      (ap_config ?l) (ap_ota_response ?l) (Some []) 256 = (f, response, err2)"
    using assms(3) by (simp add: l fetcher_of_def)
  note boot = bootstrap_ota [of "ota_fetch (ie_ota ienv)" ?l response err2, unfolded fetch]
  show "op_check_only ?o \<Longrightarrow> r = 0 \<and> ap_initialized app \<and> \<not> ap_runtime_modules_initialized app \<and>
      ap_ota_response app = zero_ota_response"
    using init l by (simp add: Let_def)
  show "\<not> op_check_only ?o \<Longrightarrow> f \<noteq> 0 \<Longrightarrow> r = - 1 \<and> \<not> ap_runtime_modules_initialized app"
    using init l fetch by (simp add: app_bootstrap_ota_def Let_def)
  show "\<not> op_check_only ?o \<Longrightarrow> f = 0 \<Longrightarrow> or_activation_required response \<Longrightarrow>
      r = 0 \<and> \<not> ap_runtime_modules_initialized app \<and> app_run_begin env app = Inl 1 \<and>
      (oa_code (or_activation response) \<noteq> [] \<longrightarrow>
         ''activation code: '' @ oa_code (or_activation response) \<in> set (app_log_activation_required app))"
    "\<not> op_check_only ?o \<Longrightarrow> f = 0 \<Longrightarrow> \<not> or_activation_required response \<Longrightarrow>
      sv_url (cf_server (with_ota response (with_default_ids cfg))) = [] \<Longrightarrow>
      r = - 1 \<and> \<not> ap_runtime_modules_initialized app"
    "\<not> op_check_only ?o \<Longrightarrow> f = 0 \<Longrightarrow> \<not> or_activation_required response \<Longrightarrow>
      sv_url (cf_server (with_ota response (with_default_ids cfg))) \<noteq> [] \<Longrightarrow> op_skip_runtime_init ?o \<Longrightarrow>
      r = 0 \<and> \<not> ap_runtime_modules_initialized app \<and> app_run_begin env app = Inl 0"
    using init l boot
    by (simp_all add: app_run_begin_def app_log_activation_required_def Let_def)
qed

text \<open>
  C10: When the initialisation succeeds: exactly when the configuration file loads and the event
  queue can be made, and then either only a check was asked for, or the server answers the OTA
  request and either asks for an activation, or some server url is known, from the answer or from
  the file, and the modules are skipped or their resources are there; in every other case it gives
  -1. The modules are started exactly when it gets to its end on the last of these ways. The
  client is then given the server's url, with the token the server sent or else the one in the
  file, and the ids of the file or their defaults.
\<close>

theorem app_init_ready:
  assumes "config_load_file (Some (config_path (options_of opts))) (ie_file ienv) zero_config
      (Some []) 256 = (l, cfg, err)"
    and "fetcher_of ienv (options_of opts) (with_default_ids cfg) zero_ota_response (Some []) 256 =
      (f, response, err2)"
    and "cfg' = with_ota response (with_default_ids cfg)"
    and "app_init env ienv a opts = (r, app)"
  shows "r = (if l = 0 \<and> ie_queue ienv \<and> (op_check_only (options_of opts) \<or> f = 0 \<and>
        (or_activation_required response \<or> sv_url (cf_server cfg') \<noteq> [] \<and>
         (op_skip_runtime_init (options_of opts) \<or> modules_available env ienv cfg' (app_clear a))))
      then 0 else - 1) \<and>
    (r = 0 \<and> ap_runtime_modules_initialized app \<longleftrightarrow>
       l = 0 \<and> ie_queue ienv \<and> \<not> op_check_only (options_of opts) \<and> f = 0 \<and>
       \<not> or_activation_required response \<and> sv_url (cf_server cfg') \<noteq> [] \<and>
       \<not> op_skip_runtime_init (options_of opts) \<and> modules_available env ienv cfg' (app_clear a)) \<and>
    (r = 0 \<and> ap_runtime_modules_initialized app \<longrightarrow> ap_initialized app \<and>
       \<not> ap_activation_pending app \<and> \<not> ap_skip_runtime_init app \<and> ap_config app = cfg' \<and>
       cl_config (ap_client app) = app_client_config cfg')"
proof (cases "l = 0 \<and> ie_queue ienv")
  case False
  with app_init_unloaded [OF assms(1), of env a] assms(4) show ?thesis by auto
next
  case True
  then have load: "config_load_file (Some (config_path (options_of opts))) (ie_file ienv) zero_config
      (Some []) 256 = (0, cfg, err)" and queue: "ie_queue ienv" using assms(1) by simp_all
  note early = app_init_before_modules [OF load queue assms(2,4)]
  show ?thesis
  proof (cases "\<not> op_check_only (options_of opts) \<and> f = 0 \<and> \<not> or_activation_required response \<and>
      sv_url (cf_server cfg') \<noteq> [] \<and> \<not> op_skip_runtime_init (options_of opts)")
    case False
    then show ?thesis using early True assms(3) by auto
  next
    case last: True
    then have "r = 0 \<or> r = - 1"
      "(r = 0 \<longleftrightarrow> modules_available env ienv cfg' (app_clear a)) \<and>
       (r = 0 \<longrightarrow> ap_runtime_modules_initialized app \<and> ap_initialized app \<and>
         \<not> ap_activation_pending app \<and> \<not> ap_skip_runtime_init app \<and> ap_config app = cfg' \<and>
         cl_config (ap_client app) = app_client_config cfg')"
      using app_init_ready_run [OF load queue _ _ _ _ assms(3,4)] assms(2) app_init_rc [OF assms(4)] by simp_all
    then show ?thesis using True last by auto
  qed
qed

text \<open>
  C11: What ends the start early, once the configuration is loaded. With \<open>--check-config\<close> nothing is
  asked of the server. A failed OTA request is an error. When the server wants the device
  activated first, \<open>app_init\<close> succeeds, with or without a url, and \<open>app_run\<close> shows the code and
  returns 1 before its loop. Without an activation and without a url the start fails, and with the
  modules skipped it succeeds and \<open>app_run\<close> returns 0 before its loop. No module is started in any of
  these cases.
\<close>

theorem app_init_stops_early:
  assumes "config_load_file (Some (config_path (options_of opts))) (ie_file ienv) zero_config
      (Some []) 256 = (0, cfg, err)"
    and "ie_queue ienv" and "app_init env ienv a opts = (r, app)"
    and "fetcher_of ienv (options_of opts) (with_default_ids cfg) zero_ota_response (Some []) 256 =
      (f, response, err2)"
    and "cfg' = with_ota response (with_default_ids cfg)"
  shows "(op_check_only (options_of opts) \<longrightarrow> r = 0 \<and> ap_initialized app \<and>
      \<not> ap_runtime_modules_initialized app \<and> ap_ota_response app = zero_ota_response) \<and>
    (\<not> op_check_only (options_of opts) \<and> f \<noteq> 0 \<longrightarrow> r = - 1 \<and> \<not> ap_runtime_modules_initialized app) \<and>
    (\<not> op_check_only (options_of opts) \<and> f = 0 \<and> or_activation_required response \<longrightarrow>
      r = 0 \<and> \<not> ap_runtime_modules_initialized app \<and> app_run_begin env app = Inl 1 \<and>
      (oa_code (or_activation response) \<noteq> [] \<longrightarrow>
         ''activation code: '' @ oa_code (or_activation response) \<in> set (app_log_activation_required app))) \<and>
    (\<not> op_check_only (options_of opts) \<and> f = 0 \<and> \<not> or_activation_required response \<and>
      sv_url (cf_server cfg') = [] \<longrightarrow> r = - 1 \<and> \<not> ap_runtime_modules_initialized app) \<and>
    (\<not> op_check_only (options_of opts) \<and> f = 0 \<and> \<not> or_activation_required response \<and>
      sv_url (cf_server cfg') \<noteq> [] \<and> op_skip_runtime_init (options_of opts) \<longrightarrow>
      r = 0 \<and> \<not> ap_runtime_modules_initialized app \<and> app_run_begin env app = Inl 0)"
  using app_init_before_modules [OF assms(1,2,4,3)] unfolding assms(5) by blast

subsection \<open>A concrete client\<close>

definition demo_ini :: string where
  "demo_ini = concat (map (\<lambda>l. l @ [CHR 0x0A])
     [''[ota]'', ''url=https://o'', ''app_version=1'', ''[board]'', ''type=t'', ''name=n'',
      ''[server]'', ''url=wss://file'', ''token=k''])"

definition demo_config :: Config.app_config where
  "demo_config =
     \<lparr>cf_ota = \<lparr>oc_url = ''https://o'', oc_accept_language = [], oc_app_version = ''1'',
                oc_elf_sha256 = []\<rparr>,
      cf_server = \<lparr>sv_url = ''wss://file'', sv_token = ''k'', sv_protocol_version = 1\<rparr>,
      cf_device = \<lparr>dc_device_id = [], dc_client_id = []\<rparr>,
      cf_board = \<lparr>bc_type = ''t'', bc_name = ''n'', bc_ssid = [], bc_rssi = 0\<rparr>,
      cf_audio = \<lparr>au_capture_device = ''default'', au_playback_device = ''default'',
                  au_input_sample_rate = 16000, au_silence_timeout_ms = 1200,
                  au_silence_threshold = 500, au_max_utterance_ms = 15000\<rparr>,
      cf_runtime = \<lparr>rt_log_level = ''info'', rt_reconnect_backoff_ms = 3000\<rparr>\<rparr>"

lemma demo_load_string:
  "config_load_from_string True (Some demo_ini) zero_config (Some []) 256 = (0, demo_config, Some [])"
  by code_simp

definition demo_file :: file_io where
  "demo_file = \<lparr>io_open = True, io_seek_end = True, io_tell = int (length demo_ini),
     io_rewind = True, io_malloc = True, io_bytes = demo_ini, io_strdup = True\<rparr>"

lemma demo_load:
  "config_load_file (Some p) demo_file zero_config (Some []) 256 = (0, demo_config, Some [])"
proof -
  have "c_ok demo_ini" by (simp add: demo_ini_def c_ok_def)
  then show ?thesis by (simp add: config_load_file_def demo_file_def demo_load_string)
qed

definition demo_env :: "(unit, nat) app_env" where
  "demo_env = \<lparr>ae_opus = demo_codec, ae_thread = True, ae_realloc = True, ae_strdup = True,
     ae_fopen = (\<lambda>path. True), ae_fwrite = length, ae_teardown = [LWS_CLIENT_CLOSED]\<rparr>"

definition demo_init_env :: init_env where
  "demo_init_env =
     \<lparr>ie_file = demo_file, ie_queue = True,
      ie_ota = \<lparr>oe_pipe = True, oe_fork = True,
        oe_curl = (\<lambda>args. \<lparr>cr_chunks = [], cr_eof = True, cr_waited = True, cr_exited = True,
          cr_status = 0\<rparr>)\<rparr>,
      ie_client = True, ie_playback = True, ie_playback_thread = True, ie_capture_thread = True\<rparr>"

text \<open>An OTA answer with the url of another server and no token, as the tests stub it.\<close>

definition demo_answer :: "bool \<Rightarrow> ota_response" where
  "demo_answer activation = zero_ota_response\<lparr>or_activation_required := activation,
     or_activation := \<lparr>oa_code = ''123456'', oa_message = ''activate me''\<rparr>,
     or_websocket := \<lparr>ow_url = ''wss://ota'', ow_token = []\<rparr>\<rparr>"

definition demo_options :: "bool \<Rightarrow> app_options" where
  "demo_options activation = zero_options
     \<lparr>op_ota_fetch := Some (\<lambda>cfg out err n. (0, demo_answer activation, err))\<rparr>"

definition blank_app :: "(unit, nat) app_runtime" where
  "blank_app =
     \<lparr>ap_options = zero_options, ap_config = zero_config, ap_events = zero_event_queue,
      ap_session = \<lparr>ss_state = SESSION_STATE_IDLE\<rparr>, ap_client = zero_client,
      ap_encoder = zero_encoder, ap_decoder = zero_decoder, ap_capture = zero_capture,
      ap_playback = zero_playback, ap_ota_response = zero_ota_response, ap_initialized = False,
      ap_check_only = False, ap_skip_runtime_init = False, ap_stop_requested = False,
      ap_client_started = False, ap_runtime_modules_initialized = False,
      ap_activation_pending = False, ap_upload_enabled = False, ap_decoder_sample_rate = 0,
      ap_tts_done = False, ap_dump_mutex_initialized = False, ap_dump_file = None,
      ap_dump_index = 0, ap_dump_path = [], ap_session_id = [],
      ap_log_level = LOG_LEVEL_INFO, ap_dumps = [], ap_slept_us = 0\<rparr>"

definition demo_app :: "(unit, nat) app_runtime" where
  "demo_app = snd (app_init demo_env demo_init_env blank_app (Some (demo_options False)))"

text \<open>The premises of \<open>app_init_ready\<close> for this client, the last with both results.\<close>

lemma demo_init_facts:
  "config_load_file (Some (config_path (options_of (Some (demo_options b))))) (ie_file demo_init_env)
     zero_config (Some []) 256 = (0, demo_config, Some [])"
  "ie_queue demo_init_env" "\<not> op_check_only (options_of (Some (demo_options b)))"
  "\<not> op_skip_runtime_init (options_of (Some (demo_options b)))"
  "fetcher_of demo_init_env (options_of (Some (demo_options b))) (with_default_ids demo_config)
     zero_ota_response (Some []) 256 = (0, demo_answer b, Some [])"
  "or_activation_required (demo_answer b) = b"
  by (simp_all add: demo_init_env_def demo_load options_of_def demo_options_def zero_options_def
      fetcher_of_def demo_answer_def)

lemma demo_modules:
  "modules_available demo_env demo_init_env (with_ota (demo_answer False) (with_default_ids demo_config))
     (app_clear a)"
  by (simp add: modules_available_def demo_env_def demo_init_env_def with_ota_def demo_answer_def
      zero_ota_response_def with_default_ids_def demo_config_def demo_codec_def app_clear_def
      opus_encoder_wrapper_init_def opus_decoder_wrapper_init_def Let_def)

text \<open>The client starts; without the capture thread it does not.\<close>

theorem app_init_ready_witness:
  "fst (app_init demo_env demo_init_env blank_app (Some (demo_options False))) = 0 \<and>
   sv_url (cf_server (ap_config demo_app)) = ''wss://ota'' \<and>
   xc_authorization (cl_config (ap_client demo_app)) = ''Bearer k'' \<and>
   xc_device_id (cl_config (ap_client demo_app)) = ''desktop-device'' \<and>
   fst (app_init demo_env (demo_init_env\<lparr>ie_capture_thread := False\<rparr>) blank_app (Some (demo_options False))) = - 1"
proof -
  obtain r app where init: "app_init demo_env demo_init_env blank_app (Some (demo_options False)) = (r, app)"
    by fastforce
  let ?cfg = "with_ota (demo_answer False) (with_default_ids demo_config)"
  have cfg: "sv_url (cf_server ?cfg) = ''wss://ota''" "sv_token (cf_server ?cfg) = ''k''"
    "dc_device_id (cf_device ?cfg) = ''desktop-device''"
    by (simp_all add: with_ota_def with_default_ids_def demo_answer_def zero_ota_response_def
        demo_config_def)
  note ready = app_init_ready [OF demo_init_facts(1) demo_init_facts(5) refl init]
  have one: "r = 0 \<and> ap_config app = ?cfg \<and> cl_config (ap_client app) = app_client_config ?cfg"
    using ready demo_modules cfg demo_init_facts(2-4,6) by simp
  let ?ienv = "demo_init_env\<lparr>ie_capture_thread := False\<rparr>"
  obtain r2 app2 where init2: "app_init demo_env ?ienv blank_app (Some (demo_options False)) = (r2, app2)"
    by fastforce
  have "config_load_file (Some (config_path (options_of (Some (demo_options False))))) (ie_file ?ienv)
      zero_config (Some []) 256 = (0, demo_config, Some [])"
    "fetcher_of ?ienv (options_of (Some (demo_options False))) (with_default_ids demo_config)
      zero_ota_response (Some []) 256 = (0, demo_answer False, Some [])"
    using demo_init_facts(1) by (simp_all add: fetcher_of_def options_of_def demo_options_def)
  from app_init_ready [OF this refl init2] have "r2 = - 1"
    using demo_init_facts(3,4,6) by (simp add: modules_available_def)
  then show ?thesis
    using one cfg by (simp add: init init2 demo_app_def app_client_config_def)
qed

theorem app_init_stops_early_witness:
  "app_run_begin demo_env (snd (app_init demo_env demo_init_env blank_app (Some (demo_options True)))) =
     Inl 1 \<and>
   ''activation code: 123456'' \<in> set (app_log_activation_required
     (snd (app_init demo_env demo_init_env blank_app (Some (demo_options True))))) \<and>
   app_run_begin demo_env (snd (app_init demo_env demo_init_env blank_app
     (Some ((demo_options False)\<lparr>op_skip_runtime_init := True\<rparr>)))) = Inl 0"
proof -
  obtain r app where init: "app_init demo_env demo_init_env blank_app (Some (demo_options True)) = (r, app)"
    by fastforce
  let ?o = "(demo_options False)\<lparr>op_skip_runtime_init := True\<rparr>"
  obtain r2 app2 where init2: "app_init demo_env demo_init_env blank_app (Some ?o) = (r2, app2)" by fastforce
  have o: "config_load_file (Some (config_path (options_of (Some ?o)))) (ie_file demo_init_env)
      zero_config (Some []) 256 = (0, demo_config, Some [])"
    "fetcher_of demo_init_env (options_of (Some ?o)) (with_default_ids demo_config)
      zero_ota_response (Some []) 256 = (0, demo_answer False, Some [])"
    "\<not> op_check_only (options_of (Some ?o))" "op_skip_runtime_init (options_of (Some ?o))"
    using demo_init_facts(1,3,5) [of False] by (simp_all add: options_of_def config_path_def fetcher_of_def)
  have "sv_url (cf_server (with_ota (demo_answer False) (with_default_ids demo_config))) \<noteq> []"
    by (simp add: with_ota_def demo_answer_def)
  then have "app_run_begin demo_env app2 = Inl 0"
    using app_init_stops_early [OF o(1) demo_init_facts(2) init2 o(2) refl] o(3,4) demo_init_facts(6) [of False]
    by blast
  then show ?thesis
    using app_init_stops_early [OF demo_init_facts(1,2) init demo_init_facts(5) refl]
      demo_init_facts(3,6) [of True]
    by (simp add: init init2 demo_answer_def)
qed

text \<open>The demonstration client is ready.\<close>

lemma demo_app_ready:
  "app_init demo_env demo_init_env blank_app (Some (demo_options False)) = (0, demo_app)"
  "ap_runtime_modules_initialized demo_app" "ap_initialized demo_app"
  "\<not> ap_activation_pending demo_app" "\<not> ap_skip_runtime_init demo_app"
proof -
  obtain r app where init: "app_init demo_env demo_init_env blank_app (Some (demo_options False)) = (r, app)"
    by fastforce
  have "sv_url (cf_server (with_ota (demo_answer False) (with_default_ids demo_config))) \<noteq> []"
    by (simp add: with_ota_def demo_answer_def)
  then have "r = 0 \<and> ap_runtime_modules_initialized app \<and> ap_initialized app \<and>
      \<not> ap_activation_pending app \<and> \<not> ap_skip_runtime_init app"
    using app_init_ready_run [OF demo_init_facts(1-5) _ refl init] demo_init_facts(6) demo_modules
    by simp
  then show
    "app_init demo_env demo_init_env blank_app (Some (demo_options False)) = (0, demo_app)"
    "ap_runtime_modules_initialized demo_app" "ap_initialized demo_app"
    "\<not> ap_activation_pending demo_app" "\<not> ap_skip_runtime_init demo_app"
    using init by (simp_all add: demo_app_def)
qed

end
