(* ===== verification/Step_Systems.thy ===== *)
theory Step_Systems
  imports Xz_Prelude
begin

section \<open>Step systems, invariants and simulations\<close>

text \<open>
  The interface the concurrent parts of the client are proved through: a set of start states
  and a step relation. An invariant is what start states have and steps keep; a simulation maps
  the states to a smaller machine each step is a step of, or leaves where it is.
\<close>

inductive reach :: "('s \<Rightarrow> bool) \<Rightarrow> ('s \<Rightarrow> 's \<Rightarrow> bool) \<Rightarrow> 's \<Rightarrow> bool" for start step where
  reach_start: "start s \<Longrightarrow> reach start step s"
| reach_step: "reach start step s \<Longrightarrow> step s s' \<Longrightarrow> reach start step s'"

lemma reach_run: "step\<^sup>*\<^sup>* s s' \<Longrightarrow> reach start step s \<Longrightarrow> reach start step s'"
  by (induction rule: rtranclp_induct) (auto intro: reach.reach_step)

locale invariant_system =
  fixes start :: "'s \<Rightarrow> bool" and step :: "'s \<Rightarrow> 's \<Rightarrow> bool" and inv :: "'s \<Rightarrow> bool"
  assumes start_inv: "start s \<Longrightarrow> inv s"
    and step_inv: "inv s \<Longrightarrow> step s s' \<Longrightarrow> inv s'"
begin

lemma reach_inv: "reach start step s \<Longrightarrow> inv s"
  by (induction rule: reach.induct) (auto intro: start_inv step_inv)

lemma run_inv: "step\<^sup>*\<^sup>* s s' \<Longrightarrow> inv s \<Longrightarrow> inv s'"
  by (induction rule: rtranclp_induct) (auto intro: step_inv)

end

locale simulation = invariant_system start step inv
  for start :: "'s \<Rightarrow> bool" and step :: "'s \<Rightarrow> 's \<Rightarrow> bool" and inv :: "'s \<Rightarrow> bool" +
  fixes abs :: "'s \<Rightarrow> 'a" and spec_start :: "'a \<Rightarrow> bool" and spec :: "'a \<Rightarrow> 'a \<Rightarrow> bool"
  assumes start_abs: "start s \<Longrightarrow> spec_start (abs s)"
    and step_abs: "inv s \<Longrightarrow> step s s' \<Longrightarrow> abs s' = abs s \<or> spec (abs s) (abs s')"
begin

lemma run_abs: "step\<^sup>*\<^sup>* s s' \<Longrightarrow> inv s \<Longrightarrow> spec\<^sup>*\<^sup>* (abs s) (abs s')"
proof (induction rule: rtranclp_induct)
  case base
  then show ?case by simp
next
  case (step t t')
  then have "inv t" using run_inv by blast
  with step step_abs [of t t'] show ?case
    by (metis rtranclp.rtrancl_into_rtrancl)
qed

lemma reach_abs: "reach start step s \<Longrightarrow> reach spec_start spec (abs s)"
proof (induction rule: reach.induct)
  case (reach_start s)
  then show ?case by (simp add: reach.reach_start start_abs)
next
  case (reach_step s s')
  then show ?case using step_abs [of s s'] reach_inv reach.reach_step by metis
qed

end

text \<open>
  Sequences of operations: each may fail to have a result at all; the specification always
  answers. The operations refine it when they have results, answer alike and keep the relation.
\<close>

primrec run_ops :: "('op \<Rightarrow> 's \<Rightarrow> ('r \<times> 's) option) \<Rightarrow> 'op list \<Rightarrow> 's \<Rightarrow> ('r list \<times> 's) option" where
  "run_ops run [] s = Some ([], s)"
| "run_ops run (x # xs) s =
     (case run x s of None \<Rightarrow> None
      | Some (r, s1) \<Rightarrow> map_option (\<lambda>(rs, s2). (r # rs, s2)) (run_ops run xs s1))"

primrec spec_ops :: "('op \<Rightarrow> 'a \<Rightarrow> 'r \<times> 'a) \<Rightarrow> 'op list \<Rightarrow> 'a \<Rightarrow> 'r list \<times> 'a" where
  "spec_ops spec [] a = ([], a)"
| "spec_ops spec (x # xs) a =
     (let (r, a1) = spec x a; (rs, a2) = spec_ops spec xs a1 in (r # rs, a2))"

locale op_refinement =
  fixes run :: "'op \<Rightarrow> 's \<Rightarrow> ('r \<times> 's) option" and spec :: "'op \<Rightarrow> 'a \<Rightarrow> 'r \<times> 'a"
    and rel :: "'s \<Rightarrow> 'a \<Rightarrow> bool"
  assumes op_refines: "rel s a \<Longrightarrow> \<exists>s'. run x s = Some (fst (spec x a), s') \<and> rel s' (snd (spec x a))"
begin

lemma ops_refine:
  "rel s a \<Longrightarrow> \<exists>s'. run_ops run xs s = Some (fst (spec_ops spec xs a), s') \<and> rel s' (snd (spec_ops spec xs a))"
proof (induction xs arbitrary: s a)
  case (Cons x xs)
  obtain s1 where 1: "run x s = Some (fst (spec x a), s1)" "rel s1 (snd (spec x a))"
    using op_refines [OF Cons.prems, of x] by blast
  from Cons.IH [OF this(2)] 1(1) show ?case by (auto simp: split_beta Let_def)
qed simp

end

end
