(* ===== verification/App_System.thy ===== *)
theory App_System
  imports App_Boot Step_Systems
begin

section \<open>The running client: its threads together\<close>

text \<open>
  The main loop, the network thread, the capture thread and the playback thread share the
  runtime of theory \<open>App\<close>. A step is what a thread does between two points where it waits: a
  round of the main loop, cut in two by the sleep of the error handler; a callback of the
  websocket library; an iteration of the capture thread, cut in two by the read; a turn of the
  playback thread, cut in two by the write of a block; the signal handler. That such a piece is
  one step is an assumption of the model (the pieces take the mutexes of the queues they use), as
  is that the network thread runs only between \<open>xiaozhi_client_start\<close> and \<open>xiaozhi_client_stop\<close>.
\<close>

text \<open>
  \<open>sy_backoff\<close>: the main thread sleeps in the error handler. \<open>sy_flag\<close> is the upload flag the
  capture thread has read at the top of its iteration, \<open>sy_local\<close> the playback thread's variables,
  \<open>sy_block\<close> the block it is writing, \<open>sy_dev\<close> the playback device.
\<close>

record ('e, 'd, 'c) system =
  sy_app :: "('e, 'd) app_runtime"
  sy_backoff :: bool
  sy_flag :: "bool option"
  sy_local :: playback_local
  sy_block :: "audio_block option"
  sy_dev :: 'c

definition playback_world_of :: "('e, 'd, 'c) system \<Rightarrow> 'c playback_world" where
  "playback_world_of s =
     \<lparr>pw_pb = ap_playback (sy_app s), pw_local = sy_local s, pw_events = ap_events (sy_app s),
      pw_dev = sy_dev s\<rparr>"

definition put_playback_world ::
    "'c playback_world \<Rightarrow> ('e, 'd, 'c) system \<Rightarrow> ('e, 'd, 'c) system" where
  "put_playback_world w s =
     s\<lparr>sy_app := (sy_app s)\<lparr>ap_playback := pw_pb w, ap_events := pw_events w\<rparr>,
       sy_local := pw_local w, sy_dev := pw_dev w\<rparr>"

text \<open>A capture period: the silence detection, and the period handed to the application.\<close>

definition app_capture_period ::
    "('e, 'd) app_env \<Rightarrow> bool \<Rightarrow> int \<Rightarrow> sample list \<Rightarrow> ('e, 'd) app_runtime
       \<Rightarrow> ('e, 'd) app_runtime" where
  "app_capture_period env up n buf app =
     (case capture_period up n buf (ap_capture app) (ap_events app) of
        (cap, q, delivered) \<Rightarrow>
          (let app1 = app\<lparr>ap_capture := cap, ap_events := q\<rparr>
           in case delivered of
                None \<Rightarrow> app1
              | Some (pcm, frames) \<Rightarrow> app_capture_on_pcm env pcm frames app1))"

text \<open>A callback of the library, and the thread's way to its service loop.\<close>

definition app_network ::
    "('e, 'd) app_env \<Rightarrow> lws_reason \<Rightarrow> ('e, 'd) app_runtime \<Rightarrow> ('e, 'd) app_runtime" where
  "app_network env reason app =
     (case xiaozhi_client_callback reason (ap_client app) of
        (r, client, effs) \<Rightarrow> app_effects env effs (app\<lparr>ap_client := client\<rparr>))"

definition app_network_connect ::
    "('e, 'd) app_env \<Rightarrow> connect_env \<Rightarrow> ('e, 'd) app_runtime \<Rightarrow> ('e, 'd) app_runtime" where
  "app_network_connect env cenv app =
     (case client_thread_connect cenv (ap_client app) of
        (looping, info, client, effs) \<Rightarrow> app_effects env effs (app\<lparr>ap_client := client\<rparr>))"

text \<open>
  A round of the main loop whose pop does not wait: what other threads push while it waits, they
  push in steps of their own. A wait that timed out returns without an event, even when one
  arrived at the last moment.
\<close>

definition app_main_turn ::
    "('e, 'd) app_env \<Rightarrow> stdin_state \<Rightarrow> ('e, 'd) app_runtime \<Rightarrow> ('e, 'd) app_runtime" where
  "app_main_turn env input app =
     (case event_queue_try_pop (ap_events app) of
        None \<Rightarrow> app_poll_stdin input app
      | Some (e, q) \<Rightarrow> app_poll_stdin input (app_dispatch env e (app\<lparr>ap_events := q\<rparr>)))"

text \<open>
  The first half of a round whose event is an error: up to the end of the sleep, during which the
  session is in its error state. \<open>None\<close>: the next event is no error.
\<close>

definition app_error_turn :: "('e, 'd) app_runtime \<Rightarrow> ('e, 'd) app_runtime option" where
  "app_error_turn app =
     (case event_queue_try_pop (ap_events app) of
        None \<Rightarrow> None
      | Some (e, q) \<Rightarrow>
          (if ev_type e \<noteq> APP_EVENT_ERROR then None
           else Some (app_sleep_backoff (app\<lparr>ap_events := q,
                  ap_session := fst (session_handle_event (ap_session app) APP_EVENT_ERROR)\<rparr>))))"

lemma error_turn_whole:
  "app_error_turn app = Some app' \<Longrightarrow>
     app_main_turn env input app = app_poll_stdin input (app_after_backoff env app')"
  by (auto simp: app_error_turn_def app_main_turn_def app_dispatch_def app_session_event_def
      app_handle_action_def session_handle_event_def session_handle_error_def
      app_handle_return_to_wake_def split: option.splits if_splits)

inductive sys_step ::
    "('e, 'd) app_env \<Rightarrow> 'c alsa \<Rightarrow> ('e, 'd, 'c) system \<Rightarrow> ('e, 'd, 'c) system \<Rightarrow> bool"
  for env :: "('e, 'd) app_env" and dev :: "'c alsa" where
  main: "\<not> ap_stop_requested (sy_app s) \<Longrightarrow> \<not> sy_backoff s \<Longrightarrow> app_error_turn (sy_app s) = None \<Longrightarrow>
     sys_step env dev s (s\<lparr>sy_app := app_main_turn env input (sy_app s)\<rparr>)"
| main_error: "\<not> ap_stop_requested (sy_app s) \<Longrightarrow> \<not> sy_backoff s \<Longrightarrow>
     app_error_turn (sy_app s) = Some app \<Longrightarrow>
     sys_step env dev s (s\<lparr>sy_app := app, sy_backoff := True\<rparr>)"
| main_awake: "sy_backoff s \<Longrightarrow>
     sys_step env dev s
       (s\<lparr>sy_app := app_poll_stdin input (app_after_backoff env (sy_app s)), sy_backoff := False\<rparr>)"
| main_timeout: "\<not> ap_stop_requested (sy_app s) \<Longrightarrow> \<not> sy_backoff s \<Longrightarrow>
     sys_step env dev s (s\<lparr>sy_app := app_poll_stdin input (sy_app s)\<rparr>)"
| network: "cl_thread (ap_client (sy_app s)) \<Longrightarrow> cl_context (ap_client (sy_app s)) \<Longrightarrow>
     sys_step env dev s (s\<lparr>sy_app := app_network env reason (sy_app s)\<rparr>)"
| connecting: "cl_thread (ap_client (sy_app s)) \<Longrightarrow> \<not> cl_context (ap_client (sy_app s)) \<Longrightarrow>
     sys_step env dev s (s\<lparr>sy_app := app_network_connect env cenv (sy_app s)\<rparr>)"
| capture_reads: "capture_flags (ap_capture (sy_app s)) = Some up \<Longrightarrow> sy_flag s = None \<Longrightarrow>
     sys_step env dev s (s\<lparr>sy_flag := Some up\<rparr>)"
| capture_period: "sy_flag s = Some up \<Longrightarrow> n \<le> 1000000 \<Longrightarrow>
     sys_step env dev s
       (s\<lparr>sy_flag := None, sy_app := app_capture_period env up n buf (sy_app s)\<rparr>)"
| playback_takes: "sy_block s = None \<Longrightarrow>
     playback_take dev (playback_world_of s) = (st, w, block) \<Longrightarrow>
     sys_step env dev s ((put_playback_world w s)\<lparr>sy_block := block\<rparr>)"
| playback_writes: "sy_block s = Some block \<Longrightarrow>
     playback_write dev block 0 (playback_world_of s) = Some w \<Longrightarrow>
     sys_step env dev s ((put_playback_world w s)\<lparr>sy_block := None\<rparr>)"
| signal: "sys_step env dev s (s\<lparr>sy_app := app_request_stop (sy_app s)\<rparr>)"

inductive_cases sys_stepE: "sys_step env dev s s'"

text \<open>The client as \<open>app_init\<close> and the first lines of \<open>app_run\<close> leave it.\<close>

definition sys_start :: "('e, 'd) app_env \<Rightarrow> ('e, 'd, 'c) system \<Rightarrow> bool" where
  "sys_start env s \<longleftrightarrow>
     (\<exists>ienv a opts app. app_init env ienv a opts = (0, app) \<and>
        ap_runtime_modules_initialized app \<and> app_run_begin env app = Inr (sy_app s) \<and>
        \<not> sy_backoff s \<and> sy_flag s = None \<and> sy_block s = None \<and>
        sy_local s = \<lparr>pl_pcm = False, pl_rate = 0\<rparr>)"

text \<open>Steps that nothing comes between make up a whole round and a whole turn.\<close>

lemma error_round_whole:
  assumes "\<not> ap_stop_requested (sy_app s)" and "\<not> sy_backoff s" and "app_error_turn (sy_app s) = Some a"
  shows "(sys_step env dev)\<^sup>*\<^sup>* s (s\<lparr>sy_app := app_main_turn env input (sy_app s)\<rparr>)"
proof -
  let ?t = "s\<lparr>sy_app := a, sy_backoff := True\<rparr>"
  have "sys_step env dev ?t (?t\<lparr>sy_app := app_poll_stdin input (app_after_backoff env (sy_app ?t)),
      sy_backoff := False\<rparr>)" by (rule sys_step.main_awake) simp
  moreover have "s\<lparr>sy_backoff := False\<rparr> = s" using assms(2) by (cases s) simp
  then have "s\<lparr>sy_app := b, sy_backoff := False\<rparr> = s\<lparr>sy_app := b\<rparr>" for b
    by (cases s) simp
  ultimately have "sys_step env dev ?t (s\<lparr>sy_app := app_main_turn env input (sy_app s)\<rparr>)"
    using error_turn_whole [OF assms(3), of env input] by simp
  then have "(sys_step env dev)\<^sup>*\<^sup>* ?t (s\<lparr>sy_app := app_main_turn env input (sy_app s)\<rparr>)" by blast
  with sys_step.main_error [OF assms] show ?thesis by (rule converse_rtranclp_into_rtranclp)
qed

lemma main_turn_reached:
  assumes "reach (sys_start env) (sys_step env dev) s" and "\<not> ap_stop_requested (sy_app s)"
    and "\<not> sy_backoff s"
  shows "reach (sys_start env) (sys_step env dev) (s\<lparr>sy_app := app_main_turn env input (sy_app s)\<rparr>)"
proof (cases "app_error_turn (sy_app s)")
  case None
  from reach.reach_step [OF assms(1) sys_step.main [OF assms(2,3) this]] show ?thesis .
next
  case (Some a)
  from reach_run [OF error_round_whole [OF assms(2,3) this] assms(1)] show ?thesis .
qed

lemma playback_turn_whole:
  assumes "sy_block s = None" and "playback_turn dev (playback_world_of s) = Some (st, w)"
  shows "(sys_step env dev)\<^sup>*\<^sup>* s (put_playback_world w s)"
proof -
  obtain st1 w1 b where take: "playback_take dev (playback_world_of s) = (st1, w1, b)"
    using prod_cases3 by blast
  let ?t = "(put_playback_world w1 s)\<lparr>sy_block := b\<rparr>"
  have s1: "sys_step env dev s ?t" by (rule sys_step.playback_takes [OF assms(1) take])
  have none: "(put_playback_world w s)\<lparr>sy_block := None\<rparr> = put_playback_world w s"
    using assms(1) by (simp add: put_playback_world_def)
  show ?thesis
  proof (cases b)
    case None
    then show ?thesis using s1 assms(2) take none by (auto simp: playback_turn_split)
  next
    case (Some block)
    have "playback_world_of ?t = w1" by (simp add: playback_world_of_def put_playback_world_def)
    then have "sys_step env dev ?t ((put_playback_world w ?t)\<lparr>sy_block := None\<rparr>)"
      using assms(2) take Some
      by (intro sys_step.playback_writes [of _ block]) (auto simp: playback_turn_split)
    moreover have "(put_playback_world w ?t)\<lparr>sy_block := None\<rparr> = put_playback_world w s"
      using assms(1) by (cases s) (simp add: put_playback_world_def)
    ultimately have "sys_step env dev ?t (put_playback_world w s)" by simp
    then have "(sys_step env dev)\<^sup>*\<^sup>* ?t (put_playback_world w s)" by blast
    with s1 show ?thesis by (rule converse_rtranclp_into_rtranclp)
  qed
qed

subsection \<open>The invariant\<close>

definition sys_inv :: "('e, 'd, 'c) system \<Rightarrow> bool" where
  "sys_inv s \<longleftrightarrow>
     (if sy_backoff s
      then core_inv (sy_app s) \<and> ss_state (ap_session (sy_app s)) = SESSION_STATE_ERROR_BACKOFF
      else app_inv (sy_app s))"

text \<open>What the other threads do to the runtime, while the main thread sleeps or not.\<close>

definition by_others :: "('e, 'd) app_runtime \<Rightarrow> ('e, 'd) app_runtime \<Rightarrow> bool" where
  "by_others a b \<longleftrightarrow> (core_inv a \<longrightarrow> core_inv b) \<and> ap_session b = ap_session a \<and>
     ap_upload_enabled b = ap_upload_enabled a"

lemma by_others_app_inv: "by_others a b \<Longrightarrow> app_inv a \<Longrightarrow> app_inv b"
  by (simp add: by_others_def app_inv_core state_ok_def)

lemma by_others_sys_inv:
  "sys_inv s \<Longrightarrow> by_others (sy_app s) (sy_app s') \<Longrightarrow> sy_backoff s' = sy_backoff s \<Longrightarrow> sys_inv s'"
  using by_others_app_inv [of "sy_app s" "sy_app s'"]
  by (auto simp: sys_inv_def by_others_def split: if_splits)

lemma core_inv_client: "core_inv app \<Longrightarrow> client_inv (ap_client app)"
  by (simp add: core_inv_defs)

lemma app_network_others: "by_others app (app_network env reason app)"
  using callback_inv [OF core_inv_client, of app reason] callback_same [of "ap_client app" reason]
  by (cases "xiaozhi_client_callback reason (ap_client app)")
     (simp add: app_network_def by_others_def network_core)

lemma app_network_connect_others: "by_others app (app_network_connect env cenv app)"
  using client_connect_inv [OF core_inv_client, of app cenv] connect_same [of "ap_client app" cenv]
  by (cases "client_thread_connect cenv (ap_client app)")
     (simp add: app_network_connect_def by_others_def network_core)

lemma on_pcm_others: "by_others app (app_capture_on_pcm env pcm frames app)"
  by (simp add: by_others_def on_pcm_core) (simp add: app_capture_on_pcm_def Let_def split_beta)

lemma app_capture_period_others:
  assumes "n \<le> 1000000"
  shows "by_others app (app_capture_period env up n buf app)"
proof -
  obtain cap q delivered where p: "capture_period up n buf (ap_capture app) (ap_events app) =
      (cap, q, delivered)" using prod_cases3 by blast
  let ?a = "app\<lparr>ap_capture := cap, ap_events := q\<rparr>"
  have "by_others ?a (app_capture_period env up n buf app)"
    using on_pcm_others [of ?a env]
    by (simp add: app_capture_period_def p Let_def split: option.split) (simp add: by_others_def)
  then show ?thesis using capture_core [OF _ assms p] by (simp add: by_others_def)
qed

lemma put_playback_others:
  assumes "core_inv (sy_app s) \<Longrightarrow> ab_inv (pb_queue (pw_pb w)) \<and> eq_inv (pw_events w)"
  shows "by_others (sy_app s) (sy_app (put_playback_world w s))"
  using assms by (auto simp: by_others_def put_playback_world_def core_inv_defs)

lemma request_stop_others: "by_others app (app_request_stop app)"
  by (simp add: by_others_def app_request_stop_def)
     (simp add: core_inv_defs app_push_event_def Let_def eq_push_inv)

lemma app_network_inv: "app_inv app \<Longrightarrow> app_inv (app_network env reason app)"
  by (rule by_others_app_inv [OF app_network_others])

lemma app_network_connect_inv: "app_inv app \<Longrightarrow> app_inv (app_network_connect env cenv app)"
  by (rule by_others_app_inv [OF app_network_connect_others])

lemma app_capture_period_inv:
  "app_inv app \<Longrightarrow> n \<le> 1000000 \<Longrightarrow> app_inv (app_capture_period env up n buf app)"
  by (rule by_others_app_inv [OF app_capture_period_others])

lemma app_main_turn_inv: "app_inv app \<Longrightarrow> app_inv (app_main_turn env input app)"
  by (auto simp: app_main_turn_def intro: poll_stdin_inv dispatch_inv try_pop_inv split: option.split)

lemma poll_stdin_frame [simp]:
  "ap_client (app_poll_stdin input app) = ap_client app"
  "ap_upload_enabled (app_poll_stdin input app) = ap_upload_enabled app"
  "ap_session (app_poll_stdin input app) = ap_session app"
  "ap_session_id (app_poll_stdin input app) = ap_session_id app"
  "ap_dump_file (app_poll_stdin input app) = ap_dump_file app"
  "ap_tts_done (app_poll_stdin input app) = ap_tts_done app"
  by (cases input; simp add: app_poll_stdin_def app_handle_manual_line_def app_request_stop_def)+

text \<open>The two halves of an error round.\<close>

lemma error_turn_kept:
  assumes "app_inv app" and "app_error_turn app = Some app'"
  shows "core_inv app' \<and> ss_state (ap_session app') = SESSION_STATE_ERROR_BACKOFF"
proof -
  obtain e q where pop: "event_queue_try_pop (ap_events app) = Some (e, q)"
    and app': "app' = app_sleep_backoff (app\<lparr>ap_events := q,
      ap_session := fst (session_handle_event (ap_session app) APP_EVENT_ERROR)\<rparr>)"
    using assms(2) by (auto simp: app_error_turn_def split: option.splits if_splits)
  have "core_inv (app\<lparr>ap_events := q\<rparr>)"
    using try_pop_inv [OF assms(1) pop] by (simp add: app_inv_core)
  then show ?thesis
    by (simp add: app' app_sleep_backoff_def core_inv_defs session_handle_event_def
        session_handle_error_def)
qed

lemma awake_kept:
  assumes "core_inv app"
  shows "app_inv (app_poll_stdin input (app_after_backoff env app)) \<and>
    \<not> ap_upload_enabled (app_poll_stdin input (app_after_backoff env app)) \<and>
    ss_state (ap_session (app_poll_stdin input (app_after_backoff env app))) = SESSION_STATE_CONNECTING"
proof -
  have "linked_ok app" using assms by (simp add: core_inv_def)
  note kept = after_backoff_kept [OF this, of env]
  then have "app_inv (app_after_backoff env app)"
    by (intro app_invI upload_ok_off) (simp_all add: state_ok_def)
  then show ?thesis using kept by (auto intro: poll_stdin_inv)
qed

lemma playback_steps_others:
  "playback_take dev (playback_world_of s) = (st, w, block) \<Longrightarrow>
     by_others (sy_app s) (sy_app (put_playback_world w s))"
  "playback_write dev blk k (playback_world_of s) = Some w \<Longrightarrow>
     by_others (sy_app s) (sy_app (put_playback_world w s))"
  using playback_take_inv [of dev "playback_world_of s" st w block]
    playback_write_inv [of dev blk k "playback_world_of s" w]
  by (auto simp: playback_world_of_def core_inv_defs intro!: put_playback_others)

text \<open>A step is one of the main thread's, or one by the others, which leave \<open>sy_backoff\<close> alone.\<close>

lemma sys_step_others:
  assumes "sys_step env dev s s'"
  obtains (others) "by_others (sy_app s) (sy_app s')" "sy_backoff s' = sy_backoff s"
  | (round) input where "\<not> sy_backoff s" "app_error_turn (sy_app s) = None"
      "s' = s\<lparr>sy_app := app_main_turn env input (sy_app s)\<rparr>"
  | (error) app where "\<not> sy_backoff s" "app_error_turn (sy_app s) = Some app"
      "s' = s\<lparr>sy_app := app, sy_backoff := True\<rparr>"
  | (awake) input where "sy_backoff s"
      "s' = s\<lparr>sy_app := app_poll_stdin input (app_after_backoff env (sy_app s)), sy_backoff := False\<rparr>"
  | (timeout) input where "\<not> sy_backoff s" "s' = s\<lparr>sy_app := app_poll_stdin input (sy_app s)\<rparr>"
  using assms
proof (cases rule: sys_step.cases)
  case (main input)
  then show ?thesis using round by blast
next
  case (main_error app)
  then show ?thesis using error by blast
next
  case (main_awake input)
  then show ?thesis using awake by blast
next
  case (main_timeout input)
  then show ?thesis using timeout by blast
next
  case (network reason)
  show ?thesis by (rule others) (simp_all add: network app_network_others)
next
  case (connecting cenv)
  show ?thesis by (rule others) (simp_all add: connecting app_network_connect_others)
next
  case (capture_reads up)
  show ?thesis by (rule others) (simp_all add: capture_reads by_others_def)
next
  case (capture_period up n buf)
  show ?thesis by (rule others) (simp_all add: capture_period app_capture_period_others)
next
  case (playback_takes st w block)
  show ?thesis
    by (rule others) (use playback_steps_others(1) [OF playback_takes(3)] playback_takes(1) in
        \<open>simp_all add: put_playback_world_def\<close>)
next
  case (playback_writes block w)
  show ?thesis
    by (rule others) (use playback_steps_others(2) [OF playback_writes(3)] playback_writes(1) in
        \<open>simp_all add: put_playback_world_def\<close>)
next
  case signal
  show ?thesis by (rule others) (simp_all add: signal request_stop_others)
qed

lemma sys_step_inv:
  assumes "sys_inv s" and "sys_step env dev s s'"
  shows "sys_inv s'"
  using assms(2)
proof (cases rule: sys_step_others)
  case others
  show ?thesis by (rule by_others_sys_inv [OF assms(1) others])
qed (use assms(1) error_turn_kept [of "sy_app s"] awake_kept [of "sy_app s" _ env] in
      \<open>auto simp: sys_inv_def app_main_turn_inv poll_stdin_inv\<close>)

lemma sys_start_inv: "sys_start env s \<Longrightarrow> sys_inv s"
  unfolding sys_start_def sys_inv_def using app_init_inv run_begin_inv by fastforce

interpretation client_system: invariant_system "sys_start env" "sys_step env dev" sys_inv
  for env dev
  by unfold_locales (auto intro: sys_start_inv sys_step_inv)

subsection \<open>The main loop's rounds\<close>

lemma try_pop_pop:
  assumes "0 < eq_count q"
  shows "event_queue_try_pop q = Some (eq_items q ! eq_head q,
    q\<lparr>eq_head := (eq_head q + 1) mod eq_capacity q, eq_count := eq_count q - 1\<rparr>)"
  using assms by (simp add: event_queue_try_pop_def event_queue_pop_def event_queue_wait_locked_def)

lemma wait_loop_pushes:
  "event_queue_wait_loop script q = Some (r, q') \<Longrightarrow>
     \<exists>evs. q' = push_all q evs \<and> (r = 1 \<and> 0 < eq_count q' \<or> r = 0 \<or> r = - 1)"
proof (induction script arbitrary: q)
  case Nil
  then have "q' = push_all q [] \<and> r = 1 \<and> 0 < eq_count q'" by (cases "eq_count q = 0") auto
  then show ?case by blast
next
  case (Cons step script)
  obtain evs w where step: "step = (evs, w)" by (cases step)
  show ?case
  proof (cases "eq_count q = 0")
    case False
    then have "q' = push_all q [] \<and> r = 1 \<and> 0 < eq_count q'" using Cons.prems by auto
    then show ?thesis by blast
  next
    case True
    have app: "push_all (push_all q evs) evs' = push_all q (evs @ evs')" for evs'
      by (simp add: push_all_def)
    from True Cons.prems step Cons.IH [of "push_all q evs"] show ?thesis
      by (cases w) (auto simp: app)
  qed
qed

text \<open>
  A round of the code's loop, with its wait of 100 ms over any script of wake-ups, does what a
  turn does after the events of the script have been pushed: it handles the oldest event, or,
  when the wait timed out, only looks at the terminal. It leaves the loop only when a stop was
  requested before the round, with 0, or when waiting failed, with -1.
\<close>

theorem loop_round_is_turn:
  assumes "app_loop_round env script input app = Some res"
  shows "\<exists>evs a. a = app\<lparr>ap_events := push_all (ap_events app) evs\<rparr> \<and>
    (res = Leave 0 app \<and> ap_stop_requested app \<or>
     res = Leave (- 1) a \<and> \<not> ap_stop_requested app \<or>
     (res = Go_On (app_main_turn env input a) \<or> res = Go_On (app_poll_stdin input a)) \<and>
       \<not> ap_stop_requested app)"
proof (cases "ap_stop_requested app")
  case True
  then show ?thesis using assms by (simp add: app_loop_round_def)
next
  case False
  then obtain r popped q where pop: "event_queue_pop script (ap_events app) 100 = Some (r, popped, q)"
    using assms by (auto simp: app_loop_round_def split: option.splits)
  then obtain r1 q1 where wait: "event_queue_wait_loop script (ap_events app) = Some (r1, q1)"
    by (auto simp: event_queue_pop_def event_queue_wait_locked_def split: option.splits)
  from wait_loop_pushes [OF wait] obtain evs where
    q1: "q1 = push_all (ap_events app) evs" "r1 = 1 \<and> 0 < eq_count q1 \<or> r1 = 0 \<or> r1 = - 1"
    by blast
  let ?a = "app\<lparr>ap_events := push_all (ap_events app) evs\<rparr>"
  have turn: "app_main_turn env input ?a =
      app_poll_stdin input (app_dispatch env (the popped) (app\<lparr>ap_events := q\<rparr>))" if "r1 = 1"
  proof -
    have "0 < eq_count q1" using q1 that by auto
    from try_pop_pop [OF this] show ?thesis
      using pop wait that q1(1)
      by (auto simp: event_queue_pop_def event_queue_wait_locked_def app_main_turn_def)
  qed
  have "res = (if r1 = 1 then Go_On (app_main_turn env input ?a)
      else if r1 = 0 then Go_On (app_poll_stdin input ?a) else Leave (- 1) ?a)"
    using assms False pop wait q1 turn
    by (auto simp: app_loop_round_def event_queue_pop_def event_queue_wait_locked_def Let_def
        split: if_splits)
  then show ?thesis using False by (intro exI [of _ evs] exI [of _ ?a]) simp
qed

theorem loop_round_is_turn_witness:
  "\<exists>evs a. a = blank_app\<lparr>ap_events := push_all (ap_events blank_app) evs\<rparr> \<and>
     (Go_On blank_app = Leave 0 blank_app \<and> ap_stop_requested blank_app \<or>
      Go_On blank_app = Leave (- 1) a \<and> \<not> ap_stop_requested blank_app \<or>
      (Go_On blank_app = Go_On (app_main_turn demo_env No_Input a) \<or>
       Go_On blank_app = Go_On (app_poll_stdin No_Input a)) \<and> \<not> ap_stop_requested blank_app)"
proof -
  have "app_loop_round demo_env [([], TIMED_OUT)] No_Input blank_app = Some (Go_On blank_app)"
    by (simp add: app_loop_round_def event_queue_pop_def event_queue_wait_locked_def blank_app_def
        zero_event_queue_def app_poll_stdin_def)
  from loop_round_is_turn [OF this] show ?thesis .
qed

text \<open>
  A wait that works: it ends, at the latest by its timeout, and does not fail. And the inputs
  that ask for the end of the program.
\<close>

definition wait_works :: "wait_script \<Rightarrow> bool" where
  "wait_works script \<longleftrightarrow> script \<noteq> [] \<and> snd (last script) = TIMED_OUT \<and>
     (\<forall>(evs, w) \<in> set script. w \<noteq> WAIT_ERROR)"

definition quits :: "stdin_state \<Rightarrow> bool" where
  "quits input \<longleftrightarrow> input = End_Of_Input \<or> input = Input_Line (''q'' @ [CHR 0x0A]) \<or>
     input = Input_Line (''q'' @ [CHR 0x0D, CHR 0x0A])"

lemma wait_loop_works:
  "wait_works script \<Longrightarrow> \<exists>r q'. event_queue_wait_loop script q = Some (r, q') \<and> (r = 0 \<or> r = 1)"
proof (induction script arbitrary: q)
  case Nil
  then show ?case by (simp add: wait_works_def)
next
  case (Cons step script)
  obtain evs w where step: "step = (evs, w)" by (cases step)
  have "w = WOKEN \<Longrightarrow> wait_works script" "w \<noteq> WAIT_ERROR"
    using Cons.prems step by (auto simp: wait_works_def split: if_splits)
  then show ?case
    using Cons.IH [of "push_all q evs"] step by (cases "eq_count q = 0"; cases w) auto
qed

lemma quits_stops: "quits input \<Longrightarrow> ap_stop_requested (app_poll_stdin input app)"
  by (auto simp: quits_def app_poll_stdin_def app_handle_manual_line_def app_request_stop_def)

lemma loop_round_works:
  assumes "wait_works script"
  shows "\<exists>res. app_loop_round env script input app = Some res \<and>
    (res = Leave 0 app \<or>
     (\<exists>app1. res = Go_On app1 \<and> (quits input \<longrightarrow> ap_stop_requested app1)))"
proof -
  from wait_loop_works [OF assms, of "ap_events app"] obtain r q where
    "event_queue_wait_loop script (ap_events app) = Some (r, q)" "r = 0 \<or> r = 1" by blast
  then show ?thesis
    by (auto simp: app_loop_round_def event_queue_pop_def event_queue_wait_locked_def Let_def
        quits_stops)
qed

lemma run_loop_ends:
  assumes "\<forall>(script, input) \<in> set rounds. wait_works script"
    and "\<exists>(script, input) \<in> set rounds. quits input"
  shows "\<exists>app'. app_run_loop env rounds app = Some (Leave 0 app')"
  using assms
proof (induction rounds arbitrary: app)
  case Nil
  then show ?case by simp
next
  case (Cons round rounds)
  obtain script input where round: "round = (script, input)" by (cases round)
  with Cons.prems(1) have works: "wait_works script" by simp
  from loop_round_works [OF works, of env input app] obtain res where
    res: "app_loop_round env script input app = Some res"
    "res = Leave 0 app \<or> (\<exists>app1. res = Go_On app1 \<and> (quits input \<longrightarrow> ap_stop_requested app1))"
    by blast
  show ?case
  proof (cases "res = Leave 0 app")
    case True
    then show ?thesis using round res(1) by simp
  next
    case False
    then obtain app1 where go: "res = Go_On app1" "quits input \<longrightarrow> ap_stop_requested app1"
      using res(2) by blast
    have "\<exists>app'. app_run_loop env rounds app1 = Some (Leave 0 app')"
    proof (cases "quits input")
      case True
      then show ?thesis
        using go(2) by (cases rounds) (auto simp: app_loop_round_def)
    next
      case not_quit: False
      then show ?thesis using Cons.IH [of app1] Cons.prems round by auto
    qed
    then show ?thesis using round res(1) go(1) by simp
  qed
qed

text \<open>
  C8: The loop ends: however long its waits take, and even when the event queue is full so that no
  event can be pushed, the round in which the user types \<open>q\<close> or closes the terminal is the last
  that handles anything, and \<open>app_run\<close> then returns 0.
\<close>

theorem app_run_ends:
  assumes "\<forall>(script, input) \<in> set rounds. wait_works script"
    and "\<exists>(script, input) \<in> set rounds. quits input"
  shows "\<exists>app'. app_run_loop env rounds app = Some (Leave 0 app')"
  by (rule run_loop_ends [OF assms])

theorem app_run_ends_witness:
  "\<exists>app'. app_run_loop demo_env
     [([([], WOKEN), ([zero_event], TIMED_OUT)], No_Input), ([([], TIMED_OUT)], Input_Line (''q'' @ [CHR 0x0A])),
      ([([], TIMED_OUT)], No_Input)] blank_app = Some (Leave 0 app')"
  by (rule app_run_ends) (simp_all add: wait_works_def quits_def)

text \<open>The demonstration client, started.\<close>

definition demo_running :: "(unit, nat) app_runtime" where
  "demo_running = projr (app_run_begin demo_env demo_app)"

definition demo_system :: "(unit, nat, unit) system" where
  "demo_system = \<lparr>sy_app = demo_running, sy_backoff = False, sy_flag = None,
     sy_local = \<lparr>pl_pcm = False, pl_rate = 0\<rparr>, sy_block = None, sy_dev = ()\<rparr>"

lemma demo_run_begin: "app_run_begin demo_env demo_app = Inr demo_running"
  using demo_app_ready by (simp add: app_run_begin_def demo_running_def Let_def)

lemma demo_system_start: "sys_start demo_env demo_system"
  unfolding sys_start_def demo_system_def
  using demo_app_ready(1,2) demo_run_begin by auto

lemma demo_reach: "reach (sys_start demo_env) (sys_step demo_env dev) demo_system"
  using demo_system_start by (rule reach.reach_start)

text \<open>
  C1: Whatever the threads do, and in whatever order: when no handler is under way, audio is uploaded
  only while the session is in its uploading state, in a session the server has named and with
  the dump file open. An error does not end the upload at once: an upload that was going on goes
  on while the main thread sleeps in the error state, still with its session and its dump file,
  and the upload is off when that sleep is over. The capture thread's flag says the same as the
  application's at all these points.
\<close>

theorem system_upload_safe:
  assumes "reach (sys_start env) (sys_step env dev) s"
  shows "(ap_upload_enabled (sy_app s) \<longrightarrow>
      ss_state (ap_session (sy_app s)) =
        (if sy_backoff s then SESSION_STATE_ERROR_BACKOFF else SESSION_STATE_UPLOADING_AUDIO) \<and>
      ap_dump_file (sy_app s) \<noteq> None \<and> ap_session_id (sy_app s) \<noteq> []) \<and>
    cap_uploading (ap_capture (sy_app s)) = ap_upload_enabled (sy_app s) \<and>
    (\<forall>s'. sys_step env dev s s' \<and> sy_backoff s \<and> \<not> sy_backoff s' \<longrightarrow> \<not> ap_upload_enabled (sy_app s'))"
proof -
  have inv: "sys_inv s" using client_system.reach_inv [OF assms] .
  have "\<not> ap_upload_enabled (sy_app s')"
    if "sys_step env dev s s'" "sy_backoff s" "\<not> sy_backoff s'" for s'
    using that(1)
  proof (cases rule: sys_step_others)
    case (awake input)
    then show ?thesis using awake_kept [of "sy_app s" input env] inv by (simp add: sys_inv_def)
  qed (use that in simp_all)
  with inv show ?thesis
    by (auto simp: sys_inv_def app_inv_defs core_inv_defs split: if_splits)
qed

text \<open>
  An error during an upload: while the main thread sleeps, a captured period is encoded, written to
  the dump file and queued as before.
\<close>

lemma upload_goes_on_in_backoff:
  assumes "app_error_turn app = Some app'"
  shows "ss_state (ap_session app') = SESSION_STATE_ERROR_BACKOFF \<and>
    ap_upload_enabled app' = ap_upload_enabled app \<and>
    ap_client (app_capture_on_pcm env pcm n app') = ap_client (app_capture_on_pcm env pcm n app) \<and>
    ap_dump_file (app_capture_on_pcm env pcm n app') = ap_dump_file (app_capture_on_pcm env pcm n app)"
proof -
  obtain q ses k where app': "app' = app\<lparr>ap_events := q, ap_session := ses, ap_slept_us := k\<rparr>"
    "ss_state ses = SESSION_STATE_ERROR_BACKOFF"
    using assms by (auto simp: app_error_turn_def app_sleep_backoff_def session_handle_event_def
        session_handle_error_def split: option.splits if_splits)
  obtain r out enc where en: "opus_encode_frame (ae_opus env) (ap_encoder app) pcm (int n) 512 = (r, out, enc)"
    using prod_cases3 by blast
  let ?b = "app\<lparr>ap_encoder := enc\<rparr>"
  let ?c = "app\<lparr>ap_events := q, ap_session := ses, ap_slept_us := k, ap_encoder := enc\<rparr>"
  have wr: "ap_dump_file (snd (app_write_opus_packet env ?c p)) = ap_dump_file (snd (app_write_opus_packet env ?b p))"
    for p
    by (simp add: app_write_opus_packet_def Let_def split: option.split)
  show ?thesis
    using app'(2) wr
    by (simp add: app'(1) app_capture_on_pcm_def en app_queue_binary_def Let_def split_beta)
qed

text \<open>
  C13: At every such moment the event queue, the client's message queues and receive buffers, the
  capture state and the playback queue are well formed, the client runs exactly when the
  application has it marked as started, and the session id fits its field. The session is never
  in the wake-word state, and in the error state exactly while the main thread sleeps before it
  reconnects.
\<close>

theorem system_structures:
  assumes "reach (sys_start env) (sys_step env dev) s"
  shows "eq_inv (ap_events (sy_app s)) \<and> client_inv (ap_client (sy_app s)) \<and>
    capture_inv (ap_capture (sy_app s)) \<and> ab_inv (pb_queue (ap_playback (sy_app s))) \<and>
    cl_running (ap_client (sy_app s)) = ap_client_started (sy_app s) \<and>
    length (ap_session_id (sy_app s)) < 64 \<and>
    ss_state (ap_session (sy_app s)) \<noteq> SESSION_STATE_WAKE_DETECTING \<and>
    (ss_state (ap_session (sy_app s)) = SESSION_STATE_ERROR_BACKOFF \<longleftrightarrow> sy_backoff s)"
  using client_system.reach_inv [OF assms]
  by (auto simp: sys_inv_def app_inv_defs core_inv_defs split: if_splits)

end
