(* ===== verification/App_Dialog.thy ===== *)
theory App_Dialog
  imports App_System
begin

section \<open>The dialog with the server\<close>

text \<open>
  What the running client of theory \<open>App_System\<close> does, seen as a dialog: the phases it goes
  through, the phase that answers each event, and what has been sent when an upload begins. The
  session machine of theory \<open>Session_FSM\<close> is one half of this; the other half are the states
  the application enters on its own.
\<close>

subsection \<open>Phases\<close>

datatype phase =
    Idle | Connecting | Handshaking | Ready | Uploading bool | Waiting | Playing | Backoff | Outside

fun phase_of_state :: "session_state \<Rightarrow> bool \<Rightarrow> phase" where
  "phase_of_state SESSION_STATE_IDLE up = Idle"
| "phase_of_state SESSION_STATE_CONNECTING up = Connecting"
| "phase_of_state SESSION_STATE_HANDSHAKING up = Handshaking"
| "phase_of_state SESSION_STATE_READY up = Ready"
| "phase_of_state SESSION_STATE_UPLOADING_AUDIO up = Uploading up"
| "phase_of_state SESSION_STATE_WAITING_TTS up = Waiting"
| "phase_of_state SESSION_STATE_PLAYING_TTS up = Playing"
| "phase_of_state SESSION_STATE_ERROR_BACKOFF up = Backoff"
| "phase_of_state SESSION_STATE_WAKE_DETECTING up = Outside"

definition phase_of :: "('e, 'd) app_runtime \<Rightarrow> phase" where
  "phase_of app = phase_of_state (ss_state (ap_session app)) (ap_upload_enabled app)"

text \<open>
  What an event that the main loop takes from the queue means to the dialog. The end of the speech
  counts when nothing is queued for playback (the server's stop) or when the stop came before
  (playback finished), and leads to a client that is ready or, without a connection, idle.
\<close>

datatype stimulus =
    Failure | Start | Hush | Up | Greeting | Speech_Starts | Speech_Over bool | Nothing

fun session_stimulus :: "app_event_type \<Rightarrow> stimulus" where
  "session_stimulus APP_EVENT_ERROR = Failure"
| "session_stimulus APP_EVENT_MANUAL_START = Start"
| "session_stimulus APP_EVENT_WAKEWORD_DETECTED = Start"
| "session_stimulus APP_EVENT_MANUAL_STOP = Hush"
| "session_stimulus APP_EVENT_WS_CONNECTED = Up"
| "session_stimulus APP_EVENT_WS_HELLO = Greeting"
| "session_stimulus _ = Nothing"

definition online :: "('e, 'd) app_runtime \<Rightarrow> bool" where
  "online app \<longleftrightarrow> ap_client_started app \<and> xiaozhi_client_is_connected (ap_client app)"

definition protocol_stimulus :: "('e, 'd) app_runtime \<Rightarrow> xiaozhi_incoming_event \<Rightarrow> stimulus" where
  "protocol_stimulus app pe =
     (case xe_type pe of
        XIAOZHI_EVENT_HELLO \<Rightarrow> Greeting
      | XIAOZHI_EVENT_TTS_START \<Rightarrow> Speech_Starts
      | XIAOZHI_EVENT_TTS_STOP \<Rightarrow>
          (if audio_buffer_size (pb_queue (ap_playback app)) = 0 then Speech_Over (online app) else Nothing)
      | _ \<Rightarrow> Nothing)"

definition stimulus_of :: "('e, 'd) app_runtime \<Rightarrow> app_event \<Rightarrow> stimulus" where
  "stimulus_of app e =
     (case ev_type e of
        APP_EVENT_WS_TEXT \<Rightarrow>
          (case xiaozhi_parse_incoming_json (Some (ev_text e)) zero_incoming_event of
             (r, pe) \<Rightarrow> (if r = 0 then protocol_stimulus app pe else Nothing))
      | APP_EVENT_PLAYBACK_FINISHED \<Rightarrow> (if ap_tts_done app then Speech_Over (online app) else Nothing)
      | APP_EVENT_WS_HELLO \<Rightarrow> Nothing
      | t \<Rightarrow> session_stimulus t)"

text \<open>
  The dialog machine: the phase that follows a phase. \<open>b\<close> says whether the upload that was asked
  for could be begun; \<open>Uploading False\<close> is one that could not.
\<close>

fun answers :: "bool \<Rightarrow> stimulus \<Rightarrow> phase \<Rightarrow> phase" where
  "answers b Failure p = Backoff"
| "answers b Speech_Starts p = Playing"
| "answers b (Speech_Over up) p = (if up then Ready else Idle)"
| "answers b Start Idle = Connecting"
| "answers b Up Connecting = Handshaking"
| "answers b Greeting Handshaking = Ready"
| "answers b Start Ready = Uploading b"
| "answers b Hush (Uploading c) = Waiting"
| "answers b Start Playing = Connecting"
| "answers b s p = p"

text \<open>Its arrows: an answer to an event, or the end of the back-off.\<close>

inductive dialog :: "phase \<Rightarrow> phase \<Rightarrow> bool" where
  event: "dialog p (answers b s p)"
| awake: "dialog Backoff Connecting"

lemma answers_Nothing [simp]: "answers b Nothing p = p"
  by (cases p) simp_all

lemma answers_Outside: "p \<noteq> Outside \<Longrightarrow> answers b s p \<noteq> Outside" "p \<noteq> Outside \<Longrightarrow> Outside \<noteq> answers b s p"
  by (cases s; cases p; simp)+

lemma ignored_answers:
  assumes "ignored (ss_state ses) t" and "ss_state ses \<noteq> SESSION_STATE_WAKE_DETECTING"
  shows "answers b (session_stimulus t) (phase_of_state (ss_state ses) up) = phase_of_state (ss_state ses) up"
  using assms by (cases t; cases "ss_state ses") (simp_all add: ignored_def session_arrow_simps is_start_def)

lemma session_event_phase:
  assumes "app_inv app" and "t \<noteq> APP_EVENT_ERROR"
  shows "phase_of (app_session_event env t app) =
    answers (ap_upload_enabled (app_session_event env t app)) (session_stimulus t) (phase_of app)"
proof (cases "ignored (ss_state (ap_session app)) t")
  case True
  have "ss_state (ap_session app) \<noteq> SESSION_STATE_WAKE_DETECTING"
    using assms(1) by (simp add: app_inv_defs)
  from ignored_answers [OF True this] True show ?thesis
    by (simp add: app_session_event_def session_ignored_handle app_handle_action_def phase_of_def)
next
  case False
  then obtain st a where arrow: "session_arrow (ss_state (ap_session app)) t st a"
    unfolding ignored_def by blast
  let ?b = "app\<lparr>ap_session := (ap_session app)\<lparr>ss_state := st\<rparr>\<rparr>"
  have b: "linked_ok ?b" using app_invD(1) [OF assms(1)] by (rule linked_ok_frame)
  have off: "\<not> ap_upload_enabled app"
    if "ss_state (ap_session app) \<noteq> SESSION_STATE_UPLOADING_AUDIO"
    using assms(1) that by (auto simp: app_inv_def upload_ok_def)
  have ev: "app_session_event env t app = app_handle_action env a ?b"
    by (simp add: app_session_event_def session_arrow_handle [OF arrow])
  from arrow have "phase_of (app_handle_action env a ?b) =
      answers (ap_upload_enabled (app_handle_action env a ?b)) (session_stimulus t) (phase_of app)"
  proof (cases rule: session_arrow.cases)
    case fail
    then show ?thesis using assms(2) by simp
  next
    case connect
    then show ?thesis
      using connect_kept [OF b, of env] assms(1)
      by (auto simp: app_handle_action_def phase_of_def is_start_def app_inv_defs)
  next
    case connected
    then show ?thesis using hello_kept [OF b, of env] by (simp add: phase_of_def)
  next
    case hello
    then show ?thesis by (simp add: app_handle_action_def phase_of_def)
  next
    case talk
    have "\<not> ap_upload_enabled ?b" using off talk by simp
    note start = start_listen_kept [OF b this, of env]
    have "ss_state (ap_session (app_handle_start_listen env ?b)) = SESSION_STATE_UPLOADING_AUDIO"
      using start(3) talk by auto
    then show ?thesis using talk by (auto simp: app_handle_action_def phase_of_def is_start_def)
  next
    case stop
    then show ?thesis using stop_listen_kept [OF b, of env] by (simp add: phase_of_def)
  next
    case barge_in
    then show ?thesis
      using abort_kept [OF b, of env] by (auto simp: app_handle_action_def phase_of_def is_start_def)
  qed
  then show ?thesis by (simp add: ev)
qed

lemma reset_phase:
  "phase_of (app_reset_to_idle app) = (if online app then Ready else Idle)"
  by (simp add: app_reset_to_idle_def Let_def phase_of_def online_def)

lemma hello_data_phase:
  "phase_of (app_update_decoder_from_hello env event
    (if xe_session_id event \<noteq> [] then app\<lparr>ap_session_id := snprintf_buf 64 (xe_session_id event)\<rparr>
     else app)) = phase_of app"
proof -
  let ?a = "if xe_session_id event \<noteq> [] then app\<lparr>ap_session_id := snprintf_buf 64 (xe_session_id event)\<rparr>
     else app"
  obtain dec rate where "app_update_decoder_from_hello env event ?a =
      ?a\<lparr>ap_decoder := dec, ap_decoder_sample_rate := rate\<rparr>"
    by (rule update_decoder_shape)
  then show ?thesis by (simp add: phase_of_def)
qed

lemma phase_frame [simp]:
  "phase_of (app\<lparr>ap_tts_done := t\<rparr>) = phase_of app"
  "phase_of (app\<lparr>ap_stop_requested := t\<rparr>) = phase_of app"
  "phase_of (app\<lparr>ap_events := q\<rparr>) = phase_of app"
  "phase_of (app_set_state SESSION_STATE_PLAYING_TTS a) = Playing"
  by (simp_all add: phase_of_def)

lemma online_frame [simp]:
  "online (app\<lparr>ap_tts_done := t\<rparr>) = online app" "online (app\<lparr>ap_events := q\<rparr>) = online app"
  by (simp_all add: online_def)

lemma protocol_stimulus_events: "protocol_stimulus (app\<lparr>ap_events := q\<rparr>) pe = protocol_stimulus app pe"
  by (cases "xe_type pe") (simp_all add: protocol_stimulus_def)

lemma protocol_event_phase:
  assumes "app_inv app"
  shows "phase_of (app_handle_protocol_event env pe app) =
    answers (ap_upload_enabled (app_handle_protocol_event env pe app)) (protocol_stimulus app pe) (phase_of app)"
proof (cases "xe_type pe = XIAOZHI_EVENT_HELLO")
  case True
  then show ?thesis
    using session_event_phase [OF hello_data_inv [OF assms, of env pe], of APP_EVENT_WS_HELLO env]
    unfolding app_handle_protocol_event_def hello_data_phase Let_def by (simp add: protocol_stimulus_def)
next
  case False
  then show ?thesis
    by (cases "xe_type pe")
       (simp_all add: app_handle_protocol_event_def protocol_stimulus_def reset_phase Let_def)
qed

lemma dispatch_phase:
  assumes "app_inv app" and "ev_type e \<noteq> APP_EVENT_ERROR"
  shows "phase_of (app_dispatch env e app) =
    answers (ap_upload_enabled (app_dispatch env e app)) (stimulus_of app e) (phase_of app)"
  using assms session_event_phase [OF assms(1)]
  by (cases "ev_type e")
     (simp_all add: app_dispatch_def stimulus_of_def protocol_event_phase reset_phase split: prod.split)

lemma poll_stdin_phase [simp]: "phase_of (app_poll_stdin input app) = phase_of app"
  by (simp add: phase_of_def)

lemma on_pcm_phase [simp]: "phase_of (app_capture_on_pcm env pcm frames app) = phase_of app"
  by (simp add: app_capture_on_pcm_def phase_of_def Let_def split_beta)

lemma other_phase [simp]:
  "phase_of (app_effects env effs a) = phase_of a"
  "phase_of (app_network env reason app) = phase_of app"
  "phase_of (app_network_connect env cenv app) = phase_of app"
  "phase_of (app_request_stop app) = phase_of app"
  by (simp_all add: phase_of_def app_network_def app_network_connect_def app_request_stop_def
      split: prod.split)

lemma capture_period_phase [simp]: "phase_of (app_capture_period env up n buf app) = phase_of app"
  by (simp add: app_capture_period_def Let_def split: prod.split option.split) (simp add: phase_of_def)

subsection \<open>Steps of the dialog\<close>

text \<open>
  From \<open>s\<close> to \<open>s'\<close> the main loop takes the event \<open>e\<close> from the queue and handles it, an error
  up to the end of the sleep.
\<close>

definition handles :: "('e, 'd) app_env \<Rightarrow> ('e, 'd, 'c) system \<Rightarrow> app_event \<Rightarrow> ('e, 'd, 'c) system \<Rightarrow> bool" where
  "handles env s e s' \<longleftrightarrow>
     \<not> sy_backoff s \<and> (\<exists>q. event_queue_try_pop (ap_events (sy_app s)) = Some (e, q)) \<and>
     (case app_error_turn (sy_app s) of
        None \<Rightarrow> \<exists>input. s' = s\<lparr>sy_app := app_main_turn env input (sy_app s)\<rparr>
      | Some app \<Rightarrow> s' = s\<lparr>sy_app := app, sy_backoff := True\<rparr>)"

lemma handles_answers:
  assumes "sys_inv s" and "handles env s e s'"
  shows "phase_of (sy_app s') =
    answers (ap_upload_enabled (sy_app s')) (stimulus_of (sy_app s) e) (phase_of (sy_app s))"
proof -
  have inv: "app_inv (sy_app s)" using assms by (simp add: sys_inv_def handles_def)
  obtain q where pop: "event_queue_try_pop (ap_events (sy_app s)) = Some (e, q)"
    using assms(2) by (auto simp: handles_def)
  have stim: "stimulus_of ((sy_app s)\<lparr>ap_events := q\<rparr>) e = stimulus_of (sy_app s) e"
    by (simp add: stimulus_of_def protocol_stimulus_events split: app_event_type.split prod.split)
  show ?thesis
  proof (cases "ev_type e = APP_EVENT_ERROR")
    case True
    then obtain app where app: "app_error_turn (sy_app s) = Some app" "sy_app s' = app"
      using assms(2) pop by (auto simp: app_error_turn_def handles_def)
    from error_turn_kept [OF inv app(1)] app(2) True show ?thesis
      by (simp add: phase_of_def stimulus_of_def)
  next
    case False
    then obtain input where "sy_app s' = app_main_turn env input (sy_app s)"
      using assms(2) pop by (auto simp: app_error_turn_def handles_def)
    then show ?thesis
      using dispatch_phase [OF try_pop_inv [OF inv pop] False, of env] pop stim
      by (simp add: app_main_turn_def)
  qed
qed

lemma unhandled_phase:
  assumes "sys_inv s" and "sys_step env dev s s'" and "\<nexists>e. handles env s e s'"
  shows "phase_of (sy_app s') =
    (if sy_backoff s \<and> \<not> sy_backoff s' then Connecting else phase_of (sy_app s))"
  using assms(2)
proof (cases rule: sys_step_others)
  case others
  then show ?thesis by (simp add: by_others_def phase_of_def)
next
  case (round input)
  then have "event_queue_try_pop (ap_events (sy_app s)) = None"
    using assms(3) by (cases "event_queue_try_pop (ap_events (sy_app s))") (auto simp: handles_def)
  then show ?thesis using round by (simp add: app_main_turn_def)
next
  case (error app)
  then show ?thesis
    using assms(3) by (cases "event_queue_try_pop (ap_events (sy_app s))")
      (auto simp: handles_def app_error_turn_def)
next
  case (awake input)
  then show ?thesis
    using awake_kept [of "sy_app s" input env] assms(1) by (simp add: sys_inv_def phase_of_def)
qed simp

definition phase_start :: "phase \<Rightarrow> bool" where
  "phase_start p \<longleftrightarrow> p \<in> {Connecting, Idle, Ready}"

lemma run_begin_phase:
  assumes "app_inv app" and "app_run_begin env app = Inr app'"
  shows "phase_start (phase_of app')"
proof -
  note reset = reset_kept [OF app_invD(1) [OF assms(1)]]
  then have "linked_ok (app_set_state SESSION_STATE_CONNECTING (app_reset_to_idle app))"
    by (intro inv_intros) simp
  from connect_kept [OF this, of env] have "phase_of (app_handle_connect env
      (app_set_state SESSION_STATE_CONNECTING (app_reset_to_idle app))) = Connecting"
    by (simp add: phase_of_def)
  then show ?thesis
    using assms(2)
    by (auto simp: app_run_begin_def app_handle_action_def Let_def phase_start_def reset_phase
        split: if_splits)
qed

lemma step_dialog:
  assumes "sys_inv s" and "sys_step env dev s s'"
  shows "phase_of (sy_app s') = phase_of (sy_app s) \<or> dialog (phase_of (sy_app s)) (phase_of (sy_app s'))"
proof (cases "\<exists>e. handles env s e s'")
  case True
  then show ?thesis using handles_answers [OF assms(1)] dialog.event by metis
next
  case False
  have "sy_backoff s \<Longrightarrow> phase_of (sy_app s) = Backoff"
    using assms(1) by (simp add: sys_inv_def phase_of_def)
  then show ?thesis using unhandled_phase [OF assms False] dialog.awake by auto
qed

interpretation client_dialog: simulation "sys_start env" "sys_step env dev" sys_inv
  "\<lambda>s. phase_of (sy_app s)" phase_start dialog
  for env dev
proof unfold_locales
  show "sys_start env s \<Longrightarrow> phase_start (phase_of (sy_app s))" for s
    unfolding sys_start_def using app_init_inv run_begin_phase by blast
  show "sys_inv s \<Longrightarrow> sys_step env dev s s' \<Longrightarrow> phase_of (sy_app s') = phase_of (sy_app s) \<or>
      dialog (phase_of (sy_app s)) (phase_of (sy_app s'))" for s s'
    by (rule step_dialog)
qed

lemma dialog_inside: "reach phase_start dialog p \<Longrightarrow> p \<noteq> Outside"
  by (induction rule: reach.induct) (auto simp: phase_start_def answers_Outside elim!: dialog.cases)

text \<open>
  C3: The client's dialog refines the machine above, step by step: in every run, a step in which the
  main loop handles an event takes the client to exactly the phase the machine answers to that
  event; the end of the back-off sleep takes it from the back-off to connecting; every other step
  of any thread leaves its phase alone. The phase outside of the machine is never entered.
\<close>

theorem system_refines_dialog:
  assumes "reach (sys_start env) (sys_step env dev) s" and "sys_step env dev s s'"
  shows "phase_of (sy_app s) \<noteq> Outside \<and> (phase_of (sy_app s) = Backoff \<longleftrightarrow> sy_backoff s) \<and>
    (\<forall>e. handles env s e s' \<longrightarrow> phase_of (sy_app s') =
       answers (ap_upload_enabled (sy_app s')) (stimulus_of (sy_app s) e) (phase_of (sy_app s))) \<and>
    ((\<nexists>e. handles env s e s') \<longrightarrow> phase_of (sy_app s') =
       (if sy_backoff s \<and> \<not> sy_backoff s' then Connecting else phase_of (sy_app s)))"
proof -
  have inv: "sys_inv s" using client_system.reach_inv [OF assms(1)] .
  have "phase_of (sy_app s) = Backoff \<longleftrightarrow> ss_state (ap_session (sy_app s)) = SESSION_STATE_ERROR_BACKOFF"
    by (cases "ss_state (ap_session (sy_app s))") (simp_all add: phase_of_def)
  with inv have "phase_of (sy_app s) = Backoff \<longleftrightarrow> sy_backoff s"
    by (auto simp: sys_inv_def app_inv_defs split: if_splits)
  then show ?thesis
    using dialog_inside [OF client_dialog.reach_abs [OF assms(1)]] handles_answers [OF inv]
      unhandled_phase [OF inv assms(2)] by blast
qed

subsection \<open>What has been sent when an upload begins\<close>

definition pending_texts :: "('e, 'd) app_runtime \<Rightarrow> string list" where
  "pending_texts app = tq_contents (cl_pending_text (ap_client app))"

lemma client_queue_text_appends:
  assumes "client_inv c" and "xiaozhi_client_queue_text m d c (Some s) = (r, c', effs)"
  shows "tq_contents (cl_pending_text c') =
      (if r = 0 then tq_contents (cl_pending_text c) @ [s] else tq_contents (cl_pending_text c))"
    "cl_pending_binary c' = cl_pending_binary c"
proof -
  have ok: "tq_ok (cl_pending_text c)" using assms(1) by (simp add: client_inv_def)
  obtain r1 q where e: "ensure_text_capacity m (cl_pending_text c) (tq_count (cl_pending_text c) + 1) = (r1, q)"
    by fastforce
  note ens = ensure_ok [OF ok e]
  have "r1 = 0 \<Longrightarrow> tq_contents (text_append q s) = tq_contents (cl_pending_text c) @ [s]"
    using text_append_ok(2) [OF ens(1)] ens by simp
  then show "tq_contents (cl_pending_text c') =
      (if r = 0 then tq_contents (cl_pending_text c) @ [s] else tq_contents (cl_pending_text c))"
    "cl_pending_binary c' = cl_pending_binary c"
    using assms(2) ens e
    by (auto simp: xiaozhi_client_queue_text_def queue_text_reserve_def queue_text_append_def
        Let_def split: if_splits)
qed

lemma queue_text_appends:
  assumes "client_inv (ap_client app)" and "app_queue_text env s app = (r, app')"
  shows "pending_texts app' = (if r = 0 then pending_texts app @ [s] else pending_texts app)"
    "cl_pending_binary (ap_client app') = cl_pending_binary (ap_client app)"
  using client_queue_text_appends [OF assms(1)] assms(2)
  by (auto simp: app_queue_text_def pending_texts_def split: prod.splits)

text \<open>The listen-start message of the session, as far as it fits its buffer.\<close>

definition listen_start_of :: "('e, 'd) app_runtime \<Rightarrow> string \<Rightarrow> bool" where
  "listen_start_of app payload \<longleftrightarrow> ap_session_id app \<noteq> [] \<and>
     xiaozhi_build_listen_start_manual (Some (ap_session_id app)) 256 = (0, payload)"

lemma start_listen_announces:
  assumes "linked_ok app" and "\<not> ap_upload_enabled app"
    and "ap_upload_enabled (app_handle_start_listen env app)"
  shows "\<exists>payload. listen_start_of app payload \<and>
    pending_texts (app_handle_start_listen env app) = pending_texts app @ [payload]"
proof -
  obtain r1 a1 where send: "app_send_listen_start env app = (r1, a1)" by fastforce
  obtain r2 a2 where dump: "app_open_opus_dump_file env a1 = (r2, a2)" by fastforce
  have "\<not> ap_upload_enabled a1" "\<not> ap_upload_enabled a2"
    using send_listen_start_frame [of env app] open_dump_frame [of env a1] send dump assms(2) by simp_all
  then have ok: "r1 = 0" "r2 = 0"
    using assms(3) by (auto simp: app_handle_start_listen_def send dump split: if_splits)
  have client: "ap_client (app_handle_start_listen env app) = ap_client a1"
    using open_dump_frame [of env a1] dump by (simp add: app_handle_start_listen_def send ok)
  obtain payload where payload: "listen_start_of app payload" "app_queue_text env payload app = (0, a1)"
    using send ok(1) by (auto simp: app_send_listen_start_def listen_start_of_def split: if_splits prod.splits)
  have "client_inv (ap_client app)" using assms(1) by (simp add: linked_ok_def app_ok_def)
  from queue_text_appends(1) [OF this payload(2)] payload(1) client show ?thesis
    by (auto simp: pending_texts_def)
qed

lemma session_event_upload:
  assumes "app_inv app" and "\<not> ap_upload_enabled app"
    and "ap_upload_enabled (app_session_event env t app)"
  shows "is_start t \<and> ss_state (ap_session app) = SESSION_STATE_READY \<and>
    (\<exists>payload. listen_start_of app payload \<and>
       pending_texts (app_session_event env t app) = pending_texts app @ [payload])"
proof -
  obtain ses a where ev: "session_handle_event (ap_session app) t = (ses, a)" by fastforce
  let ?b = "app\<lparr>ap_session := ses\<rparr>"
  have b: "linked_ok ?b" using app_invD(1) [OF assms(1)] by (rule linked_ok_frame)
  have up: "ap_upload_enabled (app_handle_action env a ?b)"
    using assms(3) by (simp add: app_session_event_def ev)
  from ev have "is_start t \<and> ss_state (ap_session app) = SESSION_STATE_READY \<and>
    (\<exists>payload. listen_start_of app payload \<and>
       pending_texts (app_handle_action env a ?b) = pending_texts app @ [payload])"
  proof (cases rule: session_handle_event_cases)
    case ignored
    then show ?thesis using up assms(2) by (simp add: app_handle_action_def)
  next
    case arrow
    then show ?thesis
    proof (cases rule: session_arrow.cases)
      case fail
      then show ?thesis using up return_to_wake_kept [OF b, of env] by (simp add: app_handle_action_def)
    next
      case connect
      then show ?thesis
        using up connect_kept [OF b, of env] assms(2) by (simp add: app_handle_action_def)
    next
      case connected
      then show ?thesis using up hello_kept [OF b, of env] assms(2) by simp
    next
      case hello
      then show ?thesis using up assms(2) by (simp add: app_handle_action_def)
    next
      case talk
      then show ?thesis
        using start_listen_announces [OF b, of env] up assms(2)
        by (simp add: app_handle_action_def listen_start_of_def pending_texts_def)
    next
      case stop
      then show ?thesis using up stop_listen_kept [OF b, of env] by simp
    next
      case barge_in
      then show ?thesis using up abort_kept [OF b, of env] by (simp add: app_handle_action_def)
    qed
  qed
  then show ?thesis by (simp add: app_session_event_def ev)
qed

lemma dispatch_upload:
  assumes "app_inv app" and "\<not> ap_upload_enabled app"
    and "ap_upload_enabled (app_dispatch env event app)"
  shows "is_start (ev_type event) \<and> ss_state (ap_session app) = SESSION_STATE_READY \<and>
    (\<exists>payload. listen_start_of app payload \<and>
       pending_texts (app_dispatch env event app) = pending_texts app @ [payload])"
proof -
  have reset: "\<not> ap_upload_enabled (app_reset_to_idle (app\<lparr>ap_tts_done := t\<rparr>))" for t
    using reset_kept [OF linked_ok_frame(5) [OF app_invD(1) [OF assms(1)]]] by blast
  have reset0: "\<not> ap_upload_enabled (app_reset_to_idle app)"
    using reset_kept [OF app_invD(1) [OF assms(1)]] by blast
  have "\<not> ap_upload_enabled (app_handle_protocol_event env pe app)" for pe
  proof (cases "xe_type pe = XIAOZHI_EVENT_HELLO")
    case True
    let ?a = "if xe_session_id pe \<noteq> [] then app\<lparr>ap_session_id := snprintf_buf 64 (xe_session_id pe)\<rparr> else app"
    obtain dec rate where dec: "app_update_decoder_from_hello env pe ?a =
        ?a\<lparr>ap_decoder := dec, ap_decoder_sample_rate := rate\<rparr>" by (rule update_decoder_shape)
    then have "\<not> ap_upload_enabled (app_update_decoder_from_hello env pe ?a)" using assms(2) by simp
    from session_event_upload [OF hello_data_inv [OF assms(1)] this, of env APP_EVENT_WS_HELLO]
    have "\<not> ap_upload_enabled (app_session_event env APP_EVENT_WS_HELLO
        (app_update_decoder_from_hello env pe ?a))"
      unfolding is_start_def by blast
    with True show ?thesis
      unfolding app_handle_protocol_event_def Let_def by simp
  next
    case False
    then show ?thesis
      using reset assms(2)
      by (cases "xe_type pe") (simp_all add: app_handle_protocol_event_def Let_def)
  qed
  note protocol = this
  show ?thesis
    using assms reset0 protocol session_event_upload [OF assms(1,2)]
    by (cases "ev_type event") (auto simp: app_dispatch_def is_start_def split: prod.splits if_splits)
qed

text \<open>
  C2: Audio is never uploaded unannounced: the step that turns the upload on is the main loop
  handling a start request in the ready state, and the same step has queued the listen-start
  message of the current session as the last text.
\<close>

theorem upload_on_announced:
  assumes "reach (sys_start env) (sys_step env dev) s" and "sys_step env dev s s'"
    and "\<not> ap_upload_enabled (sy_app s)" and "ap_upload_enabled (sy_app s')"
  shows "phase_of (sy_app s) = Ready \<and>
    (\<exists>e q payload. event_queue_try_pop (ap_events (sy_app s)) = Some (e, q) \<and>
       is_start (ev_type e) \<and> listen_start_of (sy_app s) payload \<and>
       pending_texts (sy_app s') = pending_texts (sy_app s) @ [payload])"
proof -
  have inv: "sys_inv s" using client_system.reach_inv [OF assms(1)] .
  from assms(2) show ?thesis
  proof (cases rule: sys_step_others)
    case (round input)
    then have app: "app_inv (sy_app s)" using inv by (simp add: sys_inv_def)
    have "ap_upload_enabled (app_main_turn env input (sy_app s))" using round assms(4) by simp
    then obtain e q where pop: "event_queue_try_pop (ap_events (sy_app s)) = Some (e, q)"
      and up: "ap_upload_enabled (app_dispatch env e ((sy_app s)\<lparr>ap_events := q\<rparr>))"
      using assms(3) by (auto simp: app_main_turn_def split: option.splits)
    let ?a = "(sy_app s)\<lparr>ap_events := q\<rparr>"
    have "\<not> ap_upload_enabled ?a" using assms(3) by simp
    from dispatch_upload [OF try_pop_inv [OF app pop] this up] obtain payload where
      p: "is_start (ev_type e)" "ss_state (ap_session ?a) = SESSION_STATE_READY"
      "listen_start_of ?a payload"
      "pending_texts (app_dispatch env e ?a) = pending_texts ?a @ [payload]" by blast
    have "phase_of (sy_app s) = Ready" "listen_start_of (sy_app s) payload"
      using p(2,3) by (simp_all add: phase_of_def listen_start_of_def)
    moreover have "pending_texts (sy_app s') = pending_texts (sy_app s) @ [payload]"
      using p(4) round pop by (simp add: app_main_turn_def pending_texts_def)
    ultimately show ?thesis using pop p(1) by blast
  next
    case (error app)
    then show ?thesis
      using assms(3,4) by (auto simp: app_error_turn_def app_sleep_backoff_def split: option.splits if_splits)
  next
    case (awake input)
    then show ?thesis
      using assms(4) awake_kept [of "sy_app s" input env] inv by (simp add: sys_inv_def)
  qed (use assms(3,4) in \<open>simp_all add: by_others_def\<close>)
qed

end
