(* ===== verification/App_Runs.thy ===== *)
theory App_Runs
  imports App_Dialog
begin

section \<open>Runs of the client\<close>

text \<open>
  What happens in particular runs: from a fresh connection to the upload, and the runs in which
  the client does not do what it should.
\<close>

subsection \<open>Events and turns\<close>

lemma eq_contents_push:
  assumes "eq_inv (ap_events app)" and "eq_count (ap_events app) < eq_capacity (ap_events app)"
  shows "\<exists>e. ev_type e = t \<and> (case m of None \<Rightarrow> ev_text e = [] | Some s \<Rightarrow> ev_text e = snprintf_buf 1024 s) \<and>
    eq_contents (ap_events (app_push_event app t m c)) = eq_contents (ap_events app) @ [e] \<and>
    eq_capacity (ap_events (app_push_event app t m c)) = eq_capacity (ap_events app) \<and>
    eq_count (ap_events (app_push_event app t m c)) = eq_count (ap_events app) + 1"
proof -
  let ?txt = "case m of None \<Rightarrow> [] | Some s \<Rightarrow> snprintf_buf 1024 s"
  let ?e = "\<lparr>ev_type = t, ev_code = c, ev_data_len = (case m of None \<Rightarrow> 0 | Some s \<Rightarrow> length ?txt),
    ev_text = ?txt\<rparr>"
  have "eq_contents (ap_events (app_push_event app t m c)) = eq_contents (ap_events app) @ [?e]"
    using assms by (simp add: app_push_event_def Let_def eq_push_contents)
  moreover have "eq_capacity (ap_events (app_push_event app t m c)) = eq_capacity (ap_events app)"
    by (simp add: app_push_event_def Let_def)
  moreover have "eq_count (ap_events (app_push_event app t m c)) = eq_count (ap_events app) + 1"
    using assms(2) by (simp add: app_push_event_def Let_def event_queue_push_def)
  ultimately show ?thesis by (intro exI [of _ ?e]) (simp split: option.split)
qed

lemma main_turn_event:
  assumes "eq_inv (ap_events app)" and "eq_contents (ap_events app) = e # es"
  obtains q where
    "app_main_turn env input app = app_poll_stdin input (app_dispatch env e (app\<lparr>ap_events := q\<rparr>))"
    "eq_inv q" "eq_contents q = es" "eq_capacity q = eq_capacity (ap_events app)"
  using eq_try_pop_first [OF assms] that by (auto simp: app_main_turn_def)

lemma main_turn_idle:
  assumes "eq_contents (ap_events app) = []"
  shows "app_main_turn env input app = app_poll_stdin input app"
  using assms eq_try_pop_empty [of "ap_events app"] length_eq_contents [of "ap_events app"]
  by (simp add: app_main_turn_def)

lemma poll_none [simp]: "app_poll_stdin No_Input app = app"
  by (simp add: app_poll_stdin_def)

lemma app_inv_parts:
  assumes "app_inv app"
  shows "eq_inv (ap_events app)" "client_inv (ap_client app)"
    "cl_callbacks (ap_client app) = app_callbacks" "cl_running (ap_client app) = ap_client_started app"
  using assms by (simp_all add: app_inv_defs)

subsection \<open>From the connection to the upload\<close>

lemma network_established:
  assumes "app_inv app"
  shows "app_network env LWS_CLIENT_ESTABLISHED app =
    app_push_event (app\<lparr>ap_client := (ap_client app)\<lparr>cl_wsi := True, cl_connected := True\<rparr>\<rparr>)
      APP_EVENT_WS_CONNECTED None 0"
  using app_inv_parts(3) [OF assms]
  by (simp add: app_network_def app_callbacks_def app_effects_def xiaozhi_client_signal_writable_def
      app_client_on_connected_def)

text \<open>A text frame of the server that is a whole message.\<close>

lemma network_text:
  assumes "app_inv app" and "cl_recv_text_len (ap_client app) = 0" and "chars_of data = msg"
    and "length msg < 4096" and "c_ok msg"
  shows "\<exists>c. app_network env (LWS_CLIENT_RECEIVE False data 0 True) app =
      app_push_event (app\<lparr>ap_client := c\<rparr>) APP_EVENT_WS_TEXT (Some msg) 0 \<and>
    cl_recv_text_len c = 0 \<and> cl_thread c = cl_thread (ap_client app) \<and>
    cl_context c = cl_context (ap_client app) \<and> cl_pending_text c = cl_pending_text (ap_client app) \<and>
    cl_pending_binary c = cl_pending_binary (ap_client app)"
proof -
  let ?c = "ap_client app"
  let ?buf = "(mem_write 0 msg (cl_recv_text ?c))[length msg := nul]"
  have len: "length (cl_recv_text ?c) = 4096"
    using app_inv_parts(2) [OF assms(1)] by (simp add: client_inv_def)
  have "?buf = msg @ nul # drop (Suc (length msg)) (cl_recv_text ?c)"
    using assms(4) len
    by (simp add: mem_write_def upd_conv_take_nth_drop list_update_append split: list.splits)
  then have str: "c_str ?buf = msg"
    using assms(5) by (simp add: c_str_def c_ok_def takeWhile_until)
  let ?d = "?c\<lparr>cl_recv_text := ?buf, cl_recv_text_len := 0\<rparr>"
  have "receive_text ?c (chars_of data) True = (?d, [On_Text msg])"
    using assms(2-4) str app_inv_parts(3) [OF assms(1)]
    by (simp add: receive_text_def Let_def app_callbacks_def)
  then have "app_network env (LWS_CLIENT_RECEIVE False data 0 True) app =
      app_push_event (app\<lparr>ap_client := ?d\<rparr>) APP_EVENT_WS_TEXT (Some msg) 0"
    by (simp add: app_network_def app_effects_def app_client_on_text_def)
  then show ?thesis by (intro exI [of _ ?d]) simp
qed

lemma queue_text_ready:
  assumes "ae_realloc env" and "ae_strdup env" and "client_inv (ap_client app)"
  shows "\<exists>c. app_queue_text env s app = (0, app\<lparr>ap_client := c\<rparr>) \<and>
    tq_contents (cl_pending_text c) = pending_texts app @ [s] \<and>
    cl_pending_binary c = cl_pending_binary (ap_client app) \<and>
    cl_recv_text_len c = cl_recv_text_len (ap_client app) \<and>
    cl_connected c = cl_connected (ap_client app) \<and> cl_context c = cl_context (ap_client app) \<and>
    cl_thread c = cl_thread (ap_client app)"
proof -
  obtain r c effs where q: "xiaozhi_client_queue_text True True (ap_client app) (Some s) = (r, c, effs)"
    using prod_cases3 by blast
  have "r = 0 \<and> cl_recv_text_len c = cl_recv_text_len (ap_client app) \<and>
      cl_connected c = cl_connected (ap_client app) \<and> cl_context c = cl_context (ap_client app) \<and>
      cl_thread c = cl_thread (ap_client app)"
    using q by (auto simp: xiaozhi_client_queue_text_def queue_text_reserve_def queue_text_append_def
        ensure_text_capacity_def Let_def split: if_splits prod.splits)
  then show ?thesis
    using client_queue_text_appends [OF assms(3) q] assms(1,2) q
    by (intro exI [of _ c]) (simp add: app_queue_text_def pending_texts_def)
qed

definition resources :: "('e, 'd) app_env \<Rightarrow> bool" where
  "resources env \<longleftrightarrow> ae_realloc env \<and> ae_strdup env \<and> ae_thread env \<and> (\<forall>p. ae_fopen env p)"

text \<open>The client between two events: nothing queued, room for 64 events.\<close>

definition quiet :: "('e, 'd) app_runtime \<Rightarrow> bool" where
  "quiet app \<longleftrightarrow> app_inv app \<and> eq_contents (ap_events app) = [] \<and> eq_capacity (ap_events app) = 64 \<and>
     \<not> ap_stop_requested app"

text \<open>The network thread runs and has made its context, so that it serves callbacks.\<close>

definition serving :: "('e, 'd) app_runtime \<Rightarrow> bool" where
  "serving app \<longleftrightarrow> cl_thread (ap_client app) \<and> cl_context (ap_client app)"

definition hello_of :: "('e, 'd) app_runtime \<Rightarrow> string" where
  "hello_of app = snd (xiaozhi_build_hello (Some (app_hello_config (ap_config app))) 512)"

lemma build_hello_ok: "hello_config_ok c \<Longrightarrow> fst (xiaozhi_build_hello (Some c) 512) = 0"
  using print_hello [of c] length_show_int [of "protocol_version c"]
    length_show_int [of "sample_rate c"] length_show_int [of "channels c"]
    length_show_int [of "frame_duration_ms c"]
  by (simp add: hello_config_ok_def xiaozhi_build_hello_def print_json_def)

text \<open>One event pushed into a quiet client and handled.\<close>

lemma quiet_turn:
  assumes "quiet app" and "app' = app\<lparr>ap_client := c\<rparr>" and "app_inv app'"
  obtains e q where "ev_type e = t"
    "case m of None \<Rightarrow> ev_text e = [] | Some s \<Rightarrow> ev_text e = snprintf_buf 1024 s"
    "app_main_turn env No_Input (app_push_event app' t m code) =
       app_dispatch env e (app'\<lparr>ap_events := q\<rparr>)"
    "eq_contents q = []" "eq_capacity q = 64" "eq_inv q" "app_inv (app'\<lparr>ap_events := q\<rparr>)"
proof -
  have q0: "eq_contents (ap_events app') = []" "eq_capacity (ap_events app') = 64" "eq_inv (ap_events app')"
    using assms(1-2) app_inv_parts(1) [OF assms(3)] by (simp_all add: quiet_def)
  then have count: "eq_count (ap_events app') = 0" by (metis length_eq_contents list.size(3))
  then obtain e where e: "ev_type e = t"
    "case m of None \<Rightarrow> ev_text e = [] | Some s \<Rightarrow> ev_text e = snprintf_buf 1024 s"
    "eq_contents (ap_events (app_push_event app' t m code)) = [e]"
    "eq_capacity (ap_events (app_push_event app' t m code)) = 64"
    using eq_contents_push [OF q0(3), of t m code] q0 by auto
  have inv: "eq_inv (ap_events (app_push_event app' t m code))" by (rule push_event_inv [OF q0(3)])
  obtain q where q: "app_main_turn env No_Input (app_push_event app' t m code) =
      app_dispatch env e ((app_push_event app' t m code)\<lparr>ap_events := q\<rparr>)"
    "eq_inv q" "eq_contents q = []" "eq_capacity q = 64"
    using main_turn_event [OF inv e(3), of env No_Input] e(4) by (metis poll_none)
  have "(app_push_event app' t m code)\<lparr>ap_events := q\<rparr> = app'\<lparr>ap_events := q\<rparr>"
    by (simp add: app_push_event_def Let_def)
  moreover have "app_inv (app'\<lparr>ap_events := q\<rparr>)" using assms(3) q(2) by (simp add: app_inv_defs)
  ultimately show thesis using that e q by metis
qed

text \<open>The hello goes into the outbox when the connection is announced.\<close>

lemma connected_dispatched:
  assumes "app_inv app" and "ss_state (ap_session app) = SESSION_STATE_CONNECTING" and "resources env"
    and "hello_config_ok (app_hello_config (ap_config app))" and "ev_type e = APP_EVENT_WS_CONNECTED"
  obtains c where "app_dispatch env e app =
      app\<lparr>ap_session := (ap_session app)\<lparr>ss_state := SESSION_STATE_HANDSHAKING\<rparr>, ap_client := c\<rparr>"
    "tq_contents (cl_pending_text c) = pending_texts app @ [hello_of app]"
    "cl_pending_binary c = cl_pending_binary (ap_client app)"
    "cl_recv_text_len c = cl_recv_text_len (ap_client app)"
    "cl_thread c = cl_thread (ap_client app)" "cl_context c = cl_context (ap_client app)"
    "app_inv (app_dispatch env e app)"
proof -
  let ?b = "app\<lparr>ap_session := (ap_session app)\<lparr>ss_state := SESSION_STATE_HANDSHAKING\<rparr>\<rparr>"
  have hello: "xiaozhi_build_hello (Some (app_hello_config (ap_config app))) 512 = (0, hello_of app)"
    using build_hello_ok [OF assms(4)] by (simp add: hello_of_def prod_eq_iff)
  obtain c where c: "app_queue_text env (hello_of app) ?b = (0, ?b\<lparr>ap_client := c\<rparr>)"
    "tq_contents (cl_pending_text c) = pending_texts ?b @ [hello_of app]"
    "cl_pending_binary c = cl_pending_binary (ap_client ?b)"
    "cl_recv_text_len c = cl_recv_text_len (ap_client ?b)"
    "cl_thread c = cl_thread (ap_client ?b)" "cl_context c = cl_context (ap_client ?b)"
    using queue_text_ready [of env ?b "hello_of app"] app_inv_parts(2) [OF assms(1)] assms(3)
    by (auto simp: resources_def)
  have "app_dispatch env e app = ?b\<lparr>ap_client := c\<rparr>"
    using hello c(1)
    by (simp add: assms(5) app_dispatch_def app_session_event_def session_handle_event_def assms(2)
        app_handle_action_def app_send_hello_def)
  with c that dispatch_inv [OF assms(1), of env e] show thesis by (simp add: pending_texts_def)
qed

lemma turn_connected:
  assumes "quiet app" and "resources env" and "phase_of app = Connecting"
    and "hello_config_ok (app_hello_config (ap_config app))"
    and "app1 = app_main_turn env No_Input (app_network env LWS_CLIENT_ESTABLISHED app)"
  shows "quiet app1 \<and> phase_of app1 = Handshaking \<and>
    pending_texts app1 = pending_texts app @ [hello_of app] \<and>
    cl_recv_text_len (ap_client app1) = cl_recv_text_len (ap_client app) \<and>
    cl_pending_binary (ap_client app1) = cl_pending_binary (ap_client app) \<and>
    serving app1 = serving app"
proof -
  have inv: "app_inv app" using assms(1) by (simp add: quiet_def)
  let ?c = "(ap_client app)\<lparr>cl_wsi := True, cl_connected := True\<rparr>"
  let ?a = "app\<lparr>ap_client := ?c\<rparr>"
  have a: "app_inv ?a" using inv by (simp add: app_inv_defs client_inv_def)
  obtain e q where e: "ev_type e = APP_EVENT_WS_CONNECTED"
    "app_main_turn env No_Input (app_push_event ?a APP_EVENT_WS_CONNECTED None 0) =
       app_dispatch env e (?a\<lparr>ap_events := q\<rparr>)"
    "eq_contents q = []" "eq_capacity q = 64" "app_inv (?a\<lparr>ap_events := q\<rparr>)"
    by (rule quiet_turn [OF assms(1) refl a, of APP_EVENT_WS_CONNECTED None env 0]) blast
  have st: "ss_state (ap_session app) = SESSION_STATE_CONNECTING"
    using assms(3) by (cases "ss_state (ap_session app)") (simp_all add: phase_of_def)
  obtain c where c: "app_dispatch env e (?a\<lparr>ap_events := q\<rparr>) = ?a\<lparr>ap_events := q,
      ap_session := (ap_session app)\<lparr>ss_state := SESSION_STATE_HANDSHAKING\<rparr>, ap_client := c\<rparr>"
    "tq_contents (cl_pending_text c) = pending_texts app @ [hello_of app]"
    "cl_pending_binary c = cl_pending_binary (ap_client app)"
    "cl_recv_text_len c = cl_recv_text_len (ap_client app)"
    "cl_thread c = cl_thread (ap_client app)" "cl_context c = cl_context (ap_client app)"
    "app_inv (app_dispatch env e (?a\<lparr>ap_events := q\<rparr>))"
    by (rule connected_dispatched [OF e(5) _ assms(2) _ e(1)])
       (use st assms(4) in \<open>simp_all add: pending_texts_def hello_of_def\<close>)
  have "app1 = app_dispatch env e (?a\<lparr>ap_events := q\<rparr>)"
    using e(2) by (simp add: assms(5) network_established [OF inv])
  then show ?thesis
    using assms(1) e(3,4) c
    by (simp add: quiet_def phase_of_def pending_texts_def serving_def)
qed

text \<open>The server's greeting, as a text frame: short enough for an event, and understood.\<close>

definition greeting :: "byte list \<Rightarrow> string \<Rightarrow> bool" where
  "greeting data sid \<longleftrightarrow> length data < 1024 \<and> c_ok (chars_of data) \<and> sid \<noteq> [] \<and> length sid < 64 \<and>
     (\<exists>ev. xiaozhi_parse_incoming_json (Some (chars_of data)) zero_incoming_event = (0, ev) \<and>
        xe_type ev = XIAOZHI_EVENT_HELLO \<and> xe_session_id ev = sid)"

lemma turn_greeted:
  assumes "quiet app" and "phase_of app = Handshaking" and "cl_recv_text_len (ap_client app) = 0"
    and "greeting data sid"
    and "app2 = app_main_turn env No_Input (app_network env (LWS_CLIENT_RECEIVE False data 0 True) app)"
  shows "quiet app2 \<and> phase_of app2 = Ready \<and> ap_session_id app2 = sid \<and>
    pending_texts app2 = pending_texts app \<and>
    cl_pending_binary (ap_client app2) = cl_pending_binary (ap_client app) \<and>
    serving app2 = serving app"
proof -
  let ?msg = "chars_of data"
  have inv: "app_inv app" using assms(1) by (simp add: quiet_def)
  have len: "length ?msg < 1024" using assms(4) by (simp add: greeting_def chars_of_def)
  obtain ev where ev: "xiaozhi_parse_incoming_json (Some ?msg) zero_incoming_event = (0, ev)"
    "xe_type ev = XIAOZHI_EVENT_HELLO" "xe_session_id ev = sid" "sid \<noteq> []" "length sid < 64" "c_ok ?msg"
    using assms(4) by (auto simp: greeting_def)
  obtain c where net: "app_network env (LWS_CLIENT_RECEIVE False data 0 True) app =
      app_push_event (app\<lparr>ap_client := c\<rparr>) APP_EVENT_WS_TEXT (Some ?msg) 0"
    and c: "cl_pending_text c = cl_pending_text (ap_client app)"
      "cl_pending_binary c = cl_pending_binary (ap_client app)"
      "cl_thread c = cl_thread (ap_client app)" "cl_context c = cl_context (ap_client app)"
    using network_text [OF inv assms(3) refl, of data env] len ev(6) by auto
  let ?a = "app\<lparr>ap_client := c\<rparr>"
  have "app_inv (app_push_event ?a APP_EVENT_WS_TEXT (Some ?msg) 0)"
    using app_network_inv [OF inv, of env "LWS_CLIENT_RECEIVE False data 0 True"] net by simp
  then have a: "app_inv ?a"
    using app_inv_parts(1) [OF inv] by (simp add: app_inv_defs)
  obtain e q where e: "ev_type e = APP_EVENT_WS_TEXT" "ev_text e = ?msg"
    "app_main_turn env No_Input (app_push_event ?a APP_EVENT_WS_TEXT (Some ?msg) 0) =
       app_dispatch env e (?a\<lparr>ap_events := q\<rparr>)"
    "eq_contents q = []" "eq_capacity q = 64" "app_inv (?a\<lparr>ap_events := q\<rparr>)"
    by (rule quiet_turn [OF assms(1) refl a, of APP_EVENT_WS_TEXT "Some ?msg" env 0])
       (simp add: len)
  let ?b = "?a\<lparr>ap_events := q, ap_session_id := sid\<rparr>"
  obtain dec rate where dec: "app_update_decoder_from_hello env ev ?b =
      ?b\<lparr>ap_decoder := dec, ap_decoder_sample_rate := rate\<rparr>" by (rule update_decoder_shape)
  have st: "ss_state (ap_session app) = SESSION_STATE_HANDSHAKING"
    using assms(2) by (cases "ss_state (ap_session app)") (simp_all add: phase_of_def)
  have off: "\<not> ap_upload_enabled app" using inv st by (simp add: app_inv_defs)
  let ?d = "?b\<lparr>ap_decoder := dec, ap_decoder_sample_rate := rate,
    ap_session := (ap_session app)\<lparr>ss_state := SESSION_STATE_READY\<rparr>\<rparr>"
  have app2: "app2 = ?d"
    using ev dec
    by (simp add: assms(5) net e(1-3) app_dispatch_def app_handle_protocol_event_def
        app_session_event_def session_handle_event_def st app_handle_action_def)
  have "app_inv ?d" using e(6) off ev(5) by (simp add: app_inv_defs)
  then show ?thesis
    using assms(1) e(4,5) c app2 by (simp add: quiet_def phase_of_def pending_texts_def serving_def)
qed

lemma enter_typed:
  assumes "quiet app" and "ss_state (ap_session app) \<noteq> SESSION_STATE_UPLOADING_AUDIO"
  shows "app_main_turn env (Input_Line [CHR 0x0A]) app = app_push_event app APP_EVENT_MANUAL_START None 0"
  using assms by (simp add: quiet_def main_turn_idle app_poll_stdin_def app_handle_manual_line_def)

lemma phase_ready: "phase_of app = Ready \<longleftrightarrow> ss_state (ap_session app) = SESSION_STATE_READY"
  by (cases "ss_state (ap_session app)") (simp_all add: phase_of_def)

lemma turn_enter:
  assumes "quiet app" and "phase_of app = Ready" and "resources env"
    and "listen_start_of app payload"
    and "app3 = app_main_turn env No_Input (app_main_turn env (Input_Line [CHR 0x0A]) app)"
  shows "quiet app3 \<and> phase_of app3 = Uploading True \<and>
    pending_texts app3 = pending_texts app @ [payload] \<and> ap_dump_file app3 = Some [] \<and>
    ap_session_id app3 = ap_session_id app \<and>
    cl_pending_binary (ap_client app3) = cl_pending_binary (ap_client app) \<and>
    serving app3 = serving app"
proof -
  have inv: "app_inv app" using assms(1) by (simp add: quiet_def)
  have st: "ss_state (ap_session app) = SESSION_STATE_READY"
    using assms(2) by (cases "ss_state (ap_session app)") (simp_all add: phase_of_def)
  have off: "\<not> ap_upload_enabled app" using inv st by (simp add: app_inv_defs)
  have typed: "app_main_turn env (Input_Line [CHR 0x0A]) app =
      app_push_event app APP_EVENT_MANUAL_START None 0"
    using enter_typed [OF assms(1)] st by simp
  obtain e q where e: "ev_type e = APP_EVENT_MANUAL_START"
    "app_main_turn env No_Input (app_push_event app APP_EVENT_MANUAL_START None 0) =
       app_dispatch env e (app\<lparr>ap_events := q\<rparr>)"
    "eq_contents q = []" "eq_capacity q = 64" "app_inv (app\<lparr>ap_events := q\<rparr>)"
    by (rule quiet_turn [OF assms(1), of app "ap_client app" APP_EVENT_MANUAL_START None env 0])
       (use inv in auto)
  let ?b = "app\<lparr>ap_events := q,
    ap_session := (ap_session app)\<lparr>ss_state := SESSION_STATE_UPLOADING_AUDIO\<rparr>\<rparr>"
  have b: "app_inv ?b" using e(5) off by (simp add: app_inv_defs)
  obtain c where c: "app_queue_text env payload ?b = (0, ?b\<lparr>ap_client := c\<rparr>)"
    "tq_contents (cl_pending_text c) = pending_texts ?b @ [payload]"
    "cl_pending_binary c = cl_pending_binary (ap_client ?b)"
    "cl_thread c = cl_thread (ap_client ?b)" "cl_context c = cl_context (ap_client ?b)"
    using queue_text_ready [OF _ _ app_inv_parts(2) [OF b], of env payload] assms(3) by (auto simp: resources_def)
  obtain a2 where a2: "app_open_opus_dump_file env (?b\<lparr>ap_client := c\<rparr>) = (0, a2)"
    "ap_dump_file a2 = Some []"
    using assms(3) by (simp add: app_open_opus_dump_file_def resources_def Let_def)
  have same: "ap_client a2 = c" "ap_events a2 = q" "ap_session_id a2 = ap_session_id app"
    "ap_session a2 = ap_session ?b" "ap_stop_requested a2 = ap_stop_requested app"
    using open_dump_frame [of env "?b\<lparr>ap_client := c\<rparr>"] a2(1) by simp_all
  have start: "app_handle_start_listen env ?b = app_set_uploading True
      (app_set_state SESSION_STATE_UPLOADING_AUDIO (a2\<lparr>ap_upload_enabled := True\<rparr>))"
    using assms(4) c(1) a2(1)
    by (simp add: app_handle_start_listen_def app_send_listen_start_def listen_start_of_def)
  have app3: "app3 = app_handle_start_listen env ?b"
    by (simp add: assms(5) typed e(1,2) app_dispatch_def app_session_event_def
        session_handle_event_def st app_handle_action_def)
  have "app_inv app3"
    using app_main_turn_inv [OF app_main_turn_inv [OF inv]] by (simp add: assms(5))
  then show ?thesis
    using assms(1) e(3,4) c a2 same
    by (simp add: app3 start quiet_def phase_of_def pending_texts_def serving_def)
qed

text \<open>
  C4: A dialog gets under way: when the connection is up, the main loop queues the client's hello;
  when the server greets with a session id, the client is ready; when the user then presses
  Enter, it queues the listen-start message of that session, opens a new dump file and uploads.
  Nothing else is queued, and no event is left over.
\<close>

theorem dialog_reaches_upload:
  assumes "quiet app" and "phase_of app = Connecting" and "resources env"
    and "hello_config_ok (app_hello_config (ap_config app))"
    and "cl_recv_text_len (ap_client app) = 0" and "greeting data sid"
    and "xiaozhi_build_listen_start_manual (Some sid) 256 = (0, start_msg)"
    and "app1 = app_main_turn env No_Input (app_network env LWS_CLIENT_ESTABLISHED app)"
    and "app2 = app_main_turn env No_Input (app_network env (LWS_CLIENT_RECEIVE False data 0 True) app1)"
    and "app3 = app_main_turn env No_Input (app_main_turn env (Input_Line [CHR 0x0A]) app2)"
  shows "phase_of app1 = Handshaking \<and> phase_of app2 = Ready \<and> phase_of app3 = Uploading True \<and>
    ap_session_id app3 = sid \<and> ap_dump_file app3 = Some [] \<and>
    pending_texts app3 = pending_texts app @ [hello_of app, start_msg] \<and>
    cl_pending_binary (ap_client app3) = cl_pending_binary (ap_client app) \<and> quiet app3"
proof -
  note one = turn_connected [OF assms(1,3,2,4,8)]
  then have two: "quiet app2" "phase_of app2 = Ready" "ap_session_id app2 = sid"
    "pending_texts app2 = pending_texts app1"
    "cl_pending_binary (ap_client app2) = cl_pending_binary (ap_client app1)"
    using turn_greeted [OF _ _ _ assms(6,9)] assms(5) by auto
  have "listen_start_of app2 start_msg"
    using two(3) assms(6,7) by (simp add: listen_start_of_def greeting_def)
  from turn_enter [OF two(1,2) assms(3) this assms(10)] one two show ?thesis by simp
qed

subsection \<open>The demonstration client, step by step\<close>

lemma client_init_fresh:
  "xiaozhi_client_init alloc (Some cfg) cb c0 = (0, c) \<Longrightarrow>
     cl_recv_text_len c = 0 \<and> tq_contents (cl_pending_text c) = [] \<and> \<not> cl_context c \<and>
     ab_contents (cl_pending_binary c) = []"
  using audio_buffer_init_ok [of alloc 32 4096 zero_audio_buffer]
  by (auto simp: xiaozhi_client_init_def zero_client_def tq_contents_def Let_def
      split: if_splits prod.splits)

lemma init_runtime_fresh:
  assumes "app_init_runtime_modules env ienv app = (0, b)"
  shows "ap_events b = ap_events app \<and> ap_stop_requested b = ap_stop_requested app \<and>
    ap_client_started b = ap_client_started app \<and> ap_config b = ap_config app \<and>
    ap_dump_file b = ap_dump_file app \<and>
    cl_recv_text_len (ap_client b) = 0 \<and> pending_texts b = [] \<and> \<not> cl_context (ap_client b) \<and>
    ab_contents (cl_pending_binary (ap_client b)) = []"
proof -
  obtain r1 client where client: "xiaozhi_client_init (ie_client ienv)
      (Some (app_client_config (ap_config app))) (Some app_callbacks) (ap_client app) = (r1, client)"
    by fastforce
  have "r1 = 0 \<and> ap_client b = client \<and> ap_events b = ap_events app \<and>
      ap_stop_requested b = ap_stop_requested app \<and> ap_client_started b = ap_client_started app \<and>
      ap_config b = ap_config app \<and> ap_dump_file b = ap_dump_file app"
    using assms client by (auto simp: app_init_runtime_modules_def Let_def split: prod.splits if_splits)
  then show ?thesis using client_init_fresh client by (auto simp: pending_texts_def)
qed

lemma demo_app_fresh:
  "eq_contents (ap_events demo_app) = []" "eq_capacity (ap_events demo_app) = 64"
  "\<not> ap_stop_requested demo_app" "\<not> ap_client_started demo_app" "pending_texts demo_app = []"
  "cl_recv_text_len (ap_client demo_app) = 0" "ap_dump_file demo_app = None"
  "ab_contents (cl_pending_binary (ap_client demo_app)) = []" "\<not> cl_context (ap_client demo_app)"
  "hello_config_ok (app_hello_config (ap_config demo_app))"
proof -
  obtain q where q: "event_queue_init (ie_queue demo_init_env) 64 zero_event_queue = (0, q)"
    using event_queue_init_alloc demo_init_facts(2) by simp
  let ?cfg = "with_ota (demo_answer False) (with_default_ids demo_config)"
  let ?l = "loaded_app blank_app (options_of (Some (demo_options False))) demo_config q"
  let ?b = "?l\<lparr>ap_ota_response := demo_answer False, ap_config := ?cfg\<rparr>"
  have l: "ap_options ?l = options_of (Some (demo_options False))" "ap_config ?l = with_default_ids demo_config"
    "ap_ota_response ?l = zero_ota_response" "\<not> ap_activation_pending ?l" "\<not> ap_skip_runtime_init ?l"
    by (simp_all add: loaded_app_def app_clear_def options_of_def demo_options_def zero_options_def)
  have boot: "app_bootstrap_ota (ota_fetch (ie_ota demo_init_env)) ?l = (0, ?b)"
    using bootstrap_ota [of "ota_fetch (ie_ota demo_init_env)" ?l "demo_answer False" "Some []"]
      demo_init_facts(5) [of False] demo_init_facts(6) [of False] l
    by (simp add: fetcher_of_def) (simp add: with_ota_def demo_answer_def)
  have "app_init_runtime_modules demo_env demo_init_env ?b = (0, demo_app)"
    using app_init_loaded [OF demo_init_facts(1) q, of demo_env blank_app] demo_app_ready(1)
      demo_init_facts(3) boot l(4,5)
    by (simp add: Let_def split: prod.splits if_splits)
  note fresh = init_runtime_fresh [OF this]
  have "eq_contents q = [] \<and> eq_capacity q = 64" using event_queue_init_ok [OF q] by simp
  then show "eq_contents (ap_events demo_app) = []" "eq_capacity (ap_events demo_app) = 64"
    "\<not> ap_stop_requested demo_app" "\<not> ap_client_started demo_app" "pending_texts demo_app = []"
    "cl_recv_text_len (ap_client demo_app) = 0" "ap_dump_file demo_app = None"
    "ab_contents (cl_pending_binary (ap_client demo_app)) = []" "\<not> cl_context (ap_client demo_app)"
    using fresh by (simp_all add: loaded_app_def app_clear_def)
  have "sv_protocol_version (cf_server ?cfg) = 1" "au_input_sample_rate (cf_audio ?cfg) = 16000"
    by (simp_all add: with_ota_def with_default_ids_def demo_config_def)
  then show "hello_config_ok (app_hello_config (ap_config demo_app))"
    using fresh by (simp add: app_hello_config_def hello_config_ok_def is_int32_def)
qed

lemma reset_frame [simp]:
  "ap_events (app_reset_to_idle app) = ap_events app"
  "ap_client (app_reset_to_idle app) = ap_client app"
  "ap_config (app_reset_to_idle app) = ap_config app"
  "ap_stop_requested (app_reset_to_idle app) = ap_stop_requested app"
  "ap_client_started (app_reset_to_idle app) = ap_client_started app"
  "ap_playback (app_reset_to_idle app) = ap_playback app"
  by (simp_all add: app_reset_to_idle_def Let_def)

lemma demo_running_quiet:
  "quiet demo_running" "phase_of demo_running = Connecting" "pending_texts demo_running = []"
  "cl_recv_text_len (ap_client demo_running) = 0" "cl_running (ap_client demo_running)"
  "hello_config_ok (app_hello_config (ap_config demo_running))"
  "ab_contents (cl_pending_binary (ap_client demo_running)) = []"
  "cl_thread (ap_client demo_running)" "\<not> cl_context (ap_client demo_running)"
proof -
  let ?a = "(app_set_state SESSION_STATE_CONNECTING (app_reset_to_idle demo_app))
      \<lparr>ap_session_id := [], ap_tts_done := False\<rparr>"
  have inv: "app_inv demo_app" using app_init_inv demo_app_ready(1,2) by blast
  have not_running: "\<not> cl_running (ap_client demo_app)"
    using app_inv_parts(4) [OF inv] demo_app_fresh(4) by simp
  then have start: "app_client_start demo_env ?a =
      (0, ?a\<lparr>ap_client := (ap_client demo_app)\<lparr>cl_running := True, cl_thread := True\<rparr>\<rparr>)"
    by (simp add: app_client_start_def xiaozhi_client_start_def demo_env_def)
  have run: "demo_running = ?a\<lparr>ap_client := (ap_client demo_app)\<lparr>cl_running := True, cl_thread := True\<rparr>,
      ap_client_started := True\<rparr>"
    using demo_run_begin demo_app_ready demo_app_fresh(4) start
    by (simp add: app_run_begin_def app_handle_action_def app_handle_connect_def Let_def)
  have up: "\<not> ap_upload_enabled (app_reset_to_idle demo_app)"
    using reset_kept [OF app_invD(1) [OF inv]] by simp
  have "app_inv demo_running" using run_begin_inv [OF inv demo_run_begin] .
  then show "quiet demo_running"
    using demo_app_fresh by (simp add: quiet_def) (simp add: run)
  show "phase_of demo_running = Connecting" "pending_texts demo_running = []"
    "cl_recv_text_len (ap_client demo_running) = 0" "cl_running (ap_client demo_running)"
    "hello_config_ok (app_hello_config (ap_config demo_running))"
    "ab_contents (cl_pending_binary (ap_client demo_running)) = []"
    "cl_thread (ap_client demo_running)" "\<not> cl_context (ap_client demo_running)"
    using demo_app_fresh by (simp_all add: run phase_of_def pending_texts_def)
qed

text \<open>The greeting as bytes, and the network thread's way to its service loop.\<close>

definition bytes_of :: "string \<Rightarrow> byte list" where
  "bytes_of s = map (\<lambda>c. of_nat (of_char c)) s"

lemma chars_of_bytes [simp]: "chars_of (bytes_of s) = s"
  by (simp add: chars_of_def bytes_of_def unsigned_of_nat take_bit_eq_mod o_def)

lemma length_bytes_of [simp]: "length (bytes_of s) = length s"
  by (simp add: bytes_of_def)

definition demo_greeting :: "byte list" where
  "demo_greeting = bytes_of (the (cJSON_PrintUnformatted (server_hello ''abc'' 24000 1)))"

lemma demo_greeting_ok: "greeting demo_greeting ''abc''"
proof -
  have len: "length (show_int 24000) \<le> 11" "length (show_int 1) \<le> 11"
    by (rule length_show_int, simp add: is_int32_def)+
  obtain msg where msg: "cJSON_PrintUnformatted (server_hello ''abc'' 24000 1) = Some msg"
    and "length msg < 1024" "c_ok msg"
    using len
    by (simp add: server_hello_def int_item_def cJSON_PrintUnformatted_def print_plain quoted_def)
  moreover have "xiaozhi_parse_incoming_json (Some msg) zero_incoming_event =
      (0, \<lparr>xe_type = XIAOZHI_EVENT_HELLO, xe_session_id = take 63 ''abc'', xe_text = [],
        xe_emotion = [], xe_output_sample_rate = 24000, xe_output_channels = 1\<rparr>)"
    by (rule server_hello_parsed [OF _ _ _ msg]) (simp_all add: is_int32_def)
  ultimately show ?thesis by (simp add: greeting_def demo_greeting_def)
qed

definition demo_start_msg :: string where
  "demo_start_msg = snd (xiaozhi_build_listen_start_manual (Some ''abc'') 256)"

lemma demo_start_msg_built: "xiaozhi_build_listen_start_manual (Some ''abc'') 256 = (0, demo_start_msg)"
  by (simp add: demo_start_msg_def xiaozhi_build_listen_start_manual_def snprintf_checked_def
      snprintf_rc_def quoted_def Let_def)

lemma demo_resources: "resources demo_env"
  by (simp add: resources_def demo_env_def)

text \<open>Its four stages: the context made, connected, greeted, and talking.\<close>

definition demo_connect_env :: connect_env where
  "demo_connect_env = \<lparr>ce_context = True,
     ce_parse = (\<lambda>url. Some \<lparr>uri_prot = Some ''wss'', uri_address = ''ota'', uri_port = 443, uri_path = None\<rparr>),
     ce_calls = [], ce_connect = True\<rparr>"

definition demo_serving :: "(unit, nat) app_runtime" where
  "demo_serving = app_network_connect demo_env demo_connect_env demo_running"

definition demo_connected :: "(unit, nat) app_runtime" where
  "demo_connected =
     app_main_turn demo_env No_Input (app_network demo_env LWS_CLIENT_ESTABLISHED demo_serving)"

definition demo_greeted :: "(unit, nat) app_runtime" where
  "demo_greeted = app_main_turn demo_env No_Input
     (app_network demo_env (LWS_CLIENT_RECEIVE False demo_greeting 0 True) demo_connected)"

definition demo_asked :: "(unit, nat) app_runtime" where
  "demo_asked = app_main_turn demo_env (Input_Line [CHR 0x0A]) demo_greeted"

definition demo_talking :: "(unit, nat) app_runtime" where
  "demo_talking = app_main_turn demo_env No_Input demo_asked"

lemma demo_serving_ok:
  "quiet demo_serving" "phase_of demo_serving = Connecting" "serving demo_serving"
  "pending_texts demo_serving = []" "cl_recv_text_len (ap_client demo_serving) = 0"
  "hello_config_ok (app_hello_config (ap_config demo_serving))"
  "ab_contents (cl_pending_binary (ap_client demo_serving)) = []"
proof -
  have eq: "demo_serving = demo_running\<lparr>ap_client := (ap_client demo_running)\<lparr>cl_context := True\<rparr>\<rparr>"
    by (simp add: demo_serving_def app_network_connect_def client_thread_connect_def
        demo_connect_env_def Let_def app_effects_def)
  have "app_inv demo_serving"
    using demo_running_quiet(1) unfolding demo_serving_def quiet_def
    by (intro app_network_connect_inv) simp
  then show "quiet demo_serving" using demo_running_quiet(1) by (simp add: quiet_def) (simp add: eq)
  show "phase_of demo_serving = Connecting" "serving demo_serving" "pending_texts demo_serving = []"
    "cl_recv_text_len (ap_client demo_serving) = 0"
    "hello_config_ok (app_hello_config (ap_config demo_serving))"
    "ab_contents (cl_pending_binary (ap_client demo_serving)) = []"
    using demo_running_quiet by (simp_all add: eq phase_of_def pending_texts_def serving_def)
qed

lemma demo_dialog_stages:
  "quiet demo_connected \<and> phase_of demo_connected = Handshaking \<and> serving demo_connected"
  "quiet demo_greeted \<and> phase_of demo_greeted = Ready \<and> ap_session_id demo_greeted = ''abc'' \<and>
    serving demo_greeted \<and> pending_texts demo_greeted = [hello_of demo_serving] \<and>
    cl_pending_binary (ap_client demo_greeted) = cl_pending_binary (ap_client demo_serving)"
  "quiet demo_talking \<and> phase_of demo_talking = Uploading True \<and> ap_dump_file demo_talking = Some [] \<and>
    ap_session_id demo_talking = ''abc'' \<and>
    pending_texts demo_talking = [hello_of demo_serving, demo_start_msg] \<and>
    cl_pending_binary (ap_client demo_talking) = cl_pending_binary (ap_client demo_serving) \<and>
    serving demo_talking"
proof -
  note one = turn_connected [OF demo_serving_ok(1) demo_resources demo_serving_ok(2,6) demo_connected_def]
  then show "quiet demo_connected \<and> phase_of demo_connected = Handshaking \<and> serving demo_connected"
    using demo_serving_ok by simp
  have "cl_recv_text_len (ap_client demo_connected) = 0" using one demo_serving_ok by simp
  with one have two: "quiet demo_greeted \<and> phase_of demo_greeted = Ready \<and>
    ap_session_id demo_greeted = ''abc'' \<and> serving demo_greeted \<and>
    pending_texts demo_greeted = [hello_of demo_serving] \<and>
    cl_pending_binary (ap_client demo_greeted) = cl_pending_binary (ap_client demo_serving)"
    using turn_greeted [OF _ _ _ demo_greeting_ok demo_greeted_def] demo_serving_ok by simp
  then show "quiet demo_greeted \<and> phase_of demo_greeted = Ready \<and> ap_session_id demo_greeted = ''abc'' \<and>
    serving demo_greeted \<and> pending_texts demo_greeted = [hello_of demo_serving] \<and>
    cl_pending_binary (ap_client demo_greeted) = cl_pending_binary (ap_client demo_serving)" .
  have "listen_start_of demo_greeted demo_start_msg"
    using two demo_start_msg_built by (simp add: listen_start_of_def)
  from turn_enter [OF _ _ demo_resources this demo_talking_def [unfolded demo_asked_def]] two
  show "quiet demo_talking \<and> phase_of demo_talking = Uploading True \<and>
    ap_dump_file demo_talking = Some [] \<and> ap_session_id demo_talking = ''abc'' \<and>
    pending_texts demo_talking = [hello_of demo_serving, demo_start_msg] \<and>
    cl_pending_binary (ap_client demo_talking) = cl_pending_binary (ap_client demo_serving) \<and>
    serving demo_talking"
    by simp
qed

theorem dialog_reaches_upload_witness:
  "phase_of demo_talking = Uploading True \<and> ap_session_id demo_talking = ''abc'' \<and>
   pending_texts demo_talking = [hello_of demo_serving, demo_start_msg]"
  using dialog_reaches_upload [OF demo_serving_ok(1,2) demo_resources demo_serving_ok(6,5)
      demo_greeting_ok demo_start_msg_built demo_connected_def demo_greeted_def
      demo_talking_def [unfolded demo_asked_def]] demo_serving_ok(4)
  by simp

text \<open>The same stages as a run of the whole client, with a playback device that takes everything.\<close>

definition demo_alsa :: "unit alsa" where
  "demo_alsa = \<lparr>al_hw = (\<lambda>rate d. (opened_hw, d)), al_writei = (\<lambda>buf n d. (int n, d)),
     al_recover = (\<lambda>e d. (e, d)), al_close = id, al_prepare = id\<rparr>"

definition demo_at :: "(unit, nat) app_runtime \<Rightarrow> (unit, nat, unit) system" where
  "demo_at app = demo_system\<lparr>sy_app := app\<rparr>"

lemma demo_at_simps [simp]:
  "sy_app (demo_at app) = app" "(demo_at app)\<lparr>sy_app := app'\<rparr> = demo_at app'"
  "\<not> sy_backoff (demo_at app)"
  by (simp_all add: demo_at_def demo_system_def)

abbreviation demo_reached :: "(unit, nat) app_runtime \<Rightarrow> bool" where
  "demo_reached app \<equiv> reach (sys_start demo_env) (sys_step demo_env demo_alsa) (demo_at app)"

lemma demo_main:
  assumes "demo_reached app" and "\<not> ap_stop_requested app"
  shows "demo_reached (app_main_turn demo_env input app)"
  using main_turn_reached [OF assms(1)] assms(2) by simp

lemma demo_network:
  assumes "demo_reached app" and "serving app"
  shows "demo_reached (app_network demo_env reason app)"
  using reach.reach_step [OF assms(1) sys_step.network] assms(2) by (simp add: serving_def)

lemma network_stop [simp]: "ap_stop_requested (app_network env reason app) = ap_stop_requested app"
  by (simp add: app_network_def split: prod.split)

lemma demo_reached_stages:
  "demo_reached demo_serving" "demo_reached demo_greeted" "demo_reached demo_asked"
  "demo_reached demo_talking"
proof -
  have "demo_at demo_running = demo_system" by (simp add: demo_at_def demo_system_def)
  then have "demo_reached demo_running" using demo_reach by simp
  from reach.reach_step [OF this sys_step.connecting] show s: "demo_reached demo_serving"
    using demo_running_quiet by (simp add: demo_serving_def)
  from demo_main [OF demo_network [OF this]] have "demo_reached demo_connected"
    using demo_serving_ok by (simp add: demo_connected_def quiet_def)
  from demo_main [OF demo_network [OF this]] show g: "demo_reached demo_greeted"
    using demo_dialog_stages(1) by (simp add: demo_greeted_def quiet_def)
  then show a: "demo_reached demo_asked"
    using demo_main demo_dialog_stages(2) by (simp add: demo_asked_def quiet_def)
  have "\<not> ap_stop_requested demo_asked"
    using demo_dialog_stages(2) enter_typed [of demo_greeted demo_env]
    by (simp add: demo_asked_def quiet_def phase_ready)
  with a show "demo_reached demo_talking" using demo_main by (simp add: demo_talking_def)
qed

lemma phase_uploading:
  "phase_of app = Uploading b \<longleftrightarrow>
     ss_state (ap_session app) = SESSION_STATE_UPLOADING_AUDIO \<and> ap_upload_enabled app = b"
  by (cases "ss_state (ap_session app)") (simp_all add: phase_of_def)

text \<open>The connection is lost in the middle of an upload: an error event, and the sleep before reconnecting.\<close>

lemma network_closed:
  assumes "app_inv app" and "\<not> ap_stop_requested app"
  obtains c m k where "app_network env LWS_CLIENT_CLOSED app =
    app_push_event (app\<lparr>ap_client := c\<rparr>) APP_EVENT_ERROR (Some m) k"
proof -
  show thesis
    by (rule that) (use app_inv_parts(3) [OF assms(1)] assms(2) in
        \<open>simp add: app_network_def app_callbacks_def app_effects_def app_client_on_disconnected_def
           Let_def\<close>)
qed

lemma error_turn_pushed:
  assumes "quiet app"
  shows "\<exists>a. app_error_turn (app_push_event (app\<lparr>ap_client := c\<rparr>) APP_EVENT_ERROR m k) = Some a \<and>
    ap_upload_enabled a = ap_upload_enabled app"
proof -
  let ?a = "app\<lparr>ap_client := c\<rparr>"
  have q: "eq_inv (ap_events ?a)" "eq_contents (ap_events ?a) = []" "eq_capacity (ap_events ?a) = 64"
    using assms app_inv_parts(1) [of app] by (simp_all add: quiet_def)
  then have "eq_count (ap_events ?a) = 0" by (metis length_eq_contents list.size(3))
  then obtain e where e: "ev_type e = APP_EVENT_ERROR"
    "eq_contents (ap_events (app_push_event ?a APP_EVENT_ERROR m k)) = [e]"
    using eq_contents_push [OF q(1), of APP_EVENT_ERROR m k] q by auto
  obtain q' where "event_queue_try_pop (ap_events (app_push_event ?a APP_EVENT_ERROR m k)) = Some (e, q')"
    using eq_try_pop_first [OF push_event_inv [OF q(1)] e(2)] by blast
  then show ?thesis using e(1) by (simp add: app_error_turn_def app_sleep_backoff_def)
qed

definition demo_failed :: "(unit, nat) app_runtime" where
  "demo_failed = app_network demo_env LWS_CLIENT_CLOSED demo_talking"

definition demo_sleeping :: "(unit, nat, unit) system" where
  "demo_sleeping = (demo_at demo_failed)\<lparr>sy_app := the (app_error_turn demo_failed), sy_backoff := True\<rparr>"

lemma demo_sleeping_reached:
  "reach (sys_start demo_env) (sys_step demo_env demo_alsa) demo_sleeping"
  "sy_backoff demo_sleeping" "ap_upload_enabled (sy_app demo_sleeping)"
proof -
  have quiet: "quiet demo_talking" "app_inv demo_talking" "\<not> ap_stop_requested demo_talking"
    using demo_dialog_stages(3) by (simp_all add: quiet_def)
  obtain c m k where "demo_failed = app_push_event (demo_talking\<lparr>ap_client := c\<rparr>) APP_EVENT_ERROR (Some m) k"
    using network_closed [OF quiet(2,3), of demo_env] unfolding demo_failed_def by metis
  then obtain a where a: "app_error_turn demo_failed = Some a"
    "ap_upload_enabled a = ap_upload_enabled demo_talking"
    using error_turn_pushed [OF quiet(1), of c "Some m" k] by auto
  have "demo_reached demo_failed"
    unfolding demo_failed_def using demo_network [OF demo_reached_stages(4)] demo_dialog_stages(3) by blast
  moreover have "\<not> ap_stop_requested demo_failed" using quiet(3) by (simp add: demo_failed_def)
  moreover from this have "sys_step demo_env demo_alsa (demo_at demo_failed) demo_sleeping"
    using sys_step.main_error [of "demo_at demo_failed" a demo_env demo_alsa] a(1)
    by (simp add: demo_sleeping_def)
  ultimately show "reach (sys_start demo_env) (sys_step demo_env demo_alsa) demo_sleeping"
    by (metis reach.reach_step)
  show "sy_backoff demo_sleeping" "ap_upload_enabled (sy_app demo_sleeping)"
    using a demo_dialog_stages(3) by (simp_all add: demo_sleeping_def phase_uploading)
qed

text \<open>An upload, and the upload that goes on in the sleep after an error.\<close>

theorem system_upload_safe_witness:
  "ap_upload_enabled demo_talking \<and> ap_session_id demo_talking \<noteq> [] \<and>
   ap_dump_file demo_talking \<noteq> None \<and> cap_uploading (ap_capture demo_talking) \<and>
   ap_upload_enabled (sy_app demo_sleeping) \<and>
   ss_state (ap_session (sy_app demo_sleeping)) = SESSION_STATE_ERROR_BACKOFF \<and>
   ap_dump_file (sy_app demo_sleeping) \<noteq> None \<and>
   \<not> ap_upload_enabled (app_poll_stdin No_Input (app_after_backoff demo_env (sy_app demo_sleeping)))"
  using system_upload_safe [OF demo_reached_stages(4)] demo_dialog_stages(3)
    system_upload_safe [OF demo_sleeping_reached(1)] demo_sleeping_reached(2,3)
    sys_step.main_awake [OF demo_sleeping_reached(2), of demo_env demo_alsa No_Input]
  by (auto simp: phase_uploading)

text \<open>The step from the start request to the upload.\<close>

lemma demo_asked_head:
  obtains e q where "event_queue_try_pop (ap_events demo_asked) = Some (e, q)"
    "ev_type e = APP_EVENT_MANUAL_START"
proof -
  have quiet: "quiet demo_greeted" using demo_dialog_stages(2) by simp
  have asked: "demo_asked = app_push_event demo_greeted APP_EVENT_MANUAL_START None 0"
    using demo_dialog_stages(2) enter_typed [of demo_greeted demo_env]
    by (simp add: demo_asked_def phase_ready)
  have q: "eq_inv (ap_events demo_greeted)" "eq_contents (ap_events demo_greeted) = []"
    "eq_capacity (ap_events demo_greeted) = 64"
    using quiet app_inv_parts(1) [of demo_greeted] by (simp_all add: quiet_def)
  then have "eq_count (ap_events demo_greeted) = 0" by (metis length_eq_contents list.size(3))
  then obtain e where e: "ev_type e = APP_EVENT_MANUAL_START" "eq_contents (ap_events demo_asked) = [e]"
    using eq_contents_push [OF q(1), of APP_EVENT_MANUAL_START None 0] q asked by auto
  have "eq_inv (ap_events demo_asked)" unfolding asked by (rule push_event_inv [OF q(1)])
  from eq_try_pop_first [OF this e(2)] that e(1) show thesis by blast
qed

lemma demo_asked_step:
  "sys_step demo_env demo_alsa (demo_at demo_asked) (demo_at demo_talking)"
  "\<exists>e. handles demo_env (demo_at demo_asked) e (demo_at demo_talking) \<and> ev_type e = APP_EVENT_MANUAL_START"
  "phase_of demo_asked = Ready"
proof -
  have asked: "demo_asked = app_push_event demo_greeted APP_EVENT_MANUAL_START None 0"
    using demo_dialog_stages(2) enter_typed [of demo_greeted demo_env]
    by (simp add: demo_asked_def phase_ready)
  show "phase_of demo_asked = Ready"
    using demo_dialog_stages(2) unfolding asked by (simp add: phase_ready)
  have stop: "\<not> ap_stop_requested demo_asked" using demo_dialog_stages(2) by (simp add: asked quiet_def)
  obtain e q where e: "event_queue_try_pop (ap_events demo_asked) = Some (e, q)"
    "ev_type e = APP_EVENT_MANUAL_START" by (rule demo_asked_head)
  then have none: "app_error_turn demo_asked = None" by (simp add: app_error_turn_def)
  from stop none show "sys_step demo_env demo_alsa (demo_at demo_asked) (demo_at demo_talking)"
    using sys_step.main [of "demo_at demo_asked" demo_env demo_alsa No_Input]
    by (simp add: demo_talking_def)
  have "handles demo_env (demo_at demo_asked) e (demo_at demo_talking)"
    using e none by (auto simp: handles_def demo_talking_def)
  with e(2) show "\<exists>e. handles demo_env (demo_at demo_asked) e (demo_at demo_talking) \<and>
      ev_type e = APP_EVENT_MANUAL_START" by blast
qed

theorem system_refines_dialog_witness:
  "phase_of demo_asked = Ready \<and>
   phase_of demo_talking = answers (ap_upload_enabled demo_talking) Start (phase_of demo_asked)"
proof -
  obtain e where "handles demo_env (demo_at demo_asked) e (demo_at demo_talking)"
    "ev_type e = APP_EVENT_MANUAL_START" using demo_asked_step(2) by blast
  with system_refines_dialog [OF demo_reached_stages(3) demo_asked_step(1)] demo_asked_step(3)
  show ?thesis by (auto simp: stimulus_of_def)
qed

theorem upload_on_announced_witness:
  "\<exists>e q payload. event_queue_try_pop (ap_events demo_asked) = Some (e, q) \<and>
     is_start (ev_type e) \<and> listen_start_of demo_asked payload \<and>
     pending_texts demo_talking = pending_texts demo_asked @ [payload]"
proof -
  have off: "\<not> ap_upload_enabled (sy_app (demo_at demo_asked))"
    using client_system.reach_inv [OF demo_reached_stages(3)] phase_uploading [of demo_asked True]
      demo_asked_step(3)
    by (auto simp: sys_inv_def app_inv_defs)
  have on: "ap_upload_enabled (sy_app (demo_at demo_talking))"
    using demo_dialog_stages(3) by (simp add: phase_uploading)
  from upload_on_announced [OF demo_reached_stages(3) demo_asked_step(1) off on] show ?thesis by simp
qed

text \<open>In the sleep the structures are well formed and the session is in its error state.\<close>

theorem system_structures_witness:
  "eq_inv (ap_events (sy_app demo_sleeping)) \<and> client_inv (ap_client (sy_app demo_sleeping)) \<and>
   ss_state (ap_session (sy_app demo_sleeping)) = SESSION_STATE_ERROR_BACKOFF \<and>
   ss_state (ap_session demo_talking) \<noteq> SESSION_STATE_ERROR_BACKOFF"
  using system_structures [OF demo_sleeping_reached(1)] system_structures [OF demo_reached_stages(4)]
    demo_sleeping_reached(2)
  by simp

end
