(* ===== verification/App_Speech.thy ===== *)
theory App_Speech
  imports App_Runs
begin

section \<open>Speech, in both directions\<close>

text \<open>
  What becomes of an utterance between the microphone and the dump file and the outbox, and of
  the server's speech between the network and the playback queue.
\<close>

subsection \<open>Recording\<close>

text \<open>The packets an encoder makes of a sequence of periods, and the encoder afterwards.\<close>

fun encode_all :: "('e, 'd) opus_lib \<Rightarrow> 'e \<Rightarrow> sample list list \<Rightarrow> byte list list \<times> 'e" where
  "encode_all lib e [] = ([], e)"
| "encode_all lib e (pcm # pcms) =
     (let (r, out, e1) = ol_encode lib e pcm 960 512;
          (packets, e2) = encode_all lib e1 pcms
      in (if 0 < r then take (nat r) out # packets else packets, e2))"

text \<open>An upload is going on, the encoder and the callback are in place.\<close>

definition recording :: "('e, 'd) app_runtime \<Rightarrow> 'e \<Rightarrow> bool" where
  "recording app e \<longleftrightarrow> app_inv app \<and> ap_upload_enabled app \<and> cap_has_cb (ap_capture app) \<and>
     en_encoder (ap_encoder app) = Some e \<and> en_samples_per_channel (ap_encoder app) = 960"

definition writes_whole :: "('e, 'd) app_env \<Rightarrow> bool" where
  "writes_whole env \<longleftrightarrow> opus_encode_law (ae_opus env) \<and> (\<forall>bytes. ae_fwrite env bytes = length bytes)"

definition pending_packets :: "('e, 'd) app_runtime \<Rightarrow> byte list list" where
  "pending_packets app = map fst (ab_contents (cl_pending_binary (ap_client app)))"

abbreviation outbox_room :: "('e, 'd) app_runtime \<Rightarrow> nat" where
  "outbox_room app \<equiv> ab_capacity (cl_pending_binary (ap_client app))"

lemma pending_fit:
  "client_inv (ap_client app) \<Longrightarrow> take (outbox_room app) (pending_packets app) = pending_packets app"
  using ab_inv_bound [of "cl_pending_binary (ap_client app)"]
  by (simp add: pending_packets_def client_inv_def)

lemma queue_binary_packet:
  assumes "client_inv (ap_client app)" and "p \<noteq> []" and "length p \<le> 4096"
  shows "pending_packets (snd (app_queue_binary p app)) = take (outbox_room app) (pending_packets app @ [p])"
    and "outbox_room (snd (app_queue_binary p app)) = outbox_room app"
    and "pending_texts (snd (app_queue_binary p app)) = pending_texts app"
proof -
  let ?b = "cl_pending_binary (ap_client app)"
  have b: "ab_inv ?b" "ab_block_capacity ?b = 4096" using assms(1) by (simp_all add: client_inv_def)
  have client: "ap_client (snd (app_queue_binary p app)) =
      (ap_client app)\<lparr>cl_pending_binary := snd (audio_buffer_push ?b p 0)\<rparr>"
    using assms(2) by (simp add: app_queue_binary_def xiaozhi_client_queue_binary_def Let_def
        split: prod.split)
  show "outbox_room (snd (app_queue_binary p app)) = outbox_room app"
    "pending_texts (snd (app_queue_binary p app)) = pending_texts app"
    by (simp_all add: client pending_texts_def)
  show "pending_packets (snd (app_queue_binary p app)) = take (outbox_room app) (pending_packets app @ [p])"
  proof (cases "ab_count ?b < ab_capacity ?b")
    case True
    then show ?thesis
      using push_contents [OF b(1) _ True, of p 0] b(2) assms(3)
      by (simp add: pending_packets_def client take_Cons')
  next
    case False
    then have "ab_count ?b = ab_capacity ?b" using ab_inv_bound [OF b(1)] by simp
    then show ?thesis
      using push_rejected [of ?b p 0] by (simp add: pending_packets_def client)
  qed
qed

lemma write_packet_whole:
  assumes "writes_whole env" and "packet_ok p" and "ap_dump_mutex_initialized app"
    and "ap_dump_file app = Some bytes"
  shows "app_write_opus_packet env app p = (0, app\<lparr>ap_dump_file := Some (bytes @ packet_frame p)\<rparr>)"
  using assms
  by (simp add: app_write_opus_packet_def writes_whole_def packet_ok_def packet_frame_def)

lemma capture_period_keeps:
  "capture_period up n buf cap q = (cap', q', d) \<Longrightarrow>
     cap_has_cb cap' = cap_has_cb cap \<and> (d = (if n < 0 \<or> \<not> cap_has_cb cap then None else Some (buf, nat n)))"
  by (auto simp: capture_period_def Let_def split: if_splits)

text \<open>One period: its packet, if there is one, goes to the file and to the outbox.\<close>

lemma period_recorded:
  assumes "recording app e" and "writes_whole env" and "ap_dump_file app = Some bytes"
    and "ol_encode (ae_opus env) e pcm 960 512 = (r, out, e1)"
    and "packets = (if 0 < r then [take (nat r) out] else [])"
    and "app' = app_capture_period env True 960 pcm app"
  shows "recording app' e1 \<and> ap_dump_file app' = Some (bytes @ dump_of packets) \<and>
    pending_packets app' = take (outbox_room app) (pending_packets app @ packets) \<and>
    outbox_room app' = outbox_room app \<and> pending_texts app' = pending_texts app \<and>
    ap_session app' = ap_session app \<and> ap_session_id app' = ap_session_id app \<and>
    ap_dumps app' = ap_dumps app \<and> ap_dump_path app' = ap_dump_path app \<and>
    (\<forall>p \<in> set packets. packet_ok p)"
proof -
  have inv: "app_inv app" and up: "ap_upload_enabled app" and cb: "cap_has_cb (ap_capture app)"
    and enc: "en_encoder (ap_encoder app) = Some e" "en_samples_per_channel (ap_encoder app) = 960"
    using assms(1) by (simp_all add: recording_def)
  obtain cap q d where per: "capture_period True 960 pcm (ap_capture app) (ap_events app) = (cap, q, d)"
    using prod_cases3 by blast
  then have cap: "cap_has_cb cap" "d = Some (pcm, 960)" using capture_period_keeps [OF per] cb by simp_all
  let ?a = "app\<lparr>ap_capture := cap, ap_events := q\<rparr>"
  let ?enc = "(ap_encoder app)\<lparr>en_encoder := Some e1\<rparr>"
  let ?b = "?a\<lparr>ap_encoder := ?enc\<rparr>"
  have len: "0 < r \<Longrightarrow> r \<le> 512 \<and> int (length out) = r"
    using opus_encode_lawD [OF _ assms(4)] assms(2) by (simp add: writes_whole_def)
  have frame: "opus_encode_frame (ae_opus env) (ap_encoder ?a) pcm (int 960) 512 = (r, out, ?enc)"
    using enc assms(4) by (simp add: opus_encode_frame_def int32_def)
  have app': "app' = (if 0 < r then snd (app_queue_binary (take (nat r) out)
      (snd (app_write_opus_packet env ?b (take (nat r) out)))) else ?b)"
    using up frame per cap(2)
    by (simp add: assms(6) app_capture_period_def app_capture_on_pcm_def Let_def split_beta)
  have ok: "\<forall>p \<in> set packets. packet_ok p" using len by (auto simp: assms(5) packet_ok_def)
  have "app_inv app'" unfolding assms(6) using inv by (intro app_capture_period_inv) simp_all
  moreover have "client_inv (ap_client app)" using inv by (simp add: app_inv_defs)
  moreover have "ap_dump_mutex_initialized app" using inv by (simp add: app_inv_defs)
  ultimately show ?thesis
  proof (cases "0 < r")
    case False
    then show ?thesis
      using \<open>app_inv app'\<close> up cap enc ok assms(3,5) pending_fit [of app] inv
      by (simp add: app' recording_def pending_packets_def pending_texts_def app_inv_defs)
  next
    case True
    let ?p = "take (nat r) out"
    let ?c = "?b\<lparr>ap_dump_file := Some (bytes @ packet_frame ?p)\<rparr>"
    have p: "?p \<noteq> []" "length ?p \<le> 4096" "packet_ok ?p" using ok len True by (auto simp: assms(5))
    have "app_write_opus_packet env ?b ?p = (0, ?c)"
      using write_packet_whole [OF assms(2) p(3)] inv assms(3) by (simp add: app_inv_defs)
    then have app'': "app' = snd (app_queue_binary ?p ?c)" using True by (simp add: app')
    have "client_inv (ap_client ?c)" using inv by (simp add: app_inv_defs)
    note queued = queue_binary_packet [OF this p(1,2)]
    show ?thesis
      using \<open>app_inv app'\<close> up cap enc ok assms(3,5) True queued
      by (simp add: app'' recording_def pending_packets_def [of ?c] pending_packets_def [of app]
          pending_texts_def [of ?c] pending_texts_def [of app])
  qed
qed

lemma take_take_append: "take n (take n xs @ ys) = take n (xs @ ys)"
  by (cases "length xs \<le> n") auto

lemma periods_recorded:
  assumes "recording app e" and "writes_whole env" and "ap_dump_file app = Some bytes"
    and "encode_all (ae_opus env) e pcms = (packets, e')"
    and "app' = fold (app_capture_period env True 960) pcms app"
  shows "recording app' e' \<and> ap_dump_file app' = Some (bytes @ dump_of packets) \<and>
    pending_packets app' = take (outbox_room app) (pending_packets app @ packets) \<and>
    outbox_room app' = outbox_room app \<and> pending_texts app' = pending_texts app \<and>
    ap_session app' = ap_session app \<and> ap_session_id app' = ap_session_id app \<and>
    ap_dumps app' = ap_dumps app \<and> ap_dump_path app' = ap_dump_path app \<and>
    (\<forall>p \<in> set packets. packet_ok p)"
  using assms(1,3-5)
proof (induction pcms arbitrary: app e bytes packets)
  case Nil
  moreover have "client_inv (ap_client app)" using Nil.prems(1) by (simp add: recording_def app_inv_defs)
  ultimately show ?case using pending_fit [of app] by simp
next
  case (Cons pcm pcms)
  obtain r out e1 where one: "ol_encode (ae_opus env) e pcm 960 512 = (r, out, e1)"
    using prod_cases3 by blast
  obtain rest where rest: "encode_all (ae_opus env) e1 pcms = (rest, e')"
    using Cons.prems(3) one by (cases "encode_all (ae_opus env) e1 pcms") simp
  let ?now = "if 0 < r then [take (nat r) out] else []"
  have packets: "packets = ?now @ rest" using Cons.prems(3) one rest by (auto split: if_splits)
  let ?a = "app_capture_period env True 960 pcm app"
  note step = period_recorded [OF Cons.prems(1) assms(2) Cons.prems(2) one refl refl]
  have frames: "dump_of (xs @ rest) = dump_of xs @ dump_of rest" for xs by simp
  have "app' = fold (app_capture_period env True 960) pcms ?a" using Cons.prems(4) by simp
  from Cons.IH [OF _ _ rest this, of "bytes @ dump_of ?now"] step show ?case
    unfolding packets by (simp only: take_take_append append.assoc frames set_append) auto
qed

lemma listen_stop_built:
  "sid \<noteq> [] \<Longrightarrow> length sid < 64 \<Longrightarrow> fst (xiaozhi_build_listen_stop_manual (Some sid) 256) = 0"
  by (simp add: xiaozhi_build_listen_stop_manual_def snprintf_checked_def snprintf_rc_def quoted_def Let_def)

lemma stop_listen_queues:
  assumes "app_inv app" and "ap_upload_enabled app" and "ap_dump_file app = Some bytes"
    and "ae_realloc env" and "ae_strdup env"
    and "app' = app_session_event env APP_EVENT_MANUAL_STOP app"
  shows "phase_of app' = Waiting \<and> ap_dumps app' = ap_dumps app @ [(ap_dump_path app, bytes)] \<and>
    ap_dump_file app' = None \<and> cl_pending_binary (ap_client app') = cl_pending_binary (ap_client app) \<and>
    pending_texts app' =
      pending_texts app @ [snd (xiaozhi_build_listen_stop_manual (Some (ap_session_id app)) 256)]"
proof -
  have st: "ss_state (ap_session app) = SESSION_STATE_UPLOADING_AUDIO" and sid: "ap_session_id app \<noteq> []"
    and mutex: "ap_dump_mutex_initialized app" and client: "client_inv (ap_client app)"
    and len: "length (ap_session_id app) < 64"
    using assms(1,2) by (simp_all add: app_inv_defs)
  let ?a = "app\<lparr>ap_session := (ap_session app)\<lparr>ss_state := SESSION_STATE_WAITING_TTS\<rparr>,
    ap_upload_enabled := False\<rparr>"
  let ?b = "app_close_opus_dump_file (app_set_uploading False ?a)"
  have b: "ap_dumps ?b = ap_dumps app @ [(ap_dump_path app, bytes)]" "ap_dump_file ?b = None"
    using mutex assms(3)
    by (simp_all add: app_close_opus_dump_file_def app_close_dump_def app_set_uploading_def)
  obtain stop_msg where msg:
    "xiaozhi_build_listen_stop_manual (Some (ap_session_id app)) 256 = (0, stop_msg)"
    using listen_stop_built [OF sid len] by (metis prod.collapse)
  obtain c where c: "app_queue_text env stop_msg ?b = (0, ?b\<lparr>ap_client := c\<rparr>)"
    "tq_contents (cl_pending_text c) = pending_texts ?b @ [stop_msg]"
    "cl_pending_binary c = cl_pending_binary (ap_client ?b)"
    using queue_text_ready [of env ?b stop_msg] assms(4,5) client by auto
  have "app' = ?b\<lparr>ap_client := c\<rparr>"
    using sid msg c(1)
    by (simp add: assms(6) app_session_event_def session_handle_event_def st app_handle_action_def
        app_send_listen_stop_def)
  then show ?thesis using b c(2,3) msg by (simp add: phase_of_def pending_texts_def)
qed

text \<open>
  C5: An utterance is recorded: from the first period to the user's stop, whatever the microphone
  delivers, the dump file that is closed at the stop holds exactly the packets the encoder made,
  in order, and reads back as them; the same packets follow what was waiting to be sent, up to
  the room of the outbox (the packets that do not fit are dropped, the earlier ones kept); and
  the listen-stop message of the session is queued.
\<close>

theorem utterance_recorded:
  assumes "recording app e" and "writes_whole env" and "ap_dump_file app = Some []"
    and "encode_all (ae_opus env) e pcms = (packets, e')"
    and "ae_realloc env" and "ae_strdup env"
    and "app' = app_session_event env APP_EVENT_MANUAL_STOP
                  (fold (app_capture_period env True 960) pcms app)"
  shows "\<exists>file. ap_dumps app' = ap_dumps app @ [(ap_dump_path app, file)] \<and>
      read_packets file = packets \<and>
    pending_packets app' = take (outbox_room app) (pending_packets app @ packets) \<and>
    pending_texts app' =
      pending_texts app @ [snd (xiaozhi_build_listen_stop_manual (Some (ap_session_id app)) 256)] \<and>
    phase_of app' = Waiting"
proof -
  let ?a = "fold (app_capture_period env True 960) pcms app"
  note rec = periods_recorded [OF assms(1-4) refl]
  then have "app_inv ?a" "ap_upload_enabled ?a" "ap_dump_file ?a = Some (dump_of packets)"
    by (simp_all add: recording_def)
  from stop_listen_queues [OF this assms(5,6,7)] rec show ?thesis
    by (intro exI [of _ "dump_of packets"]) (simp add: pending_packets_def read_packets_dump)
qed

definition demo_recorder :: "(unit, nat) app_runtime" where
  "demo_recorder = demo_talking\<lparr>
     ap_encoder := \<lparr>en_encoder = Some (), en_sample_rate = 16000, en_channels = 1, en_frame_ms = 60,
       en_samples_per_channel = 960\<rparr>,
     ap_capture := (ap_capture demo_talking)\<lparr>cap_has_cb := True\<rparr>\<rparr>"

lemma demo_recorder_ok:
  "recording demo_recorder ()" "writes_whole demo_env" "ap_dump_file demo_recorder = Some []"
  "ap_session_id demo_recorder = ''abc''"
proof -
  show "recording demo_recorder ()" "ap_dump_file demo_recorder = Some []"
    "ap_session_id demo_recorder = ''abc''"
    using demo_dialog_stages(3)
    by (simp_all add: demo_recorder_def recording_def quiet_def phase_uploading app_inv_defs
        capture_inv_def)
  show "writes_whole demo_env"
    by (auto simp: writes_whole_def demo_env_def demo_codec_def opus_encode_law_def)
qed

theorem utterance_recorded_witness:
  "\<exists>file. ap_dumps (app_session_event demo_env APP_EVENT_MANUAL_STOP
        (fold (app_capture_period demo_env True 960) [[1, 2], [], [3]] demo_recorder)) =
      ap_dumps demo_recorder @ [(ap_dump_path demo_recorder, file)] \<and>
    read_packets file = [[1, 2], [3]]"
proof -
  have "encode_all (ae_opus demo_env) () [[1, 2], [], [3]] = ([[1, 2], [3]], ())"
    by (simp add: demo_env_def demo_codec_def)
  from utterance_recorded [OF demo_recorder_ok(1-3) this _ _ refl] show ?thesis
    by (auto simp: demo_env_def)
qed

text \<open>
  C14: The stop overtakes the speech: at the next chances to send, the listen-stop message goes out
  before every packet of the utterance that is still waiting, although it was queued last.
\<close>

theorem stop_overtakes_audio:
  assumes "app_inv app" and "ap_upload_enabled app" and "ap_dump_file app = Some bytes"
    and "ae_realloc env" and "ae_strdup env"
    and "app' = app_session_event env APP_EVENT_MANUAL_STOP app"
    and "messages = map Write_Text (pending_texts app @
           [snd (xiaozhi_build_listen_stop_manual (Some (ap_session_id app)) 256)]) @
         map Write_Binary (pending_packets app)"
  shows "\<exists>c. run_callbacks (replicate (length messages) (LWS_CLIENT_WRITEABLE True True 0))
      (ap_client app') = (c, with_requests messages) \<and> outbox c = []"
proof -
  note stop = stop_listen_queues [OF assms(1-6)]
  have "linked_ok app'"
    using session_event_inv [OF assms(1), of env APP_EVENT_MANUAL_STOP] by (simp add: assms(6) app_invD)
  then have inv: "client_inv (ap_client app')" by (simp add: linked_ok_def app_ok_def)
  have "outbox (ap_client app') = messages"
    using stop by (simp add: assms(7) outbox_def pending_texts_def pending_packets_def)
  with outbox_runs [OF inv] show ?thesis by auto
qed

theorem stop_overtakes_audio_witness:
  "\<exists>c. run_callbacks (replicate (length (pending_texts demo_recorder) + 1 + length (pending_packets demo_recorder))
      (LWS_CLIENT_WRITEABLE True True 0))
      (ap_client (app_session_event demo_env APP_EVENT_MANUAL_STOP demo_recorder)) =
    (c, with_requests (map Write_Text (pending_texts demo_recorder @
           [snd (xiaozhi_build_listen_stop_manual (Some ''abc'') 256)]) @
         map Write_Binary (pending_packets demo_recorder)))"
proof -
  have "app_inv demo_recorder" "ap_upload_enabled demo_recorder" "ae_realloc demo_env" "ae_strdup demo_env"
    using demo_recorder_ok(1) by (simp_all add: recording_def demo_env_def)
  from stop_overtakes_audio [OF this(1,2) demo_recorder_ok(3) this(3,4) refl refl] show ?thesis
    by (auto simp: demo_recorder_ok(4))
qed

subsection \<open>Listening to the server\<close>

text \<open>The blocks a mono decoder makes of a sequence of packets, and the decoder afterwards.\<close>

fun decode_all :: "('e, 'd) opus_lib \<Rightarrow> 'd \<Rightarrow> byte list list \<Rightarrow> sample list list \<times> 'd" where
  "decode_all lib d [] = ([], d)"
| "decode_all lib d (packet # packets) =
     (let (r, pcm, d1) = ol_decode lib d packet (int (length packet)) 4096;
          (blocks, d2) = decode_all lib d1 packets
      in (if 0 < r then pcm # blocks else blocks, d2))"

abbreviation hear :: "('e, 'd) app_env \<Rightarrow> byte list \<Rightarrow> ('e, 'd) app_runtime \<Rightarrow> ('e, 'd) app_runtime" where
  "hear env packet \<equiv> app_network env (LWS_CLIENT_RECEIVE True packet 0 True)"

definition listening :: "('e, 'd) app_runtime \<Rightarrow> bool" where
  "listening app \<longleftrightarrow> app_inv app \<and> cl_recv_binary_len (ap_client app) = 0 \<and>
     pc_channels (pb_config (ap_playback app)) = 1 \<and>
     ab_block_capacity (pb_queue (ap_playback app)) = 8192"

definition frame_ok :: "byte list \<Rightarrow> bool" where
  "frame_ok packet \<longleftrightarrow> packet \<noteq> [] \<and> length packet \<le> 4096"

abbreviation speech_queue :: "('e, 'd) app_runtime \<Rightarrow> (byte list \<times> int) list" where
  "speech_queue app \<equiv> ab_contents (pb_queue (ap_playback app))"

abbreviation speech_room :: "('e, 'd) app_runtime \<Rightarrow> nat" where
  "speech_room app \<equiv> ab_capacity (pb_queue (ap_playback app))"

text \<open>A whole frame reaches the application's callback.\<close>

lemma hear_frame:
  assumes "listening app" and "frame_ok packet"
  obtains c where "hear env packet app = app_client_on_binary env packet (app\<lparr>ap_client := c\<rparr>)"
    "cl_recv_binary_len c = 0" "app_inv (hear env packet app)"
proof -
  have inv: "app_inv app" using assms(1) by (simp add: listening_def)
  have "cb_on_binary (cl_callbacks (ap_client app))"
    using app_inv_parts(3) [OF inv] by (simp add: app_callbacks_def)
  then obtain c where c: "xiaozhi_client_feed_binary_fragment (ap_client app) packet True =
      (0, c, [On_Binary (recv_binary (ap_client app) @ packet)])" "cl_recv_binary_len c = 0"
    using feed_fits [OF app_inv_parts(2) [OF inv], of packet True] assms
    by (auto simp: listening_def frame_ok_def)
  moreover have "recv_binary (ap_client app) = []" using assms(1) by (simp add: recv_binary_def listening_def)
  ultimately have "hear env packet app = app_client_on_binary env packet (app\<lparr>ap_client := c\<rparr>)"
    by (simp add: app_network_def app_effects_def)
  from that [OF this c(2) app_network_inv [OF inv]] show thesis .
qed

lemma enqueue_frame:
  assumes "ab_inv (pb_queue pb)" and "pc_channels (pb_config pb) = 1"
    and "ab_block_capacity (pb_queue pb) = 8192" and "0 < n" and "n \<le> 4096"
    and "pb' = snd (audio_playback_enqueue pb pcm n rate)"
  shows "ab_contents (pb_queue pb') =
      take (ab_capacity (pb_queue pb)) (ab_contents (pb_queue pb) @ [(pcm_bytes (take n pcm), rate)])"
    "pb_config pb' = pb_config pb" "ab_capacity (pb_queue pb') = ab_capacity (pb_queue pb)"
    "ab_block_capacity (pb_queue pb') = ab_block_capacity (pb_queue pb)"
proof -
  have pb': "pb' = pb\<lparr>pb_queue := snd (audio_buffer_push (pb_queue pb)
      (take (n * 2 * nat (pc_channels (pb_config pb))) (pcm_bytes pcm)) rate)\<rparr>"
    using assms(4) by (simp add: assms(6) audio_playback_enqueue_def split: prod.split)
  then show "pb_config pb' = pb_config pb" "ab_capacity (pb_queue pb') = ab_capacity (pb_queue pb)"
    "ab_block_capacity (pb_queue pb') = ab_block_capacity (pb_queue pb)" by simp_all
  show "ab_contents (pb_queue pb') =
      take (ab_capacity (pb_queue pb)) (ab_contents (pb_queue pb) @ [(pcm_bytes (take n pcm), rate)])"
  proof (cases "ab_count (pb_queue pb) < ab_capacity (pb_queue pb)")
    case True
    then show ?thesis
      using enqueue_contents [OF assms(1,4) _ True, of pcm rate] assms(2,3,5) by (simp add: assms(6))
  next
    case False
    then have "ab_count (pb_queue pb) = ab_capacity (pb_queue pb)" using ab_inv_bound [OF assms(1)] by simp
    then show ?thesis using push_rejected [of "pb_queue pb"] by (simp add: pb')
  qed
qed

lemma hear_muted:
  assumes "listening app" and "frame_ok packet" and "ap_upload_enabled app"
  shows "ap_playback (hear env packet app) = ap_playback app \<and>
    ap_decoder (hear env packet app) = ap_decoder app \<and> ap_session (hear env packet app) = ap_session app \<and>
    ap_upload_enabled (hear env packet app) \<and> listening (hear env packet app)"
proof -
  obtain c where c: "hear env packet app = app_client_on_binary env packet (app\<lparr>ap_client := c\<rparr>)"
    "cl_recv_binary_len c = 0" "app_inv (hear env packet app)"
    by (rule hear_frame [OF assms(1,2), of env])
  then have "hear env packet app = app\<lparr>ap_client := c\<rparr>"
    using assms(3) by (simp add: app_client_on_binary_def)
  then show ?thesis using assms(1,3) c(2,3) by (simp add: listening_def)
qed

lemma hear_decoded:
  assumes "listening app" and "frame_ok packet" and "\<not> ap_upload_enabled app"
    and "de_decoder (ap_decoder app) = Some d" and "de_channels (ap_decoder app) = ch"
    and "0 < ch" and "ch \<le> 4096"
    and "ol_decode (ae_opus env) d packet (int (length packet)) (c_div 4096 ch) = (r, pcm, d1)"
    and "r \<le> 4096" and "app' = hear env packet app"
  shows "listening app' \<and> ap_session app' = ap_session app \<and> \<not> ap_upload_enabled app' \<and>
    ap_decoder app' = (ap_decoder app)\<lparr>de_decoder := Some d1\<rparr> \<and> speech_room app' = speech_room app \<and>
    ap_decoder_sample_rate app' = ap_decoder_sample_rate app \<and>
    speech_queue app' = take (speech_room app) (speech_queue app @
      (if 0 < r then [(pcm_bytes (take (nat r) pcm), ap_decoder_sample_rate app)] else []))"
proof -
  obtain c where c: "hear env packet app = app_client_on_binary env packet (app\<lparr>ap_client := c\<rparr>)"
    "cl_recv_binary_len c = 0" "app_inv (hear env packet app)"
    by (rule hear_frame [OF assms(1,2), of env])
  have pb: "ab_inv (pb_queue (ap_playback app))" using assms(1) by (simp add: listening_def app_inv_defs)
  have cap: "0 < c_div 4096 ch" using assms(6,7) by (simp add: c_div_def zdiv_mono2_neg pos_imp_zdiv_pos_iff)
  have len: "packet \<noteq> []" "int32 (int (length packet)) = int (length packet)"
    using assms(2) by (simp_all add: frame_ok_def int32_def)
  let ?dec = "(ap_decoder app)\<lparr>de_decoder := Some d1\<rparr>"
  have dec: "opus_decode_frame (ae_opus env) (ap_decoder app) packet 4096 = (r, pcm, ?dec)"
    using assms(4-8) cap len by (simp add: opus_decode_frame_def Let_def)
  let ?b = "app\<lparr>ap_client := c, ap_decoder := ?dec\<rparr>"
  obtain rc pb' where enq: "audio_playback_enqueue (ap_playback app) pcm (nat r) (ap_decoder_sample_rate app) =
      (rc, pb')" by fastforce
  have app': "app' = (if 0 < r then ?b\<lparr>ap_playback := pb'\<rparr> else ?b)"
    using dec assms(3) len enq
    by (simp add: assms(10) c(1) app_client_on_binary_def)
  show ?thesis
  proof (cases "0 < r")
    case False
    then show ?thesis
      using assms(1,3) c(2,3) ab_inv_bound [OF pb] by (simp add: app' assms(10) [symmetric] listening_def)
  next
    case True
    have "pb' = snd (audio_playback_enqueue (ap_playback app) pcm (nat r) (ap_decoder_sample_rate app))"
      by (simp add: enq)
    from enqueue_frame [OF pb _ _ _ _ this] True assms(1,3,9) c(2,3) show ?thesis
      by (simp add: app' assms(10) [symmetric] listening_def)
  qed
qed

lemma hear_all:
  assumes "listening app" and "\<forall>p \<in> set packets. frame_ok p" and "\<not> ap_upload_enabled app"
    and "opus_decode_law (ae_opus env) chans" and "de_decoder (ap_decoder app) = Some d"
    and "chans d = 1" and "de_channels (ap_decoder app) = 1"
    and "decode_all (ae_opus env) d packets = (blocks, d')" and "app' = fold (hear env) packets app"
  shows "listening app' \<and> ap_session app' = ap_session app \<and> \<not> ap_upload_enabled app' \<and>
    de_decoder (ap_decoder app') = Some d' \<and> speech_room app' = speech_room app \<and>
    speech_queue app' = take (speech_room app) (speech_queue app @
      map (\<lambda>block. (pcm_bytes block, ap_decoder_sample_rate app)) blocks)"
  using assms(1-3,5-)
proof (induction packets arbitrary: app d blocks)
  case Nil
  then show ?case
    using ab_inv_bound [of "pb_queue (ap_playback app)"] by (simp add: listening_def app_inv_defs)
next
  case (Cons p packets)
  obtain r pcm d1 where one: "ol_decode (ae_opus env) d p (int (length p)) 4096 = (r, pcm, d1)"
    using prod_cases3 by blast
  note law = opus_decode_lawD [OF assms(4) one]
  obtain rest where rest: "decode_all (ae_opus env) d1 packets = (rest, d')"
    using Cons.prems(7) one by (cases "decode_all (ae_opus env) d1 packets") simp
  let ?a = "hear env p app"
  have all: "take (nat r) pcm = pcm" if "0 < r"
    using law that Cons.prems(5) by auto
  have dec: "ol_decode (ae_opus env) d p (int (length p)) (c_div 4096 1) = (r, pcm, d1)"
    using one by (simp add: c_div_def)
  have "r \<le> 4096" using law by linarith
  note step = hear_decoded [OF Cons.prems(1) _ Cons.prems(3,4,6) _ _ dec this refl]
  have "frame_ok p" "\<forall>p \<in> set packets. frame_ok p" using Cons.prems(2) by simp_all
  note step = step [OF this(1)] and IH = Cons.IH [OF _ this(2) _ _ _ _ rest, of ?a]
  have app': "app' = fold (hear env) packets ?a" using Cons.prems(8) by simp
  have blocks: "blocks = (if 0 < r then [pcm] else []) @ rest"
    using Cons.prems(7) one rest by (auto split: if_splits)
  have chans: "chans d1 = 1" using law Cons.prems(5) by simp
  let ?f = "\<lambda>block. (pcm_bytes block, ap_decoder_sample_rate app)"
  let ?now = "if 0 < r then [?f (take (nat r) pcm)] else []"
  have now: "speech_queue ?a = take (speech_room app) (speech_queue app @ ?now)"
    "listening ?a" "\<not> ap_upload_enabled ?a" "de_decoder (ap_decoder ?a) = Some d1"
    "de_channels (ap_decoder ?a) = 1" "ap_decoder_sample_rate ?a = ap_decoder_sample_rate app"
    "speech_room ?a = speech_room app" "ap_session ?a = ap_session app"
    using step Cons.prems(6) by auto
  have "map ?f blocks = ?now @ map ?f rest" using all by (simp add: blocks)
  then have "take (speech_room app) (speech_queue ?a @ map ?f rest) =
      take (speech_room app) (speech_queue app @ map ?f blocks)"
    by (simp only: now(1) take_take_append append.assoc)
  with IH [OF now(2,3,4) chans now(5) app'] now(6-8) show ?case by simp
qed

text \<open>
  C6: The server's speech is queued for playback: while no upload is going on, the frames of a mono
  stream are decoded one after the other and their samples queued in order at the announced
  rate, as far as there is room, and the dialog's phase stays; during an upload all of it is
  dropped, without even being decoded.
\<close>

theorem speech_is_queued:
  assumes "listening app" and "\<forall>p \<in> set packets. frame_ok p"
    and "opus_decode_law (ae_opus env) chans" and "de_decoder (ap_decoder app) = Some d"
    and "chans d = 1" and "de_channels (ap_decoder app) = 1"
    and "decode_all (ae_opus env) d packets = (blocks, d')" and "app' = fold (hear env) packets app"
  shows "phase_of app' = phase_of app \<and> speech_queue app' =
    (if ap_upload_enabled app then speech_queue app
     else take (speech_room app) (speech_queue app @
       map (\<lambda>block. (pcm_bytes block, ap_decoder_sample_rate app)) blocks))"
proof (cases "ap_upload_enabled app")
  case True
  have "listening app' \<and> ap_upload_enabled app' \<and> ap_playback app' = ap_playback app \<and>
      ap_session app' = ap_session app"
    using assms(1,2,8) True hear_muted [of _ _ env] by (induction packets arbitrary: app) auto
  then show ?thesis using True by (simp add: phase_of_def)
next
  case False
  from hear_all [OF assms(1,2) False assms(3-8)] False show ?thesis by (simp add: phase_of_def)
qed

definition demo_listener :: "(unit, nat) app_runtime" where
  "demo_listener = demo_greeted\<lparr>
     ap_client := (ap_client demo_greeted)\<lparr>cl_recv_binary_len := 0\<rparr>,
     ap_decoder := \<lparr>de_decoder = Some 0, de_sample_rate = 24000, de_channels = 1\<rparr>,
     ap_decoder_sample_rate := 24000, ap_playback := snd (audio_playback_init True True
       (Some (app_playback_config demo_config)) True)\<rparr>"

definition demo_reply_env :: "(unit, nat) app_env" where
  "demo_reply_env = demo_env\<lparr>ae_opus := demo_codec\<lparr>ol_decode := (\<lambda>d packet n m.
     if length packet = 2 \<and> 2 \<le> m then (2, map ucast packet, d) else (- 1, [], d)),
     ol_decoder_create := (\<lambda>rate ch. if ch = 1 then (Some 0, 0) else (None, - 1))\<rparr>\<rparr>"

lemma demo_listener_ok:
  "listening demo_listener" "\<not> ap_upload_enabled demo_listener" "speech_queue demo_listener = []"
  "speech_room demo_listener = 32"
proof -
  obtain q where q: "audio_buffer_init True 32 8192 zero_audio_buffer = (0, q)" "ab_inv q"
    "ab_contents q = []" "ab_capacity q = 32" "ab_block_capacity q = 8192"
    using audio_buffer_init_ok [of True 32 8192 zero_audio_buffer]
    by (cases "audio_buffer_init True 32 8192 zero_audio_buffer") (auto simp: audio_buffer_init_def)
  then show "listening demo_listener" "\<not> ap_upload_enabled demo_listener" "speech_queue demo_listener = []"
    "speech_room demo_listener = 32"
    using demo_dialog_stages(2)
    by (auto simp: demo_listener_def listening_def quiet_def app_inv_defs client_inv_def phase_of_def
        audio_playback_init_def app_playback_config_def Let_def)
qed

lemma demo_reply_law: "opus_decode_law (ae_opus demo_reply_env) (\<lambda>d. 1)"
  by (auto simp: opus_decode_law_def demo_reply_env_def split: if_splits)

theorem speech_is_queued_witness:
  "speech_queue (fold (hear demo_reply_env) [[1, 2], [3], [5, 6]] demo_listener) =
     [(pcm_bytes [1, 2], 24000), (pcm_bytes [5, 6], 24000)]"
proof -
  have "decode_all (ae_opus demo_reply_env) 0 [[1, 2], [3], [5, 6]] = ([[1, 2], [5, 6]], 0)"
    by (simp add: demo_reply_env_def)
  moreover have "de_decoder (ap_decoder demo_listener) = Some 0" "de_channels (ap_decoder demo_listener) = 1"
    "ap_decoder_sample_rate demo_listener = 24000"
    by (simp_all add: demo_listener_def)
  ultimately show ?thesis
    using speech_is_queued [OF demo_listener_ok(1) _ demo_reply_law, of "[[1, 2], [3], [5, 6]]" 0] demo_listener_ok
    by (simp add: frame_ok_def)
qed

subsection \<open>A server that announces two channels\<close>

lemma hello_decoder:
  assumes "0 < xe_output_sample_rate event" and "xe_output_channels event = 2"
    and "ol_decoder_create (ae_opus env) (xe_output_sample_rate event) 2 = (Some d, 0)"
  shows "app_update_decoder_from_hello env event app =
    app\<lparr>ap_decoder := \<lparr>de_decoder = Some d, de_sample_rate = xe_output_sample_rate event, de_channels = 2\<rparr>,
      ap_decoder_sample_rate := xe_output_sample_rate event\<rparr>"
  using assms by (simp add: app_update_decoder_from_hello_def opus_decoder_wrapper_init_def zero_decoder_def Let_def)

text \<open>
  Stereo speech is garbled: when the server's hello announces two channels, the decoder is made
  for two, but the playback queue counts frames of one channel, so that of each decoded frame
  only the first half of the interleaved samples is queued.
\<close>

theorem stereo_speech_halved:
  assumes "listening app" and "\<not> ap_upload_enabled app" and "speech_queue app = []"
    and "0 < speech_room app" and "0 < xe_output_sample_rate event" and "xe_output_channels event = 2"
    and "ol_decoder_create (ae_opus env) (xe_output_sample_rate event) 2 = (Some d, 0)"
    and "opus_decode_law (ae_opus env) chans" and "frame_ok packet"
    and "ol_decode (ae_opus env) d packet (int (length packet)) 2048 = (r, pcm, d1)" and "0 < r"
    and "app' = hear env packet (app_update_decoder_from_hello env event app)"
  shows "length pcm = 2 * nat r \<and>
    speech_queue app' = [(pcm_bytes (take (nat r) pcm), xe_output_sample_rate event)]"
proof -
  let ?a = "app_update_decoder_from_hello env event app"
  have a: "?a = app\<lparr>ap_decoder := \<lparr>de_decoder = Some d, de_sample_rate = xe_output_sample_rate event,
      de_channels = 2\<rparr>, ap_decoder_sample_rate := xe_output_sample_rate event\<rparr>"
    by (rule hello_decoder [OF assms(5-7)])
  have "chans d = 2" using assms(7,8) unfolding opus_decode_law_def by blast
  then have law: "r \<le> 2048" "int (length pcm) = r * 2"
    using opus_decode_lawD [OF assms(8,10)] assms(11) by auto
  have "listening ?a" using assms(1) by (simp add: a listening_def app_inv_defs)
  moreover have "ol_decode (ae_opus env) d packet (int (length packet)) (c_div 4096 2) = (r, pcm, d1)"
    using assms(10) by (simp add: c_div_def)
  ultimately have "speech_queue app' = take (speech_room ?a) (speech_queue ?a @
      (if 0 < r then [(pcm_bytes (take (nat r) pcm), ap_decoder_sample_rate ?a)] else []))"
    using hear_decoded [of ?a packet d 2 env r pcm d1 app'] assms(2,9,12) law(1) by (simp add: a)
  moreover have "length pcm = 2 * nat r" using law(2) assms(11) by linarith
  ultimately show ?thesis using assms(3,4,11) by (simp add: a take_Cons')
qed

text \<open>
  The channel count sticks: after a hello with two channels, a hello with the same rate and one
  channel changes nothing, and the mono stream that follows meets a decoder for two channels.
\<close>

theorem decoder_channels_stick:
  assumes "0 < xe_output_sample_rate stereo" and "xe_output_channels stereo = 2"
    and "ol_decoder_create (ae_opus env) (xe_output_sample_rate stereo) 2 = (Some d, 0)"
    and "xe_output_sample_rate event1 = xe_output_sample_rate stereo" and "xe_output_channels event1 = 1"
    and "app1 = app_update_decoder_from_hello env stereo app"
  shows "app_update_decoder_from_hello env event1 app1 = app1 \<and> de_channels (ap_decoder app1) = 2"
  unfolding assms(6) hello_decoder [OF assms(1-3)]
  using assms(1,4,5) by (simp add: app_update_decoder_from_hello_def Let_def)

definition demo_stereo_env :: "(unit, nat) app_env" where
  "demo_stereo_env = demo_env\<lparr>ae_opus := demo_codec\<lparr>ol_decode := (\<lambda>d packet n m.
     if length packet = 2 \<and> 1 \<le> m then (1, map ucast packet, d) else (- 1, [], d)),
     ol_decoder_create := (\<lambda>rate ch. if ch = 2 then (Some 0, 0) else (None, - 1))\<rparr>\<rparr>"

definition demo_hello_event :: "int \<Rightarrow> xiaozhi_incoming_event" where
  "demo_hello_event ch = zero_incoming_event\<lparr>xe_type := XIAOZHI_EVENT_HELLO,
     xe_output_sample_rate := 48000, xe_output_channels := ch\<rparr>"

theorem stereo_speech_halved_witness:
  "speech_queue (hear demo_stereo_env [7, 8]
     (app_update_decoder_from_hello demo_stereo_env (demo_hello_event 2) demo_listener)) =
     [(pcm_bytes [7], 48000)]"
proof -
  have "opus_decode_law (ae_opus demo_stereo_env) (\<lambda>d. 2)"
    by (auto simp: opus_decode_law_def demo_stereo_env_def split: if_splits)
  from stereo_speech_halved [OF demo_listener_ok(1,2,3) _ _ _ _ this, of "demo_hello_event 2" 0 "[7, 8]" 1
      "[7, 8]" 0] demo_listener_ok(4)
  show ?thesis by (simp add: demo_hello_event_def demo_stereo_env_def frame_ok_def)
qed

theorem decoder_channels_stick_witness:
  "de_channels (ap_decoder (app_update_decoder_from_hello demo_stereo_env (demo_hello_event 1)
     (app_update_decoder_from_hello demo_stereo_env (demo_hello_event 2) demo_listener))) = 2"
  using decoder_channels_stick [of "demo_hello_event 2" demo_stereo_env 0 "demo_hello_event 1" _ demo_listener]
  by (simp add: demo_hello_event_def demo_stereo_env_def)

subsection \<open>The end of a reply\<close>

text \<open>
  C7: A reply ends the way it should: the server's announcement of speech stops the upload and the
  client plays; what arrives meanwhile is queued. At the server's announcement that the speech is
  over the client is ready for the next question at once, if no block waits in the playback queue
  any more (the last one has then been taken from it, but may still be playing), and otherwise
  when the playback thread reports that it has finished; without a connection it idles.
\<close>

theorem reply_ends_ready:
  assumes "xe_type event1 = XIAOZHI_EVENT_TTS_START" and "xe_type event2 = XIAOZHI_EVENT_TTS_STOP"
    and "ev_type finished = APP_EVENT_PLAYBACK_FINISHED"
    and "app1 = app_handle_protocol_event env event1 app" and "app2 = fold (hear env) packets app1"
    and "app3 = app_handle_protocol_event env event2 app2"
    and "app4 = app_dispatch env finished (app3\<lparr>ap_playback := pb\<rparr>)"
  shows "phase_of app1 = Playing \<and> \<not> ap_upload_enabled app1 \<and> \<not> cap_uploading (ap_capture app1) \<and>
    phase_of app2 = Playing \<and>
    (if speech_queue app2 = [] then phase_of app3 = (if online app2 then Ready else Idle)
     else phase_of app3 = Playing \<and> phase_of app4 = (if online app2 then Ready else Idle))"
proof -
  have one: "phase_of app1 = Playing" "\<not> ap_upload_enabled app1" "\<not> cap_uploading (ap_capture app1)"
    using assms(1) by (simp_all add: assms(4) app_handle_protocol_event_def phase_of_def app_set_uploading_def
        app_set_state_def)
  have two: "phase_of app2 = phase_of app1"
    unfolding assms(5) by (induction packets arbitrary: app1) simp_all
  have empty: "audio_buffer_size (pb_queue (ap_playback app2)) = 0 \<longleftrightarrow> speech_queue app2 = []"
    by (metis audio_buffer_size_def length_0_conv length_ab_contents)
  have linked: "online (app2\<lparr>ap_tts_done := b, ap_playback := pb\<rparr>) = online app2" for b
    by (simp add: online_def)
  have three: "app3 = (if speech_queue app2 = [] then app_reset_to_idle (app2\<lparr>ap_tts_done := True\<rparr>)
      else app2\<lparr>ap_tts_done := True\<rparr>)"
    using assms(2) empty by (simp add: assms(6) app_handle_protocol_event_def Let_def)
  have "speech_queue app2 \<noteq> [] \<Longrightarrow>
      app4 = app_reset_to_idle (app2\<lparr>ap_tts_done := True, ap_playback := pb\<rparr>)"
    using assms(3) three by (simp add: assms(7) app_dispatch_def)
  then show ?thesis using one two three linked by (auto simp: reset_phase)
qed

text \<open>Two frames are queued when the server stops; and a reply without a frame.\<close>

definition demo_event :: "xiaozhi_event_type \<Rightarrow> xiaozhi_incoming_event" where
  "demo_event t = zero_incoming_event\<lparr>xe_type := t\<rparr>"

definition demo_spoken :: "(unit, nat) app_runtime" where
  "demo_spoken = fold (hear demo_reply_env) [[1, 2], [5, 6]]
     (app_handle_protocol_event demo_reply_env (demo_event XIAOZHI_EVENT_TTS_START) demo_listener)"

definition demo_stopped :: "(unit, nat) app_runtime" where
  "demo_stopped = app_handle_protocol_event demo_reply_env (demo_event XIAOZHI_EVENT_TTS_STOP) demo_spoken"

lemma demo_spoken_queue: "speech_queue demo_spoken = [(pcm_bytes [1, 2], 24000), (pcm_bytes [5, 6], 24000)]"
proof -
  let ?a = "app_handle_protocol_event demo_reply_env (demo_event XIAOZHI_EVENT_TTS_START) demo_listener"
  have eq: "?a = (app_set_state SESSION_STATE_PLAYING_TTS (app_set_uploading False
      (demo_listener\<lparr>ap_upload_enabled := False\<rparr>)))\<lparr>ap_tts_done := False\<rparr>"
    by (simp add: app_handle_protocol_event_def demo_event_def)
  have "app_inv ?a" by (rule protocol_event_inv) (use demo_listener_ok in \<open>simp add: listening_def\<close>)
  moreover have same: "ap_client ?a = ap_client demo_listener" "ap_playback ?a = ap_playback demo_listener"
    "ap_decoder ?a = ap_decoder demo_listener" "\<not> ap_upload_enabled ?a"
    "ap_decoder_sample_rate ?a = ap_decoder_sample_rate demo_listener"
    unfolding eq by (simp_all add: app_set_state_def app_set_uploading_def)
  ultimately have a: "listening ?a" "speech_queue ?a = []" "speech_room ?a = 32"
    using demo_listener_ok by (simp_all add: listening_def)
  have d: "de_decoder (ap_decoder ?a) = Some 0" "de_channels (ap_decoder ?a) = 1" "ap_decoder_sample_rate ?a = 24000"
    unfolding same by (simp_all add: demo_listener_def)
  have "decode_all (ae_opus demo_reply_env) 0 [[1, 2], [5, 6]] = ([[1, 2], [5, 6]], 0)"
    by (simp add: demo_reply_env_def)
  from hear_all [OF a(1) _ same(4) demo_reply_law d(1) _ d(2) this demo_spoken_def] a(2,3) d(3) show ?thesis
    by (simp add: frame_ok_def)
qed

theorem reply_ends_ready_witness:
  "phase_of demo_stopped = Playing \<and>
   phase_of (app_dispatch demo_reply_env finished_event (demo_stopped\<lparr>ap_playback := demo_playback\<rparr>)) =
     (if online demo_spoken then Ready else Idle) \<and>
   phase_of (app_handle_protocol_event demo_env (demo_event XIAOZHI_EVENT_TTS_STOP)
     (app_handle_protocol_event demo_env (demo_event XIAOZHI_EVENT_TTS_START) demo_listener)) \<in> {Ready, Idle}"
proof -
  have types: "xe_type (demo_event t) = t" "ev_type finished_event = APP_EVENT_PLAYBACK_FINISHED" for t
    by (simp_all add: demo_event_def finished_event_def)
  have "speech_queue (app_handle_protocol_event demo_env (demo_event XIAOZHI_EVENT_TTS_START) demo_listener) = []"
    using demo_listener_ok(3)
    by (simp add: app_handle_protocol_event_def demo_event_def app_set_state_def app_set_uploading_def)
  then show ?thesis
    using reply_ends_ready [where pb = demo_playback, OF types(1) types(1) types(2) refl demo_spoken_def
        demo_stopped_def refl] demo_spoken_queue
      reply_ends_ready [where packets = "[]" and env = demo_env and app = demo_listener and pb = demo_playback,
        OF types(1) types(1) types(2) refl refl refl refl]
    by simp
qed

text \<open>
  The last block of a reply is no longer queued while it is played: a stop of the server that arrives
  then makes the client ready, and the next utterance can be started, although it still speaks.
\<close>

lemma ready_while_speaking:
  assumes "sy_block s = None" and "playback_busy (playback_world_of s)"
    and "speech_queue (sy_app s) = [block]"
    and "\<forall>rate. pl_pcm (fst (playback_device_for dev rate (sy_local s) (sy_dev s)))"
    and "xe_type event = XIAOZHI_EVENT_TTS_STOP" and "online (sy_app s)"
  shows "\<exists>s'. sys_step env dev s s' \<and> sy_block s' \<noteq> None \<and>
    phase_of (app_handle_protocol_event env event (sy_app s')) = Ready"
proof -
  let ?q = "pb_queue (ap_playback (sy_app s))"
  have busy: "ab_inv ?q" "pb_running (ap_playback (sy_app s))" "\<not> pb_stop_requested (ap_playback (sy_app s))"
    using assms(2) by (simp_all add: playback_busy_def playback_world_of_def)
  have count: "ab_count ?q = 1" using assms(3) length_ab_contents [of ?q] by simp
  obtain blk q1 where pop: "audio_buffer_pop ?q = (1, Some blk, q1)" "ab_count q1 = 0"
    using count by (simp add: audio_buffer_pop_def)
  obtain l c where dev: "playback_device_for dev (blk_rate blk) (sy_local s) (sy_dev s) = (l, c)" "pl_pcm l"
    using assms(4) by (metis prod.collapse)
  obtain w where take: "playback_take dev (playback_world_of s) = (Next_Turn, w, Some blk)"
    "pw_pb w = (ap_playback (sy_app s))\<lparr>pb_queue := q1\<rparr>"
    using busy count pop(1) dev
    by (simp add: playback_take_def playback_world_of_def audio_buffer_size_def Let_def)
  let ?s = "(put_playback_world w s)\<lparr>sy_block := Some blk\<rparr>"
  have "sys_step env dev s ?s" by (rule sys_step.playback_takes [OF assms(1) take(1)])
  moreover have "online ((sy_app ?s)\<lparr>ap_tts_done := True\<rparr>)" using assms(6) by (simp add: online_def put_playback_world_def)
  then have "phase_of (app_handle_protocol_event env event (sy_app ?s)) = Ready"
    using assms(5) take(2) pop(2)
    by (simp add: app_handle_protocol_event_def audio_buffer_size_def put_playback_world_def reset_phase Let_def)
  ultimately show ?thesis by (intro exI [of _ ?s]) simp
qed

end
