(* ===== verification/App_Recovery.thy ===== *)
theory App_Recovery
  imports App_Runs
begin

section \<open>Interrupting the server's speech\<close>

text \<open>
  When the user presses Enter while the server speaks, the application stops the client and
  starts it again. Here: what becomes of the event the stopped connection leaves behind.
\<close>

subsection \<open>Stopping a client that is connected\<close>

text \<open>
  Destroying the library's context closes an established connection, which makes one closed
  callback.
\<close>

definition closes :: "('e, 'd) app_env \<Rightarrow> bool" where
  "closes env \<longleftrightarrow> ae_teardown env = [LWS_CLIENT_CLOSED]"

definition down :: "xiaozhi_client \<Rightarrow> xiaozhi_client" where
  "down c = c\<lparr>cl_running := False, cl_connected := False, cl_wsi := False, cl_context := False,
     cl_thread := False\<rparr>"

definition disconnected_text :: string where
  "disconnected_text = snprintf_buf 128 (''websocket disconnected (code='' @ show_int 0 @ '')'')"

lemma client_stop_connected:
  "cl_running c \<Longrightarrow> cl_context c \<Longrightarrow> cb_on_disconnected (cl_callbacks c) \<Longrightarrow>
     xiaozhi_client_stop [LWS_CLIENT_CLOSED] c = (down c, [Cancel_Service, On_Disconnected 0])"
  by (simp add: xiaozhi_client_stop_def client_thread_end_def down_def Let_def)

lemma app_stop_connected:
  assumes "closes env" and "cl_running (ap_client app)" and "cl_context (ap_client app)"
    and "cl_callbacks (ap_client app) = app_callbacks" and "\<not> ap_stop_requested app"
  shows "app_client_stop env app =
    app_push_event (app\<lparr>ap_client := down (ap_client app)\<rparr>) APP_EVENT_ERROR (Some disconnected_text) 0"
  using client_stop_connected [OF assms(2,3)] assms(1,4,5)
  by (simp add: app_client_stop_def closes_def app_callbacks_def app_effects_def
      app_client_on_disconnected_def disconnected_text_def)

lemma app_start_stopped:
  "\<not> cl_running (ap_client app) \<Longrightarrow> ae_thread env \<Longrightarrow> app_client_start env app =
     (0, app\<lparr>ap_client := (ap_client app)\<lparr>cl_running := True, cl_thread := True\<rparr>\<rparr>)"
  by (simp add: app_client_start_def xiaozhi_client_start_def)

definition restarted :: "xiaozhi_client \<Rightarrow> xiaozhi_client" where
  "restarted c = (down c)\<lparr>cl_running := True, cl_thread := True\<rparr>"

lemma restarted_simps [simp]:
  "cl_running (restarted c)" "cl_thread (restarted c)" "\<not> cl_context (restarted c)"
  "\<not> cl_connected (restarted c)"
  "cl_pending_text (restarted c) = cl_pending_text c" "cl_callbacks (restarted c) = cl_callbacks c"
  "cl_pending_binary (restarted c) = cl_pending_binary c"
  by (simp_all add: restarted_def down_def)

text \<open>The two handlers that restart a connected client leave an error event behind.\<close>

definition running_client :: "('e, 'd) app_runtime \<Rightarrow> bool" where
  "running_client app \<longleftrightarrow> app_inv app \<and> ap_client_started app \<and> cl_context (ap_client app) \<and>
     \<not> ap_stop_requested app"

lemma running_clientD:
  assumes "running_client app"
  shows "cl_running (ap_client app)" "cl_context (ap_client app)"
    "cl_callbacks (ap_client app) = app_callbacks" "\<not> ap_stop_requested app" "ap_client_started app"
    "app_inv app" "client_inv (ap_client app)" "eq_inv (ap_events app)"
  using assms by (simp_all add: running_client_def app_inv_defs)

lemma return_to_wake_connected:
  assumes "closes env" and "ae_thread env" and "running_client app"
    and "eq_count (ap_events app) < eq_capacity (ap_events app)"
    and "app' = app_handle_return_to_wake env (app\<lparr>ap_session := ses\<rparr>)"
  shows "ap_client app' = restarted (ap_client app) \<and> ap_client_started app' \<and>
    \<not> ap_stop_requested app' \<and> ss_state (ap_session app') = SESSION_STATE_CONNECTING \<and>
    ap_config app' = ap_config app \<and>
    (\<exists>e. ev_type e = APP_EVENT_ERROR \<and>
       eq_contents (ap_events app') = eq_contents (ap_events app) @ [e]) \<and>
    eq_capacity (ap_events app') = eq_capacity (ap_events app)"
proof -
  note D = running_clientD [OF assms(3)]
  define b where "b = (app_close_opus_dump_file (app_set_uploading False
    (app\<lparr>ap_session := ses, ap_slept_us := ap_slept_us app +
       backoff_us (rt_reconnect_backoff_ms (cf_runtime (ap_config app))),
       ap_upload_enabled := False, ap_tts_done := False\<rparr>)))\<lparr>ap_session_id := []\<rparr>"
  have b: "ap_client b = ap_client app" "ap_client_started b" "ap_events b = ap_events app"
    "\<not> ap_stop_requested b" "ap_config b = ap_config app"
    using D by (simp_all add: b_def)
  let ?c = "app_push_event (b\<lparr>ap_client := down (ap_client b)\<rparr>) APP_EVENT_ERROR (Some disconnected_text) 0"
  have stop: "app_client_stop env b = ?c"
    using app_stop_connected [OF assms(1), of b] D b by simp
  let ?d = "app_set_state SESSION_STATE_CONNECTING (?c\<lparr>ap_client_started := False\<rparr>)"
  have start: "app_client_start env ?d =
      (0, ?d\<lparr>ap_client := (down (ap_client app))\<lparr>cl_running := True, cl_thread := True\<rparr>\<rparr>)"
    using app_start_stopped [of ?d env] assms(2) b by (simp add: down_def)
  have "app_handle_return_to_wake env (app\<lparr>ap_session := ses\<rparr>) =
      ?d\<lparr>ap_client := restarted (ap_client app), ap_client_started := True\<rparr>"
    using start stop b D(5)
    by (simp add: app_handle_return_to_wake_def app_sleep_backoff_def app_after_backoff_def Let_def
        b_def [symmetric] restarted_def)
  moreover have "eq_inv (ap_events (b\<lparr>ap_client := down (ap_client b)\<rparr>))"
    "eq_count (ap_events (b\<lparr>ap_client := down (ap_client b)\<rparr>)) <
      eq_capacity (ap_events (b\<lparr>ap_client := down (ap_client b)\<rparr>))"
    using D(8) assms(4) b(3) by simp_all
  from eq_contents_push [OF this, of APP_EVENT_ERROR "Some disconnected_text" 0] obtain e where
    "ev_type e = APP_EVENT_ERROR" "eq_contents (ap_events ?c) = eq_contents (ap_events app) @ [e]"
    "eq_capacity (ap_events ?c) = eq_capacity (ap_events app)"
    using b(3) by auto
  ultimately show ?thesis using b by (auto simp: assms(5) app_set_state_def)
qed

lemma abort_connected:
  assumes "closes env" and "resources env" and "running_client app"
    and "eq_count (ap_events app) < eq_capacity (ap_events app)"
    and "ss_state ses = SESSION_STATE_CONNECTING"
    and "app' = app_handle_abort env (app\<lparr>ap_session := ses\<rparr>)"
  shows "cl_thread (ap_client app') \<and> \<not> cl_context (ap_client app') \<and> ap_client_started app' \<and>
    \<not> ap_stop_requested app' \<and> ss_state (ap_session app') = SESSION_STATE_CONNECTING \<and>
    ap_config app' = ap_config app \<and>
    (\<exists>e. ev_type e = APP_EVENT_ERROR \<and>
       eq_contents (ap_events app') = eq_contents (ap_events app) @ [e]) \<and>
    eq_capacity (ap_events app') = eq_capacity (ap_events app) \<and>
    pending_texts app' = pending_texts app @ [snd (xiaozhi_build_abort (Some ''manual_interrupt'') 256)]"
proof -
  note D = running_clientD [OF assms(3)]
  define a where "a = app_close_opus_dump_file (app_set_uploading False
    (app\<lparr>ap_session := ses, ap_upload_enabled := False\<rparr>))"
  have a: "ap_client a = ap_client app" "ap_client_started a" "ap_events a = ap_events app"
    "\<not> ap_stop_requested a" "ap_config a = ap_config app" "ap_session a = ses"
    using D by (simp_all add: a_def)
  obtain msg where msg: "xiaozhi_build_abort (Some ''manual_interrupt'') 256 = (0, msg)"
    by (simp add: xiaozhi_build_abort_def snprintf_checked_def snprintf_rc_def quoted_def Let_def)
  obtain c where c: "app_queue_text env msg a = (0, a\<lparr>ap_client := c\<rparr>)"
    "tq_contents (cl_pending_text c) = pending_texts a @ [msg]"
    "cl_context c = cl_context (ap_client a)"
    using queue_text_ready [of env a msg] assms(2) D(7) a(1) by (auto simp: resources_def)
  have same: "same_client (ap_client a) c"
    using queue_text_same [of "ap_client a" True True "Some msg"] c(1) assms(2)
    by (auto simp: app_queue_text_def resources_def split: prod.splits
        dest: arg_cong [where f = ap_client])
  define b where "b = a\<lparr>ap_client := c, ap_playback := audio_playback_request_stop (ap_playback a)\<rparr>"
  have b: "ap_client b = c" "ap_client_started b" "ap_events b = ap_events app" "\<not> ap_stop_requested b"
    "cl_running c" "cl_context c" "cl_callbacks c = app_callbacks" "ap_session b = ses"
    "ap_config b = ap_config app"
    using a c(3) D same_client_simps [OF same] by (simp_all add: b_def)
  let ?c = "app_push_event (b\<lparr>ap_client := down c\<rparr>) APP_EVENT_ERROR (Some disconnected_text) 0"
  have stop: "app_client_stop env b = ?c"
    using app_stop_connected [OF assms(1), of b] b by simp
  let ?d = "?c\<lparr>ap_client_started := False, ap_session_id := []\<rparr>"
  have start: "app_client_start env ?d =
      (0, ?d\<lparr>ap_client := (down c)\<lparr>cl_running := True, cl_thread := True\<rparr>\<rparr>)"
    using app_start_stopped [of ?d env] assms(2) by (simp add: down_def resources_def)
  have "app_handle_abort env (app\<lparr>ap_session := ses\<rparr>) =
      ?d\<lparr>ap_client := restarted c, ap_client_started := True\<rparr>"
    using start stop b(2) c(1) msg a(2)
    by (simp add: app_handle_abort_def app_send_abort_def Let_def a_def [symmetric] b_def [symmetric]
        restarted_def)
  moreover have "eq_inv (ap_events (b\<lparr>ap_client := down c\<rparr>))"
    "eq_count (ap_events (b\<lparr>ap_client := down c\<rparr>)) < eq_capacity (ap_events (b\<lparr>ap_client := down c\<rparr>))"
    using D(8) assms(4) b(3) by simp_all
  from eq_contents_push [OF this, of APP_EVENT_ERROR "Some disconnected_text" 0] obtain e where
    "ev_type e = APP_EVENT_ERROR" "eq_contents (ap_events ?c) = eq_contents (ap_events app) @ [e]"
    "eq_capacity (ap_events ?c) = eq_capacity (ap_events app)"
    using b(3) by auto
  ultimately show ?thesis
    using b assms(5) c(2) a(1) msg by (auto simp: assms(6) pending_texts_def)
qed

subsection \<open>Flapping\<close>

text \<open>
  A client that has just been started, with nothing to handle but the error its predecessor's
  connection left; and a connection that gets established.
\<close>

definition stuck :: "('e, 'd) app_runtime \<Rightarrow> bool" where
  "stuck app \<longleftrightarrow> app_inv app \<and> \<not> ap_stop_requested app \<and> ap_client_started app \<and>
     cl_thread (ap_client app) \<and> \<not> cl_context (ap_client app) \<and> eq_capacity (ap_events app) = 64 \<and>
     (\<exists>e. ev_type e = APP_EVENT_ERROR \<and> eq_contents (ap_events app) = [e])"

definition connects :: "connect_env \<Rightarrow> bool" where
  "connects cenv \<longleftrightarrow> ce_context cenv \<and> (\<forall>url. \<exists>uri. ce_parse cenv url = Some uri) \<and> ce_calls cenv = [] \<and>
     ce_connect cenv"

text \<open>The new connection comes up, and the main loop handles two events.\<close>

definition flap :: "('e, 'd) app_env \<Rightarrow> connect_env \<Rightarrow> ('e, 'd) app_runtime \<Rightarrow> ('e, 'd) app_runtime" where
  "flap env cenv app = app_main_turn env No_Input (app_main_turn env No_Input
     (app_network env LWS_CLIENT_ESTABLISHED (app_network_connect env cenv app)))"

lemma network_connects:
  "connects cenv \<Longrightarrow> app_network_connect env cenv app =
     app\<lparr>ap_client := (ap_client app)\<lparr>cl_context := True\<rparr>\<rparr>"
  by (auto simp: app_network_connect_def client_thread_connect_def connects_def Let_def
      app_effects_def split: option.split) (metis option.distinct(1))

lemma flap_stuck:
  assumes "stuck app" and "closes env" and "resources env" and "connects cenv"
    and "hello_config_ok (app_hello_config (ap_config app))" and "app' = flap env cenv app"
  shows "stuck app' \<and> phase_of app' = Handshaking \<and> ap_config app' = ap_config app \<and>
    pending_texts app' = pending_texts app @ [hello_of app]"
proof -
  have inv: "app_inv app" using assms(1) by (simp add: stuck_def)
  let ?a = "app_network_connect env cenv app"
  have a: "?a = app\<lparr>ap_client := (ap_client app)\<lparr>cl_context := True\<rparr>\<rparr>" "app_inv ?a"
    using network_connects [OF assms(4)] app_network_connect_inv [OF inv] by simp_all
  define b where "b = app_network env LWS_CLIENT_ESTABLISHED ?a"
  have b0: "b = app_push_event (app\<lparr>ap_client := (ap_client app)
      \<lparr>cl_context := True, cl_wsi := True, cl_connected := True\<rparr>\<rparr>) APP_EVENT_WS_CONNECTED None 0"
    using network_established [OF a(2)] a(1) by (simp add: b_def)
  obtain e where e: "ev_type e = APP_EVENT_ERROR" "eq_contents (ap_events app) = [e]"
    "eq_capacity (ap_events app) = 64" using assms(1) by (auto simp: stuck_def)
  have "eq_count (ap_events app) = 1" using length_eq_contents [of "ap_events app"] e(2) by simp
  then obtain w where w: "ev_type w = APP_EVENT_WS_CONNECTED" "eq_contents (ap_events b) = [e, w]"
    "eq_capacity (ap_events b) = 64"
    using eq_contents_push [of "app\<lparr>ap_client := (ap_client app)
      \<lparr>cl_context := True, cl_wsi := True, cl_connected := True\<rparr>\<rparr>" APP_EVENT_WS_CONNECTED None 0]
      app_inv_parts(1) [OF inv] e(2,3) by (auto simp: b0)
  have b: "app_inv b" using app_network_inv [OF a(2)] by (simp add: b_def)
  have run: "running_client b" using assms(1) b by (simp add: running_client_def) (simp add: b0 stuck_def)
  have texts: "pending_texts b = pending_texts app" "ap_config b = ap_config app" "cl_thread (ap_client b)"
    using assms(1) by (simp_all add: b0 pending_texts_def stuck_def)
  obtain q where q: "app_main_turn env No_Input b = app_dispatch env e (b\<lparr>ap_events := q\<rparr>)"
    "eq_inv q" "eq_contents q = [w]" "eq_capacity q = 64"
    using main_turn_event [OF app_inv_parts(1) [OF b] w(2), of env No_Input] w(3) by auto
  let ?c = "app_dispatch env e (b\<lparr>ap_events := q\<rparr>)"
  have c: "app_inv ?c" using app_main_turn_inv [OF b, of env No_Input] q(1) by simp
  have run': "running_client (b\<lparr>ap_events := q\<rparr>)" using run q(2) by (simp add: running_client_def app_inv_defs)
  have "?c = app_handle_return_to_wake env ((b\<lparr>ap_events := q\<rparr>)\<lparr>ap_session :=
      (ap_session b)\<lparr>ss_state := SESSION_STATE_ERROR_BACKOFF\<rparr>\<rparr>)"
    using e(1) by (simp add: app_dispatch_def app_session_event_def session_handle_event_def
        session_handle_error_def app_handle_action_def)
  from return_to_wake_connected [OF assms(2) _ run' _ this] obtain e' where
    c': "ap_client ?c = restarted (ap_client b)" "ap_client_started ?c" "\<not> ap_stop_requested ?c"
    "ss_state (ap_session ?c) = SESSION_STATE_CONNECTING" "ap_config ?c = ap_config app"
    "ev_type e' = APP_EVENT_ERROR" "eq_contents (ap_events ?c) = [w, e']" "eq_capacity (ap_events ?c) = 64"
    using assms(3) q length_eq_contents [of q] texts by (auto simp: resources_def)
  obtain q' where q': "app_main_turn env No_Input ?c = app_dispatch env w (?c\<lparr>ap_events := q'\<rparr>)"
    "eq_inv q'" "eq_contents q' = [e']" "eq_capacity q' = 64"
    using main_turn_event [OF app_inv_parts(1) [OF c] c'(7), of env No_Input] c'(8) by auto
  have inv': "app_inv (?c\<lparr>ap_events := q'\<rparr>)" using c q'(2) by (simp add: app_inv_defs)
  obtain d where d: "app_dispatch env w (?c\<lparr>ap_events := q'\<rparr>) = ?c\<lparr>ap_events := q',
      ap_session := (ap_session ?c)\<lparr>ss_state := SESSION_STATE_HANDSHAKING\<rparr>, ap_client := d\<rparr>"
    "tq_contents (cl_pending_text d) = pending_texts app @ [hello_of app]"
    "cl_thread d" "\<not> cl_context d" "app_inv (app_dispatch env w (?c\<lparr>ap_events := q'\<rparr>))"
    by (rule connected_dispatched [OF inv' _ assms(3) _ w(1)])
       (use c' assms(5) texts in \<open>auto simp: pending_texts_def hello_of_def\<close>)
  have "app' = app_dispatch env w (?c\<lparr>ap_events := q'\<rparr>)"
    using q(1) q'(1) by (simp add: assms(6) flap_def b_def [symmetric])
  then show ?thesis
    using d c' q' by (auto simp: stuck_def phase_of_def pending_texts_def)
qed

lemma flaps_stuck:
  assumes "stuck app" and "closes env" and "resources env" and "connects cenv"
    and "hello_config_ok (app_hello_config (ap_config app))"
  shows "stuck ((flap env cenv ^^ k) app) \<and> ap_config ((flap env cenv ^^ k) app) = ap_config app \<and>
    (0 < k \<longrightarrow> phase_of ((flap env cenv ^^ k) app) = Handshaking) \<and>
    pending_texts ((flap env cenv ^^ k) app) = pending_texts app @ replicate k (hello_of app)"
proof (induction k)
  case 0
  then show ?case using assms(1) by simp
next
  case (Suc k)
  then have "stuck ((flap env cenv ^^ k) app)" and same: "ap_config ((flap env cenv ^^ k) app) = ap_config app"
    by simp_all
  from flap_stuck [OF this(1) assms(2-4) _ refl] assms(5) Suc same show ?case
    by (simp add: hello_of_def replicate_append_same)
qed

lemma barge_in:
  assumes "quiet app" and "phase_of app = Playing" and "ap_client_started app" and "serving app"
    and "closes env" and "resources env"
    and "app1 = app_main_turn env No_Input (app_main_turn env (Input_Line [CHR 0x0A]) app)"
  shows "stuck app1 \<and> phase_of app1 = Connecting \<and> ap_config app1 = ap_config app \<and>
    pending_texts app1 = pending_texts app @ [snd (xiaozhi_build_abort (Some ''manual_interrupt'') 256)]"
proof -
  have inv: "app_inv app" using assms(1) by (simp add: quiet_def)
  have st: "ss_state (ap_session app) = SESSION_STATE_PLAYING_TTS"
    using assms(2) by (cases "ss_state (ap_session app)") (simp_all add: phase_of_def)
  have typed: "app_main_turn env (Input_Line [CHR 0x0A]) app =
      app_push_event app APP_EVENT_MANUAL_START None 0"
    using enter_typed [OF assms(1)] st by simp
  obtain e q where e: "ev_type e = APP_EVENT_MANUAL_START"
    "app_main_turn env No_Input (app_push_event app APP_EVENT_MANUAL_START None 0) =
       app_dispatch env e (app\<lparr>ap_events := q\<rparr>)"
    "eq_contents q = []" "eq_capacity q = 64" "app_inv (app\<lparr>ap_events := q\<rparr>)"
    by (rule quiet_turn [OF assms(1), of app "ap_client app" APP_EVENT_MANUAL_START None env 0])
       (use inv in auto)
  have app1: "app1 = app_handle_abort env ((app\<lparr>ap_events := q\<rparr>)\<lparr>ap_session :=
      (ap_session app)\<lparr>ss_state := SESSION_STATE_CONNECTING\<rparr>\<rparr>)"
    by (simp add: assms(7) typed e(1,2) app_dispatch_def app_session_event_def
        session_handle_event_def st app_handle_action_def)
  have "running_client (app\<lparr>ap_events := q\<rparr>)"
    using assms(1,3,4) e(5) by (simp add: running_client_def serving_def quiet_def)
  moreover have "eq_count q = 0" using e(3) length_eq_contents [of q] by simp
  ultimately have "cl_thread (ap_client app1) \<and> \<not> cl_context (ap_client app1) \<and> ap_client_started app1 \<and>
    \<not> ap_stop_requested app1 \<and> ss_state (ap_session app1) = SESSION_STATE_CONNECTING \<and>
    ap_config app1 = ap_config app \<and> eq_capacity (ap_events app1) = 64 \<and>
    (\<exists>e. ev_type e = APP_EVENT_ERROR \<and> eq_contents (ap_events app1) = [e]) \<and>
    pending_texts app1 = pending_texts app @ [snd (xiaozhi_build_abort (Some ''manual_interrupt'') 256)]"
    using abort_connected [OF assms(5,6) _ _ _ app1] e(3,4) by (simp add: pending_texts_def)
  moreover have "app_inv app1" unfolding assms(7) using inv by (intro app_main_turn_inv)
  ultimately show ?thesis by (simp add: stuck_def phase_of_def)
qed

text \<open>
  C12: An interrupt makes the client flap: when the user presses Enter while the server speaks, the
  application stops the connection and starts a new one, but the closed connection has pushed an
  error event. Each time the new connection comes up while the application sleeps before it
  handles that error, the handler stops it again, which pushes another error. However often the
  connection is established, the client never gets past the handshake: its event queue always
  holds the next error, and its outbox one more hello.
\<close>

theorem interrupt_makes_client_flap:
  assumes "quiet app" and "phase_of app = Playing" and "ap_client_started app" and "serving app"
    and "closes env" and "resources env" and "connects cenv"
    and "hello_config_ok (app_hello_config (ap_config app))"
    and "app1 = app_main_turn env No_Input (app_main_turn env (Input_Line [CHR 0x0A]) app)"
  shows "stuck ((flap env cenv ^^ k) app1) \<and>
    phase_of ((flap env cenv ^^ k) app1) = (if k = 0 then Connecting else Handshaking) \<and>
    pending_texts ((flap env cenv ^^ k) app1) = pending_texts app @
      snd (xiaozhi_build_abort (Some ''manual_interrupt'') 256) # replicate k (hello_of app)"
proof -
  note barge = barge_in [OF assms(1-6,9)]
  then have "hello_config_ok (app_hello_config (ap_config app1))" "hello_of app1 = hello_of app"
    using assms(8) by (simp_all add: hello_of_def)
  with flaps_stuck [of app1 env cenv k] barge assms(5-7) show ?thesis by (cases k) auto
qed

definition demo_playing :: "(unit, nat) app_runtime" where
  "demo_playing = demo_greeted\<lparr>ap_client := (ap_client demo_greeted)\<lparr>cl_running := True\<rparr>,
     ap_client_started := True, ap_upload_enabled := False,
     ap_session := \<lparr>ss_state = SESSION_STATE_PLAYING_TTS\<rparr>, ap_config := ap_config demo_running\<rparr>"

lemma demo_playing_ok:
  "quiet demo_playing" "phase_of demo_playing = Playing" "ap_client_started demo_playing"
  "serving demo_playing" "hello_config_ok (app_hello_config (ap_config demo_playing))"
proof -
  have "\<not> ap_upload_enabled demo_greeted"
    using demo_dialog_stages(2) by (auto simp: quiet_def app_inv_defs phase_ready)
  then show "quiet demo_playing"
    using demo_dialog_stages(2) [THEN conjunct1]
    by (simp add: demo_playing_def quiet_def app_inv_defs client_inv_def)
  show "phase_of demo_playing = Playing" "ap_client_started demo_playing"
    "serving demo_playing" "hello_config_ok (app_hello_config (ap_config demo_playing))"
    using demo_dialog_stages(2) demo_running_quiet
    by (simp_all add: demo_playing_def serving_def phase_of_def)
qed

theorem interrupt_makes_client_flap_witness:
  "phase_of ((flap demo_env demo_connect_env ^^ 100) (app_main_turn demo_env No_Input
     (app_main_turn demo_env (Input_Line [CHR 0x0A]) demo_playing))) = Handshaking"
proof -
  have "closes demo_env" "connects demo_connect_env"
    by (simp_all add: closes_def demo_env_def connects_def demo_connect_env_def)
  from interrupt_makes_client_flap [OF demo_playing_ok(1-4) this(1) demo_resources this(2)
      demo_playing_ok(5) refl, of 100] show ?thesis by simp
qed

end
