(* ===== verification/Main_Entry.thy ===== *)
theory Main_Entry
  imports App_Runs
begin

section \<open>The program (\<open>src/main.c\<close>)\<close>

text \<open>
  The command line, \<open>app_run\<close> as a whole, and \<open>main\<close> with its exit codes. A run of the main loop
  is given by its rounds (theory \<open>App\<close>); a program that has not ended after them, or whose threads
  cannot be joined, is \<open>None\<close>. The
  SIGINT handler is \<open>app_request_stop\<close> on the global runtime and is the signal step of theory
  \<open>App_System\<close>.
\<close>

fun scan_args :: "string list \<Rightarrow> app_options \<Rightarrow> app_options" where
  "scan_args [] opts = opts"
| "scan_args (arg # rest) opts =
     (if arg = ''--config'' \<and> rest \<noteq> [] then scan_args (tl rest) (opts\<lparr>op_config_path := Some (hd rest)\<rparr>)
      else if arg = ''--check-config'' then scan_args rest (opts\<lparr>op_check_only := True\<rparr>)
      else scan_args rest opts)"

definition parse_args :: "string list \<Rightarrow> app_options" where
  "parse_args argv = scan_args (drop 1 argv) (zero_options\<lparr>op_config_path := Some ''config/xiaozhi.ini''\<rparr>)"

definition app_run ::
    "('e, 'd) app_env \<Rightarrow> (wait_script \<times> stdin_state) list \<Rightarrow> ('e, 'd) app_runtime
       \<Rightarrow> (rc \<times> ('e, 'd) app_runtime) option" where
  "app_run env rounds app =
     (case app_run_begin env app of
        Inl r \<Rightarrow> Some (r, app)
      | Inr app1 \<Rightarrow>
          (case app_run_loop env rounds app1 of
             Some (Leave r app2) \<Rightarrow> Some (r, app2)
           | _ \<Rightarrow> None))"

text \<open>
  The exit code and the runtime at the end; \<open>app\<close> is the uninitialised runtime on the stack, \<open>sh\<close> what
  joining the threads depends on. \<open>None\<close>: the program has not ended.
\<close>

definition xiaozhi_main ::
    "('e, 'd) app_env \<Rightarrow> init_env \<Rightarrow> 'c shutdown \<Rightarrow> string list \<Rightarrow> (wait_script \<times> stdin_state) list
       \<Rightarrow> ('e, 'd) app_runtime \<Rightarrow> (int \<times> ('e, 'd) app_runtime) option" where
  "xiaozhi_main env ienv sh argv rounds app =
     (let opts = parse_args argv in
      case app_init env ienv app (Some opts) of
        (r, app1) \<Rightarrow>
          (if r \<noteq> 0 then Some (1, app1)
           else if op_check_only opts then map_option (Pair 0) (app_destroy env sh app1)
           else
             (case app_run env rounds app1 of
                None \<Rightarrow> None
              | Some (r2, app2) \<Rightarrow>
                  map_option (Pair (if r2 = 0 then 0 else 1)) (app_destroy env sh app2))))"

subsection \<open>The command line\<close>

lemma scan_args_skip:
  "op_skip_runtime_init (scan_args args opts) = op_skip_runtime_init opts"
  "op_ota_fetch (scan_args args opts) = op_ota_fetch opts"
  by (induction args opts rule: scan_args.induct) auto

text \<open>The arguments that mean something, in order: what is not an option is passed over.\<close>

datatype setting = Use_Config string | Check_Only

fun settings :: "string list \<Rightarrow> setting list" where
  "settings [] = []"
| "settings [arg] = (if arg = ''--check-config'' then [Check_Only] else [])"
| "settings (arg # val # rest) =
     (if arg = ''--config'' then Use_Config val # settings rest
      else (if arg = ''--check-config'' then [Check_Only] else []) @ settings (val # rest))"

fun configs :: "setting list \<Rightarrow> string list" where
  "configs [] = []"
| "configs (Use_Config p # ss) = p # configs ss"
| "configs (Check_Only # ss) = configs ss"

lemma scan_args_settings:
  "op_config_path (scan_args args opts) =
     (if configs (settings args) = [] then op_config_path opts else Some (last (configs (settings args)))) \<and>
   op_check_only (scan_args args opts) = (op_check_only opts \<or> Check_Only \<in> set (settings args))"
  by (induction args arbitrary: opts rule: settings.induct) auto

text \<open>
  The options of the command line: the last \<open>--config\<close> that has a value names the file (a
  \<open>--config\<close> at the end has none, and the word after one is never an option itself), and
  \<open>--check-config\<close> anywhere else asks for the check; everything else is the default.
\<close>

theorem parse_args_settings:
  "op_config_path (parse_args (prog # args)) =
     Some (last (''config/xiaozhi.ini'' # configs (settings args))) \<and>
   op_check_only (parse_args (prog # args)) = (Check_Only \<in> set (settings args)) \<and>
   \<not> op_skip_runtime_init (parse_args (prog # args)) \<and> op_ota_fetch (parse_args (prog # args)) = None"
  using scan_args_settings [of args "zero_options\<lparr>op_config_path := Some ''config/xiaozhi.ini''\<rparr>"]
    scan_args_skip [of args]
  by (simp add: parse_args_def zero_options_def)

subsection \<open>The end of the program\<close>

lemma bootstrap_flags:
  "app_bootstrap_ota f app = (r, app') \<Longrightarrow>
     ap_initialized app' = ap_initialized app \<and> ap_skip_runtime_init app' = ap_skip_runtime_init app"
  by (auto simp: app_bootstrap_ota_def Let_def split: prod.splits if_splits)

lemma runtime_modules_flags:
  "app_init_runtime_modules env ienv app = (r, app') \<Longrightarrow>
     ap_initialized app' = ap_initialized app \<and> ap_skip_runtime_init app' = ap_skip_runtime_init app"
  by (auto simp: app_init_runtime_modules_def Let_def split: prod.splits if_splits)

lemma init_flags:
  assumes "app_init env ienv a opts = (0, app)"
  shows "ap_initialized app \<and> ap_skip_runtime_init app = op_skip_runtime_init (options_of opts)"
proof -
  let ?path = "case op_config_path (options_of opts) of None \<Rightarrow> ''config/xiaozhi.ini'' | Some p \<Rightarrow> p"
  obtain r1 cfg err where load: "config_load_file (Some ?path) (ie_file ienv) zero_config (Some []) 256
      = (r1, cfg, err)" using prod_cases3 by blast
  obtain r2 q where q: "event_queue_init (ie_queue ienv) 64 zero_event_queue = (r2, q)" by fastforce
  have "r1 = 0 \<and> r2 = 0"
    using assms load q
    by (auto simp: app_init_def options_of_def app_clear_def fill_default_ids Let_def split: if_splits)
  then have "config_load_file (Some (config_path (options_of opts))) (ie_file ienv) zero_config
      (Some []) 256 = (0, cfg, err)" "event_queue_init (ie_queue ienv) 64 zero_event_queue = (0, q)"
    using load q by (simp_all add: config_path_def)
  from app_init_loaded [OF this, of env a] assms show ?thesis
    by (auto simp: loaded_app_def Let_def split: if_splits prod.splits
        dest!: bootstrap_flags runtime_modules_flags)
qed

text \<open>
  What the threads' calls must do for \<open>app_destroy\<close> to return: the device recovers from errors only
  finitely often, so that the playback thread gets through the block it is writing, and the calls
  in which the network thread and the capture thread are return.
\<close>

definition threads_end :: "'c shutdown \<Rightarrow> ('c \<Rightarrow> sample list) \<Rightarrow> ('c \<Rightarrow> nat) \<Rightarrow> bool" where
  "threads_end sh played budget \<longleftrightarrow>
     alsa_law (sh_alsa sh) 1 played budget \<and> sh_service_returns sh \<and> sh_read_returns sh"

lemma destroy_ends:
  assumes "threads_end sh played budget"
  shows "\<exists>app'. app_destroy env sh app = Some app'"
proof -
  let ?a = "app_close_opus_dump_file app"
  let ?b = "if ap_client_started ?a then app_client_stop env ?a else ?a"
  let ?c = "?b\<lparr>ap_capture := zero_capture\<rparr>"
  obtain w where "audio_playback_destroy (sh_alsa sh) (sh_position sh)
      \<lparr>pw_pb = ap_playback ?c, pw_local = sh_local sh, pw_events = ap_events ?c, pw_dev = sh_dev sh\<rparr> = Some w"
    using playback_destroy_ends assms unfolding threads_end_def by metis
  then have "\<exists>app1. app_end_threads env sh app = Some app1"
    using assms by (simp add: app_end_threads_def audio_capture_stop_def threads_end_def Let_def split: prod.split)
  then show ?thesis by (auto simp: app_destroy_def Let_def)
qed

text \<open>When the capture device never delivers, the program hangs in \<open>app_destroy\<close>.\<close>

lemma destroy_hangs:
  assumes "ap_initialized app" and "\<not> ap_check_only app" and "ap_runtime_modules_initialized app"
    and "cap_thread (ap_capture app)" and "\<not> sh_read_returns sh"
  shows "app_destroy env sh app = None"
proof -
  let ?a = "app_close_opus_dump_file app"
  have "ap_capture (if ap_client_started ?a then app_client_stop env ?a else ?a) = ap_capture app" by simp
  then have "audio_capture_stop (sh_read_returns sh)
      (ap_capture (if ap_client_started ?a then app_client_stop env ?a else ?a)) = None"
    using assms(4,5) by (simp add: audio_capture_stop_def)
  then show ?thesis
    using assms(1-3) by (simp add: app_destroy_def app_end_threads_def Let_def)
qed

text \<open>
  C9: The program ends: when the waits of the main loop work and the user quits (or closes the
  terminal) in one of its rounds, \<open>main\<close> returns, given that its threads can be joined: the
  capture thread's read and the library's service call return, here and in every stop of the
  client, and the playback device recovers only finitely often, wherever in a turn or in a block
  the playback thread is. \<open>main\<close> returns 0 exactly when the initialisation succeeded and the server
  did not ask for the device to be activated first, or only a check of the configuration was
  asked for; 1 otherwise.
\<close>

theorem main_ends:
  assumes "\<forall>(script, input) \<in> set rounds. wait_works script"
    and "\<exists>(script, input) \<in> set rounds. quits input"
    and "threads_end sh played budget"
    and "app_init env ienv app (Some (parse_args (prog # args))) = (r, app1)"
  shows "\<exists>app2. xiaozhi_main env ienv sh (prog # args) rounds app =
    Some (if r = 0 \<and> (Check_Only \<in> set (settings args) \<or> \<not> ap_activation_pending app1) then 0 else 1, app2)"
proof -
  let ?o = "parse_args (prog # args)"
  have opts: "op_check_only ?o = (Check_Only \<in> set (settings args))" "\<not> op_skip_runtime_init ?o"
    using scan_args_settings [of args "zero_options\<lparr>op_config_path := Some ''config/xiaozhi.ini''\<rparr>"]
      scan_args_skip(1) [of args]
    by (simp_all add: parse_args_def zero_options_def)
  note flags = init_flags [of env ienv app "Some ?o" app1]
  show ?thesis
  proof (cases "r = 0 \<and> \<not> op_check_only ?o \<and> \<not> ap_activation_pending app1")
    case False
    then show ?thesis
      using assms(4) opts(1) flags destroy_ends [OF assms(3), of env app1]
      by (auto simp: xiaozhi_main_def app_run_def app_run_begin_def Let_def)
  next
    case True
    then have "ap_initialized app1" "\<not> ap_skip_runtime_init app1"
      using flags assms(4) opts(2) by (simp_all add: options_of_def)
    then obtain app2 where started: "app_run_begin env app1 = Inr app2"
      using True by (cases "ap_client_started app1") (simp_all add: app_run_begin_def Let_def)
    obtain app3 where "app_run_loop env rounds app2 = Some (Leave 0 app3)"
      using run_loop_ends [OF assms(1,2), of env app2] by blast
    with started True assms(4) opts(1) destroy_ends [OF assms(3), of env app3] show ?thesis
      by (auto simp: xiaozhi_main_def app_run_def)
  qed
qed

text \<open>
  The whole way: the configuration is read, the server answers through \<open>curl\<close>, the modules start, a
  round passes, the user quits in the next, while the playback thread is in the middle of a block on a
  device that fails once, and the program returns 0.
\<close>

definition demo_curl_env :: "string \<Rightarrow> init_env" where
  "demo_curl_env json =
     demo_init_env\<lparr>ie_ota := \<lparr>oe_pipe = True, oe_fork = True, oe_curl = sample_curl json\<rparr>\<rparr>"

definition demo_shutdown :: "scripted shutdown" where
  "demo_shutdown = \<lparr>sh_alsa = scripted_alsa,
     sh_position = Writing \<lparr>blk_data = 0, blk_len = 8, blk_rate = 24000\<rparr> 1,
     sh_local = \<lparr>pl_pcm = True, pl_rate = 24000\<rparr>,
     sh_dev = \<lparr>sd_script = [- 32, 1], sd_recoveries = 2, sd_played = []\<rparr>,
     sh_service_returns = True, sh_read_returns = True\<rparr>"

lemma demo_curl_init:
  obtains json app where "app_init demo_env (demo_curl_env json) blank_app
      (Some (parse_args [''xiaozhi'', ''--config'', ''x.ini''])) = (0, app)"
    "\<not> ap_activation_pending app" "ap_runtime_modules_initialized app"
proof -
  let ?w = "Some (''wss://ota'', ''t'')"
  let ?o = "Some (parse_args [''xiaozhi'', ''--config'', ''x.ini''])"
  let ?cfg = "with_default_ids demo_config"
  obtain json where json: "cJSON_PrintUnformatted (ota_reply None ?w) = Some json" "length json \<le> 100"
    by (simp add: ota_reply_def cJSON_PrintUnformatted_def print_plain)
  have cfg: "config_wf ?cfg" "config_plain ?cfg"
    by (simp_all add: with_default_ids_def demo_config_def config_wf_def field_def is_int32_def config_plain_def)
  obtain body where b: "ota_build_request_json ?cfg 2048 [] = (0, body)"
    using ota_request_fits [OF cfg] by blast
  have o: "options_of ?o = zero_options\<lparr>op_config_path := Some ''x.ini''\<rparr>"
    by (simp add: options_of_def parse_args_def)
  have fetch: "fetcher_of (demo_curl_env json) (options_of ?o) ?cfg zero_ota_response (Some []) 256 =
      (0, ota_reply_meaning None ?w, Some [])"
    unfolding fetcher_of_def o
    by (simp add: zero_options_def demo_curl_env_def)
       (rule ota_fetch_of_reply [OF cfg _ _ b, where json = json and ws = "[newline]"
            and chunks = "[take 20 json, drop 20 json @ [newline]]"],
        use json in \<open>simp_all add: sample_curl_def blank_def texts_ok_def\<close>)
  have load: "config_load_file (Some (config_path (options_of ?o))) (ie_file (demo_curl_env json))
      zero_config (Some []) 256 = (0, demo_config, Some [])"
    by (simp add: demo_curl_env_def demo_init_env_def demo_load)
  let ?new = "with_ota (ota_reply_meaning None ?w) ?cfg"
  have url: "sv_url (cf_server ?new) \<noteq> []" "\<not> or_activation_required (ota_reply_meaning None ?w)"
    by (simp_all add: with_ota_def ota_reply_meaning_def)
  have modules: "modules_available demo_env (demo_curl_env json) ?new (app_clear blank_app)"
    using url(1) demo_modules [of blank_app]
    by (simp add: modules_available_def demo_curl_env_def) (simp add: with_ota_def)
  obtain r app where init: "app_init demo_env (demo_curl_env json) blank_app ?o = (r, app)" by fastforce
  have "ie_queue (demo_curl_env json)" "\<not> op_check_only (options_of ?o)" "\<not> op_skip_runtime_init (options_of ?o)"
    unfolding o by (simp_all add: demo_curl_env_def demo_init_env_def zero_options_def)
  from app_init_ready_run [OF load this fetch url(2) refl init] url(1) modules init that
  show thesis by blast
qed

theorem main_ends_witness:
  "\<exists>json app. xiaozhi_main demo_env (demo_curl_env json) demo_shutdown [''xiaozhi'', ''--config'', ''x.ini'']
     [([([], WOKEN), ([], TIMED_OUT)], No_Input), ([([], TIMED_OUT)], Input_Line (''q'' @ [CHR 0x0A]))]
     blank_app = Some (0, app)"
proof -
  obtain json app where init: "app_init demo_env (demo_curl_env json) blank_app
      (Some (parse_args [''xiaozhi'', ''--config'', ''x.ini''])) = (0, app)"
    "\<not> ap_activation_pending app" by (rule demo_curl_init)
  have "threads_end demo_shutdown sd_played (\<lambda>d. length (sd_script d) + sd_recoveries d)"
    using scripted_alsa_law by (simp add: threads_end_def demo_shutdown_def)
  from main_ends [OF _ _ this init(1), of "[([([], WOKEN), ([], TIMED_OUT)], No_Input),
      ([([], TIMED_OUT)], Input_Line (''q'' @ [CHR 0x0A]))]"] init(2)
  show ?thesis by (auto simp: wait_works_def quits_def)
qed

end
