(* ===== verification/Command.thy ===== *)
theory Command
  imports CJson_Facts
begin

section \<open>The commands of the old server (\<open>src/command.c\<close>)\<close>

text \<open>
  A command is a JSON object; the answer is written into the caller's buffer. Setting an LED is
  only a line of output in the code, here the third component of the result.
\<close>

definition response_message :: "string option \<Rightarrow> string \<Rightarrow> string option \<Rightarrow> cJSON" where
  "response_message action status msg =
     (let root = cJSON_AddStringToObject (cJSON_Object []) ''type'' ''cmd_result'';
          root = cJSON_AddStringToObject root ''action''
                   (case action of None \<Rightarrow> ''unknown'' | Some a \<Rightarrow> a);
          root = cJSON_AddStringToObject root ''status'' status
      in case msg of None \<Rightarrow> root | Some m \<Rightarrow> cJSON_AddStringToObject root ''msg'' m)"

text \<open>\<open>buf\<close> is what the buffer holds before.\<close>

definition create_response ::
    "string \<Rightarrow> nat \<Rightarrow> string option \<Rightarrow> string \<Rightarrow> string option \<Rightarrow> string" where
  "create_response buf buf_size action status msg =
     (case cJSON_PrintUnformatted (response_message action status msg) of
        None \<Rightarrow> buf
      | Some json_out \<Rightarrow> strncpy_buf buf_size json_out)"

definition error_text :: "string \<Rightarrow> string" where
  "error_text msg = CHR ''{'' # CHR 0x22 # ''type'' @ CHR 0x22 # '':'' @ CHR 0x22 # ''error'' @ CHR 0x22 #
     '','' @ CHR 0x22 # ''msg'' @ CHR 0x22 # '':'' @ CHR 0x22 # msg @ CHR 0x22 # ''}''"

definition led_command :: "cJSON option \<Rightarrow> (int \<times> string) option" where
  "led_command params =
     (case params of
        None \<Rightarrow> None
      | Some p \<Rightarrow>
          (case (cJSON_GetObjectItem (Some p) ''id'', cJSON_GetObjectItem (Some p) ''state'') of
             (Some (cJSON_Number i d), Some (cJSON_String s)) \<Rightarrow> Some (i, s)
           | _ \<Rightarrow> None))"

definition command_parse ::
    "string \<Rightarrow> string \<Rightarrow> nat \<Rightarrow> rc \<times> string \<times> (int \<times> string) option" where
  "command_parse json_str buf buf_size =
     (case cJSON_Parse json_str of
        None \<Rightarrow> (- 1, snprintf_buf buf_size (error_text ''invalid json''), None)
      | Some root \<Rightarrow>
          (case cJSON_GetObjectItem (Some root) ''type'' of
             Some (cJSON_String t) \<Rightarrow>
               (if t \<noteq> ''cmd''
                then (0, snprintf_buf buf_size (error_text ''missing or invalid type''), None)
                else
                  (case cJSON_GetObjectItem (Some root) ''action'' of
                     Some (cJSON_String action) \<Rightarrow>
                       (if action = ''set_led'' then
                          (case led_command (cJSON_GetObjectItem (Some root) ''params'') of
                             Some led \<Rightarrow>
                               (0, create_response buf buf_size (Some action) ''ok'' None, Some led)
                           | None \<Rightarrow>
                               (0, create_response buf buf_size (Some action) ''error''
                                     (Some ''invalid params for set_led''), None))
                        else if action = ''get_status'' then
                          (0, create_response buf buf_size (Some action) ''ok''
                                (Some ''System is running''), None)
                        else
                          (0, create_response buf buf_size (Some action) ''error''
                                (Some ''unknown action''), None))
                   | _ \<Rightarrow> (0, snprintf_buf buf_size (error_text ''missing action''), None)))
           | _ \<Rightarrow> (0, snprintf_buf buf_size (error_text ''missing or invalid type''), None)))"

subsection \<open>Answers\<close>

lemma response_message_members:
  "response_message action status msg = cJSON_Object
     ([(''type'', cJSON_String ''cmd_result''),
       (''action'', cJSON_String (case action of None \<Rightarrow> ''unknown'' | Some a \<Rightarrow> a)),
       (''status'', cJSON_String status)] @ (case msg of None \<Rightarrow> [] | Some m \<Rightarrow> [(''msg'', cJSON_String m)]))"
  by (simp add: response_message_def cJSON_AddStringToObject_def split: option.split)

definition response_text :: "string \<Rightarrow> string \<Rightarrow> string option \<Rightarrow> string" where
  "response_text action status msg =
     the (cJSON_PrintUnformatted (response_message (Some action) status msg))"

lemma response_printed:
  "cJSON_PrintUnformatted (response_message (Some a) status msg) = Some (response_text a status msg)"
  by (simp add: response_text_def response_message_members cJSON_PrintUnformatted_def
      split: option.split)

lemma response_parses:
  assumes "c_ok a" and "c_ok status" and "\<forall>m. msg = Some m \<longrightarrow> c_ok m"
    and "length (response_text a status msg) < n"
  shows "cJSON_Parse (create_response buf n (Some a) status msg) =
    Some (response_message (Some a) status msg)"
proof -
  have wf: "wf_json (response_message (Some a) status msg)"
    using assms(1-3) by (simp add: response_message_members split: option.split)
  note printed = response_printed [of a status msg]
  have "c_ok (response_text a status msg)"
    using parse_printed [OF wf] printed by (auto simp: cJSON_PrintUnformatted_def)
  then show ?thesis
    using cJSON_Parse_of_print [OF wf printed] assms(4)
    by (simp add: create_response_def printed strncpy_buf_def)
qed

text \<open>What a command asks for, by its action.\<close>

definition verdict :: "string \<Rightarrow> (int \<times> string) option \<Rightarrow> string \<times> string option" where
  "verdict action led =
     (if action = ''set_led''
      then (if led = None then (''error'', Some ''invalid params for set_led'') else (''ok'', None))
      else if action = ''get_status'' then (''ok'', Some ''System is running'')
      else (''error'', Some ''unknown action''))"

text \<open>
  A command is answered in kind: for a JSON object with the type \<open>cmd\<close> and an action, the answer
  is, when it fits the buffer, a JSON object that names the action and its outcome, whatever
  characters the action contains; and an LED is set exactly when the action is \<open>set_led\<close> with an
  id and a state.
\<close>

theorem command_answered:
  assumes "cJSON_Parse json = Some root"
    and "cJSON_GetObjectItem (Some root) ''type'' = Some (cJSON_String ''cmd'')"
    and "cJSON_GetObjectItem (Some root) ''action'' = Some (cJSON_String action)" and "c_ok action"
    and "led = (if action = ''set_led'' then led_command (cJSON_GetObjectItem (Some root) ''params'') else None)"
    and "verdict action led = (status, msg)" and "length (response_text action status msg) < n"
  shows "\<exists>response. command_parse json buf n = (0, response, led) \<and>
    cJSON_Parse response = Some (response_message (Some action) status msg)"
proof -
  have "c_ok status" "\<forall>m. msg = Some m \<longrightarrow> c_ok m"
    using assms(6) by (auto simp: verdict_def split: if_splits)
  moreover have "command_parse json buf n = (0, create_response buf n (Some action) status msg, led)"
    using assms(1-3,5,6)
    by (auto simp: command_parse_def verdict_def split: option.split if_splits)
  ultimately show ?thesis using response_parses assms(4,7) by simp
qed

text \<open>
  Every outcome: -1 exactly for a text that is not JSON, 0 otherwise, and never more than the
  buffer holds is written.
\<close>

theorem command_outcomes:
  assumes "0 < n" and "length buf < n" and "command_parse json buf n = (r, response, led)"
  shows "length response < n \<and> r = (if cJSON_Parse json = None then - 1 else 0) \<and>
    (led \<noteq> None \<longrightarrow> r = 0)"
proof -
  have "length (create_response buf n a st m) < n" for a st m
    using assms(1,2) by (auto simp: create_response_def strncpy_buf_def split: option.split)
  then show ?thesis
    using assms(1,3)
    by (auto simp: command_parse_def split: option.splits cJSON.splits if_splits)
qed

definition demo_command :: cJSON where
  "demo_command = cJSON_Object [(''type'', cJSON_String ''cmd''), (''action'', cJSON_String ''get_status'')]"

lemma demo_command_printed:
  obtains json where "cJSON_Parse json = Some demo_command"
proof -
  obtain json where "cJSON_PrintUnformatted demo_command = Some json"
    by (simp add: demo_command_def cJSON_PrintUnformatted_def)
  from cJSON_Parse_of_print [OF _ this] that show thesis by (simp add: demo_command_def)
qed

theorem command_answered_witness:
  "\<exists>json response. command_parse json [] 1024 = (0, response, None) \<and>
     cJSON_Parse response = Some (response_message (Some ''get_status'') ''ok'' (Some ''System is running''))"
proof -
  obtain json where json: "cJSON_Parse json = Some demo_command" by (rule demo_command_printed)
  have "length (response_text ''get_status'' ''ok'' (Some ''System is running'')) < 1024"
    by (simp add: response_text_def response_message_members cJSON_PrintUnformatted_def
        print_string_ptr_def escape_char_def)
  then have "\<exists>response. command_parse json [] 1024 = (0, response, None) \<and> cJSON_Parse response =
      Some (response_message (Some ''get_status'') ''ok'' (Some ''System is running''))"
    by (intro command_answered [OF json])
       (simp_all add: demo_command_def cJSON_GetObjectItem_def case_insensitive_eq_def tolower_def verdict_def)
  then show ?thesis by blast
qed

theorem command_outcomes_witness:
  "length (fst (snd (command_parse ''x'' [] 64))) < 64"
  using command_outcomes [of 64 "[]" "''x''"] by (metis less_numeral_extra(1) list.size(3) prod.collapse
      zero_less_numeral)

end
