(* ===== verification/Msg_Queue.thy ===== *)
theory Msg_Queue
  imports Bounded_Fifo
begin

section \<open>The message queue of the old server (\<open>src/msg_queue.c\<close>)\<close>

text \<open>
  A ring of message slots of 256 bytes that, unlike the client's queues, never refuses: when it is
  full the oldest message is dropped. A slot's content is the C string in it (a fresh slot is
  uninitialised; here it is empty, and it is never read before it is written). With capacity 0
  the code divides by zero, which is \<open>None\<close>.
\<close>

record msg_queue =
  mq_buffer :: "string list"
  mq_head :: nat
  mq_tail :: nat
  mq_count :: nat
  mq_capacity :: nat

definition zero_msg_queue :: msg_queue where
  "zero_msg_queue = \<lparr>mq_buffer = [], mq_head = 0, mq_tail = 0, mq_count = 0, mq_capacity = 0\<rparr>"

text \<open>\<open>alloc\<close>: whether all the memory (and the mutex) could be had. The allocations that were
  made are freed when a later one fails.\<close>

definition msg_queue_init :: "bool \<Rightarrow> nat \<Rightarrow> msg_queue \<Rightarrow> rc \<times> msg_queue" where
  "msg_queue_init alloc capacity queue =
     (let queue1 = queue\<lparr>mq_capacity := capacity, mq_head := 0, mq_tail := 0, mq_count := 0\<rparr>
      in if alloc then (0, queue1\<lparr>mq_buffer := replicate capacity []\<rparr>)
         else (- 1, queue1\<lparr>mq_buffer := []\<rparr>))"

definition msg_queue_push :: "msg_queue \<Rightarrow> string \<Rightarrow> (rc \<times> msg_queue) option" where
  "msg_queue_push queue data =
     (if mq_capacity queue = 0 then None
      else
        (let queue1 = (if mq_count queue = mq_capacity queue
                       then queue\<lparr>mq_head := (mq_head queue + 1) mod mq_capacity queue,
                                  mq_count := mq_count queue - 1\<rparr>
                       else queue)
         in Some (0, queue1\<lparr>
              mq_buffer := (mq_buffer queue1)[mq_tail queue1 := strncpy_buf 256 data],
              mq_tail := (mq_tail queue1 + 1) mod mq_capacity queue1,
              mq_count := mq_count queue1 + 1\<rparr>)))"

text \<open>The length returned, and the buffer of \<open>buf_size\<close> bytes when it is written.\<close>

definition msg_queue_pop :: "msg_queue \<Rightarrow> nat \<Rightarrow> nat \<times> string option \<times> msg_queue" where
  "msg_queue_pop queue buf_size =
     (if mq_count queue > 0 then
        (let buf = strncpy_buf buf_size (mq_buffer queue ! mq_head queue)
         in (length buf, Some buf,
             queue\<lparr>mq_head := (mq_head queue + 1) mod mq_capacity queue,
                   mq_count := mq_count queue - 1\<rparr>))
      else (0, None, queue))"

definition msg_queue_destroy :: "msg_queue \<Rightarrow> msg_queue" where
  "msg_queue_destroy queue = queue\<lparr>mq_buffer := []\<rparr>"

subsection \<open>It keeps the newest\<close>

definition mq_inv :: "msg_queue \<Rightarrow> bool" where
  "mq_inv q \<longleftrightarrow> length (mq_buffer q) = mq_capacity q \<and>
     ring_ok (mq_capacity q) (mq_head q) (mq_tail q) (mq_count q)"

definition mq_contents :: "msg_queue \<Rightarrow> string list" where
  "mq_contents q = ring_list (mq_buffer q) (mq_head q) (mq_count q)"

text \<open>The specification: a list that loses its first element when it is full.\<close>

definition keep_newest :: "nat \<Rightarrow> 'a list \<Rightarrow> 'a list" where
  "keep_newest n xs = drop (length xs - n) xs"

lemma keep_newest_append: "keep_newest n (keep_newest n xs @ ys) = keep_newest n (xs @ ys)"
proof (cases "n \<le> length xs")
  case True
  then have "length xs + length ys - (length xs - n + n) + (length xs - n) = length xs + length ys - n"
    by simp
  with True show ?thesis by (simp add: keep_newest_def)
qed (simp add: keep_newest_def)

lemma msg_queue_push_step:
  assumes "mq_inv q" and "msg_queue_push q data = Some (r, q')"
  shows "r = 0 \<and> mq_inv q' \<and> mq_capacity q' = mq_capacity q \<and>
    mq_contents q' = keep_newest (mq_capacity q) (mq_contents q @ [strncpy_buf 256 data])"
proof -
  let ?full = "mq_count q = mq_capacity q"
  let ?h = "if ?full then (mq_head q + 1) mod mq_capacity q else mq_head q"
  let ?n = "if ?full then mq_count q - 1 else mq_count q"
  let ?x = "strncpy_buf 256 data"
  have ring: "ring_ok (mq_capacity q) (mq_head q) (mq_tail q) (mq_count q)"
    and len: "length (mq_buffer q) = mq_capacity q" and cap: "0 < mq_capacity q"
    using assms(1) by (auto simp: mq_inv_def ring_ok_def)
  have ring': "ring_ok (mq_capacity q) ?h (mq_tail q) ?n" "?n < mq_capacity q"
    using ring ring_ok_pop [OF ring] cap by (auto simp: ring_ok_def)
  have q': "q' = q\<lparr>mq_head := ?h, mq_buffer := (mq_buffer q)[mq_tail q := ?x],
      mq_tail := (mq_tail q + 1) mod mq_capacity q, mq_count := ?n + 1\<rparr>" "r = 0"
    using assms(2) cap by (auto simp: msg_queue_push_def Let_def)
  have kept: "ring_list (mq_buffer q) ?h ?n = (if ?full then tl (mq_contents q) else mq_contents q)"
  proof (cases ?full)
    case True
    then have "ring_list (mq_buffer q) (mq_head q) (mq_count q) = mq_buffer q ! mq_head q #
        ring_list (mq_buffer q) ((mq_head q + 1) mod mq_capacity q) (mq_count q - 1)"
      using ring_list_pop [of "mq_buffer q" "mq_head q" "mq_tail q" "mq_count q"] ring len cap by simp
    with True show ?thesis unfolding mq_contents_def by simp
  qed (simp add: mq_contents_def)
  have "mq_contents q' = ring_list (mq_buffer q) ?h ?n @ [?x]"
    using ring_list_push [of "mq_buffer q" ?h "mq_tail q" ?n ?x] ring' len
    by (simp add: q' mq_contents_def)
  also have "\<dots> = keep_newest (mq_capacity q) (mq_contents q @ [?x])"
    unfolding kept using ring cap
    by (auto simp: keep_newest_def mq_contents_def ring_ok_def drop_Suc tl_append2 Suc_diff_le)
  finally show ?thesis
    using ring_ok_push [OF ring'] len by (simp add: q' mq_inv_def)
qed

lemma msg_queue_init_ok:
  "msg_queue_init alloc n q0 = (0, q) \<Longrightarrow> 0 < n \<Longrightarrow> mq_inv q \<and> mq_contents q = [] \<and> mq_capacity q = n"
  by (auto simp: msg_queue_init_def mq_inv_def mq_contents_def Let_def split: if_splits)

lemma msg_queue_pop_step:
  assumes "mq_inv q"
  shows "msg_queue_pop q n = (case mq_contents q of [] \<Rightarrow> (0, None, q)
      | x # xs \<Rightarrow> (length (strncpy_buf n x), Some (strncpy_buf n x), snd (snd (msg_queue_pop q n)))) \<and>
    mq_inv (snd (snd (msg_queue_pop q n))) \<and>
    mq_contents (snd (snd (msg_queue_pop q n))) = tl (mq_contents q)"
proof (cases "mq_count q = 0")
  case True
  then have "mq_contents q = []" by (simp add: mq_contents_def)
  then show ?thesis using True assms by (simp add: msg_queue_pop_def)
next
  case False
  have ring: "ring_ok (mq_capacity q) (mq_head q) (mq_tail q) (mq_count q)"
    and len: "length (mq_buffer q) = mq_capacity q"
    using assms by (auto simp: mq_inv_def)
  have c: "mq_contents q = mq_buffer q ! mq_head q #
      ring_list (mq_buffer q) ((mq_head q + 1) mod mq_capacity q) (mq_count q - 1)"
    using ring_list_pop [of "mq_buffer q" "mq_head q" "mq_tail q" "mq_count q"] ring len False
    by (simp add: mq_contents_def)
  show ?thesis
    unfolding c using False ring_ok_pop [OF ring] len
    by (simp add: msg_queue_pop_def Let_def mq_inv_def mq_contents_def)
qed

fun push_messages :: "msg_queue \<Rightarrow> string list \<Rightarrow> msg_queue option" where
  "push_messages q [] = Some q"
| "push_messages q (m # ms) =
     (case msg_queue_push q m of None \<Rightarrow> None | Some (r, q1) \<Rightarrow> push_messages q1 ms)"

fun pop_messages :: "nat \<Rightarrow> msg_queue \<Rightarrow> nat \<Rightarrow> string list" where
  "pop_messages 0 q room = []"
| "pop_messages (Suc n) q room =
     (case msg_queue_pop q room of
        (len, None, q1) \<Rightarrow> []
      | (len, Some m, q1) \<Rightarrow> m # pop_messages n q1 room)"

lemma pop_messages_contents:
  "mq_inv q \<Longrightarrow> pop_messages n q room = take n (map (strncpy_buf room) (mq_contents q))"
proof (induction n arbitrary: q)
  case (Suc n)
  note pop = msg_queue_pop_step [OF Suc.prems, of room]
  obtain len m q1 where one: "msg_queue_pop q room = (len, m, q1)" using prod_cases3 by blast
  then show ?case using pop Suc.IH [of q1] by (cases "mq_contents q") auto
qed simp

lemma push_messages_contents:
  assumes "mq_inv q"
  shows "\<exists>q'. push_messages q ms = Some q' \<and> mq_inv q' \<and> mq_capacity q' = mq_capacity q \<and>
    mq_contents q' = keep_newest (mq_capacity q) (mq_contents q @ map (strncpy_buf 256) ms)"
  using assms
proof (induction ms arbitrary: q)
  case Nil
  then have "length (mq_contents q) \<le> mq_capacity q" by (simp add: mq_inv_def mq_contents_def ring_ok_def)
  then show ?case using Nil by (simp add: keep_newest_def)
next
  case (Cons m ms)
  then have "mq_capacity q \<noteq> 0" by (simp add: mq_inv_def ring_ok_def)
  then obtain r q1 where one: "msg_queue_push q m = Some (r, q1)" by (simp add: msg_queue_push_def Let_def)
  note step = msg_queue_push_step [OF Cons.prems one]
  from Cons.IH [of q1] step show ?case by (simp add: one keep_newest_append)
qed

lemma queue_keeps_newest:
  assumes "msg_queue_init alloc n q0 = (0, q)" and "0 < n" and "0 < room"
    and "\<forall>m \<in> set ms. c_ok m \<and> length m < 256 \<and> length m < room"
  shows "\<exists>q'. push_messages q ms = Some q' \<and> mq_inv q' \<and>
    pop_messages (length ms) q' room = drop (length ms - n) ms"
proof -
  from msg_queue_init_ok [OF assms(1,2)] obtain q' where q': "push_messages q ms = Some q'" "mq_inv q'"
    "mq_contents q' = keep_newest n (map (strncpy_buf 256) ms)"
    using push_messages_contents [of q ms] by auto
  have "map (strncpy_buf 256) ms = ms" "map (strncpy_buf room) ms = ms"
    using assms(4) by (auto simp: strncpy_buf_def intro!: map_idI)
  then have "pop_messages (length ms) q' room = take (length ms) (drop (length ms - n) ms)"
    using pop_messages_contents [OF q'(2), of "length ms" room] q'(3)
    by (simp add: keep_newest_def drop_map [symmetric])
  with q' show ?thesis by simp
qed

text \<open>
  The queue keeps the newest messages: after pushing any messages into a fresh queue, popping
  until it is empty returns the last ones there is room for, unchanged and in the order they were
  pushed, when each fits a slot and the reader's buffer. No push fails.
\<close>

theorem msg_queue_keeps_newest:
  assumes "msg_queue_init alloc n q0 = (0, q)" and "0 < n" and "0 < room"
    and "\<forall>m \<in> set ms. c_ok m \<and> length m < 256 \<and> length m < room"
  shows "\<exists>q'. push_messages q ms = Some q' \<and> mq_inv q' \<and>
    pop_messages (length ms) q' room = drop (length ms - n) ms"
  by (rule queue_keeps_newest [OF assms])

theorem msg_queue_keeps_newest_witness:
  "\<exists>q'. push_messages (snd (msg_queue_init True 2 zero_msg_queue)) [''a'', ''b'', ''c''] = Some q' \<and>
     pop_messages 3 q' 256 = [''b'', ''c'']"
proof -
  have "msg_queue_init True 2 zero_msg_queue = (0, snd (msg_queue_init True 2 zero_msg_queue))"
    by (simp add: msg_queue_init_def Let_def)
  from msg_queue_keeps_newest [OF this, of 256 "[''a'', ''b'', ''c'']"] show ?thesis
    by (simp add: numeral_3_eq_3 del: push_messages.simps pop_messages.simps) blast
qed

end
