(* ===== verification/Ws_Server.thy ===== *)
theory Ws_Server
  imports Command Msg_Queue
begin

section \<open>The old server: its callback and its simulated sensor (\<open>src/ws_server.c\<close>, \<open>src/sensor_sim.c\<close>)\<close>

text \<open>
  The websocket library calls \<open>ws_callback_sensor\<close> for a session; what the sessions share is the
  broadcast message. The state of a session is the message it is about to send; writes to the
  socket are effects. \<open>stack\<close> is what the callback's response buffer happens to hold. Memory for
  the received text is assumed to be available (the code does not check).
\<close>

record per_session_data_sensor =
  ps_msg :: string
  ps_msg_len :: nat

record broadcast =
  global_broadcast_msg :: string
  global_broadcast_len :: nat

datatype ws_reason = ESTABLISHED | RECEIVE string | SERVER_WRITEABLE | CLOSED | OTHER_REASON

definition ws_callback_sensor ::
    "string \<Rightarrow> broadcast \<Rightarrow> ws_reason \<Rightarrow> per_session_data_sensor
       \<Rightarrow> per_session_data_sensor \<times> string list" where
  "ws_callback_sensor stack global reason pss =
     (case reason of
        ESTABLISHED \<Rightarrow> (pss\<lparr>ps_msg_len := 0\<rparr>, [])
      | RECEIVE data \<Rightarrow>
          (if length data < 1024 then
             (case command_parse (c_str data) stack 1024 of
                (r, response, led) \<Rightarrow> (pss, if r = 0 then [response] else []))
           else (pss, []))
      | SERVER_WRITEABLE \<Rightarrow>
          (let pss1 = (if 0 < global_broadcast_len global
                 then pss\<lparr>ps_msg := take (global_broadcast_len global) (global_broadcast_msg global) @
                                    drop (global_broadcast_len global) (ps_msg pss),
                          ps_msg_len := global_broadcast_len global\<rparr>
                 else pss)
           in if 0 < ps_msg_len pss1
              then (pss1\<lparr>ps_msg_len := 0\<rparr>, [take (ps_msg_len pss1) (ps_msg pss1)])
              else (pss1, []))
      | CLOSED \<Rightarrow> (pss, [])
      | OTHER_REASON \<Rightarrow> (pss, []))"

text \<open>
  A text that is not JSON is never answered: the command parser writes an error answer, but the
  callback sends an answer only when the parser returned 0.
\<close>

theorem invalid_json_unanswered:
  assumes "length data < 1024" and "cJSON_Parse (c_str data) = None"
  shows "command_parse (c_str data) stack 1024 = (- 1, error_text ''invalid json'', None) \<and>
    ws_callback_sensor stack global (RECEIVE data) pss = (pss, [])"
  using assms by (simp add: ws_callback_sensor_def command_parse_def error_text_def)

theorem invalid_json_unanswered_witness:
  "ws_callback_sensor [] \<lparr>global_broadcast_msg = [], global_broadcast_len = 0\<rparr> (RECEIVE ''x'')
     \<lparr>ps_msg = [], ps_msg_len = 0\<rparr> = (\<lparr>ps_msg = [], ps_msg_len = 0\<rparr>, [])"
proof -
  have "cJSON_Parse (c_str ''x'') = None" by code_simp
  with invalid_json_unanswered [of "''x''"] show ?thesis by simp
qed

subsection \<open>The sensor\<close>

text \<open>
  The thread's loop pushes a reading every two seconds; the three numbers, printed, are
  arguments.
\<close>

definition sensor_text :: "string \<Rightarrow> string \<Rightarrow> string \<Rightarrow> string" where
  "sensor_text temp humidity voltage =
     [CHR ''{'', CHR 0x22] @ ''type'' @ [CHR 0x22, CHR '':'', CHR 0x22] @ ''sensor'' @
     [CHR 0x22, CHR '','', CHR 0x22] @ ''data'' @ [CHR 0x22, CHR '':'', CHR ''{'', CHR 0x22] @
     ''temp'' @ [CHR 0x22, CHR '':''] @ temp @ [CHR '','', CHR 0x22] @ ''humidity'' @
     [CHR 0x22, CHR '':''] @ humidity @ [CHR '','', CHR 0x22] @ ''voltage'' @ [CHR 0x22, CHR '':''] @
     voltage @ ''}}''"

definition sensor_round :: "string \<times> string \<times> string \<Rightarrow> msg_queue \<Rightarrow> msg_queue option" where
  "sensor_round reading queue =
     (case reading of (temp, humidity, voltage) \<Rightarrow>
        map_option snd (msg_queue_push queue (snprintf_buf 256 (sensor_text temp humidity voltage))))"

definition sensor_sim_start :: "bool \<Rightarrow> bool \<Rightarrow> rc \<times> bool" where
  "sensor_sim_start created running = (if running then (0, running) else if created then (0, True) else (- 1, False))"

definition sensor_sim_stop :: "bool \<Rightarrow> bool" where
  "sensor_sim_stop running = False"

fun sensor_rounds :: "(string \<times> string \<times> string) list \<Rightarrow> msg_queue \<Rightarrow> msg_queue option" where
  "sensor_rounds [] q = Some q"
| "sensor_rounds (r # rs) q =
     (case sensor_round r q of None \<Rightarrow> None | Some q1 \<Rightarrow> sensor_rounds rs q1)"

definition short_reading :: "string \<times> string \<times> string \<Rightarrow> bool" where
  "short_reading r \<longleftrightarrow> (case r of (t, h, v) \<Rightarrow> length (t @ h @ v) < 100 \<and> c_ok (t @ h @ v))"

lemma sensor_rounds_push:
  "\<forall>r \<in> set rs. short_reading r \<Longrightarrow>
     sensor_rounds rs q = push_messages q (map (\<lambda>(t, h, v). sensor_text t h v) rs)"
proof (induction rs arbitrary: q)
  case (Cons r rs)
  obtain t h v where r: "r = (t, h, v)" using prod_cases3 by blast
  have "length (sensor_text t h v) < 256"
    using Cons.prems by (simp add: r short_reading_def sensor_text_def)
  then show ?case
    using Cons by (simp add: r sensor_round_def split: option.split)
qed simp

text \<open>
  Whoever reads the sensor's queue, however late, gets the newest readings, whole and in order,
  as many as there is room for.
\<close>

theorem sensor_keeps_newest:
  assumes "msg_queue_init alloc n q0 = (0, q)" and "0 < n" and "\<forall>r \<in> set rs. short_reading r"
  shows "\<exists>q'. sensor_rounds rs q = Some q' \<and> pop_messages (length rs) q' 256 =
    drop (length rs - n) (map (\<lambda>(t, h, v). sensor_text t h v) rs)"
proof -
  have "\<forall>m \<in> set (map (\<lambda>(t, h, v). sensor_text t h v) rs). c_ok m \<and> length m < 256 \<and> length m < 256"
    using assms(3) by (auto simp: short_reading_def sensor_text_def)
  from queue_keeps_newest [OF assms(1,2) _ this] show ?thesis
    using sensor_rounds_push [OF assms(3)] by auto
qed

theorem sensor_keeps_newest_witness:
  "\<exists>q'. sensor_rounds [(''20.1'', ''40.5'', ''3.01''), (''21.0'', ''41.0'', ''3.10'')]
        (snd (msg_queue_init True 1 zero_msg_queue)) = Some q' \<and>
     pop_messages 2 q' 256 = [sensor_text ''21.0'' ''41.0'' ''3.10'']"
proof -
  have "msg_queue_init True 1 zero_msg_queue = (0, snd (msg_queue_init True 1 zero_msg_queue))"
    by (simp add: msg_queue_init_def Let_def)
  from sensor_keeps_newest [OF this, of "[(''20.1'', ''40.5'', ''3.01''), (''21.0'', ''41.0'', ''3.10'')]"]
  show ?thesis
    by (simp add: short_reading_def numeral_2_eq_2 del: sensor_rounds.simps pop_messages.simps)
qed

end
