(* ===== verification/CJson_Buffer.thy ===== *)
theory CJson_Buffer
  imports CJson_Facts "HOL-Library.Monad_Syntax"
begin

section \<open>Printing into memory\<close>

text \<open>
  The printers of \<open>src/cJSON.c\<close> as they are written: into a buffer of bytes that \<open>ensure\<close> makes
  larger, or refuses to, before every write. A write or a read outside the buffer is a fault, the
  result \<open>None\<close>; the other results are the code's boolean and the buffer. The texts printed are those
  of \<open>print_value\<close> in theory \<open>CJson\<close>; what \<open>%1.15g\<close> or \<open>%1.17g\<close> makes of a number that is not an
  integer is the argument \<open>g\<close>.
\<close>

record printbuffer =
  pb_buffer :: "string option"
  pb_length :: nat
  pb_offset :: nat
  pb_depth :: nat
  pb_noalloc :: bool
  pb_format :: bool

text \<open>\<open>realloc\<close>, which custom hooks may lack, and \<open>malloc\<close>; the contents of new memory are theirs.\<close>

record buffer_hooks =
  reallocate :: "(string \<Rightarrow> nat \<Rightarrow> string option) option"
  malloc :: "nat \<Rightarrow> string option"

definition buffer_hooks_law :: "buffer_hooks \<Rightarrow> bool" where
  "buffer_hooks_law bh \<longleftrightarrow>
     (\<forall>re b n b'. reallocate bh = Some re \<longrightarrow> re b n = Some b' \<longrightarrow>
        length b' = n \<and> take (min (length b) n) b' = take (min (length b) n) b) \<and>
     (\<forall>n b'. malloc bh n = Some b' \<longrightarrow> length b' = n)"

abbreviation int_max :: nat where "int_max \<equiv> 2147483647"

subsection \<open>Memory\<close>

definition write_at :: "string \<Rightarrow> nat \<Rightarrow> string \<Rightarrow> string option" where
  "write_at b i cs = (if i + length cs \<le> length b
                      then Some (take i b @ cs @ drop (i + length cs) b) else None)"

definition read_front :: "string \<Rightarrow> nat \<Rightarrow> string option" where
  "read_front b n = (if n \<le> length b then Some (take n b) else None)"

text \<open>The second half of \<open>ensure\<close>: new memory, by \<open>realloc\<close> or by hand.\<close>

definition grow_buffer ::
    "buffer_hooks \<Rightarrow> string \<Rightarrow> nat \<Rightarrow> printbuffer \<Rightarrow> (bool \<times> printbuffer) option" where
  "grow_buffer bh b newsize p =
     (let lost = p\<lparr>pb_buffer := None, pb_length := 0\<rparr>
      in case reallocate bh of
           Some re \<Rightarrow>
             (case re b newsize of
                None \<Rightarrow> Some (False, lost)
              | Some b' \<Rightarrow> Some (True, p\<lparr>pb_buffer := Some b', pb_length := newsize\<rparr>))
         | None \<Rightarrow>
             (case malloc bh newsize of
                None \<Rightarrow> Some (False, lost)
              | Some b' \<Rightarrow> do {
                  old \<leftarrow> read_front b (pb_offset p + 1);
                  b'' \<leftarrow> write_at b' 0 old;
                  Some (True, p\<lparr>pb_buffer := Some b'', pb_length := newsize\<rparr>)
                }))"

definition ensure :: "buffer_hooks \<Rightarrow> nat \<Rightarrow> printbuffer \<Rightarrow> (bool \<times> printbuffer) option" where
  "ensure bh needed p =
     (case pb_buffer p of
        None \<Rightarrow> Some (False, p)
      | Some b \<Rightarrow>
          if 0 < pb_length p \<and> pb_length p \<le> pb_offset p then Some (False, p)
          else if int_max < needed then Some (False, p)
          else
            let needed = needed + pb_offset p + 1 in
            if needed \<le> pb_length p then Some (True, p)
            else if pb_noalloc p then Some (False, p)
            else if int_max div 2 < needed
            then (if needed \<le> int_max then grow_buffer bh b int_max p else Some (False, p))
            else grow_buffer bh b (needed * 2) p)"

text \<open>A write \<open>k\<close> bytes behind the output pointer.\<close>

definition poke :: "nat \<Rightarrow> string \<Rightarrow> printbuffer \<Rightarrow> printbuffer option" where
  "poke k cs p = do {
     b \<leftarrow> pb_buffer p;
     b' \<leftarrow> write_at b (pb_offset p + k) cs;
     Some (p\<lparr>pb_buffer := Some b'\<rparr>)
   }"

text \<open>\<open>update_offset\<close>: over the string that starts at the offset.\<close>

definition update_offset :: "printbuffer \<Rightarrow> printbuffer option" where
  "update_offset p =
     (case pb_buffer p of
        None \<Rightarrow> Some p
      | Some b \<Rightarrow>
          (let rest = drop (pb_offset p) b
           in if nul \<in> set rest then Some (p\<lparr>pb_offset := pb_offset p + length (c_str rest)\<rparr>)
              else None))"

definition andthen ::
    "(bool \<times> printbuffer) option \<Rightarrow> (printbuffer \<Rightarrow> (bool \<times> printbuffer) option) \<Rightarrow>
       (bool \<times> printbuffer) option" where
  "andthen m f = do { (ok, p) \<leftarrow> m; if ok then f p else Some (False, p) }"

text \<open>Room for \<open>n\<close> bytes, a write of \<open>cs\<close>, the offset moved on by \<open>k\<close>.\<close>

definition put ::
    "buffer_hooks \<Rightarrow> nat \<Rightarrow> string \<Rightarrow> nat \<Rightarrow> printbuffer \<Rightarrow> (bool \<times> printbuffer) option" where
  "put bh n cs k p = andthen (ensure bh n p)
     (\<lambda>p. do { p' \<leftarrow> poke 0 cs p; Some (True, p'\<lparr>pb_offset := pb_offset p' + k\<rparr>) })"

subsection \<open>The printers\<close>

definition escape_extra :: "char \<Rightarrow> nat" where
  "escape_extra c =
     (if c = CHR 0x22 \<or> c = CHR 0x5C \<or> c = CHR 0x08 \<or> c = CHR 0x0C \<or> c = CHR 0x0A \<or> c = CHR 0x0D \<or>
       c = CHR 0x09 then 1
      else if of_char c < (32::nat) then 5 else 0)"

text \<open>The closing quote goes where the count of the first pass says.\<close>

definition print_string_to :: "buffer_hooks \<Rightarrow> string \<Rightarrow> printbuffer \<Rightarrow> (bool \<times> printbuffer) option" where
  "print_string_to bh s p =
     (let output_length = length s + sum_list (map escape_extra s)
      in andthen (ensure bh (output_length + 3) p)
           (\<lambda>p. do {
              p1 \<leftarrow> poke 0 (CHR 0x22 # concat (map escape_char s)) p;
              p2 \<leftarrow> poke (output_length + 1) [CHR 0x22, nul] p1;
              Some (True, p2)
            }))"

definition number_text :: "(dbl \<Rightarrow> string) \<Rightarrow> int \<Rightarrow> dbl \<Rightarrow> string" where
  "number_text g i d = (case print_number i d of Some t \<Rightarrow> t | None \<Rightarrow> g d)"

definition print_number_to ::
    "buffer_hooks \<Rightarrow> (dbl \<Rightarrow> string) \<Rightarrow> int \<Rightarrow> dbl \<Rightarrow> printbuffer \<Rightarrow> (bool \<times> printbuffer) option" where
  "print_number_to bh g i d p =
     (let t = number_text g i d
      in if 25 < length t then Some (False, p) else put bh (length t + 1) (t @ [nul]) (length t) p)"

definition deeper :: "printbuffer \<Rightarrow> printbuffer" where
  "deeper p = p\<lparr>pb_depth := pb_depth p + 1\<rparr>"

definition higher :: "printbuffer \<Rightarrow> printbuffer" where
  "higher p = p\<lparr>pb_depth := pb_depth p - 1\<rparr>"

definition comma_text :: "bool \<Rightarrow> string" where
  "comma_text fmt = CHR '','' # when_fmt fmt '' ''"

definition open_text :: "bool \<Rightarrow> string" where
  "open_text fmt = CHR ''{'' # when_fmt fmt [CHR 0x0A]"

definition colon_text :: "bool \<Rightarrow> string" where
  "colon_text fmt = CHR '':'' # when_fmt fmt [CHR 0x09]"

definition member_end :: "bool \<Rightarrow> bool \<Rightarrow> string" where
  "member_end is_last fmt = (if is_last then [] else '','') @ when_fmt fmt [CHR 0x0A]"

definition close_text :: "bool \<Rightarrow> nat \<Rightarrow> string" where
  "close_text fmt depth = when_fmt fmt (tabs (depth - 1)) @ ''}''"

fun print_value_to ::
    "buffer_hooks \<Rightarrow> (dbl \<Rightarrow> string) \<Rightarrow> cJSON \<Rightarrow> printbuffer \<Rightarrow> (bool \<times> printbuffer) option"
  and print_elements_to ::
    "buffer_hooks \<Rightarrow> (dbl \<Rightarrow> string) \<Rightarrow> cJSON list \<Rightarrow> printbuffer \<Rightarrow> (bool \<times> printbuffer) option"
  and print_members_to ::
    "buffer_hooks \<Rightarrow> (dbl \<Rightarrow> string) \<Rightarrow> (string \<times> cJSON) list \<Rightarrow> printbuffer \<Rightarrow> (bool \<times> printbuffer) option"
where
  "print_value_to bh g cJSON_NULL p = put bh 5 (''null'' @ [nul]) 0 p"
| "print_value_to bh g cJSON_False p = put bh 6 (''false'' @ [nul]) 0 p"
| "print_value_to bh g cJSON_True p = put bh 5 (''true'' @ [nul]) 0 p"
| "print_value_to bh g (cJSON_Number i d) p = print_number_to bh g i d p"
| "print_value_to bh g (cJSON_String s) p = print_string_to bh s p"
| "print_value_to bh g (cJSON_Array vs) p =
     (if CJSON_NESTING_LIMIT \<le> pb_depth p then Some (False, p)
      else andthen (put bh 1 ''['' 1 p) (\<lambda>p.
        andthen (print_elements_to bh g vs (deeper p)) (\<lambda>p.
        andthen (put bh 2 [CHR '']'', nul] 0 p) (\<lambda>p. Some (True, higher p)))))"
| "print_value_to bh g (cJSON_Object ms) p =
     (if CJSON_NESTING_LIMIT \<le> pb_depth p then Some (False, p)
      else let fmt = pb_format p in
        andthen (put bh (length (open_text fmt) + 1) (open_text fmt) (length (open_text fmt)) p) (\<lambda>p.
        andthen (print_members_to bh g ms (deeper p)) (\<lambda>p.
        andthen (put bh (if fmt then pb_depth p + 1 else 2) (close_text fmt (pb_depth p) @ [nul]) 0 p)
          (\<lambda>p. Some (True, higher p)))))"
| "print_elements_to bh g [] p = Some (True, p)"
| "print_elements_to bh g (v # vs) p =
     andthen (print_value_to bh g v p) (\<lambda>p. do {
       p \<leftarrow> update_offset p;
       if vs = [] then Some (True, p)
       else andthen (put bh (length (comma_text (pb_format p)) + 1) (comma_text (pb_format p) @ [nul])
              (length (comma_text (pb_format p))) p)
            (print_elements_to bh g vs)
     })"
| "print_members_to bh g [] p = Some (True, p)"
| "print_members_to bh g ((k, v) # ms) p =
     (let fmt = pb_format p; sep = member_end (ms = []) fmt in
      andthen (if fmt then put bh (pb_depth p) (tabs (pb_depth p)) (pb_depth p) p else Some (True, p)) (\<lambda>p.
      andthen (print_string_to bh k p) (\<lambda>p. do {
        p \<leftarrow> update_offset p;
        andthen (put bh (length (colon_text fmt)) (colon_text fmt) (length (colon_text fmt)) p) (\<lambda>p.
        andthen (print_value_to bh g v p) (\<lambda>p. do {
          p \<leftarrow> update_offset p;
          andthen (put bh (length sep + 1) (sep @ [nul]) (length sep) p) (print_members_to bh g ms)
        }))
      })))"

subsection \<open>The entry points\<close>

text \<open>The result is the text behind the pointer the caller gets, \<open>None\<close> for NULL.\<close>

definition fresh_buffer :: "string \<Rightarrow> bool \<Rightarrow> bool \<Rightarrow> printbuffer" where
  "fresh_buffer b noalloc fmt = \<lparr>pb_buffer = Some b, pb_length = length b, pb_offset = 0, pb_depth = 0,
     pb_noalloc = noalloc, pb_format = fmt\<rparr>"

definition print_text ::
    "buffer_hooks \<Rightarrow> (dbl \<Rightarrow> string) \<Rightarrow> cJSON \<Rightarrow> bool \<Rightarrow> string option option" where
  "print_text bh g item fmt =
     (case malloc bh 256 of
        None \<Rightarrow> Some None
      | Some b \<Rightarrow> do {
          (ok, p) \<leftarrow> print_value_to bh g item (fresh_buffer b False fmt);
          if \<not> ok then Some None
          else do {
            p \<leftarrow> update_offset p;
            b \<leftarrow> pb_buffer p;
            (case reallocate bh of
               Some re \<Rightarrow> Some (map_option c_str (re b (pb_offset p + 1)))
             | None \<Rightarrow>
                 (case malloc bh (pb_offset p + 1) of
                    None \<Rightarrow> Some None
                  | Some m \<Rightarrow> do {
                      old \<leftarrow> read_front b (min (pb_length p) (pb_offset p + 1));
                      m1 \<leftarrow> write_at m 0 old;
                      m2 \<leftarrow> write_at m1 (pb_offset p) [nul];
                      Some (Some (c_str m2))
                    }))
          }
        })"

definition cJSON_PrintBuffered ::
    "buffer_hooks \<Rightarrow> (dbl \<Rightarrow> string) \<Rightarrow> cJSON \<Rightarrow> int \<Rightarrow> bool \<Rightarrow> string option option" where
  "cJSON_PrintBuffered bh g item prebuffer fmt =
     (if prebuffer < 0 then Some None
      else case malloc bh (nat prebuffer) of
        None \<Rightarrow> Some None
      | Some b \<Rightarrow> do {
          (ok, p) \<leftarrow> print_value_to bh g item (fresh_buffer b False fmt);
          if \<not> ok then Some None
          else do { b \<leftarrow> pb_buffer p; Some (Some (c_str b)) }
        })"

text \<open>\<open>buf\<close> is the caller's memory; \<open>len\<close> is how long the caller says it is.\<close>

definition cJSON_PrintPreallocated ::
    "buffer_hooks \<Rightarrow> (dbl \<Rightarrow> string) \<Rightarrow> cJSON \<Rightarrow> string option \<Rightarrow> int \<Rightarrow> bool \<Rightarrow>
       (bool \<times> string option) option" where
  "cJSON_PrintPreallocated bh g item buf len fmt =
     (if len < 0 then Some (False, buf)
      else case buf of
        None \<Rightarrow> Some (False, None)
      | Some b \<Rightarrow>
          map_option (\<lambda>(ok, p). (ok, pb_buffer p))
            (print_value_to bh g item ((fresh_buffer b True fmt)\<lparr>pb_length := nat len\<rparr>)))"

subsection \<open>The text so far\<close>

text \<open>
  What a buffer holds in front of its offset, and how long the text can get in it.
\<close>

definition front :: "printbuffer \<Rightarrow> string" where
  "front p = take (pb_offset p) (the (pb_buffer p))"

definition capacity :: "printbuffer \<Rightarrow> nat" where
  "capacity p = (if pb_noalloc p then pb_length p else int_max)"

definition pb_ok :: "buffer_hooks \<Rightarrow> printbuffer \<Rightarrow> bool" where
  "pb_ok bh p \<longleftrightarrow> (\<exists>b. pb_buffer p = Some b \<and> length b = pb_length p) \<and> pb_length p \<le> int_max \<and>
     (pb_offset p < pb_length p \<or> pb_offset p = 0 \<and> pb_length p = 0 \<and> (reallocate bh \<noteq> None \<or> pb_noalloc p))"

text \<open>Everything but the contents, the size and the offset.\<close>

definition same_setup :: "printbuffer \<Rightarrow> printbuffer \<Rightarrow> bool" where
  "same_setup p p' \<longleftrightarrow> pb_depth p' = pb_depth p \<and> pb_noalloc p' = pb_noalloc p \<and>
     pb_format p' = pb_format p \<and> capacity p' = capacity p"

lemma same_setup_refl [simp]: "same_setup p p"
  by (simp add: same_setup_def)

lemma same_setup_trans: "same_setup p q \<Longrightarrow> same_setup q r \<Longrightarrow> same_setup p r"
  by (simp add: same_setup_def)

definition generous :: "buffer_hooks \<Rightarrow> bool" where
  "generous bh \<longleftrightarrow> (case reallocate bh of Some re \<Rightarrow> \<forall>b n. re b n \<noteq> None | None \<Rightarrow> \<forall>n. malloc bh n \<noteq> None)"

lemma generous_cases:
  "generous bh \<Longrightarrow> reallocate bh = None \<Longrightarrow> malloc bh n \<noteq> None"
  "generous bh \<Longrightarrow> reallocate bh = Some re \<Longrightarrow> re b n \<noteq> None"
  by (simp_all add: generous_def)

definition willing :: "buffer_hooks \<Rightarrow> printbuffer \<Rightarrow> bool" where
  "willing bh p \<longleftrightarrow> generous bh \<or> pb_noalloc p"

lemma length_front: "pb_ok bh p \<Longrightarrow> length (front p) = pb_offset p"
  by (auto simp: pb_ok_def front_def)

text \<open>\<open>ensure\<close> keeps the text; with generous hooks it fails only beyond the capacity.\<close>

lemma ensure_result:
  assumes law: "buffer_hooks_law bh" and p: "pb_ok bh p"
  obtains p' where "ensure bh n p = Some (True, p')" "pb_ok bh p'" "same_setup p p'"
      "front p' = front p" "pb_offset p' = pb_offset p" "pb_offset p + n + 1 \<le> pb_length p'"
  | p' where "ensure bh n p = Some (False, p')" "willing bh p \<Longrightarrow> capacity p < pb_offset p + n + 1"
proof -
  note result = that
  obtain b where b: "pb_buffer p = Some b" "length b = pb_length p" "pb_length p \<le> int_max"
      and off: "pb_offset p < pb_length p \<or> pb_offset p = 0 \<and> pb_length p = 0 \<and> (reallocate bh \<noteq> None \<or> pb_noalloc p)"
    using p by (auto simp: pb_ok_def)
  define need where "need = n + pb_offset p + 1"
  define size where "size = (if int_max div 2 < need then int_max else need * 2)"
  consider "int_max < n" | "n \<le> int_max" "need \<le> pb_length p"
    | "n \<le> int_max" "pb_length p < need" "pb_noalloc p"
    | "int_max < need" "n \<le> int_max" "\<not> pb_noalloc p"
    | "pb_length p < need" "need \<le> int_max" "\<not> pb_noalloc p" "n \<le> int_max"
    using b(3) by linarith
  then show ?thesis
  proof cases
    case 1
    then have "ensure bh n p = Some (False, p)" using b off by (auto simp: ensure_def)
    with 1 b show ?thesis by (intro result(2)) (auto simp: capacity_def)
  next
    case 2
    then have "ensure bh n p = Some (True, p)" using b off by (auto simp: ensure_def Let_def need_def)
    with 2 p show ?thesis by (intro result(1)) (auto simp: need_def)
  next
    case 3
    then have "ensure bh n p = Some (False, p)" using b off by (auto simp: ensure_def Let_def need_def)
    with 3 show ?thesis by (intro result(2)) (auto simp: need_def capacity_def)
  next
    case 4
    then have "ensure bh n p = Some (False, p)" using b off by (auto simp: ensure_def Let_def need_def)
    with 4 show ?thesis by (intro result(2)) (auto simp: need_def capacity_def)
  next
    case 5
    have size: "need \<le> size" "size \<le> int_max" using 5(2) by (auto simp: size_def)
    let ?lost = "p\<lparr>pb_buffer := None, pb_length := 0\<rparr>"
    have grown: ?thesis if e: "ensure bh n p = Some (True, p\<lparr>pb_buffer := Some b', pb_length := size\<rparr>)"
        and b': "length b' = size" "take (pb_offset p) b' = take (pb_offset p) b" for b'
      by (rule result(1) [OF e])
        (use 5 b b' size in \<open>auto simp: pb_ok_def same_setup_def capacity_def front_def need_def\<close>)
    have eq: "ensure bh n p = grow_buffer bh b size p"
      using 5 b off unfolding need_def size_def by (auto simp: ensure_def Let_def)
    show ?thesis
    proof (cases "reallocate bh")
      case None
      show ?thesis
      proof (cases "malloc bh size")
        case None2: None
        show ?thesis
          by (rule result(2) [of ?lost]) (use 5(3) None None2 generous_cases(1) [of bh size] in \<open>auto simp: eq grow_buffer_def willing_def\<close>)
      next
        case (Some nb)
        have nb: "length nb = size" using law Some by (auto simp: buffer_hooks_law_def)
        let ?b = "take (pb_offset p + 1) b @ drop (pb_offset p + 1) nb"
        have off': "pb_offset p < pb_length p" using off None 5(3) by simp
        then have w: "write_at nb 0 (take (pb_offset p + 1) b) = Some ?b"
          using b nb 5 size by (simp add: write_at_def)
        show ?thesis
        proof (rule grown)
          show "ensure bh n p = Some (True, p\<lparr>pb_buffer := Some ?b, pb_length := size\<rparr>)"
            using None Some b off' w by (simp add: eq grow_buffer_def read_front_def)
        qed (use off' b nb 5 size in auto)
      qed
    next
      case re: (Some re)
      show ?thesis
      proof (cases "re b size")
        case None
        show ?thesis
          by (rule result(2) [of ?lost]) (use 5(3) re None generous_cases(2) [of bh re b size] in \<open>auto simp: eq grow_buffer_def willing_def\<close>)
      next
        case (Some nb)
        then have nb: "length nb = size" "take (min (length b) size) nb = take (min (length b) size) b"
          using law re by (auto simp: buffer_hooks_law_def)
        show ?thesis
        proof (rule grown)
          show "ensure bh n p = Some (True, p\<lparr>pb_buffer := Some nb, pb_length := size\<rparr>)"
            using re Some by (simp add: eq grow_buffer_def)
          have "pb_offset p \<le> min (length b) size" using off b 5 size by auto
          then show "take (pb_offset p) nb = take (pb_offset p) b" using nb(2) by (metis min.absorb1 take_take)
        qed (rule nb(1))
      qed
    qed
  qed
qed

lemma andthen_simps [simp]:
  "andthen (Some (True, p)) f = f p" "andthen (Some (False, p)) f = Some (False, p)"
  by (simp_all add: andthen_def)

lemma capacity_length: "pb_ok bh p \<Longrightarrow> pb_length p \<le> capacity p"
  by (simp add: pb_ok_def capacity_def)

text \<open>The text \<open>t\<close> has been added, the offset behind it.\<close>

definition appended :: "buffer_hooks \<Rightarrow> printbuffer \<Rightarrow> printbuffer \<Rightarrow> string \<Rightarrow> bool" where
  "appended bh p p' t \<longleftrightarrow> pb_ok bh p' \<and> same_setup p p' \<and> front p' = front p @ t"

text \<open>The text \<open>t\<close> has been written and terminated, the offset not yet moved over all of it.\<close>

definition pending :: "buffer_hooks \<Rightarrow> printbuffer \<Rightarrow> printbuffer \<Rightarrow> string \<Rightarrow> bool" where
  "pending bh p p' t \<longleftrightarrow> pb_ok bh p' \<and> same_setup p p' \<and>
     (\<exists>t1 t2 rest. t = t1 @ t2 \<and> front p' = front p @ t1 \<and>
        drop (pb_offset p') (the (pb_buffer p')) = t2 @ nul # rest)"

lemma appended_trans: "appended bh p q t \<Longrightarrow> appended bh q r u \<Longrightarrow> appended bh p r (t @ u)"
  by (auto simp: appended_def intro: same_setup_trans)

lemma pending_after: "appended bh p q t \<Longrightarrow> pending bh q r u \<Longrightarrow> pending bh p r (t @ u)"
  unfolding appended_def pending_def by (metis append.assoc same_setup_trans)

lemma update_offset_pending:
  assumes "pending bh p p' t" and "c_ok t"
  shows "\<exists>q. update_offset p' = Some q \<and> appended bh p q t"
proof -
  obtain t1 t2 rest where t: "t = t1 @ t2" "front p' = front p @ t1"
      "drop (pb_offset p') (the (pb_buffer p')) = t2 @ nul # rest"
      and ok: "pb_ok bh p'" "same_setup p p'"
    using assms(1) by (auto simp: pending_def)
  obtain b where b: "pb_buffer p' = Some b" "length b = pb_length p'" using ok(1) by (auto simp: pb_ok_def)
  let ?q = "p'\<lparr>pb_offset := pb_offset p' + length t2\<rparr>"
  have len: "pb_offset p' + (length t2 + Suc (length rest)) = pb_length p'"
    using arg_cong [OF t(3), of length] b ok(1) by (auto simp: pb_ok_def)
  have "update_offset p' = Some ?q"
    using b t assms(2) by (simp add: update_offset_def c_str_before_nul)
  moreover have "front ?q = front p @ t"
    using t b by (simp add: front_def take_add)
  moreover have "pb_ok bh ?q" using ok(1) b len by (auto simp: pb_ok_def)
  ultimately show ?thesis
    using ok(2) by (auto simp: appended_def same_setup_def capacity_def)
qed

lemma poke_result:
  assumes "pb_ok bh p" and "pb_offset p + i + length cs \<le> pb_length p"
  shows "poke i cs p = Some (p\<lparr>pb_buffer := Some (take (pb_offset p + i) (the (pb_buffer p)) @ cs @
    drop (pb_offset p + i + length cs) (the (pb_buffer p)))\<rparr>)"
  using assms by (auto simp: poke_def write_at_def pb_ok_def)

lemma put_result:
  assumes law: "buffer_hooks_law bh" and p: "pb_ok bh p" and n: "length cs \<le> n + 1" "k \<le> length cs" "k \<le> n"
  obtains p' rest where "put bh n cs k p = Some (True, p')" "pb_ok bh p'" "same_setup p p'"
      "front p' = front p @ take k cs" "drop (pb_offset p') (the (pb_buffer p')) = drop k cs @ rest"
      "length (front p) + n + 1 \<le> capacity p"
  | p' where "put bh n cs k p = Some (False, p')" "willing bh p \<Longrightarrow> capacity p < length (front p) + n + 1"
proof (rule ensure_result [OF law p, of n])
  note result = that
  fix q assume q: "ensure bh n p = Some (True, q)" "pb_ok bh q" "same_setup p q" "front q = front p"
      "pb_offset q = pb_offset p" "pb_offset p + n + 1 \<le> pb_length q"
  obtain b where b: "pb_buffer q = Some b" "length b = pb_length q" using q(2) by (auto simp: pb_ok_def)
  let ?b = "take (pb_offset q) b @ cs @ drop (pb_offset q + length cs) b"
  let ?p = "q\<lparr>pb_buffer := Some ?b, pb_offset := pb_offset q + k\<rparr>"
  have put: "put bh n cs k p = Some (True, ?p)"
    using q b n(1) poke_result [OF q(2), of 0 cs] by (simp add: put_def)
  have len: "length ?b = pb_length q" using b q(5,6) n(1) by simp
  show thesis
  proof (rule result(1) [OF put])
    show "pb_ok bh ?p" using q(2,5,6) len n(3) by (auto simp: pb_ok_def)
    show "same_setup p ?p" using q(3) by (auto simp: same_setup_def capacity_def split: if_splits)
    have "front p = take (pb_offset q) b" using q(4) b by (simp add: front_def)
    then show "front ?p = front p @ take k cs" using n(2) b q(5,6) by (simp add: front_def)
    show "drop (pb_offset ?p) (the (pb_buffer ?p)) = drop k cs @ drop (pb_offset q + length cs) b"
      using n(2) b q(5,6) by simp
    show "length (front p) + n + 1 \<le> capacity p"
      using q capacity_length [OF q(2)] length_front [OF p] by (simp add: same_setup_def)
  qed
next
  fix q assume "ensure bh n p = Some (False, q)" "willing bh p \<Longrightarrow> capacity p < pb_offset p + n + 1"
  then show thesis by (intro that(2) [of q]) (auto simp: put_def length_front [OF p])
qed

lemma put_appended:
  assumes "buffer_hooks_law bh" "pb_ok bh p" "length cs \<le> n" 
  obtains p' where "put bh n cs (length cs) p = Some (True, p')" "appended bh p p' cs"
  | p' where "put bh n cs (length cs) p = Some (False, p')" "willing bh p \<Longrightarrow> capacity p < length (front p) + n + 1"
proof (rule put_result [OF assms(1,2), of cs n "length cs"])
  show "length cs \<le> n + 1" using assms(3) by simp
  show "length cs \<le> n" by (rule assms(3))
qed (use that in \<open>auto simp: appended_def\<close>)

lemma put_appended_nul:
  assumes "buffer_hooks_law bh" "pb_ok bh p" 
  obtains p' where "put bh (length cs + 1) (cs @ [nul]) (length cs) p = Some (True, p')" "appended bh p p' cs"
  | p' where "put bh (length cs + 1) (cs @ [nul]) (length cs) p = Some (False, p')"
    "willing bh p \<Longrightarrow> capacity p < length (front p) + length cs + 2"
  by (rule put_result [OF assms(1,2), of "cs @ [nul]" "length cs + 1" "length cs"])
    (use that in \<open>auto simp: appended_def\<close>)

lemma put_pending:
  assumes "buffer_hooks_law bh" "pb_ok bh p" "n = length t + 1" "k = 0 \<or> k = length t"
  obtains p' where "put bh n (t @ [nul]) k p = Some (True, p')" "pending bh p p' t"
      "length (front p) + length t + 2 \<le> capacity p"
  | p' where "put bh n (t @ [nul]) k p = Some (False, p')"
      "willing bh p \<Longrightarrow> capacity p < length (front p) + length t + 2"
proof (rule put_result [OF assms(1,2), of "t @ [nul]" n k])
  show "length (t @ [nul]) \<le> n + 1" "k \<le> length (t @ [nul])" "k \<le> n" using assms(3,4) by auto
  fix p' rest
  assume *: "put bh n (t @ [nul]) k p = Some (True, p')" "pb_ok bh p'" "same_setup p p'"
    "front p' = front p @ take k (t @ [nul])" "drop (pb_offset p') (the (pb_buffer p')) = drop k (t @ [nul]) @ rest"
    "length (front p) + n + 1 \<le> capacity p"
  have "pending bh p p' t" unfolding pending_def
    using * assms(4) by (intro conjI exI [of _ "take k t"] exI [of _ "drop k t"] exI [of _ rest]) auto
  with * assms(3) show thesis by (intro that(1)) simp_all
qed (use assms(3) that(2) in auto)

subsection \<open>Strings and values\<close>

lemma escape_length: "length (concat (map escape_char s)) = length s + sum_list (map escape_extra s)"
proof (induction s)
  case (Cons c s)
  have "length (escape_char c) = 1 + escape_extra c"
    by (auto simp: escape_char_def escape_extra_def)
  with Cons show ?case by simp
qed simp

lemma print_string_to_result:
  assumes law: "buffer_hooks_law bh" and p: "pb_ok bh p"
  obtains p' where "print_string_to bh s p = Some (True, p')" "pending bh p p' (print_string_ptr s)"
      "length (front p) + length (print_string_ptr s) + 2 \<le> capacity p"
  | p' where "print_string_to bh s p = Some (False, p')"
      "willing bh p \<Longrightarrow> capacity p < length (front p) + length (print_string_ptr s) + 2"
proof -
  note result = that
  define e where "e = concat (map escape_char s)"
  define len where "len = length s + sum_list (map escape_extra s)"
  have e: "length e = len" by (simp add: e_def len_def escape_length)
  have t: "print_string_ptr s = CHR 0x22 # e @ [CHR 0x22]" by (simp add: print_string_ptr_def e_def)
  show ?thesis
  proof (rule ensure_result [OF law p, of "len + 3"])
    fix q assume q: "ensure bh (len + 3) p = Some (True, q)" "pb_ok bh q" "same_setup p q" "front q = front p"
        "pb_offset q = pb_offset p" "pb_offset p + (len + 3) + 1 \<le> pb_length q"
    obtain b where b: "pb_buffer q = Some b" "length b = pb_length q" using q(2) by (auto simp: pb_ok_def)
    let ?b1 = "take (pb_offset q) b @ (CHR 0x22 # e) @ drop (pb_offset q + length (CHR 0x22 # e)) b"
    let ?q1 = "q\<lparr>pb_buffer := Some ?b1\<rparr>"
    have p1: "poke 0 (CHR 0x22 # e) q = Some ?q1"
      using poke_result [OF q(2), of 0 "CHR 0x22 # e"] b q(5,6) e by simp
    have l1: "length ?b1 = pb_length q" using b q(5,6) e by simp
    have ok1: "pb_ok bh ?q1" using q(2) l1 by (auto simp: pb_ok_def)
    define b2 where
      "b2 = take (pb_offset q + (len + 1)) ?b1 @ [CHR 0x22, nul] @ drop (pb_offset q + (len + 1) + 2) ?b1"
    let ?q2 = "q\<lparr>pb_buffer := Some b2\<rparr>"
    have p2: "poke (len + 1) [CHR 0x22, nul] ?q1 = Some ?q2"
      using poke_result [OF ok1, of "len + 1" "[CHR 0x22, nul]"] q(5,6) by (simp add: b2_def)
    have run: "print_string_to bh s p = Some (True, ?q2)"
      using q(1) p1 p2 by (simp add: print_string_to_def Let_def len_def [symmetric] e_def [symmetric])
    obtain r where b2: "b2 = take (pb_offset q) b @ print_string_ptr s @ nul # r"
      using b q(5,6) e by (simp add: b2_def t)
    have off: "length (take (pb_offset q) b) = pb_offset q" using b q(5,6) by simp
    have l2: "length b2 = pb_length q" using l1 b q(5,6) by (simp add: b2_def)
    show thesis
    proof (rule result(1) [OF run])
      have "pb_ok bh ?q2" using q(2) l2 by (auto simp: pb_ok_def)
      moreover have "same_setup p ?q2" using q(3) by (auto simp: same_setup_def capacity_def split: if_splits)
      moreover have "front ?q2 = front p @ []"
      proof -
        have "front ?q2 = take (pb_offset q) b" using off by (simp add: front_def b2)
        also have "\<dots> = front q" using b(1) by (simp add: front_def)
        finally show ?thesis using q(4) by simp
      qed
      moreover have "drop (pb_offset ?q2) (the (pb_buffer ?q2)) = print_string_ptr s @ nul # r"
        using off by (simp add: b2)
      ultimately show "pending bh p ?q2 (print_string_ptr s)"
        unfolding pending_def by (metis append_Nil)
      show "length (front p) + length (print_string_ptr s) + 2 \<le> capacity p"
        using q capacity_length [OF q(2)] length_front [OF p] e by (simp add: same_setup_def t)
    qed
  next
    fix q assume "ensure bh (len + 3) p = Some (False, q)" "willing bh p \<Longrightarrow> capacity p < pb_offset p + (len + 3) + 1"
    then show thesis
      by (intro result(2) [of q])
        (auto simp: print_string_to_def Let_def len_def [symmetric] length_front [OF p] t e)
  qed
qed

text \<open>
  What a printer of a value, of elements or of members gives, where \<open>vt\<close> is the text it should print:
  never a fault; a text, the right one; and with generous hooks it fails only for want of room.
\<close>

definition value_result ::
    "buffer_hooks \<Rightarrow> printbuffer \<Rightarrow> (bool \<times> printbuffer) option \<Rightarrow> string option \<Rightarrow> bool" where
  "value_result bh p r vt \<longleftrightarrow> (\<exists>ok p'. r = Some (ok, p') \<and>
     (ok \<longrightarrow> (\<exists>t. c_ok t \<and> pending bh p p' t \<and>
        (\<forall>t'. vt = Some t' \<longrightarrow> t = t' \<and> length (front p) + length t' + 2 \<le> capacity p))) \<and>
     (\<not> ok \<longrightarrow> willing bh p \<longrightarrow> (\<forall>t'. vt = Some t' \<longrightarrow> capacity p < length (front p) + length t' + 2)))"

definition list_result ::
    "buffer_hooks \<Rightarrow> printbuffer \<Rightarrow> (bool \<times> printbuffer) option \<Rightarrow> string option \<Rightarrow> bool" where
  "list_result bh p r vt \<longleftrightarrow> (\<exists>ok p'. r = Some (ok, p') \<and>
     (ok \<longrightarrow> (\<exists>t. c_ok t \<and> appended bh p p' t \<and> (\<forall>t'. vt = Some t' \<longrightarrow> t = t'))) \<and>
     (\<not> ok \<longrightarrow> willing bh p \<longrightarrow> (\<forall>t'. vt = Some t' \<longrightarrow> capacity p < length (front p) + length t' + 2)))"

text \<open>All strings and names are C strings.\<close>

fun strings_ok :: "cJSON \<Rightarrow> bool" where
  "strings_ok (cJSON_String s) = c_ok s"
| "strings_ok (cJSON_Array vs) = (\<forall>v\<in>set vs. strings_ok v)"
| "strings_ok (cJSON_Object ms) = (\<forall>m\<in>set ms. c_ok (fst m) \<and> strings_ok (snd m))"
| "strings_ok _ = True"

lemma value_result_put:
  assumes "buffer_hooks_law bh" "pb_ok bh p" "n = length t + 1" "k = 0 \<or> k = length t" "c_ok t"
    and "\<And>t'. vt = Some t' \<Longrightarrow> t' = t"
  shows "value_result bh p (put bh n (t @ [nul]) k p) vt"
  by (rule put_pending [OF assms(1-4)]) (use assms(5,6) in \<open>auto simp: value_result_def\<close>)

lemma value_resultE:
  assumes "value_result bh p r vt"
  obtains p' t where "r = Some (True, p')" "c_ok t" "pending bh p p' t"
      "\<And>t'. vt = Some t' \<Longrightarrow> t = t' \<and> length (front p) + length t' + 2 \<le> capacity p"
  | p' where "r = Some (False, p')"
      "\<And>t'. willing bh p \<Longrightarrow> vt = Some t' \<Longrightarrow> capacity p < length (front p) + length t' + 2"
  using assms unfolding value_result_def by (metis (full_types))

lemma value_result_no:
  "r = Some (False, p') \<Longrightarrow>
     (\<And>t'. willing bh p \<Longrightarrow> vt = Some t' \<Longrightarrow> capacity p < length (front p) + length t' + 2) \<Longrightarrow>
     value_result bh p r vt"
  by (auto simp: value_result_def)

lemma value_result_yes:
  "r = Some (True, p') \<Longrightarrow> c_ok t \<Longrightarrow> pending bh p p' t \<Longrightarrow>
     (\<And>t'. vt = Some t' \<Longrightarrow> t = t' \<and> length (front p) + length t' + 2 \<le> capacity p) \<Longrightarrow>
     value_result bh p r vt"
  by (auto simp: value_result_def)

lemma list_resultE:
  assumes "list_result bh p r vt"
  obtains p' t where "r = Some (True, p')" "c_ok t" "appended bh p p' t" "\<And>t'. vt = Some t' \<Longrightarrow> t = t'"
  | p' where "r = Some (False, p')"
      "\<And>t'. willing bh p \<Longrightarrow> vt = Some t' \<Longrightarrow> capacity p < length (front p) + length t' + 2"
  using assms unfolding list_result_def by (metis (full_types))

lemma list_result_no:
  "r = Some (False, p') \<Longrightarrow>
     (\<And>t'. willing bh p \<Longrightarrow> vt = Some t' \<Longrightarrow> capacity p < length (front p) + length t' + 2) \<Longrightarrow>
     list_result bh p r vt"
  by (auto simp: list_result_def)

lemma list_result_yes:
  "r = Some (True, p') \<Longrightarrow> c_ok t \<Longrightarrow> appended bh p p' t \<Longrightarrow> (\<And>t'. vt = Some t' \<Longrightarrow> t = t') \<Longrightarrow>
     list_result bh p r vt"
  by (auto simp: list_result_def)

lemma appendedD:
  assumes "appended bh p q t"
  shows "pb_ok bh q" "capacity q = capacity p" "pb_format q = pb_format p" "pb_depth q = pb_depth p"
    "front q = front p @ t" "willing bh q = willing bh p"
  using assms by (auto simp: appended_def same_setup_def willing_def)

text \<open>Behind a text that has been added, the rest of the list.\<close>

lemma list_result_after:
  assumes q: "appended bh p q t" "c_ok t" and r: "list_result bh q r vt"
    and "\<And>t'. vt' = Some t' \<Longrightarrow> \<exists>u. vt = Some u \<and> t' = t @ u"
  shows "list_result bh p r vt'"
  using r
proof (cases rule: list_resultE)
  case (1 p' u)
  show ?thesis
    by (rule list_result_yes [OF 1(1) _ appended_trans [OF q(1) 1(3)]]) (use q 1(2,4) assms(4) in auto)
next
  case (2 p')
  show ?thesis
    by (rule list_result_no [OF 2(1)]) (use 2(2) assms(4) appendedD [OF q(1)] in fastforce)
qed

text \<open>One step of a list printer and what follows it.\<close>

lemma list_result_done: "pb_ok bh p \<Longrightarrow> list_result bh p (Some (True, p)) (Some [])"
  by (rule list_result_yes [of _ p "[]"]) (auto simp: appended_def)

lemma list_result_fail:
  assumes "r = Some (False, p')" and "willing bh p \<Longrightarrow> capacity p < length (front p) + n"
    and "\<And>t'. vt = Some t' \<Longrightarrow> n \<le> length t' + 2"
  shows "list_result bh p r vt"
  by (rule list_result_no [OF assms(1)]) (use assms(2,3) in fastforce)

lemma andthen_put:
  assumes "buffer_hooks_law bh" "pb_ok bh p" "c_ok cs" "cs' = cs \<and> n = length cs \<or> cs' = cs @ [nul] \<and> n = length cs + 1"
    and f: "\<And>q. appended bh p q cs \<Longrightarrow> list_result bh q (f q) vt"
    and parts: "\<And>t'. vt' = Some t' \<Longrightarrow> \<exists>u. vt = Some u \<and> t' = cs @ u"
  shows "list_result bh p (andthen (put bh n cs' (length cs) p) f) vt'"
proof (rule put_result [OF assms(1,2), of cs' n "length cs"])
  fix q assume q: "put bh n cs' (length cs) p = Some (True, q)" "pb_ok bh q" "same_setup p q"
    "front q = front p @ take (length cs) cs'"
  have "appended bh p q cs" using q assms(4) by (auto simp: appended_def)
  from list_result_after [OF this assms(3) f [OF this] parts] q(1)
  show ?thesis by simp
next
  fix q assume q: "put bh n cs' (length cs) p = Some (False, q)"
    "willing bh p \<Longrightarrow> capacity p < length (front p) + n + 1"
  show ?thesis
    by (rule list_result_fail [of _ q _ _ "n + 1"]) (use q assms(4) parts in fastforce)+
qed (use assms(4) in auto)

lemma andthen_value:
  assumes v: "value_result bh p r vtv"
    and f: "\<And>q t. appended bh p q t \<Longrightarrow> list_result bh q (f q) vt"
    and parts: "\<And>t'. vt' = Some t' \<Longrightarrow> \<exists>tv u. vtv = Some tv \<and> vt = Some u \<and> t' = tv @ u"
  shows "list_result bh p (andthen r (\<lambda>p'. do { q \<leftarrow> update_offset p'; f q })) vt'"
  using v
proof (cases rule: value_resultE)
  case (1 p' t)
  obtain q where q: "update_offset p' = Some q" "appended bh p q t"
    using update_offset_pending [OF 1(3,2)] by blast
  have "\<exists>u. vt = Some u \<and> t' = t @ u" if "vt' = Some t'" for t'
    using parts [OF that] 1(4) by auto
  from list_result_after [OF q(2) 1(2) f [OF q(2)] this] 1(1) q(1) show ?thesis by simp
next
  case (2 p')
  show ?thesis
  proof (rule list_result_no)
    show "andthen r (\<lambda>p'. do { q \<leftarrow> update_offset p'; f q }) = Some (False, p')" using 2(1) by simp
  qed (use parts 2(2) in fastforce)
qed

lemma layout_ok:
  "c_ok (comma_text fmt)" "c_ok (colon_text fmt)" "c_ok (open_text fmt)" "c_ok (member_end e fmt)"
  "c_ok (close_text fmt d)" "c_ok (tabs d)"
  by (auto simp: comma_text_def colon_text_def open_text_def member_end_def close_text_def when_fmt_def
      tabs_def c_ok_def)

lemma elements_result:
  assumes law: "buffer_hooks_law bh"
    and "\<And>v p. v \<in> set vs \<Longrightarrow> pb_ok bh p \<Longrightarrow>
      value_result bh p (print_value_to bh g v p) (print_value (pb_format p) (pb_depth p) v)"
  shows "pb_ok bh p \<Longrightarrow>
    list_result bh p (print_elements_to bh g vs p) (print_array (pb_format p) (pb_depth p) vs)"
  using assms(2)
proof (induction vs arbitrary: p)
  case Nil
  then show ?case using list_result_done by simp
next
  case (Cons v vs)
  let ?fmt = "pb_format p" and ?d = "pb_depth p"
  have v: "value_result bh p (print_value_to bh g v p) (print_value ?fmt ?d v)"
    using Cons.prems by simp
  show ?case unfolding print_elements_to.simps(2)
  proof (rule andthen_value [OF v])
    fix q t assume "appended bh p q t"
    note qD = appendedD [OF this]
    let ?vt = "map_option (\<lambda>u. (if vs = [] then [] else comma_text ?fmt) @ u) (print_array ?fmt ?d vs)"
    show "list_result bh q (if vs = [] then Some (True, q)
        else andthen (put bh (length (comma_text (pb_format q)) + 1) (comma_text (pb_format q) @ [nul])
               (length (comma_text (pb_format q))) q) (print_elements_to bh g vs)) ?vt"
    proof (cases "vs = []")
      case True
      then show ?thesis using list_result_done [OF qD(1)] by simp
    next
      case False
      have "list_result bh r (print_elements_to bh g vs r) (print_array ?fmt ?d vs)"
        if "appended bh q r (comma_text (pb_format q))" for r
        using Cons.IH [of r] Cons.prems(2) appendedD [OF that] qD(3,4) by simp
      then show ?thesis using False qD(3)
        by (simp del: print_elements_to.simps, intro andthen_put [OF law qD(1) layout_ok(1)]) auto
    qed
  qed (auto simp: comma_text_def split: option.splits)
qed

lemma value_result_string:
  assumes "buffer_hooks_law bh" "pb_ok bh p" "c_ok s"
  shows "value_result bh p (print_string_to bh s p) (Some (print_string_ptr s))"
  by (rule print_string_to_result [OF assms(1,2), of s])
    (use print_string_ptr_c_ok [OF assms(3)] in \<open>auto simp: value_result_def\<close>)

lemma members_result:
  assumes law: "buffer_hooks_law bh"
    and "\<And>k v p. (k, v) \<in> set ms \<Longrightarrow> pb_ok bh p \<Longrightarrow> c_ok k \<and>
      value_result bh p (print_value_to bh g v p) (print_value (pb_format p) (pb_depth p) v)"
  shows "pb_ok bh p \<Longrightarrow>
    list_result bh p (print_members_to bh g ms p) (print_object (pb_format p) (pb_depth p) ms)"
  using assms(2)
proof (induction ms arbitrary: p)
  case Nil
  then show ?case using list_result_done by simp
next
  case (Cons m ms)
  obtain k v where m: "m = (k, v)" by (cases m)
  let ?fmt = "pb_format p" and ?d = "pb_depth p"
  define sep where "sep = member_end (ms = []) ?fmt"
  define last_part where "last_part = map_option (append sep) (print_object ?fmt ?d ms)"
  define value_part where "value_part = (case print_value ?fmt ?d v of None \<Rightarrow> None
     | Some tv \<Rightarrow> map_option (append tv) last_part)"
  define colon_part where "colon_part = map_option (append (colon_text ?fmt)) value_part"
  define key_part where "key_part = map_option (append (print_string_ptr k)) colon_part"
  have k: "c_ok k" using Cons.prems m by auto
  let ?last = "\<lambda>q. andthen (put bh (length sep + 1) (sep @ [nul]) (length sep) q) (print_members_to bh g ms)"
  let ?val = "\<lambda>q. andthen (print_value_to bh g v q) (\<lambda>p. do { p \<leftarrow> update_offset p; ?last p })"
  let ?colon = "\<lambda>q. andthen (put bh (length (colon_text ?fmt)) (colon_text ?fmt) (length (colon_text ?fmt)) q) ?val"
  let ?key = "\<lambda>q. andthen (print_string_to bh k q) (\<lambda>p. do { p \<leftarrow> update_offset p; ?colon p })"
  have last_step: "list_result bh q (?last q) last_part" if q: "appended bh p q t" for q t
  proof (rule andthen_put [OF law])
    fix r assume "appended bh q r sep"
    note rD = appendedD [OF appended_trans [OF q this]]
    have "list_result bh r (print_members_to bh g ms r) (print_object (pb_format r) (pb_depth r) ms)"
      by (rule Cons.IH [OF rD(1)]) (use Cons.prems(2) in auto)
    then show "list_result bh r (print_members_to bh g ms r) (print_object ?fmt ?d ms)"
      using rD(3,4) by simp
  qed (use appendedD(1) [OF q] layout_ok in \<open>auto simp: sep_def last_part_def\<close>)
  have value_step: "list_result bh q (?val q) value_part" if q: "appended bh p q t" for q t
  proof (rule andthen_value)
    show "value_result bh q (print_value_to bh g v q) (print_value ?fmt ?d v)"
      using Cons.prems(2) [of k v q] m appendedD [OF q] by simp
    show "list_result bh r (?last r) last_part" if "appended bh q r u" for r u
      by (rule last_step [OF appended_trans [OF q that]])
  qed (auto simp: value_part_def split: option.splits)
  have colon_step: "list_result bh q (?colon q) colon_part" if q: "appended bh p q t" for q t
    by (rule andthen_put [OF law appendedD(1) [OF q] layout_ok(2)])
      (use value_step [OF appended_trans [OF q]] in \<open>auto simp: colon_part_def\<close>)
  have key_step: "list_result bh q (?key q) key_part" if q: "appended bh p q t" for q t
    by (rule andthen_value [OF value_result_string [OF law appendedD(1) [OF q] k]])
      (use colon_step [OF appended_trans [OF q]] in \<open>auto simp: key_part_def\<close>)
  have all: "print_object ?fmt ?d (m # ms) = map_option (append (when_fmt ?fmt (tabs ?d))) key_part"
    unfolding m key_part_def colon_part_def value_part_def last_part_def sep_def
    by (auto simp: colon_text_def member_end_def option.map_comp comp_def split: option.split)
  have run: "print_members_to bh g (m # ms) p =
      andthen (if ?fmt then put bh ?d (tabs ?d) ?d p else Some (True, p)) ?key"
    by (simp add: m sep_def Let_def)
  show ?case
  proof (cases ?fmt)
    case True
    have len: "length (tabs ?d) = ?d" by (simp add: tabs_def)
    have all': "print_object ?fmt ?d (m # ms) = map_option (append (tabs ?d)) key_part"
      using all True by (simp only: when_fmt_simps)
    have "list_result bh p (andthen (put bh ?d (tabs ?d) (length (tabs ?d)) p) ?key)
        (print_object ?fmt ?d (m # ms))"
      unfolding all'
      by (rule andthen_put [OF law Cons.prems(1) layout_ok(6), where vt = key_part])
        (use key_step in \<open>auto simp: len\<close>)
    then show ?thesis using True by (simp only: run if_True len)
  next
    case False
    have "appended bh p p []" using Cons.prems(1) by (simp add: appended_def)
    moreover have "print_object ?fmt ?d (m # ms) = key_part"
      using all False by (cases key_part) (simp_all only: when_fmt_simps append_Nil option.map)
    ultimately show ?thesis
      using False key_step [of p "[]"] by (simp only: run if_False andthen_simps)
  qed
qed

text \<open>An opening bracket, the inside one level deeper, and the closing bracket.\<close>

lemma bracketed:
  assumes law: "buffer_hooks_law bh" and p: "pb_ok bh p"
    and opn: "c_ok opn" "opn' = opn \<or> opn' = opn @ [nul]" "n \<le> length opn + 1" "length opn \<le> n"
    and inside: "\<And>q. appended bh p q opn \<Longrightarrow> list_result bh (deeper q) (f (deeper q)) vt"
    and cls: "c_ok cls" "cls \<noteq> []"
    and vt': "\<And>t'. vt' = Some t' \<Longrightarrow> \<exists>u. vt = Some u \<and> t' = opn @ u @ cls"
    and m: "\<And>q. pb_depth q = Suc (pb_depth p) \<Longrightarrow> pb_format q = pb_format p \<Longrightarrow>
      m q = put bh (length cls + 1) (cls @ [nul]) 0 q"
  shows "value_result bh p (andthen (put bh n opn' (length opn) p) (\<lambda>p. andthen (f (deeper p)) (\<lambda>p.
    andthen (m p) (\<lambda>p. Some (True, higher p))))) vt'"
proof (rule put_result [OF law p, of opn' n "length opn"])
  fix q assume q: "put bh n opn' (length opn) p = Some (True, q)" "pb_ok bh q" "same_setup p q"
    "front q = front p @ take (length opn) opn'"
  have a: "appended bh p q opn" using q opn(2) by (auto simp: appended_def)
  note aD = appendedD [OF a]
  have front: "front (deeper q) = front p @ opn" using aD by (simp add: front_def deeper_def)
  have cap: "capacity (deeper q) = capacity p" using aD by (auto simp: capacity_def deeper_def split: if_splits)
  from inside [OF a] show ?thesis
  proof (cases rule: list_resultE)
    case (1 r u)
    note rD = appendedD [OF 1(3)]
    have depth: "pb_depth r = Suc (pb_depth p)" using rD(4) aD(4) by (simp add: deeper_def)
    have mr: "m r = put bh (length cls + 1) (cls @ [nul]) 0 r"
      using m [OF depth] rD(3) aD(3) by (simp add: deeper_def)
    have fr: "front r = front p @ opn @ u" using rD(5) front by simp
    have cr: "capacity r = capacity p" using rD(2) cap by simp
    have wr: "willing bh r = willing bh p" using rD(6) aD(6) by (simp add: willing_def deeper_def)
    show ?thesis
    proof (rule put_pending [OF law rD(1) refl, of 0 cls])
      fix s assume s: "put bh (length cls + 1) (cls @ [nul]) 0 r = Some (True, s)" "pending bh r s cls"
        "length (front r) + length cls + 2 \<le> capacity r"
      have "same_setup (deeper q) s" using 1(3) s(2) by (auto simp: appended_def pending_def intro: same_setup_trans)
      then have "same_setup p (higher s)"
        using q(3) by (auto simp: same_setup_def capacity_def deeper_def higher_def)
      then have pend: "pending bh p (higher s) ((opn @ u) @ cls)"
        using s(2) fr by (auto simp: pending_def pb_ok_def front_def higher_def)
      show ?thesis
      proof (rule value_result_yes [OF _ _ pend])
        show "c_ok ((opn @ u) @ cls)" using opn(1) 1(2) cls(1) by simp
        show "(opn @ u) @ cls = t' \<and> length (front p) + length t' + 2 \<le> capacity p" if "vt' = Some t'" for t'
          using vt' [OF that] 1(4) s(3) fr cr by auto
      qed (use q(1) 1(1) mr s(1) in simp)
    next
      fix s assume s: "put bh (length cls + 1) (cls @ [nul]) 0 r = Some (False, s)"
        "willing bh r \<Longrightarrow> capacity r < length (front r) + length cls + 2"
      show ?thesis
      proof (rule value_result_no)
        show "andthen (put bh n opn' (length opn) p) (\<lambda>p. andthen (f (deeper p)) (\<lambda>p.
            andthen (m p) (\<lambda>p. Some (True, higher p)))) = Some (False, s)"
          using q(1) 1(1) mr s(1) by simp
        show "capacity p < length (front p) + length t' + 2" if gen: "willing bh p" and t': "vt' = Some t'" for t'
        proof -
          obtain u' where "vt = Some u'" "t' = opn @ u' @ cls" using vt' [OF t'] by blast
          moreover from this have "u = u'" using 1(4) by simp
          ultimately show ?thesis using s(2) gen wr fr cr by simp
        qed
      qed
    qed simp
  next
    case (2 r)
    show ?thesis
    proof (rule value_result_no)
      show "andthen (put bh n opn' (length opn) p) (\<lambda>p. andthen (f (deeper p)) (\<lambda>p.
          andthen (m p) (\<lambda>p. Some (True, higher p)))) = Some (False, r)"
        using q(1) 2(1) by simp
      have "willing bh (deeper q) = willing bh p" using aD(6) by (simp add: willing_def deeper_def)
      then show "capacity p < length (front p) + length t' + 2" if "willing bh p" "vt' = Some t'" for t'
        using vt' [OF that(2)] 2(2) that(1) front cap by auto
    qed
  qed
next
  fix q assume q: "put bh n opn' (length opn) p = Some (False, q)" "willing bh p \<Longrightarrow> capacity p < length (front p) + n + 1"
  show ?thesis
  proof (rule value_result_no)
    show "andthen (put bh n opn' (length opn) p) (\<lambda>p. andthen (f (deeper p)) (\<lambda>p.
        andthen (m p) (\<lambda>p. Some (True, higher p)))) = Some (False, q)" using q(1) by simp
    show "capacity p < length (front p) + length t' + 2" if "willing bh p" "vt' = Some t'" for t'
      using vt' [OF that(2)] q(2) [OF that(1)] opn(3) cls(2) by (cases cls) auto
  qed
qed (use opn in auto)

lemma number_result:
  assumes law: "buffer_hooks_law bh" and p: "pb_ok bh p" and g: "c_ok (g d)" and i: "is_int32 i"
  shows "value_result bh p (print_number_to bh g i d p) (print_number i d)"
proof -
  define t where "t = number_text g i d"
  have t: "c_ok t" using g by (cases d) (auto simp: t_def number_text_def)
  have short: "\<And>t'. print_number i d = Some t' \<Longrightarrow> t' = t" by (simp add: t_def number_text_def)
  have len: "length t' \<le> 25" if "print_number i d = Some t'" for t'
    using that length_show_int [OF i] by (cases d) (auto split: if_splits)
  show ?thesis
  proof (cases "25 < length t")
    case True
    then have "print_number i d = None" using short len by (cases "print_number i d") auto
    then show ?thesis
      using True by (intro value_result_no [of _ p]) (auto simp: print_number_to_def t_def [symmetric] Let_def)
  next
    case False
    then have "print_number_to bh g i d p = put bh (length t + 1) (t @ [nul]) (length t) p"
      by (simp add: print_number_to_def t_def [symmetric] Let_def)
    then show ?thesis using value_result_put [OF law p refl _ t short] by simp
  qed
qed

text \<open>Numbers have an \<open>int\<close> beside the double.\<close>

fun ints_ok :: "cJSON \<Rightarrow> bool" where
  "ints_ok (cJSON_Number i d) = is_int32 i"
| "ints_ok (cJSON_Array vs) = (\<forall>v\<in>set vs. ints_ok v)"
| "ints_ok (cJSON_Object ms) = (\<forall>m\<in>set ms. ints_ok (snd m))"
| "ints_ok _ = True"

lemma print_value_to_result:
  assumes law: "buffer_hooks_law bh" and g: "\<And>d. c_ok (g d)"
  shows "strings_ok j \<Longrightarrow> ints_ok j \<Longrightarrow> pb_ok bh p \<Longrightarrow>
    value_result bh p (print_value_to bh g j p) (print_value (pb_format p) (pb_depth p) j)"
proof (induction j arbitrary: p)
  case (cJSON_Number i d)
  then show ?case using number_result [OF law] g by simp
next
  case (cJSON_String s)
  then show ?case using value_result_string [OF law] by simp
next
  case (cJSON_Array vs)
  have inside: "list_result bh q (print_elements_to bh g vs q) (print_array (pb_format q) (pb_depth q) vs)"
    if "pb_ok bh q" for q
    using elements_result [OF law _ that, of vs g] cJSON_Array.IH cJSON_Array.prems by simp
  show ?case
  proof (cases "CJSON_NESTING_LIMIT \<le> pb_depth p")
    case True
    then show ?thesis by (intro value_result_no [of _ p]) auto
  next
    case False
    have "value_result bh p (andthen (put bh 1 ''['' (length ''['') p) (\<lambda>p.
        andthen (print_elements_to bh g vs (deeper p)) (\<lambda>p.
        andthen (put bh 2 [CHR '']'', nul] 0 p) (\<lambda>p. Some (True, higher p)))))
        (print_value (pb_format p) (pb_depth p) (cJSON_Array vs))"
    proof (rule bracketed [OF law cJSON_Array.prems(3), where cls = "'']''"
        and vt = "print_array (pb_format p) (pb_depth p + 1) vs"])
      fix q assume "appended bh p q ''[''"
      note qD = appendedD [OF this]
      have "pb_ok bh (deeper q)" using qD(1) by (auto simp: pb_ok_def deeper_def)
      from inside [OF this] show "list_result bh (deeper q) (print_elements_to bh g vs (deeper q))
          (print_array (pb_format p) (pb_depth p + 1) vs)"
        using qD by (simp add: deeper_def)
    qed (use False in \<open>auto simp: numeral_2_eq_2\<close>)
    then show ?thesis using False by simp
  qed
next
  case (cJSON_Object ms)
  have inside: "list_result bh q (print_members_to bh g ms q) (print_object (pb_format q) (pb_depth q) ms)"
    if "pb_ok bh q" for q
    by (rule members_result [OF law _ that]) (use cJSON_Object.IH cJSON_Object.prems in fastforce)
  show ?case
  proof (cases "CJSON_NESTING_LIMIT \<le> pb_depth p")
    case True
    then show ?thesis by (intro value_result_no [of _ p]) auto
  next
    case False
    let ?fmt = "pb_format p" and ?o = "open_text (pb_format p)" and ?c = "close_text (pb_format p) (Suc (pb_depth p))"
    have "value_result bh p (andthen (put bh (length ?o + 1) ?o (length ?o) p) (\<lambda>p.
        andthen (print_members_to bh g ms (deeper p)) (\<lambda>p.
        andthen (put bh (if ?fmt then pb_depth p + 1 else 2) (close_text ?fmt (pb_depth p) @ [nul]) 0 p)
          (\<lambda>p. Some (True, higher p)))))
        (print_value ?fmt (pb_depth p) (cJSON_Object ms))"
    proof (rule bracketed [OF law cJSON_Object.prems(3), where cls = ?c
        and vt = "print_object ?fmt (pb_depth p + 1) ms"])
      fix q assume "appended bh p q ?o"
      note qD = appendedD [OF this]
      have "pb_ok bh (deeper q)" using qD(1) by (auto simp: pb_ok_def deeper_def)
      from inside [OF this] show "list_result bh (deeper q) (print_members_to bh g ms (deeper q))
          (print_object ?fmt (pb_depth p + 1) ms)"
        using qD by (simp add: deeper_def)
    next
      fix q :: printbuffer assume "pb_depth q = Suc (pb_depth p)"
      then show "put bh (if ?fmt then pb_depth q + 1 else 2) (close_text ?fmt (pb_depth q) @ [nul]) 0 q =
          put bh (length ?c + 1) (?c @ [nul]) 0 q"
        by (simp add: close_text_def when_fmt_def tabs_def numeral_2_eq_2)
    qed (simp_all add: layout_ok, use False in \<open>auto simp: close_text_def open_text_def\<close>)
    then show ?thesis using False by (simp add: Let_def)
  qed
next
  case cJSON_NULL
  then show ?case using value_result_put [OF law, of p 5 "''null''" 0 "Some ''null''"] by simp
next
  case cJSON_False
  then show ?case using value_result_put [OF law, of p 6 "''false''" 0 "Some ''false''"] by simp
next
  case cJSON_True
  then show ?case using value_result_put [OF law, of p 5 "''true''" 0 "Some ''true''"] by simp
qed

subsection \<open>Properties\<close>

lemma pending_start:
  assumes "pending bh p q t" "pb_offset p = 0" "c_ok t"
  obtains b rest where "pb_buffer q = Some b" "b = t @ nul # rest" "length b = pb_length q"
proof -
  obtain t1 t2 rest where t: "t = t1 @ t2" "front q = t1" "drop (pb_offset q) (the (pb_buffer q)) = t2 @ nul # rest"
      and ok: "pb_ok bh q"
    using assms(1,2) by (auto simp: pending_def front_def)
  obtain b where b: "pb_buffer q = Some b" "length b = pb_length q" using ok by (auto simp: pb_ok_def)
  have "b = take (pb_offset q) b @ drop (pb_offset q) b" by simp
  also have "\<dots> = t @ nul # rest" using t b by (simp add: front_def)
  finally show ?thesis using that b by blast
qed

lemma fresh_buffer_ok:
  assumes "length b \<le> int_max" and "\<not> noalloc \<Longrightarrow> b \<noteq> []"
  shows "pb_ok bh (fresh_buffer b noalloc fmt)" "front (fresh_buffer b noalloc fmt) = []"
    "capacity (fresh_buffer b noalloc fmt) = (if noalloc then length b else int_max)"
    "willing bh (fresh_buffer b noalloc fmt) \<longleftrightarrow> noalloc \<or> generous bh"
    "pb_format (fresh_buffer b noalloc fmt) = fmt" "pb_depth (fresh_buffer b noalloc fmt) = 0"
    "pb_offset (fresh_buffer b noalloc fmt) = 0"
  using assms by (auto simp: pb_ok_def fresh_buffer_def capacity_def front_def willing_def)

text \<open>
  C23: \<open>cJSON_PrintPreallocated\<close> never writes outside the caller's buffer, whatever its size, and
  succeeds exactly when the buffer has room for the text and two bytes more; then it holds
  what \<open>print_value\<close> prescribes.
\<close>

theorem print_preallocated_exact:
  assumes "buffer_hooks_law bh" and "\<And>d. c_ok (g d)" and "strings_ok j" and "ints_ok j"
    and "length b \<le> int_max"
  shows "\<exists>ok b'. cJSON_PrintPreallocated bh g j (Some b) (int (length b)) fmt = Some (ok, b') \<and>
    (\<forall>t. print_value fmt 0 j = Some t \<longrightarrow> (ok \<longleftrightarrow> length t + 2 \<le> length b) \<and>
       (ok \<longrightarrow> (\<exists>c. b' = Some c \<and> length c = length b \<and> c_str c = t)))"
proof -
  let ?p = "fresh_buffer b True fmt"
  note p = fresh_buffer_ok [where noalloc = True, OF assms(5)]
  have run: "cJSON_PrintPreallocated bh g j (Some b) (int (length b)) fmt =
      map_option (\<lambda>(ok, p). (ok, pb_buffer p)) (print_value_to bh g j ?p)"
    by (simp add: cJSON_PrintPreallocated_def fresh_buffer_def)
  have "value_result bh ?p (print_value_to bh g j ?p) (print_value fmt 0 j)"
    using print_value_to_result [OF assms(1,2,3,4) p(1)] p(5,6) by simp
  then show ?thesis
  proof (cases rule: value_resultE)
    case (1 q u)
    obtain c rest where c: "pb_buffer q = Some c" "c = u @ nul # rest" "length c = pb_length q"
      using pending_start [OF 1(3) p(7) 1(2)] by blast
    then have "length c = length b" "c_str c = u"
      using 1(3) c_str_before_nul [OF 1(2)] by (auto simp: pending_def same_setup_def capacity_def fresh_buffer_def)
    moreover have "t = u \<and> length t + 2 \<le> length b" if "print_value fmt 0 j = Some t" for t
      using 1(4) [OF that] p(2,3) by simp
    ultimately show ?thesis using 1(1) c(1) by (intro exI [of _ True] exI [of _ "Some c"]) (auto simp: run)
  next
    case (2 q)
    then show ?thesis using p(2,3,4)
      by (intro exI [of _ False] exI [of _ "pb_buffer q"]) (auto simp: run not_le)
  qed
qed

text \<open>\<open>cJSON_Print\<close> and \<open>cJSON_PrintUnformatted\<close>: the buffer is trimmed, by \<open>realloc\<close> or by hand.\<close>

lemma trimmed_text:
  assumes "buffer_hooks_law bh" "appended bh (fresh_buffer b0 False fmt) p t" "c_ok t" "pb_buffer p = Some (t @ nul # rest)"
    "length (t @ nul # rest) = pb_length p"
  shows "reallocate bh = Some re \<Longrightarrow> re (t @ nul # rest) (pb_offset p + 1) = Some out \<Longrightarrow> c_str out = t"
    and "malloc bh (pb_offset p + 1) = Some m \<Longrightarrow>
      (do { old \<leftarrow> read_front (t @ nul # rest) (min (pb_length p) (pb_offset p + 1));
            m1 \<leftarrow> write_at m 0 old; m2 \<leftarrow> write_at m1 (pb_offset p) [nul]; Some (Some (c_str m2)) }) = Some (Some t)"
proof -
  have "front p = t" using appendedD(5) [OF assms(2)] by (simp add: fresh_buffer_def front_def)
  then have off: "pb_offset p = length t"
    using length_front [OF appendedD(1) [OF assms(2)]] by simp
  have nul: "c_str (t @ [nul]) = t" using c_str_before_nul [OF assms(3), of "[]"] .
  show "c_str out = t" if "reallocate bh = Some re" "re (t @ nul # rest) (pb_offset p + 1) = Some out"
  proof -
    have "length out = length t + 1" "take (length t + 1) out = t @ [nul]"
      using assms(1) that off unfolding buffer_hooks_law_def by fastforce+
    then show ?thesis using nul by simp
  qed
  show "(do { old \<leftarrow> read_front (t @ nul # rest) (min (pb_length p) (pb_offset p + 1));
        m1 \<leftarrow> write_at m 0 old; m2 \<leftarrow> write_at m1 (pb_offset p) [nul]; Some (Some (c_str m2)) }) = Some (Some t)"
    if "malloc bh (pb_offset p + 1) = Some m"
  proof -
    have "length m = length t + 1" using assms(1) that off by (simp add: buffer_hooks_law_def)
    moreover have "min (pb_length p) (pb_offset p + 1) = length t + 1" using assms(5) off by simp
    ultimately show ?thesis using off nul by (simp add: read_front_def write_at_def)
  qed
qed

lemma update_offset_buffer:
  "update_offset q = Some p \<Longrightarrow> pb_buffer p = pb_buffer q \<and> pb_length p = pb_length q"
  by (auto simp: update_offset_def Let_def split: option.splits if_splits)

definition always_memory :: "buffer_hooks \<Rightarrow> bool" where
  "always_memory bh \<longleftrightarrow> generous bh \<and> (\<forall>n. malloc bh n \<noteq> None)"

lemma print_text_trimmed:
  assumes law: "buffer_hooks_law bh" and b: "malloc bh 256 = Some b"
    and q: "print_value_to bh g j (fresh_buffer b False fmt) = Some (True, q)"
      "c_ok t" "pending bh (fresh_buffer b False fmt) q t"
  shows "\<exists>r. print_text bh g j fmt = Some r \<and> (r = None \<or> r = Some t) \<and> (always_memory bh \<longrightarrow> r \<noteq> None)"
proof -
  let ?p = "fresh_buffer b False fmt"
  have "pb_offset ?p = 0" by (simp add: fresh_buffer_def)
  then obtain rest where q': "pb_buffer q = Some (t @ nul # rest)" "length (t @ nul # rest) = pb_length q"
    using pending_start [OF q(3) _ q(2)] by blast
  obtain s where s: "update_offset q = Some s" "appended bh ?p s t"
    using update_offset_pending [OF q(3,2)] by blast
  have b': "pb_buffer s = Some (t @ nul # rest)" "length (t @ nul # rest) = pb_length s"
    using update_offset_buffer [OF s(1)] q' by auto
  note trim = trimmed_text [OF law s(2) q(2) b']
  have run: "print_text bh g j fmt = (case reallocate bh of
      Some re \<Rightarrow> Some (map_option c_str (re (t @ nul # rest) (pb_offset s + 1)))
    | None \<Rightarrow> (case malloc bh (pb_offset s + 1) of None \<Rightarrow> Some None | Some m \<Rightarrow> Some (Some t)))"
    using b q(1) s(1) b'(1) trim(2) by (simp add: print_text_def split: option.split)
  show ?thesis
  proof (cases "reallocate bh")
    case None
    then show ?thesis
      using run by (cases "malloc bh (pb_offset s + 1)") (simp_all add: always_memory_def, metis option.distinct(1))
  next
    case re: (Some re)
    show ?thesis
    proof (cases "re (t @ nul # rest) (pb_offset s + 1)")
      case None
      with generous_cases(2) [OF _ re, of "t @ nul # rest" "pb_offset s + 1"]
      have "\<not> always_memory bh" by (auto simp: always_memory_def)
      with None re run show ?thesis by simp
    next
      case (Some out)
      with run re trim(1) [OF re Some] show ?thesis by simp
    qed
  qed
qed

text \<open>
  C24: \<open>cJSON_Print\<close> and \<open>cJSON_PrintUnformatted\<close>, with their buffer that starts at 256 bytes and grows,
  never write or read outside it, for any item and however memory runs out; they give NULL or
  what \<open>print_value\<close> prescribes, and that text whenever there is memory for it.
\<close>

theorem print_text_exact:
  assumes law: "buffer_hooks_law bh" and g: "\<And>d. c_ok (g d)" and j: "strings_ok j" "ints_ok j"
  shows "\<exists>r. print_text bh g j fmt = Some r \<and>
    (\<forall>t. print_value fmt 0 j = Some t \<longrightarrow> r = None \<or> r = Some t) \<and>
    (\<forall>t. print_value fmt 0 j = Some t \<and> always_memory bh \<and> length t + 2 \<le> int_max \<longrightarrow> r = Some t)"
proof (cases "malloc bh 256")
  case None
  then show ?thesis by (auto simp: print_text_def always_memory_def intro!: exI [of _ None])
next
  case (Some b)
  let ?p = "fresh_buffer b False fmt"
  have len: "length b = 256" using law Some by (auto simp: buffer_hooks_law_def)
  then have "length b \<le> int_max" "b \<noteq> []" by auto
  note p = fresh_buffer_ok [where noalloc = False, OF this]
  have "value_result bh ?p (print_value_to bh g j ?p) (print_value fmt 0 j)"
    using print_value_to_result [OF law g j p(1)] p(5,6) by simp
  then show ?thesis
  proof (cases rule: value_resultE)
    case (1 q t)
    obtain r where "print_text bh g j fmt = Some r" "r = None \<or> r = Some t" "always_memory bh \<longrightarrow> r \<noteq> None"
      using print_text_trimmed [OF law Some 1(1,2,3)] by blast
    with 1(4) show ?thesis by (intro exI [of _ r]) auto
  next
    case (2 q)
    then show ?thesis
      using Some p(2,3,4) by (auto simp: print_text_def always_memory_def intro!: exI [of _ None])
  qed
qed

definition demo_hooks :: buffer_hooks where
  "demo_hooks = \<lparr>reallocate = Some (\<lambda>b n. Some (take n (b @ replicate n (CHR ''?'')))),
     malloc = (\<lambda>n. Some (replicate n (CHR ''?'')))\<rparr>"

lemma demo_hooks_law: "buffer_hooks_law demo_hooks" "always_memory demo_hooks"
  by (auto simp: buffer_hooks_law_def demo_hooks_def always_memory_def generous_def)

definition demo_item :: cJSON where
  "demo_item = cJSON_Object [(''a'', cJSON_Array [cJSON_True, cJSON_String ''b'']), (''c'', cJSON_NULL)]"

lemma demo_item_printed:
  "\<exists>t. print_value False 0 demo_item = Some t \<and> length t = 25" "strings_ok demo_item" "ints_ok demo_item"
  by (simp_all add: demo_item_def print_string_ptr_def escape_char_def when_fmt_def)

theorem print_preallocated_exact_witness:
  "\<exists>c. cJSON_PrintPreallocated demo_hooks (\<lambda>d. ''1.5'') demo_item (Some (replicate 27 (CHR ''?''))) 27 False =
      Some (True, Some c) \<and> length c = 27"
proof -
  obtain t where t: "print_value False 0 demo_item = Some t" "length t = 25" using demo_item_printed by blast
  have "c_ok ((\<lambda>d :: dbl. ''1.5'') d)" for d by simp
  from print_preallocated_exact [OF demo_hooks_law(1) this demo_item_printed(2,3), of "replicate 27 (CHR ''?'')" False]
  show ?thesis using t by auto
qed

theorem print_text_exact_witness:
  "\<exists>t. print_value False 0 demo_item = Some t \<and>
     print_text demo_hooks (\<lambda>d. ''1.5'') demo_item False = Some (Some t)"
proof -
  obtain t where t: "print_value False 0 demo_item = Some t" "length t = 25" using demo_item_printed by blast
  have "c_ok ((\<lambda>d :: dbl. ''1.5'') d)" for d by simp
  from print_text_exact [OF demo_hooks_law(1) this demo_item_printed(2,3), of False] t demo_hooks_law(2)
  show ?thesis by auto
qed

text \<open>
  A \<open>prebuffer\<close> of 0 and hooks without \<open>realloc\<close>: growing the buffer by hand copies one byte out of a
  block of no bytes.
\<close>

lemma print_buffered_zero_faults:
  assumes "reallocate bh = None" and "malloc bh 0 = Some []" and "malloc bh 12 = Some m"
  shows "cJSON_PrintBuffered bh g cJSON_NULL 0 fmt = None"
  using assms
  by (simp add: cJSON_PrintBuffered_def put_def ensure_def fresh_buffer_def grow_buffer_def read_front_def andthen_def)

end
