(* ===== verification/CJson_Minify.thy ===== *)
theory CJson_Minify
  imports CJson_Facts "HOL-Library.Monad_Syntax"
begin

section \<open>Minifying in place\<close>

text \<open>
  \<open>cJSON_Minify\<close> of \<open>src/cJSON.c\<close> on the caller's buffer of bytes: \<open>json\<close> and \<open>into\<close> are indices
  into it, and reading or writing outside it is a fault, \<open>None\<close>. \<open>minify\<close> is the same on texts:
  what the code makes of them, with the buffer gone.
\<close>

subsection \<open>The code\<close>

definition byte_at :: "string \<Rightarrow> nat \<Rightarrow> char option" where
  "byte_at b i = (if i < length b then Some (b ! i) else None)"

definition set_byte :: "string \<Rightarrow> nat \<Rightarrow> char \<Rightarrow> string option" where
  "set_byte b i c = (if i < length b then Some (b[i := c]) else None)"

partial_function (option) oneline_loop :: "string \<Rightarrow> nat \<Rightarrow> nat option" where
  "oneline_loop b i = do {
     c \<leftarrow> byte_at b i;
     if c = nul then Some i else if c = CHR 0x0A then Some (i + 1) else oneline_loop b (i + 1)
   }"

definition skip_oneline_comment :: "string \<Rightarrow> nat \<Rightarrow> nat option" where
  "skip_oneline_comment b i = oneline_loop b (i + 2)"

partial_function (option) multiline_loop :: "string \<Rightarrow> nat \<Rightarrow> nat option" where
  "multiline_loop b i = do {
     c \<leftarrow> byte_at b i;
     if c = nul then Some i
     else if c = CHR ''*'' then do {
       d \<leftarrow> byte_at b (i + 1);
       if d = CHR ''/'' then Some (i + 2) else multiline_loop b (i + 1)
     }
     else multiline_loop b (i + 1)
   }"

definition skip_multiline_comment :: "string \<Rightarrow> nat \<Rightarrow> nat option" where
  "skip_multiline_comment b i = multiline_loop b (i + 2)"

text \<open>The buffer with the two positions behind the string.\<close>

partial_function (option) string_loop :: "string \<Rightarrow> nat \<Rightarrow> nat \<Rightarrow> (string \<times> nat \<times> nat) option" where
  "string_loop b i out = do {
     c \<leftarrow> byte_at b i;
     if c = nul then Some (b, i, out)
     else do {
       b1 \<leftarrow> set_byte b out c;
       c1 \<leftarrow> byte_at b1 i;
       if c1 = CHR 0x22 then do { b2 \<leftarrow> set_byte b1 out (CHR 0x22); Some (b2, i + 1, out + 1) }
       else if c1 = CHR 0x5C then do {
         d \<leftarrow> byte_at b1 (i + 1);
         if d = CHR 0x22
         then do { b2 \<leftarrow> set_byte b1 (out + 1) d; string_loop b2 (i + 2) (out + 2) }
         else string_loop b1 (i + 1) (out + 1)
       }
       else string_loop b1 (i + 1) (out + 1)
     }
   }"

definition minify_string :: "string \<Rightarrow> nat \<Rightarrow> nat \<Rightarrow> (string \<times> nat \<times> nat) option" where
  "minify_string b i out = do {
     c \<leftarrow> byte_at b i;
     b1 \<leftarrow> set_byte b out c;
     string_loop b1 (i + 1) (out + 1)
   }"

partial_function (option) minify_loop :: "string \<Rightarrow> nat \<Rightarrow> nat \<Rightarrow> string option" where
  "minify_loop b json into = do {
     c \<leftarrow> byte_at b json;
     if c = nul then set_byte b into nul
     else if c = CHR '' '' \<or> c = CHR 0x09 \<or> c = CHR 0x0D \<or> c = CHR 0x0A
     then minify_loop b (json + 1) into
     else if c = CHR ''/'' then do {
       d \<leftarrow> byte_at b (json + 1);
       if d = CHR ''/'' then do { i \<leftarrow> skip_oneline_comment b json; minify_loop b i into }
       else if d = CHR ''*'' then do { i \<leftarrow> skip_multiline_comment b json; minify_loop b i into }
       else minify_loop b (json + 1) into
     }
     else if c = CHR 0x22 then do {
       (b1, i, out) \<leftarrow> minify_string b json into;
       minify_loop b1 i out
     }
     else do { b1 \<leftarrow> set_byte b into c; minify_loop b1 (json + 1) (into + 1) }
   }"

text \<open>The buffer afterwards; a null pointer is left alone.\<close>

definition cJSON_Minify :: "string option \<Rightarrow> string option option" where
  "cJSON_Minify json =
     (case json of None \<Rightarrow> Some None | Some b \<Rightarrow> map_option Some (minify_loop b 0 0))"

subsection \<open>Minified texts\<close>

fun after_line :: "string \<Rightarrow> string" where
  "after_line [] = []"
| "after_line (c # s) = (if c = CHR 0x0A then s else after_line s)"

fun after_comment :: "string \<Rightarrow> string" where
  "after_comment (c # d # s) = (if c = CHR ''*'' \<and> d = CHR ''/'' then s else after_comment (d # s))"
| "after_comment s = []"

text \<open>The rest of a string, after its opening quote, and what follows.\<close>

fun string_rest :: "string \<Rightarrow> string \<times> string" where
  "string_rest [] = ([], [])"
| "string_rest (c # s) =
     (if c = CHR 0x22 then ([c], s)
      else if c = CHR 0x5C \<and> s \<noteq> [] \<and> hd s = CHR 0x22
      then (case string_rest (tl s) of (t, r) \<Rightarrow> (c # hd s # t, r))
      else (case string_rest s of (t, r) \<Rightarrow> (c # t, r)))"

lemma after_line_shorter: "length (after_line s) \<le> length s"
  by (induction s) auto

lemma after_comment_shorter: "length (after_comment s) \<le> length s"
  by (induction s rule: after_comment.induct) auto

lemma string_rest_shorter: "length (snd (string_rest s)) \<le> length s"
  by (induction s rule: string_rest.induct) (auto split: prod.split)

function minify :: "string \<Rightarrow> string" where
  "minify [] = []"
| "minify (c # s) =
     (if c = CHR '' '' \<or> c = CHR 0x09 \<or> c = CHR 0x0D \<or> c = CHR 0x0A then minify s
      else if c = CHR ''/'' then
        (if s \<noteq> [] \<and> hd s = CHR ''/'' then minify (after_line (tl s))
         else if s \<noteq> [] \<and> hd s = CHR ''*'' then minify (after_comment (tl s))
         else minify s)
      else if c = CHR 0x22 then c # fst (string_rest s) @ minify (snd (string_rest s))
      else c # minify s)"
  by pat_completeness auto
termination
  by (relation "measure length")
    (auto simp: less_Suc_eq_le string_rest_shorter
      intro: le_trans [OF after_line_shorter] le_trans [OF after_comment_shorter])

declare minify.simps(2) [simp del]

subsection \<open>The code computes it\<close>

lemma byte_at_append [simp]: "byte_at (p @ c # s) (length p) = Some c"
  by (simp add: byte_at_def)

lemma byte_at_append2 [simp]: "byte_at (p @ c # d # s) (Suc (length p)) = Some d"
  using byte_at_append [of "p @ [c]" d s] by simp

lemma oneline_loop_ok:
  "c_ok s \<Longrightarrow> \<exists>q. oneline_loop (p @ s @ nul # rest) (length p) = Some (length p + length q) \<and> s = q @ after_line s"
proof (induction s arbitrary: p)
  case Nil
  show ?case by (subst oneline_loop.simps) simp
next
  case (Cons c s)
  show ?case
  proof (cases "c = CHR 0x0A")
    case True
    then show ?thesis by (subst oneline_loop.simps) (simp add: exI [of _ "[c]"])
  next
    case False
    obtain q where q: "oneline_loop (p @ c # s @ nul # rest) (Suc (length p)) = Some (Suc (length p) + length q)"
        "s = q @ after_line s"
      using Cons.IH [of "p @ [c]"] Cons.prems by auto
    show ?thesis
    proof (intro exI conjI)
      show "oneline_loop (p @ (c # s) @ nul # rest) (length p) = Some (length p + length (c # q))"
        using False Cons.prems q(1) by (subst oneline_loop.simps) simp
      show "c # s = (c # q) @ after_line (c # s)" using False q(2) by simp
    qed
  qed
qed

lemma multiline_loop_ends:
  "\<exists>q. multiline_loop (p @ [] @ nul # rest) (length p) = Some (length p + length q) \<and> [] = q @ after_comment []"
  "c_ok [c] \<Longrightarrow> \<exists>q. multiline_loop (p @ [c] @ nul # rest) (length p) = Some (length p + length q) \<and> [c] = q @ after_comment [c]"
proof -
  show "\<exists>q. multiline_loop (p @ [] @ nul # rest) (length p) = Some (length p + length q) \<and> [] = q @ after_comment []"
    by (subst multiline_loop.simps) simp
  have "multiline_loop (p @ c # nul # rest) (Suc (length p)) = Some (Suc (length p))"
    by (subst multiline_loop.simps) simp
  then show "\<exists>q. multiline_loop (p @ [c] @ nul # rest) (length p) = Some (length p + length q) \<and> [c] = q @ after_comment [c]"
    if "c_ok [c]"
    using that by (subst multiline_loop.simps) (auto intro!: exI [of _ "[c]"])
qed

lemma multiline_loop_ok:
  "c_ok s \<Longrightarrow> \<exists>q. multiline_loop (p @ s @ nul # rest) (length p) = Some (length p + length q) \<and> s = q @ after_comment s"
proof (induction s arbitrary: p rule: after_comment.induct)
  case (1 c d s)
  show ?case
  proof (cases "c = CHR ''*'' \<and> d = CHR ''/''")
    case True
    then show ?thesis by (subst multiline_loop.simps) (simp add: exI [of _ "[c, d]"])
  next
    case False
    obtain q where q: "multiline_loop (p @ c # d # s @ nul # rest) (Suc (length p)) = Some (Suc (length p) + length q)"
        "d # s = q @ after_comment (d # s)"
      using "1.IH" [OF False, of "p @ [c]"] "1.prems" by auto
    show ?thesis
    proof (intro exI conjI)
      show "multiline_loop (p @ (c # d # s) @ nul # rest) (length p) = Some (length p + length (c # q))"
        using False "1.prems" q(1) by (subst multiline_loop.simps) auto
      have "after_comment (c # d # s) = after_comment (d # s)" using False by (simp only: after_comment.simps if_False)
      then show "c # d # s = (c # q) @ after_comment (c # d # s)" using q(2) by (simp del: after_comment.simps)
    qed
  qed
qed (rule multiline_loop_ends; assumption)+

text \<open>
  The buffer while it is minified: what has been written, a gap of bytes already read, the rest of
  the text. Copying a character closes up the text behind what is written.
\<close>

lemma copy_byte:
  obtains g where "length g = length gap"
    "set_byte (w @ gap @ c # z) (length w) c = Some (w @ c # g @ z)"
    "byte_at (w @ c # g @ z) (length w + length gap) = Some c"
    "set_byte (w @ c # g @ z) (length w) c = Some (w @ c # g @ z)"
proof (cases gap)
  case Nil
  then show ?thesis by (intro that [of "[]"]) (simp_all add: set_byte_def)
next
  case (Cons x gs)
  show ?thesis
  proof (rule that [of "gs @ [c]"])
    show "set_byte (w @ gap @ c # z) (length w) c = Some (w @ c # (gs @ [c]) @ z)"
      using Cons by (simp add: set_byte_def)
    show "byte_at (w @ c # (gs @ [c]) @ z) (length w + length gap) = Some c"
      using Cons byte_at_append [of "w @ c # gs" c z] by simp
  qed (use Cons in \<open>simp_all add: set_byte_def\<close>)
qed

lemma string_loop_ok:
  "c_ok s \<Longrightarrow> string_rest s = (t, r) \<Longrightarrow> \<exists>g. length g = length gap \<and>
    string_loop (w @ gap @ s @ nul # rest) (length w + length gap) (length w) =
      Some (w @ t @ g @ r @ nul # rest, length w + length t + length gap, length w + length t)"
proof (induction s arbitrary: w gap t r rule: string_rest.induct)
  case 1
  have "byte_at (w @ gap @ nul # rest) (length w + length gap) = Some nul"
    using byte_at_append [of "w @ gap" nul rest] by simp
  with 1 show ?case by (subst string_loop.simps) simp
next
  case (2 c s)
  let ?z = "s @ nul # rest"
  have here: "byte_at (w @ gap @ c # ?z) (length w + length gap) = Some c"
    using byte_at_append [of "w @ gap" c ?z] by simp
  obtain g where g: "length g = length gap"
      "set_byte (w @ gap @ c # ?z) (length w) c = Some (w @ c # g @ ?z)"
      "byte_at (w @ c # g @ ?z) (length w + length gap) = Some c"
      "set_byte (w @ c # g @ ?z) (length w) c = Some (w @ c # g @ ?z)"
    by (rule copy_byte)
  have c: "c \<noteq> nul" "c_ok s" using "2.prems"(1) by auto
  show ?case
  proof (cases "c = CHR 0x22")
    case True
    then show ?thesis using "2.prems"(2) g here c
      by (subst string_loop.simps) (auto intro!: exI [of _ g])
  next
    case not_quote: False
    show ?thesis
    proof (cases "c = CHR 0x5C \<and> s \<noteq> [] \<and> hd s = CHR 0x22")
      case True
      then obtain s' where s: "s = CHR 0x22 # s'" by (cases s) auto
      obtain t' where t': "string_rest s' = (t', r)" "t = c # CHR 0x22 # t'"
        using "2.prems"(2) True s by (auto split: prod.splits)
      have next_byte: "byte_at (w @ c # g @ ?z) (Suc (length w + length gap)) = Some (CHR 0x22)"
        using byte_at_append [of "w @ c # g" "CHR 0x22" "s' @ nul # rest"] s g(1) by simp
      obtain g' where g': "length g' = length g"
          "set_byte ((w @ [c]) @ g @ CHR 0x22 # s' @ nul # rest) (length (w @ [c])) (CHR 0x22) =
             Some ((w @ [c]) @ CHR 0x22 # g' @ s' @ nul # rest)"
        by (rule copy_byte [of g "w @ [c]" "CHR 0x22" "s' @ nul # rest"])
      have "string_loop (w @ gap @ (c # s) @ nul # rest) (length w + length gap) (length w) =
          string_loop ((w @ [c, CHR 0x22]) @ g' @ s' @ nul # rest)
            (length (w @ [c, CHR 0x22]) + length g') (length (w @ [c, CHR 0x22]))"
        using True s c g here next_byte g' by (subst string_loop.simps) simp
      moreover have "c_ok s'" using c(2) s by simp
      ultimately show ?thesis
        using "2.IH"(1) [OF not_quote True, of t' r g' "w @ [c, CHR 0x22]"] t' s g(1) g'(1) by auto
    next
      case False
      obtain t' where t': "string_rest s = (t', r)" "t = c # t'"
        using "2.prems"(2) False not_quote by (auto split: prod.splits)
      have "\<exists>d. byte_at (w @ c # g @ ?z) (Suc (length w + length gap)) = Some d \<and> (c = CHR 0x5C \<longrightarrow> d \<noteq> CHR 0x22)"
        using byte_at_append [of "w @ c # g" "hd (s @ [nul])" "tl (s @ [nul]) @ rest"] g(1) False
        by (cases s) auto
      then have "string_loop (w @ gap @ (c # s) @ nul # rest) (length w + length gap) (length w) =
          string_loop ((w @ [c]) @ g @ s @ nul # rest) (length (w @ [c]) + length g) (length (w @ [c]))"
        using not_quote c g here by (subst string_loop.simps) auto
      then show ?thesis
        using "2.IH"(2) [OF not_quote False c(2) t'(1), of g "w @ [c]"] t' g(1) by auto
    qed
  qed
qed

lemma minify_string_ok:
  assumes "c_ok s" "string_rest s = (t, r)"
  shows "\<exists>g. length g = length gap \<and>
    minify_string (w @ gap @ CHR 0x22 # s @ nul # rest) (length w + length gap) (length w) =
      Some (w @ CHR 0x22 # t @ g @ r @ nul # rest, length w + Suc (length t) + length gap, length w + Suc (length t))"
proof -
  let ?z = "s @ nul # rest"
  have here: "byte_at (w @ gap @ CHR 0x22 # ?z) (length w + length gap) = Some (CHR 0x22)"
    using byte_at_append [of "w @ gap" "CHR 0x22" ?z] by simp
  obtain g where g: "length g = length gap"
      "set_byte (w @ gap @ CHR 0x22 # ?z) (length w) (CHR 0x22) = Some (w @ CHR 0x22 # g @ ?z)"
    by (rule copy_byte)
  from string_loop_ok [OF assms, of g "w @ [CHR 0x22]" rest] g here show ?thesis
    by (auto simp: minify_string_def)
qed

lemma string_rest_append: "string_rest s = (t, r) \<Longrightarrow> s = t @ r"
  by (induction s arbitrary: t r rule: string_rest.induct) (auto simp: neq_Nil_conv split: if_splits prod.splits)

lemma minify_loop_ok:
  "c_ok s \<Longrightarrow> \<exists>z. minify_loop (w @ gap @ s @ nul # rest) (length w + length gap) (length w) =
      Some (w @ minify s @ nul # z) \<and> length (minify s) + length z = length gap + length s + length rest"
proof (induction s arbitrary: w gap rest rule: minify.induct)
  case 1
  obtain g where g: "length g = length gap" "set_byte (w @ gap @ nul # rest) (length w) nul = Some (w @ nul # g @ rest)"
    by (rule copy_byte)
  have "byte_at (w @ gap @ nul # rest) (length w + length gap) = Some nul"
    using byte_at_append [of "w @ gap" nul rest] by simp
  with g show ?case by (subst minify_loop.simps) simp
next
  case (2 c s)
  let ?z = "s @ nul # rest"
  have here: "byte_at (w @ gap @ c # ?z) (length w + length gap) = Some c"
    using byte_at_append [of "w @ gap" c ?z] by simp
  have c: "c \<noteq> nul" "c_ok s" using "2.prems"(1) by auto
  note minify = minify.simps(2)
  have skip: "\<exists>z. minify_loop (w @ gap @ (c # s) @ nul # rest) (length w + length gap) (length w) =
      Some (w @ minify (c # s) @ nul # z) \<and> length (minify (c # s)) + length z = length gap + length (c # s) + length rest"
    if "c # s = q @ s'" "minify (c # s) = minify s'"
      "minify_loop (w @ gap @ (c # s) @ nul # rest) (length w + length gap) (length w) =
       minify_loop (w @ gap @ (c # s) @ nul # rest) (length w + length gap + length q) (length w)"
      "\<exists>z. minify_loop (w @ (gap @ q) @ s' @ nul # rest) (length w + length (gap @ q)) (length w) =
        Some (w @ minify s' @ nul # z) \<and> length (minify s') + length z = length (gap @ q) + length s' + length rest"
    for q s'
  proof -
    have "length (c # s) = length q + length s'" using that(1) by (metis length_append)
    moreover have "w @ gap @ (c # s) @ nul # rest = w @ (gap @ q) @ s' @ nul # rest" using that(1) by simp
    ultimately show ?thesis using that(2-4) by (simp add: add.assoc)
  qed
  consider (space) "c = CHR '' '' \<or> c = CHR 0x09 \<or> c = CHR 0x0D \<or> c = CHR 0x0A"
    | (slash) "c = CHR ''/''" | (quote) "c = CHR 0x22"
    | (other) "\<not> (c = CHR '' '' \<or> c = CHR 0x09 \<or> c = CHR 0x0D \<or> c = CHR 0x0A)" "c \<noteq> CHR ''/''" "c \<noteq> CHR 0x22"
    by blast
  then show ?case
  proof cases
    case space
    show ?thesis
    proof (rule skip [of "[c]" s])
      show "minify (c # s) = minify s" using space by (auto simp: minify)
      show "minify_loop (w @ gap @ (c # s) @ nul # rest) (length w + length gap) (length w) =
          minify_loop (w @ gap @ (c # s) @ nul # rest) (length w + length gap + length [c]) (length w)"
        using space here by (subst minify_loop.simps) auto
    qed (use "2.IH"(1) [OF space c(2), of w "gap @ [c]" rest] in auto)
  next
    case slash
    let ?b = "w @ gap @ (c # s) @ nul # rest"
    have no_space: "\<not> (c = CHR '' '' \<or> c = CHR 0x09 \<or> c = CHR 0x0D \<or> c = CHR 0x0A)" using slash by simp
    have next_byte: "byte_at ?b (Suc (length w + length gap)) = Some (hd (s @ [nul]))"
      using byte_at_append2 [of "w @ gap" c "hd (s @ [nul])" "tl (s @ [nul]) @ rest"] by (cases s) auto
    consider (line) s' where "s = CHR ''/'' # s'" | (comment) s' where "s = CHR ''*'' # s'"
      | (none) "s = [] \<or> hd s \<noteq> CHR ''/'' \<and> hd s \<noteq> CHR ''*''"
      by (cases s) auto
    then show ?thesis
    proof cases
      case line
      then have "c_ok s'" using c by simp
      obtain q where q: "oneline_loop ((w @ gap @ [c, CHR ''/'']) @ s' @ nul # rest) (length (w @ gap @ [c, CHR ''/''])) =
            Some (length (w @ gap @ [c, CHR ''/'']) + length q)" "s' = q @ after_line s'"
        using oneline_loop_ok [OF \<open>c_ok s'\<close>] by blast
      have "c_ok (after_line s')" using \<open>c_ok s'\<close> q(2) by (metis c_ok_simps(3))
      have m: "minify (c # s) = minify (after_line s')" using slash line by (simp add: minify)
      show ?thesis
      proof (rule skip [of "c # CHR ''/'' # q" "after_line s'"])
        show "minify_loop ?b (length w + length gap) (length w) =
            minify_loop ?b (length w + length gap + length (c # CHR ''/'' # q)) (length w)"
          using slash here next_byte line q(1)
          by (subst minify_loop.simps) (simp add: skip_oneline_comment_def)
      qed (use q(2) line m "2.IH"(2) [OF no_space slash, of w "gap @ c # CHR ''/'' # q" rest]
          \<open>c_ok (after_line s')\<close> in auto)
    next
      case comment
      then have "c_ok s'" using c by simp
      obtain q where q: "multiline_loop ((w @ gap @ [c, CHR ''*'']) @ s' @ nul # rest) (length (w @ gap @ [c, CHR ''*''])) =
            Some (length (w @ gap @ [c, CHR ''*'']) + length q)" "s' = q @ after_comment s'"
        using multiline_loop_ok [OF \<open>c_ok s'\<close>] by blast
      have "c_ok (after_comment s')" using \<open>c_ok s'\<close> q(2) by (metis c_ok_simps(3))
      have m: "minify (c # s) = minify (after_comment s')" using slash comment by (simp add: minify)
      show ?thesis
      proof (rule skip [of "c # CHR ''*'' # q" "after_comment s'"])
        show "minify_loop ?b (length w + length gap) (length w) =
            minify_loop ?b (length w + length gap + length (c # CHR ''*'' # q)) (length w)"
          using slash here next_byte comment q(1)
          by (subst minify_loop.simps) (simp add: skip_multiline_comment_def)
      qed (use q(2) comment m "2.IH"(3) [OF no_space slash, of w "gap @ c # CHR ''*'' # q" rest]
          \<open>c_ok (after_comment s')\<close> in auto)
    next
      case none
      show ?thesis
      proof (rule skip [of "[c]" s])
        show "minify (c # s) = minify s" using slash none by (auto simp: minify)
        show "minify_loop ?b (length w + length gap) (length w) =
            minify_loop ?b (length w + length gap + length [c]) (length w)"
          using slash here next_byte none by (subst minify_loop.simps) (cases s, auto)
      qed (use "2.IH"(4) [OF no_space slash _ _ c(2), of w "gap @ [c]" rest] none in auto)
    qed
  next
    case quote
    obtain t r where tr: "string_rest s = (t, r)" by (cases "string_rest s")
    have s: "s = t @ r" by (rule string_rest_append [OF tr])
    then have "c_ok r" using c(2) by simp
    obtain g where g: "length g = length gap"
        "minify_string (w @ gap @ c # ?z) (length w + length gap) (length w) =
          Some (w @ c # t @ g @ r @ nul # rest, length w + Suc (length t) + length gap, length w + Suc (length t))"
      using minify_string_ok [OF c(2) tr, of gap w rest] quote by auto
    have "minify_loop (w @ gap @ (c # s) @ nul # rest) (length w + length gap) (length w) =
        minify_loop ((w @ c # t) @ g @ r @ nul # rest) (length (w @ c # t) + length g) (length (w @ c # t))"
      using quote here c g by (subst minify_loop.simps) simp
    moreover have "minify (c # s) = c # t @ minify r" using quote tr by (simp add: minify)
    ultimately show ?thesis
      using "2.IH"(5) [of "w @ c # t" g rest] quote tr \<open>c_ok r\<close> s g(1) by auto
  next
    case other
    obtain g where g: "length g = length gap"
        "set_byte (w @ gap @ c # ?z) (length w) c = Some (w @ c # g @ ?z)"
      by (rule copy_byte)
    have "minify_loop (w @ gap @ (c # s) @ nul # rest) (length w + length gap) (length w) =
        minify_loop ((w @ [c]) @ g @ s @ nul # rest) (length (w @ [c]) + length g) (length (w @ [c]))"
      using other here c g by (subst minify_loop.simps) simp
    moreover have "minify (c # s) = c # minify s" using other by (simp add: minify)
    ultimately show ?thesis
      using "2.IH"(6) [OF other c(2), of "w @ [c]" g rest] g(1) by auto
  qed
qed

subsection \<open>Minified prints\<close>

text \<open>
  The code takes every backslash before a quote for an escape, also the second one of an escaped
  backslash, so that it misses the end of a string that ends with a backslash.
\<close>

definition unbackslashed :: "string \<Rightarrow> bool" where
  "unbackslashed s \<longleftrightarrow> s = [] \<or> last s \<noteq> CHR 0x5C"

fun tidy :: "cJSON \<Rightarrow> bool" where
  "tidy (cJSON_String s) \<longleftrightarrow> unbackslashed s"
| "tidy (cJSON_Array vs) \<longleftrightarrow> list_all tidy vs"
| "tidy (cJSON_Object ms) \<longleftrightarrow> list_all (\<lambda>(k, v). unbackslashed k \<and> tidy v) ms"
| "tidy _ \<longleftrightarrow> True"

definition solid :: "char \<Rightarrow> bool" where
  "solid c \<longleftrightarrow> c \<notin> {CHR '' '', CHR 0x09, CHR 0x0D, CHR 0x0A, CHR ''/'', CHR 0x22}"

lemma minify_solid: "solid c \<Longrightarrow> minify (c # s) = c # minify s"
  by (simp add: minify.simps(2) solid_def)

lemma minify_solids: "list_all solid t \<Longrightarrow> minify (t @ s) = t @ minify s"
  by (induction t) (simp_all add: minify_solid)

lemma minify_space [simp]:
  "minify (CHR '' '' # s) = minify s" "minify (CHR 0x09 # s) = minify s" "minify (CHR 0x0A # s) = minify s"
  by (simp_all add: minify.simps(2))

lemma minify_layout [simp]: "minify (tabs n @ s) = minify s"
  by (induction n) (simp_all add: tabs_def)

lemma solid_chars [simp]: "solid (CHR '','')" "solid (CHR '':'')" "solid (CHR ''['')" "solid (CHR '']'')"
    "solid (CHR ''{'')" "solid (CHR ''}'')"
  by (simp_all add: solid_def)

lemma solid_show_int: "list_all solid (show_int i)"
proof -
  have "solid c" if "isdigit c" for c using that by (auto simp: solid_def isdigit_def)
  then have "list_all solid (show_nat n)" for n using show_nat_digits by (simp add: list_all_iff)
  then show ?thesis by (simp add: show_int_def solid_def)
qed

lemma escape_hd: "hd (escape_char c @ s) \<noteq> CHR 0x22" "escape_char c \<noteq> []"
  by (cases c rule: escape_cases; simp)+

lemma string_rest_escape:
  assumes "c = CHR 0x5C \<longrightarrow> hd s \<noteq> CHR 0x22" and "string_rest s = (t, r)"
  shows "string_rest (escape_char c @ s) = (escape_char c @ t, r)"
proof (cases c rule: escape_cases)
  case control
  have "(of_char c :: nat) div 16 < 16" "(of_char c :: nat) mod 16 < 16"
    using control(2) by auto
  with control(1) assms(2) lower_hex_plain show ?thesis by auto
qed (use assms in auto)

lemma string_rest_printed:
  "unbackslashed s \<Longrightarrow> string_rest (concat (map escape_char s) @ CHR 0x22 # r) = (concat (map escape_char s) @ [CHR 0x22], r)"
proof (induction s)
  case (Cons c s)
  have "unbackslashed s" using Cons.prems by (auto simp: unbackslashed_def)
  moreover have "c = CHR 0x5C \<longrightarrow> hd (concat (map escape_char s) @ CHR 0x22 # r) \<noteq> CHR 0x22"
    using Cons.prems escape_hd by (cases s) (auto simp: unbackslashed_def)
  ultimately show ?case using Cons.IH string_rest_escape [of c] by simp
qed simp

lemma minify_string_printed: "unbackslashed s \<Longrightarrow> minify (print_string_ptr s @ r) = print_string_ptr s @ minify r"
  by (simp add: print_string_ptr_def minify.simps(2) string_rest_printed)

lemma minify_printed_mutual:
  "print_value fmt d j = Some t \<Longrightarrow> wf_json j \<Longrightarrow> tidy j \<Longrightarrow>
     \<exists>u. print_value False d j = Some u \<and> (\<forall>r. minify (t @ r) = u @ minify r)"
  "print_array fmt d vs = Some t \<Longrightarrow> list_all wf_json vs \<Longrightarrow> list_all tidy vs \<Longrightarrow>
     \<exists>u. print_array False d vs = Some u \<and> (\<forall>r. minify (t @ r) = u @ minify r)"
  "print_object fmt d ms = Some t \<Longrightarrow> list_all (\<lambda>(k, v). c_ok k \<and> wf_json v) ms \<Longrightarrow>
     list_all (\<lambda>(k, v). unbackslashed k \<and> tidy v) ms \<Longrightarrow>
     \<exists>u. print_object False d ms = Some u \<and> (\<forall>r. minify (t @ r) = u @ minify r)"
proof (induction fmt d j and fmt d vs and fmt d ms arbitrary: t and t and t
    rule: print_value_print_array_print_object.induct)
  case (4 fmt depth i x)
  then have "t = show_int i" by simp
  then show ?case using 4 by (simp add: minify_solids solid_show_int)
next
  case (5 fmt depth s)
  then show ?case by (auto simp: minify_string_printed)
next
  case (6 fmt depth vs)
  obtain w where depth: "\<not> depth \<ge> CJSON_NESTING_LIMIT" and w: "print_array fmt (depth + 1) vs = Some w"
      and t: "t = CHR ''['' # w @ '']''"
    using "6.prems"(1) by (auto split: if_splits)
  from "6.IH" [OF depth w] "6.prems" depth t show ?case by (auto simp: minify_solid)
next
  case (7 fmt depth ms)
  obtain w where depth: "\<not> depth \<ge> CJSON_NESTING_LIMIT" and w: "print_object fmt (depth + 1) ms = Some w"
      and t: "t = CHR ''{'' # when_fmt fmt [CHR 0x0A] @ w @ when_fmt fmt (tabs depth) @ ''}''"
    using "7.prems"(1) by (auto split: if_splits)
  from "7.IH" [OF depth w] "7.prems" depth t show ?case by (cases fmt) (auto simp: minify_solid)
next
  case (9 fmt depth v vs)
  obtain a b where ab: "print_value fmt depth v = Some a" "print_array fmt depth vs = Some b"
      and t: "t = a @ (if vs = [] then [] else CHR '','' # when_fmt fmt '' '') @ b"
    using "9.prems"(1) by (auto split: option.splits)
  obtain a' where a': "print_value False depth v = Some a'" "\<forall>r. minify (a @ r) = a' @ minify r"
    using "9.IH"(1) [OF ab(1)] "9.prems" by auto
  obtain b' where b': "print_array False depth vs = Some b'" "\<forall>r. minify (b @ r) = b' @ minify r"
    using "9.IH"(2) [OF ab(1,2)] "9.prems" by auto
  show ?case using t a' b' by (cases fmt) (auto simp: minify_solid)
next
  case (11 fmt depth k v ms)
  obtain a b where ab: "print_value fmt depth v = Some a" "print_object fmt depth ms = Some b"
      and t: "t = when_fmt fmt (tabs depth) @ print_string_ptr k @ CHR '':'' # when_fmt fmt [CHR 0x09] @
             a @ (if ms = [] then [] else '','') @ when_fmt fmt [CHR 0x0A] @ b"
    using "11.prems"(1) by (auto split: option.splits)
  obtain a' where a': "print_value False depth v = Some a'" "\<forall>r. minify (a @ r) = a' @ minify r"
    using "11.IH"(1) [OF ab(1)] "11.prems" by auto
  obtain b' where b': "print_object False depth ms = Some b'" "\<forall>r. minify (b @ r) = b' @ minify r"
    using "11.IH"(2) [OF ab(1,2)] "11.prems" by auto
  have k: "unbackslashed k" using "11.prems"(3) by simp
  show ?case using t a' b' by (cases fmt) (auto simp: minify_solid minify_string_printed [OF k])
qed (auto simp: minify_solid solid_def)

subsection \<open>Properties\<close>

text \<open>
  In place on any terminated text, the code stays inside the buffer and leaves the minified
  text, terminated.
\<close>

lemma minify_in_place:
  assumes "c_ok s"
  shows "\<exists>z. cJSON_Minify (Some (s @ nul # rest)) = Some (Some (minify s @ nul # z)) \<and>
    length (minify s @ nul # z) = length (s @ nul # rest)"
  using minify_loop_ok [OF assms, of "[]" "[]" rest] by (auto simp: cJSON_Minify_def)

text \<open>
  C28: \<open>cJSON_Minify\<close> of a printed item, formatted or not, stays inside its buffer and leaves
  there exactly what \<open>cJSON_PrintUnformatted\<close> prints of the item, which therefore parses back to it;
  provided no string and no key of the item ends with a backslash.
\<close>

theorem minify_compacts:
  assumes "wf_json j" and "tidy j" and "print_value fmt 0 j = Some t"
  shows "\<exists>b u. cJSON_Minify (Some (t @ nul # rest)) = Some (Some b) \<and> length b = length (t @ nul # rest) \<and>
    cJSON_PrintUnformatted j = Some u \<and> c_str b = u \<and> cJSON_Parse (c_str b) = Some j"
proof -
  obtain u where u: "print_value False 0 j = Some u" "minify (t @ []) = u @ minify []"
    using minify_printed_mutual(1) [OF assms(3,1,2)] by blast
  note printed = parse_printed [OF assms(1) u(1)]
  obtain z where z: "cJSON_Minify (Some (t @ nul # rest)) = Some (Some (u @ nul # z))"
      "length (u @ nul # z) = length (t @ nul # rest)"
    using minify_in_place [of t rest] parse_printed [OF assms(1,3)] u(2) by auto
  have "c_str (u @ nul # z) = u" using printed by (simp add: c_str_before_nul)
  with z u(1) printed show ?thesis by (auto simp: cJSON_PrintUnformatted_def)
qed

theorem minify_compacts_witness:
  "\<exists>b. cJSON_Minify (Some ((CHR ''['' # print_string_ptr [CHR ''a'', CHR 0x22] @ '', 5]'') @ nul # ''x'')) = Some (Some b) \<and>
     c_str b = CHR ''['' # print_string_ptr [CHR ''a'', CHR 0x22] @ '',5]''"
proof -
  let ?j = "cJSON_Array [cJSON_String [CHR ''a'', CHR 0x22], cJSON_Number 5 (dbl_of_int 5)]"
  have five: "show_int 5 = ''5''" by code_simp
  have "wf_json ?j" "tidy ?j" by (simp_all add: is_int32_def unbackslashed_def)
  from minify_compacts [OF this, of True "CHR ''['' # print_string_ptr [CHR ''a'', CHR 0x22] @ '', 5]''" "''x''"]
  show ?thesis by (auto simp: cJSON_PrintUnformatted_def is_int32_def five)
qed

text \<open>Strings that end with a backslash: the space in the second string is lost.\<close>

lemma minify_loses_space:
  "print_value False 0 (cJSON_Array [cJSON_String [CHR 0x5C], cJSON_String '' '']) = Some t \<Longrightarrow>
     c_str (the (the (cJSON_Minify (Some (t @ [nul]))))) =
       the (print_value False 0 (cJSON_Array [cJSON_String [CHR 0x5C], cJSON_String '''']))"
proof -
  assume t: "print_value False 0 (cJSON_Array [cJSON_String [CHR 0x5C], cJSON_String '' '']) = Some t"
  then have t': "t = [CHR ''['', CHR 0x22, CHR 0x5C, CHR 0x5C, CHR 0x22, CHR '','', CHR 0x22, CHR '' '', CHR 0x22, CHR '']'']"
    by (auto simp: print_string_ptr_def escape_char_def)
  have m: "minify t = [CHR ''['', CHR 0x22, CHR 0x5C, CHR 0x5C, CHR 0x22, CHR '','', CHR 0x22, CHR 0x22, CHR '']'']"
    unfolding t' by (simp add: minify.simps)
  obtain z where "cJSON_Minify (Some (t @ [nul])) = Some (Some (minify t @ nul # z))"
    using minify_in_place [of t "[]"] t' by auto
  then show ?thesis by (simp add: m c_str_def print_string_ptr_def escape_char_def)
qed

end
