(* ===== verification/CJson_Heap.thy ===== *)
theory CJson_Heap
  imports CJson "HOL-Library.Monad_Syntax"
begin

section \<open>Items in memory: the linked structure of cJSON\<close>

text \<open>
  The items of \<open>src/cJSON.c\<close> as the code keeps them: cells of a heap with \<open>next\<close>, \<open>prev\<close> and
  \<open>child\<close> pointers, where the first of a chain of children has the last one as its \<open>prev\<close>. An
  operation on the heap is \<open>None\<close> when it follows a null or dangling pointer. The strings of
  an item are values of its cell; they are allocated and freed with it.

  \<open>seg\<close> is a doubly linked segment, \<open>tree_at\<close> says that a heap holds a tree of items with all its
  chains closed the way the code closes them.
\<close>

type_synonym addr = nat

record cjson_data =
  node_type :: "32 word"
  node_valuestring :: "string option"
  node_valueint :: int
  node_valuedouble :: dbl
  node_string :: "string option"

record cjson_item =
  next_item :: "addr option"
  prev_item :: "addr option"
  child_item :: "addr option"
  item_data :: cjson_data

type_synonym cjson_heap = "addr \<rightharpoonup> cjson_item"

abbreviation cJSON_IsReference :: "32 word" where "cJSON_IsReference \<equiv> 256"
abbreviation cJSON_StringIsConst :: "32 word" where "cJSON_StringIsConst \<equiv> 512"

definition is_reference :: "cjson_data \<Rightarrow> bool" where
  "is_reference d \<longleftrightarrow> node_type d AND cJSON_IsReference \<noteq> 0"

text \<open>Reading and writing through a pointer.\<close>

definition load :: "cjson_heap \<Rightarrow> addr option \<Rightarrow> cjson_item option" where
  "load h p = Option.bind p h"

definition update :: "cjson_heap \<Rightarrow> addr option \<Rightarrow> (cjson_item \<Rightarrow> cjson_item) \<Rightarrow> cjson_heap option" where
  "update h p f = do { a \<leftarrow> p; n \<leftarrow> h a; Some (h(a \<mapsto> f n)) }"

lemma load_simps [simp]: "load h None = None" "load h (Some a) = h a"
  by (simp_all add: load_def)

lemma update_simps [simp]:
  "update h None f = None"
  "h a = Some n \<Longrightarrow> update h (Some a) f = Some (h(a \<mapsto> f n))"
  by (simp_all add: update_def)

subsection \<open>Releasing\<close>

text \<open>
  \<open>cJSON_Delete\<close> frees an item, what it has below it and all that follows it in its chain. Freeing
  a cell that is not allocated is a fault.
\<close>

definition free_item :: "cjson_heap \<Rightarrow> addr \<Rightarrow> cjson_heap option" where
  "free_item h a = (if h a = None then None else Some (h(a := None)))"

partial_function (option) cJSON_Delete :: "cjson_heap \<Rightarrow> addr option \<Rightarrow> cjson_heap option" where
  "cJSON_Delete h item =
     (case item of
        None \<Rightarrow> Some h
      | Some a \<Rightarrow> do {
          n \<leftarrow> h a;
          h1 \<leftarrow> (if \<not> is_reference (item_data n) \<and> child_item n \<noteq> None
                then cJSON_Delete h (child_item n) else Some h);
          h2 \<leftarrow> free_item h1 a;
          cJSON_Delete h2 (next_item n)
        })"

lemma cJSON_Delete_None [simp]: "cJSON_Delete h None = Some h"
  by (subst cJSON_Delete.simps) simp

subsection \<open>Doubly linked segments\<close>

text \<open>
  \<open>seg h q p as r l\<close>: from \<open>p\<close> on, the addresses \<open>as\<close> are linked in this order, \<open>q\<close> before the first
  and \<open>r\<close> after the last; \<open>l\<close> is the last of them, or \<open>q\<close> when there is none.
\<close>

fun seg :: "cjson_heap \<Rightarrow> addr option \<Rightarrow> addr option \<Rightarrow> addr list \<Rightarrow> addr option \<Rightarrow> addr option \<Rightarrow> bool" where
  "seg h q p [] r l \<longleftrightarrow> p = r \<and> l = q"
| "seg h q p (a # as) r l \<longleftrightarrow>
     p = Some a \<and> (\<exists>n. h a = Some n \<and> prev_item n = q \<and> seg h (Some a) (next_item n) as r l)"

definition ring :: "cjson_heap \<Rightarrow> addr option \<Rightarrow> addr list \<Rightarrow> bool" where
  "ring h p as \<longleftrightarrow> (\<exists>l. seg h l p as None l)"

lemma seg_append:
  "seg h q p (as @ bs) r l \<longleftrightarrow> (\<exists>p' l'. seg h q p as p' l' \<and> seg h l' p' bs r l)"
  by (induction as arbitrary: q p) auto

lemma seg_upd [simp]: "a \<notin> set as \<Longrightarrow> seg (h(a := v)) q p as r l = seg h q p as r l"
  by (induction as arbitrary: q p) auto

lemma seg_cong: "(\<And>a. a \<in> set as \<Longrightarrow> h' a = h a) \<Longrightarrow> seg h' q p as r l = seg h q p as r l"
  by (induction as arbitrary: q p) auto

lemma seg_last: "seg h q p as r l \<Longrightarrow> as \<noteq> [] \<Longrightarrow> l = Some (last as)"
  by (induction as arbitrary: q p) (auto split: if_splits)

lemma seg_first: "seg h q p as r l \<Longrightarrow> as \<noteq> [] \<Longrightarrow> p = Some (hd as)"
  by (cases as) auto

lemma seg_alloc: "seg h q p as r l \<Longrightarrow> a \<in> set as \<Longrightarrow> \<exists>n. h a = Some n"
  by (induction as arbitrary: q p) auto

lemma ring_Nil [simp]: "ring h p [] \<longleftrightarrow> p = None"
  by (simp add: ring_def)

lemma ring_None [simp]: "ring h None as \<longleftrightarrow> as = []"
  by (cases as) (simp_all add: ring_def)

lemma ring_nonempty:
  assumes "as \<noteq> []"
  shows "ring h p as \<longleftrightarrow> seg h (Some (last as)) p as None (Some (last as))"
  unfolding ring_def using seg_last [OF _ assms] by blast

lemma ring_cong: "(\<And>a. a \<in> set as \<Longrightarrow> h' a = h a) \<Longrightarrow> ring h' p as = ring h p as"
  by (simp add: ring_def cong: seg_cong)

lemma ring_upd [simp]: "a \<notin> set as \<Longrightarrow> ring (h(a := v)) p as = ring h p as"
  by (simp add: ring_def)

subsection \<open>Trees\<close>

datatype tree = Tree (tree_addr: addr) (tree_data: cjson_data) (kids: "tree list")

fun addrs :: "tree \<Rightarrow> addr list" where
  "addrs (Tree a d ts) = a # concat (map addrs ts)"

text \<open>
  A reference does not own what its \<open>child\<close> points to; its tree has no children and the pointer is
  free.
\<close>

fun tree_at :: "cjson_heap \<Rightarrow> tree \<Rightarrow> bool" where
  "tree_at h (Tree a d ts) \<longleftrightarrow>
     (\<exists>n. h a = Some n \<and> item_data n = d \<and>
        (if is_reference d then ts = [] else ring h (child_item n) (map tree_addr ts))) \<and>
     (\<forall>t\<in>set ts. tree_at h t)"

definition all_addrs :: "tree list \<Rightarrow> addr list" where
  "all_addrs ts = concat (map addrs ts)"

lemma all_addrs_simps [simp]:
  "all_addrs [] = []"
  "all_addrs (t # ts) = addrs t @ all_addrs ts"
  "all_addrs (ts @ us) = all_addrs ts @ all_addrs us"
  by (simp_all add: all_addrs_def)

lemma set_all_addrs: "set (all_addrs ts) = (\<Union>t\<in>set ts. set (addrs t))"
  by (simp add: all_addrs_def)

lemma addrs_Tree [simp]: "addrs (Tree a d ts) = a # all_addrs ts"
  by (simp add: all_addrs_def)

declare addrs.simps [simp del]

lemma tree_addr_in [simp]: "tree_addr t \<in> set (addrs t)"
  by (cases t) simp

lemma kids_addrs: "x \<in> set (all_addrs (kids t)) \<Longrightarrow> x \<in> set (addrs t)"
  by (cases t) simp

lemma tree_addrs_subset: "set (map tree_addr ts) \<subseteq> set (all_addrs ts)"
  by (auto simp: set_all_addrs)

lemma in_all_addrs [intro]: "t \<in> set ts \<Longrightarrow> tree_addr t \<in> set (all_addrs ts)"
  using tree_addrs_subset by auto

lemma distinct_tree_addrs: "distinct (all_addrs ts) \<Longrightarrow> distinct (map tree_addr ts)"
proof (induction ts)
  case (Cons t ts)
  then have "tree_addr t \<notin> set (all_addrs ts)" by (simp add: disjoint_iff)
  then show ?case using Cons tree_addrs_subset [of ts] by auto
qed simp

lemma tree_at_alloc: "tree_at h t \<Longrightarrow> x \<in> set (addrs t) \<Longrightarrow> \<exists>n. h x = Some n"
  by (induction t rule: addrs.induct) (auto simp: set_all_addrs)

text \<open>What a tree is depends on its own cells only, and not on the links of its root.\<close>

lemma tree_at_cong:
  assumes "\<And>x. x \<in> set (all_addrs (kids t)) \<Longrightarrow> h' x = h x"
    and "map_option (\<lambda>n. (item_data n, child_item n)) (h' (tree_addr t)) =
         map_option (\<lambda>n. (item_data n, child_item n)) (h (tree_addr t))"
  shows "tree_at h' t = tree_at h t"
  using assms
proof (induction h t rule: tree_at.induct)
  case (1 h a d ts)
  have "tree_at h' t = tree_at h t" if t: "t \<in> set ts" for t
  proof -
    have sub: "h' x = h x" if "x \<in> set (addrs t)" for x
      using "1.prems"(1) t that by (auto simp: set_all_addrs)
    then show ?thesis
      by (intro "1.IH" [OF t]) (simp_all add: kids_addrs)
  qed
  moreover have "ring h' p (map tree_addr ts) = ring h p (map tree_addr ts)" for p
    using "1.prems"(1) tree_addrs_subset [of ts] by (intro ring_cong) auto
  ultimately show ?case using "1.prems"(2) by (auto simp: map_option_case split: option.splits)
qed

lemma tree_at_same:
  assumes "\<And>x. x \<in> set (addrs t) \<Longrightarrow> h' x = h x"
  shows "tree_at h' t = tree_at h t"
proof (rule tree_at_cong)
  show "h' x = h x" if "x \<in> set (all_addrs (kids t))" for x
    using assms that by (simp add: kids_addrs)
qed (simp add: assms)

lemma tree_at_upd [simp]: "a \<notin> set (addrs t) \<Longrightarrow> tree_at (h(a := v)) t = tree_at h t"
  by (rule tree_at_same) auto

subsection \<open>What is released\<close>

lemma cJSON_Delete_Some:
  "cJSON_Delete h (Some a) = do {
     n \<leftarrow> h a;
     h1 \<leftarrow> (if \<not> is_reference (item_data n) \<and> child_item n \<noteq> None
           then cJSON_Delete h (child_item n) else Some h);
     h2 \<leftarrow> free_item h1 a;
     cJSON_Delete h2 (next_item n)
   }"
  by (subst cJSON_Delete.simps) simp

lemma restrict_all [simp]: "h |` UNIV = h"
  by (simp add: restrict_map_def)

text \<open>A chain of trees is freed whole, every cell once and nothing else.\<close>

lemma delete_chain:
  "seg h q p (map tree_addr ts) None l \<Longrightarrow> \<forall>t\<in>set ts. tree_at h t \<Longrightarrow> distinct (all_addrs ts) \<Longrightarrow>
     cJSON_Delete h p = Some (h |` (- set (all_addrs ts)))"
proof (induction "length (all_addrs ts)" arbitrary: h q p ts l rule: less_induct)
  case less
  show ?case
  proof (cases ts)
    case Nil
    with less.prems(1) show ?thesis by simp
  next
    case (Cons t us)
    obtain a d cs where t: "t = Tree a d cs" by (cases t)
    obtain n where p: "p = Some a" and n: "h a = Some n"
        and us: "seg h (Some a) (next_item n) (map tree_addr us) None l"
      using less.prems(1) Cons t by auto
    have fresh: "a \<notin> set (all_addrs cs)" "a \<notin> set (all_addrs us)"
        "set (all_addrs cs) \<inter> set (all_addrs us) = {}" "distinct (all_addrs cs)" "distinct (all_addrs us)"
      using less.prems(3) Cons t by (auto simp: all_addrs_def)
    have tr: "\<forall>t\<in>set cs. tree_at h t"
        "if is_reference d then cs = [] else ring h (child_item n) (map tree_addr cs)" "item_data n = d"
      using less.prems(2) Cons t n by auto
    define h1 where "h1 = h |` (- set (all_addrs cs))"
    have "(if \<not> is_reference (item_data n) \<and> child_item n \<noteq> None
        then cJSON_Delete h (child_item n) else Some h) = Some h1"
    proof (cases "is_reference d \<or> child_item n = None")
      case True
      with tr have "cs = []" by (auto split: if_splits)
      with True tr(3) show ?thesis by (auto simp: h1_def)
    next
      case False
      then obtain l' where "seg h l' (child_item n) (map tree_addr cs) None l'"
        using tr(2) by (auto simp: ring_def)
      from less.hyps [OF _ this tr(1) fresh(4)] False tr(3) Cons t show ?thesis
        by (simp add: h1_def addrs_Tree)
    qed
    moreover have "free_item h1 a = Some (h1(a := None))"
      using n fresh(1) by (simp add: free_item_def h1_def)
    moreover have "cJSON_Delete (h1(a := None)) (next_item n) =
        Some (h1(a := None) |` (- set (all_addrs us)))"
    proof (rule less.hyps)
      show "length (all_addrs us) < length (all_addrs ts)" using Cons t by simp
      have same: "(h1(a := None)) x = h x" if "x \<in> set (all_addrs us)" for x
        using that fresh by (auto simp: h1_def restrict_map_def)
      show "seg (h1(a := None)) (Some a) (next_item n) (map tree_addr us) None l"
        using us same by (subst seg_cong [of _ _ h]) (auto simp del: fun_upd_apply)
      show "\<forall>t\<in>set us. tree_at (h1(a := None)) t"
      proof
        fix u assume u: "u \<in> set us"
        then have "tree_at (h1(a := None)) u = tree_at h u"
          using same by (intro tree_at_same) (auto simp: set_all_addrs simp del: fun_upd_apply)
        with u less.prems(2) Cons show "tree_at (h1(a := None)) u" by simp
      qed
    qed (rule fresh(5))
    ultimately have "cJSON_Delete h p = Some (h1(a := None) |` (- set (all_addrs us)))"
      by (simp add: p n cJSON_Delete_Some)
    also have "h1(a := None) |` (- set (all_addrs us)) = h |` (- set (all_addrs ts))"
      using Cons t by (auto simp: h1_def restrict_map_def addrs_Tree)
    finally show ?thesis .
  qed
qed

text \<open>An item on its own, not in any chain.\<close>

definition root_at :: "cjson_heap \<Rightarrow> tree \<Rightarrow> bool" where
  "root_at h t \<longleftrightarrow> tree_at h t \<and> distinct (addrs t) \<and>
     (\<forall>n. h (tree_addr t) = Some n \<longrightarrow> next_item n = None \<and> prev_item n = None)"

lemma delete_root:
  assumes "root_at h t"
  shows "cJSON_Delete h (Some (tree_addr t)) = Some (h |` (- set (addrs t)))"
proof -
  obtain n where "h (tree_addr t) = Some n" 
    using assms tree_at_alloc [of h t "tree_addr t"] by (auto simp: root_at_def)
  then have "seg h None (Some (tree_addr t)) (map tree_addr [t]) None (Some (tree_addr t))"
    using assms by (auto simp: root_at_def)
  from delete_chain [OF this] assms show ?thesis by (simp add: root_at_def)
qed

end
