(* ===== verification/CJson_Edit.thy ===== *)
theory CJson_Edit
  imports CJson_Heap
begin

section \<open>Editing arrays and objects in memory\<close>

text \<open>
  The functions of \<open>src/cJSON.c\<close> that link items into arrays and objects and take them out again,
  on the heap of \<open>CJson_Heap\<close>. A result is \<open>None\<close> when the code would follow a null or dangling
  pointer; a pointer argument is \<open>None\<close> for NULL. Memory comes from \<open>hooks\<close>: an allocator, which
  may refuse, and whether a string can be copied.
\<close>

subsection \<open>Creating items\<close>

record hooks =
  allocate :: "cjson_heap \<Rightarrow> addr option"
  strdup :: "cjson_heap \<Rightarrow> string \<Rightarrow> bool"

text \<open>An allocator never hands out memory that is in use.\<close>

definition hooks_law :: "hooks \<Rightarrow> bool" where
  "hooks_law hk \<longleftrightarrow> (\<forall>h a. allocate hk h = Some a \<longrightarrow> h a = None)"

definition zero_data :: cjson_data where
  "zero_data = \<lparr>node_type = 0, node_valuestring = None, node_valueint = 0, node_valuedouble = DFin 0 0,
     node_string = None\<rparr>"

definition cJSON_New_Item :: "hooks \<Rightarrow> cjson_heap \<Rightarrow> addr option \<times> cjson_heap" where
  "cJSON_New_Item hk h =
     (case allocate hk h of
        None \<Rightarrow> (None, h)
      | Some a \<Rightarrow> (Some a, h(a \<mapsto> \<lparr>next_item = None, prev_item = None, child_item = None,
          item_data = zero_data\<rparr>)))"

text \<open>The constructors without strings differ in the data they fill in.\<close>

definition create_item :: "hooks \<Rightarrow> cjson_data \<Rightarrow> cjson_heap \<Rightarrow> addr option \<times> cjson_heap" where
  "create_item hk d h =
     (case cJSON_New_Item hk h of
        (None, h) \<Rightarrow> (None, h)
      | (Some a, h) \<Rightarrow> (Some a, h(a := map_option (\<lambda>n. n\<lparr>item_data := d\<rparr>) (h a))))"

definition cJSON_CreateNull :: "hooks \<Rightarrow> cjson_heap \<Rightarrow> addr option \<times> cjson_heap" where
  "cJSON_CreateNull hk = create_item hk (zero_data\<lparr>node_type := 4\<rparr>)"

definition cJSON_CreateTrue :: "hooks \<Rightarrow> cjson_heap \<Rightarrow> addr option \<times> cjson_heap" where
  "cJSON_CreateTrue hk = create_item hk (zero_data\<lparr>node_type := 2\<rparr>)"

definition cJSON_CreateFalse :: "hooks \<Rightarrow> cjson_heap \<Rightarrow> addr option \<times> cjson_heap" where
  "cJSON_CreateFalse hk = create_item hk (zero_data\<lparr>node_type := 1\<rparr>)"

definition cJSON_CreateBool :: "hooks \<Rightarrow> bool \<Rightarrow> cjson_heap \<Rightarrow> addr option \<times> cjson_heap" where
  "cJSON_CreateBool hk b = create_item hk (zero_data\<lparr>node_type := if b then 2 else 1\<rparr>)"

definition cJSON_CreateArray :: "hooks \<Rightarrow> cjson_heap \<Rightarrow> addr option \<times> cjson_heap" where
  "cJSON_CreateArray hk = create_item hk (zero_data\<lparr>node_type := 32\<rparr>)"

definition cJSON_CreateObject :: "hooks \<Rightarrow> cjson_heap \<Rightarrow> addr option \<times> cjson_heap" where
  "cJSON_CreateObject hk = create_item hk (zero_data\<lparr>node_type := 64\<rparr>)"

definition cJSON_CreateNumber_at :: "hooks \<Rightarrow> dbl \<Rightarrow> cjson_heap \<Rightarrow> addr option \<times> cjson_heap" where
  "cJSON_CreateNumber_at hk num = create_item hk
     (zero_data\<lparr>node_type := 8, node_valuedouble := num, node_valueint := double_to_int num\<rparr>)"

definition create_with_string ::
    "hooks \<Rightarrow> 32 word \<Rightarrow> string option \<Rightarrow> cjson_heap \<Rightarrow> (addr option \<times> cjson_heap) option" where
  "create_with_string hk ty str h =
     (case create_item hk (zero_data\<lparr>node_type := ty\<rparr>) h of
        (None, h1) \<Rightarrow> Some (None, h1)
      | (Some a, h1) \<Rightarrow>
          (case str of
             Some s \<Rightarrow>
               if strdup hk h1 s
               then do { h2 \<leftarrow> update h1 (Some a)
                            (\<lambda>n. n\<lparr>item_data := item_data n\<lparr>node_valuestring := Some (c_str s)\<rparr>\<rparr>);
                         Some (Some a, h2) }
               else do { h2 \<leftarrow> cJSON_Delete h1 (Some a); Some (None, h2) }
           | None \<Rightarrow> do { h2 \<leftarrow> cJSON_Delete h1 (Some a); Some (None, h2) }))"

definition cJSON_CreateString ::
    "hooks \<Rightarrow> string option \<Rightarrow> cjson_heap \<Rightarrow> (addr option \<times> cjson_heap) option" where
  "cJSON_CreateString hk = create_with_string hk 16"

definition cJSON_CreateRaw ::
    "hooks \<Rightarrow> string option \<Rightarrow> cjson_heap \<Rightarrow> (addr option \<times> cjson_heap) option" where
  "cJSON_CreateRaw hk = create_with_string hk 128"

definition create_reference ::
    "hooks \<Rightarrow> addr option \<Rightarrow> cjson_heap \<Rightarrow> (addr option \<times> cjson_heap) option" where
  "create_reference hk item h =
     (if item = None then Some (None, h)
      else case cJSON_New_Item hk h of
        (None, h1) \<Rightarrow> Some (None, h1)
      | (Some a, h1) \<Rightarrow> do {
          n \<leftarrow> load h1 item;
          let d = item_data n;
          Some (Some a, h1(a \<mapsto> n\<lparr>next_item := None, prev_item := None,
            item_data := d\<lparr>node_string := None, node_type := node_type d OR cJSON_IsReference\<rparr>\<rparr>))
        })"

subsection \<open>Looking items up\<close>

primrec nth_item :: "nat \<Rightarrow> cjson_heap \<Rightarrow> addr option \<Rightarrow> addr option option" where
  "nth_item 0 h p = Some p"
| "nth_item (Suc i) h p =
     (case p of None \<Rightarrow> Some None | Some a \<Rightarrow> do { n \<leftarrow> h a; nth_item i h (next_item n) })"

definition get_array_item :: "cjson_heap \<Rightarrow> addr option \<Rightarrow> nat \<Rightarrow> addr option option" where
  "get_array_item h array index =
     (if array = None then Some None else do { n \<leftarrow> load h array; nth_item index h (child_item n) })"

definition cJSON_GetArrayItem :: "cjson_heap \<Rightarrow> addr option \<Rightarrow> int \<Rightarrow> addr option option" where
  "cJSON_GetArrayItem h array index =
     (if index < 0 then Some None else get_array_item h array (nat index))"

partial_function (option) chain_length :: "cjson_heap \<Rightarrow> addr option \<Rightarrow> nat option" where
  "chain_length h p =
     (case p of None \<Rightarrow> Some 0
      | Some a \<Rightarrow> do { n \<leftarrow> h a; k \<leftarrow> chain_length h (next_item n); Some (Suc k) })"

definition cJSON_GetArraySize :: "cjson_heap \<Rightarrow> addr option \<Rightarrow> int option" where
  "cJSON_GetArraySize h array =
     (if array = None then Some 0
      else do { n \<leftarrow> load h array; size \<leftarrow> chain_length h (child_item n); Some (int32 (int size)) })"

text \<open>
  The case-sensitive search stops at an item without a name, the other one goes on: comparing with
  a null string is never equal there.
\<close>

partial_function (option) find_member ::
    "cjson_heap \<Rightarrow> string \<Rightarrow> bool \<Rightarrow> addr option \<Rightarrow> addr option option" where
  "find_member h name case_sensitive p =
     (case p of None \<Rightarrow> Some None
      | Some a \<Rightarrow> do {
          n \<leftarrow> h a;
          (case node_string (item_data n) of
             None \<Rightarrow> if case_sensitive then Some None
                     else find_member h name case_sensitive (next_item n)
           | Some key \<Rightarrow>
               if (if case_sensitive then name = key else case_insensitive_eq name key) then Some p
               else find_member h name case_sensitive (next_item n))
        })"

lemma find_member_None [simp]: "find_member h name cs None = Some None"
  by (subst find_member.simps) simp

definition get_object_item_at ::
    "cjson_heap \<Rightarrow> addr option \<Rightarrow> string option \<Rightarrow> bool \<Rightarrow> addr option option" where
  "get_object_item_at h object name case_sensitive =
     (case name of
        None \<Rightarrow> Some None
      | Some s \<Rightarrow>
          if object = None then Some None
          else do { n \<leftarrow> load h object; find_member h s case_sensitive (child_item n) })"

subsection \<open>Adding\<close>

definition suffix_object :: "cjson_heap \<Rightarrow> addr option \<Rightarrow> addr option \<Rightarrow> cjson_heap option" where
  "suffix_object h prev item = do {
     h1 \<leftarrow> update h prev (\<lambda>n. n\<lparr>next_item := item\<rparr>);
     update h1 item (\<lambda>n. n\<lparr>prev_item := prev\<rparr>)
   }"

text \<open>The last item of a chain is the \<open>prev\<close> of its first.\<close>

definition add_item_to_array ::
    "cjson_heap \<Rightarrow> addr option \<Rightarrow> addr option \<Rightarrow> (bool \<times> cjson_heap) option" where
  "add_item_to_array h array item =
     (if item = None \<or> array = None \<or> array = item then Some (False, h)
      else do {
        an \<leftarrow> load h array;
        (case child_item an of
           None \<Rightarrow> do {
             h1 \<leftarrow> update h array (\<lambda>n. n\<lparr>child_item := item\<rparr>);
             h2 \<leftarrow> update h1 item (\<lambda>n. n\<lparr>prev_item := item, next_item := None\<rparr>);
             Some (True, h2)
           }
         | Some child \<Rightarrow> do {
             cn \<leftarrow> h child;
             if prev_item cn = None then Some (True, h)
             else do {
               h1 \<leftarrow> suffix_object h (prev_item cn) item;
               an1 \<leftarrow> load h1 array;
               h2 \<leftarrow> update h1 (child_item an1) (\<lambda>n. n\<lparr>prev_item := item\<rparr>);
               Some (True, h2)
             }
           })
      })"

definition cJSON_AddItemToArray ::
    "cjson_heap \<Rightarrow> addr option \<Rightarrow> addr option \<Rightarrow> (bool \<times> cjson_heap) option" where
  "cJSON_AddItemToArray = add_item_to_array"

definition with_key :: "bool \<Rightarrow> string \<Rightarrow> cjson_data \<Rightarrow> cjson_data" where
  "with_key constant_key s d = d\<lparr>node_string := Some (c_str s),
     node_type := (if constant_key then node_type d OR cJSON_StringIsConst
                   else node_type d AND NOT cJSON_StringIsConst)\<rparr>"

definition add_item_to_object_at ::
    "hooks \<Rightarrow> cjson_heap \<Rightarrow> addr option \<Rightarrow> string option \<Rightarrow> addr option \<Rightarrow> bool \<Rightarrow>
       (bool \<times> cjson_heap) option" where
  "add_item_to_object_at hk h object str item constant_key =
     (case str of
        None \<Rightarrow> Some (False, h)
      | Some s \<Rightarrow>
          if object = None \<or> item = None \<or> object = item then Some (False, h)
          else if \<not> constant_key \<and> \<not> strdup hk h s then Some (False, h)
          else do {
            h1 \<leftarrow> update h item (\<lambda>n. n\<lparr>item_data := with_key constant_key s (item_data n)\<rparr>);
            add_item_to_array h1 object item
          })"

definition cJSON_AddItemToObject ::
    "hooks \<Rightarrow> cjson_heap \<Rightarrow> addr option \<Rightarrow> string option \<Rightarrow> addr option \<Rightarrow> (bool \<times> cjson_heap) option" where
  "cJSON_AddItemToObject hk h object str item = add_item_to_object_at hk h object str item False"

definition cJSON_AddItemToObjectCS ::
    "hooks \<Rightarrow> cjson_heap \<Rightarrow> addr option \<Rightarrow> string option \<Rightarrow> addr option \<Rightarrow> (bool \<times> cjson_heap) option" where
  "cJSON_AddItemToObjectCS hk h object str item = add_item_to_object_at hk h object str item True"

definition cJSON_AddItemReferenceToArray ::
    "hooks \<Rightarrow> cjson_heap \<Rightarrow> addr option \<Rightarrow> addr option \<Rightarrow> (bool \<times> cjson_heap) option" where
  "cJSON_AddItemReferenceToArray hk h array item =
     (if array = None then Some (False, h)
      else do { (r, h1) \<leftarrow> create_reference hk item h; add_item_to_array h1 array r })"

definition cJSON_AddItemReferenceToObject ::
    "hooks \<Rightarrow> cjson_heap \<Rightarrow> addr option \<Rightarrow> string option \<Rightarrow> addr option \<Rightarrow> (bool \<times> cjson_heap) option" where
  "cJSON_AddItemReferenceToObject hk h object str item =
     (if object = None \<or> str = None then Some (False, h)
      else do { (r, h1) \<leftarrow> create_reference hk item h; add_item_to_object_at hk h1 object str r False })"

text \<open>Creating an item and adding it, or releasing it again when that fails.\<close>

definition add_or_delete ::
    "hooks \<Rightarrow> addr option \<Rightarrow> string option \<Rightarrow> addr option \<times> cjson_heap \<Rightarrow> (addr option \<times> cjson_heap) option" where
  "add_or_delete hk object name created =
     (case created of (item, h1) \<Rightarrow> do {
        (ok, h2) \<leftarrow> add_item_to_object_at hk h1 object name item False;
        if ok then Some (item, h2) else do { h3 \<leftarrow> cJSON_Delete h2 item; Some (None, h3) }
      })"

definition cJSON_AddNullToObject ::
    "hooks \<Rightarrow> cjson_heap \<Rightarrow> addr option \<Rightarrow> string option \<Rightarrow> (addr option \<times> cjson_heap) option" where
  "cJSON_AddNullToObject hk h object name = add_or_delete hk object name (cJSON_CreateNull hk h)"

definition cJSON_AddTrueToObject ::
    "hooks \<Rightarrow> cjson_heap \<Rightarrow> addr option \<Rightarrow> string option \<Rightarrow> (addr option \<times> cjson_heap) option" where
  "cJSON_AddTrueToObject hk h object name = add_or_delete hk object name (cJSON_CreateTrue hk h)"

definition cJSON_AddFalseToObject ::
    "hooks \<Rightarrow> cjson_heap \<Rightarrow> addr option \<Rightarrow> string option \<Rightarrow> (addr option \<times> cjson_heap) option" where
  "cJSON_AddFalseToObject hk h object name = add_or_delete hk object name (cJSON_CreateFalse hk h)"

definition cJSON_AddBoolToObject ::
    "hooks \<Rightarrow> cjson_heap \<Rightarrow> addr option \<Rightarrow> string option \<Rightarrow> bool \<Rightarrow> (addr option \<times> cjson_heap) option" where
  "cJSON_AddBoolToObject hk h object name b = add_or_delete hk object name (cJSON_CreateBool hk b h)"

definition cJSON_AddArrayToObject ::
    "hooks \<Rightarrow> cjson_heap \<Rightarrow> addr option \<Rightarrow> string option \<Rightarrow> (addr option \<times> cjson_heap) option" where
  "cJSON_AddArrayToObject hk h object name = add_or_delete hk object name (cJSON_CreateArray hk h)"

definition cJSON_AddObjectToObject ::
    "hooks \<Rightarrow> cjson_heap \<Rightarrow> addr option \<Rightarrow> string option \<Rightarrow> (addr option \<times> cjson_heap) option" where
  "cJSON_AddObjectToObject hk h object name = add_or_delete hk object name (cJSON_CreateObject hk h)"

definition cJSON_AddNumberToObject_at ::
    "hooks \<Rightarrow> cjson_heap \<Rightarrow> addr option \<Rightarrow> string option \<Rightarrow> dbl \<Rightarrow> (addr option \<times> cjson_heap) option" where
  "cJSON_AddNumberToObject_at hk h object name num =
     add_or_delete hk object name (cJSON_CreateNumber_at hk num h)"

definition cJSON_AddStringToObject_at ::
    "hooks \<Rightarrow> cjson_heap \<Rightarrow> addr option \<Rightarrow> string option \<Rightarrow> string option \<Rightarrow>
       (addr option \<times> cjson_heap) option" where
  "cJSON_AddStringToObject_at hk h object name str =
     do { created \<leftarrow> cJSON_CreateString hk str h; add_or_delete hk object name created }"

definition cJSON_AddRawToObject ::
    "hooks \<Rightarrow> cjson_heap \<Rightarrow> addr option \<Rightarrow> string option \<Rightarrow> string option \<Rightarrow>
       (addr option \<times> cjson_heap) option" where
  "cJSON_AddRawToObject hk h object name raw =
     do { created \<leftarrow> cJSON_CreateRaw hk raw h; add_or_delete hk object name created }"

subsection \<open>Taking items out\<close>

definition cJSON_DetachItemViaPointer ::
    "cjson_heap \<Rightarrow> addr option \<Rightarrow> addr option \<Rightarrow> (addr option \<times> cjson_heap) option" where
  "cJSON_DetachItemViaPointer h parent item =
     (if parent = None \<or> item = None then Some (None, h)
      else do {
        pn \<leftarrow> load h parent;
        n \<leftarrow> load h item;
        if item \<noteq> child_item pn \<and> prev_item n = None then Some (None, h)
        else do {
          h1 \<leftarrow> (if item \<noteq> child_item pn
                then update h (prev_item n) (\<lambda>b. b\<lparr>next_item := next_item n\<rparr>) else Some h);
          n1 \<leftarrow> load h1 item;
          h2 \<leftarrow> (if next_item n1 \<noteq> None
                then update h1 (next_item n1) (\<lambda>c. c\<lparr>prev_item := prev_item n1\<rparr>) else Some h1);
          p2 \<leftarrow> load h2 parent;
          n2 \<leftarrow> load h2 item;
          h3 \<leftarrow> (if item = child_item p2
                then update h2 parent (\<lambda>q. q\<lparr>child_item := next_item n2\<rparr>)
                else if next_item n2 = None
                then update h2 (child_item p2) (\<lambda>f. f\<lparr>prev_item := prev_item n2\<rparr>)
                else Some h2);
          h4 \<leftarrow> update h3 item (\<lambda>n. n\<lparr>prev_item := None, next_item := None\<rparr>);
          Some (item, h4)
        }
      })"

definition cJSON_DetachItemFromArray ::
    "cjson_heap \<Rightarrow> addr option \<Rightarrow> int \<Rightarrow> (addr option \<times> cjson_heap) option" where
  "cJSON_DetachItemFromArray h array which =
     (if which < 0 then Some (None, h)
      else do { item \<leftarrow> get_array_item h array (nat which); cJSON_DetachItemViaPointer h array item })"

definition cJSON_DeleteItemFromArray :: "cjson_heap \<Rightarrow> addr option \<Rightarrow> int \<Rightarrow> cjson_heap option" where
  "cJSON_DeleteItemFromArray h array which =
     do { (item, h1) \<leftarrow> cJSON_DetachItemFromArray h array which; cJSON_Delete h1 item }"

text \<open>\<open>False\<close> for the functions whose search ignores case, \<open>True\<close> for \<open>...CaseSensitive\<close>.\<close>

definition cJSON_DetachItemFromObject ::
    "cjson_heap \<Rightarrow> addr option \<Rightarrow> string option \<Rightarrow> (addr option \<times> cjson_heap) option" where
  "cJSON_DetachItemFromObject h object str =
     do { item \<leftarrow> get_object_item_at h object str False; cJSON_DetachItemViaPointer h object item }"

definition cJSON_DetachItemFromObjectCaseSensitive ::
    "cjson_heap \<Rightarrow> addr option \<Rightarrow> string option \<Rightarrow> (addr option \<times> cjson_heap) option" where
  "cJSON_DetachItemFromObjectCaseSensitive h object str =
     do { item \<leftarrow> get_object_item_at h object str True; cJSON_DetachItemViaPointer h object item }"

definition cJSON_DeleteItemFromObject ::
    "cjson_heap \<Rightarrow> addr option \<Rightarrow> string option \<Rightarrow> cjson_heap option" where
  "cJSON_DeleteItemFromObject h object str =
     do { (item, h1) \<leftarrow> cJSON_DetachItemFromObject h object str; cJSON_Delete h1 item }"

definition cJSON_DeleteItemFromObjectCaseSensitive ::
    "cjson_heap \<Rightarrow> addr option \<Rightarrow> string option \<Rightarrow> cjson_heap option" where
  "cJSON_DeleteItemFromObjectCaseSensitive h object str =
     do { (item, h1) \<leftarrow> cJSON_DetachItemFromObjectCaseSensitive h object str; cJSON_Delete h1 item }"

subsection \<open>Inserting and replacing\<close>

definition cJSON_InsertItemInArray ::
    "cjson_heap \<Rightarrow> addr option \<Rightarrow> int \<Rightarrow> addr option \<Rightarrow> (bool \<times> cjson_heap) option" where
  "cJSON_InsertItemInArray h array which newitem =
     (if which < 0 \<or> newitem = None then Some (False, h)
      else do {
        after \<leftarrow> get_array_item h array (nat which);
        if after = None then add_item_to_array h array newitem
        else do {
          pn \<leftarrow> load h array;
          an \<leftarrow> load h after;
          if after \<noteq> child_item pn \<and> prev_item an = None then Some (False, h)
          else do {
            h1 \<leftarrow> update h newitem (\<lambda>n. n\<lparr>next_item := after\<rparr>);
            an1 \<leftarrow> load h1 after;
            h2 \<leftarrow> update h1 newitem (\<lambda>n. n\<lparr>prev_item := prev_item an1\<rparr>);
            h3 \<leftarrow> update h2 after (\<lambda>n. n\<lparr>prev_item := newitem\<rparr>);
            p3 \<leftarrow> load h3 array;
            n3 \<leftarrow> load h3 newitem;
            h4 \<leftarrow> (if after = child_item p3
                  then update h3 array (\<lambda>q. q\<lparr>child_item := newitem\<rparr>)
                  else update h3 (prev_item n3) (\<lambda>b. b\<lparr>next_item := newitem\<rparr>));
            Some (True, h4)
          }
        }
      })"

definition cJSON_ReplaceItemViaPointer ::
    "cjson_heap \<Rightarrow> addr option \<Rightarrow> addr option \<Rightarrow> addr option \<Rightarrow> (bool \<times> cjson_heap) option" where
  "cJSON_ReplaceItemViaPointer h parent item replacement =
     (if parent = None then Some (False, h)
      else do {
        p0 \<leftarrow> load h parent;
        if child_item p0 = None \<or> replacement = None \<or> item = None then Some (False, h)
        else if replacement = item then Some (True, h)
        else do {
          n \<leftarrow> load h item;
          h1 \<leftarrow> update h replacement (\<lambda>r. r\<lparr>next_item := next_item n, prev_item := prev_item n\<rparr>);
          r1 \<leftarrow> load h1 replacement;
          h2 \<leftarrow> (if next_item r1 \<noteq> None
                then update h1 (next_item r1) (\<lambda>c. c\<lparr>prev_item := replacement\<rparr>) else Some h1);
          p2 \<leftarrow> load h2 parent;
          h3 \<leftarrow> (if child_item p2 = item
                then do {
                  c2 \<leftarrow> load h2 (child_item p2);
                  h2' \<leftarrow> (if prev_item c2 = child_item p2
                         then update h2 replacement (\<lambda>r. r\<lparr>prev_item := replacement\<rparr>) else Some h2);
                  update h2' parent (\<lambda>q. q\<lparr>child_item := replacement\<rparr>)
                }
                else do {
                  r2 \<leftarrow> load h2 replacement;
                  h2' \<leftarrow> (if prev_item r2 \<noteq> None
                         then update h2 (prev_item r2) (\<lambda>b. b\<lparr>next_item := replacement\<rparr>) else Some h2);
                  r3 \<leftarrow> load h2' replacement;
                  p3 \<leftarrow> load h2' parent;
                  if next_item r3 = None
                  then update h2' (child_item p3) (\<lambda>f. f\<lparr>prev_item := replacement\<rparr>) else Some h2'
                });
          h4 \<leftarrow> update h3 item (\<lambda>n. n\<lparr>next_item := None, prev_item := None\<rparr>);
          h5 \<leftarrow> cJSON_Delete h4 item;
          Some (True, h5)
        }
      })"

definition cJSON_ReplaceItemInArray ::
    "cjson_heap \<Rightarrow> addr option \<Rightarrow> int \<Rightarrow> addr option \<Rightarrow> (bool \<times> cjson_heap) option" where
  "cJSON_ReplaceItemInArray h array which newitem =
     (if which < 0 then Some (False, h)
      else do {
        item \<leftarrow> get_array_item h array (nat which);
        cJSON_ReplaceItemViaPointer h array item newitem
      })"

text \<open>The replacement gets the name even when no member has it.\<close>

definition replace_item_in_object ::
    "hooks \<Rightarrow> cjson_heap \<Rightarrow> addr option \<Rightarrow> string option \<Rightarrow> addr option \<Rightarrow> bool \<Rightarrow>
       (bool \<times> cjson_heap) option" where
  "replace_item_in_object hk h object str replacement case_sensitive =
     (if replacement = None then Some (False, h)
      else case str of
        None \<Rightarrow> Some (False, h)
      | Some s \<Rightarrow>
          if \<not> strdup hk h s
          then do {
            h1 \<leftarrow> update h replacement (\<lambda>n. n\<lparr>item_data := (item_data n)\<lparr>node_string := None\<rparr>\<rparr>);
            Some (False, h1)
          }
          else do {
            h1 \<leftarrow> update h replacement (\<lambda>n. n\<lparr>item_data := with_key False s (item_data n)\<rparr>);
            item \<leftarrow> get_object_item_at h1 object str case_sensitive;
            cJSON_ReplaceItemViaPointer h1 object item replacement
          })"

definition cJSON_ReplaceItemInObject ::
    "hooks \<Rightarrow> cjson_heap \<Rightarrow> addr option \<Rightarrow> string option \<Rightarrow> addr option \<Rightarrow> (bool \<times> cjson_heap) option" where
  "cJSON_ReplaceItemInObject hk h object str newitem = replace_item_in_object hk h object str newitem False"

definition cJSON_ReplaceItemInObjectCaseSensitive ::
    "hooks \<Rightarrow> cjson_heap \<Rightarrow> addr option \<Rightarrow> string option \<Rightarrow> addr option \<Rightarrow> (bool \<times> cjson_heap) option" where
  "cJSON_ReplaceItemInObjectCaseSensitive hk h object str newitem =
     replace_item_in_object hk h object str newitem True"

end
