(* ===== verification/CJson_Links.thy ===== *)
theory CJson_Links
  imports CJson_Edit "HOL-Library.Multiset"
begin

section \<open>The chains of an array under the editing operations\<close>

text \<open>
  What detaching, appending, inserting and replacing do to the closed chain of an array's
  children: one lemma per operation, each saying that the chain is closed again over the new
  list and that nothing but links of its members changed (\<open>relink\<close>).
\<close>

definition shape :: "cjson_item \<Rightarrow> cjson_data \<times> addr option" where
  "shape n = (item_data n, child_item n)"

definition relink :: "addr \<Rightarrow> addr set \<Rightarrow> cjson_heap \<Rightarrow> cjson_heap \<Rightarrow> bool" where
  "relink p A h h' \<longleftrightarrow>
     (\<forall>x. x \<notin> insert p A \<longrightarrow> h' x = h x) \<and> (\<forall>x. x \<noteq> p \<longrightarrow> map_option shape (h' x) = map_option shape (h x)) \<and>
     map_option item_data (h' p) = map_option item_data (h p)"

lemma seg_snoc:
  "seg h q p (as @ [b]) r l \<longleftrightarrow> l = Some b \<and>
     (\<exists>q' n. seg h q p as (Some b) q' \<and> h b = Some n \<and> prev_item n = q' \<and> next_item n = r)"
  by (auto simp: seg_append)

lemma detach_links:
  assumes ring: "h p = Some pn" "ring h (child_item pn) (xs @ a # ys)"
    and dist: "distinct (p # xs @ a # ys)"
  shows "\<exists>h' pn' n'. cJSON_DetachItemViaPointer h (Some p) (Some a) = Some (Some a, h') \<and>
    h' p = Some pn' \<and> ring h' (child_item pn') (xs @ ys) \<and>
    h' a = Some n' \<and> next_item n' = None \<and> prev_item n' = None \<and> relink p (set (xs @ a # ys)) h h'"
proof -
  have seg: "seg h (Some (last (a # ys))) (child_item pn) (xs @ a # ys) None (Some (last (a # ys)))"
    using ring(2) by (simp add: ring_nonempty)
  consider "xs = []" "ys = []" | c ys' where "xs = []" "ys = c # ys'"
    | b xs' where "xs = xs' @ [b]" "ys = []" | b xs' c ys' where "xs = xs' @ [b]" "ys = c # ys'"
    by (cases xs rule: rev_cases; cases ys) auto
  then show ?thesis
  proof cases
    case 1
    with ring dist seg show ?thesis
      by (auto simp: cJSON_DetachItemViaPointer_def relink_def shape_def)
  next
    case 2
    with ring dist seg show ?thesis
      by (auto simp: cJSON_DetachItemViaPointer_def relink_def shape_def ring_nonempty)
  next
    case 3
    with ring dist seg show ?thesis
      by (cases xs') (auto simp: cJSON_DetachItemViaPointer_def relink_def shape_def ring_nonempty seg_snoc seg_append)
  next
    case 4
    with ring dist seg show ?thesis
      by (cases xs') (auto simp: cJSON_DetachItemViaPointer_def relink_def shape_def ring_nonempty seg_snoc seg_append)
  qed
qed


lemma add_links:
  assumes "h p = Some pn" "ring h (child_item pn) xs" "h a = Some n" "next_item n = None" "prev_item n = None"
    and "distinct (p # a # xs)"
  shows "\<exists>h' pn'. add_item_to_array h (Some p) (Some a) = Some (True, h') \<and>
    h' p = Some pn' \<and> ring h' (child_item pn') (xs @ [a]) \<and> relink p (set (a # xs)) h h'"
proof (cases xs rule: rev_cases)
  case Nil
  with assms show ?thesis by (auto simp: add_item_to_array_def relink_def shape_def ring_nonempty)
next
  case (snoc xs' b)
  with assms show ?thesis
    by (cases xs') (auto simp: add_item_to_array_def suffix_object_def relink_def shape_def ring_nonempty seg_snoc seg_append)
qed

lemma nth_item_seg:
  "seg h q p as None l \<Longrightarrow> nth_item i h p = Some (if i < length as then Some (as ! i) else None)"
  by (induction as arbitrary: i q p; case_tac i) auto

lemma insert_links:
  assumes "h p = Some pn" "ring h (child_item pn) (xs @ c # ys)" "h a = Some n"
    and "distinct (p # a # xs @ c # ys)" and "get_array_item h (Some p) i = Some (Some c)"
  shows "\<exists>h' pn'. cJSON_InsertItemInArray h (Some p) (int i) (Some a) = Some (True, h') \<and>
    h' p = Some pn' \<and> ring h' (child_item pn') (xs @ a # c # ys) \<and> relink p (set (a # xs @ c # ys)) h h'"
proof (cases xs rule: rev_cases)
  case Nil
  with assms show ?thesis
    by (cases ys) (auto simp: cJSON_InsertItemInArray_def relink_def shape_def ring_nonempty)
next
  case (snoc xs' b)
  with assms show ?thesis
    by (cases xs'; cases ys) (auto simp: cJSON_InsertItemInArray_def relink_def shape_def ring_nonempty seg_snoc seg_append)
qed

lemma replace_links:
  assumes "h p = Some pn" "ring h (child_item pn) (xs @ a # ys)" "h r = Some n"
    and "distinct (p # r # xs @ a # ys)"
  shows "\<exists>h' pn' n'. cJSON_ReplaceItemViaPointer h (Some p) (Some a) (Some r) =
      map_option (Pair True) (cJSON_Delete h' (Some a)) \<and>
    h' p = Some pn' \<and> ring h' (child_item pn') (xs @ r # ys) \<and>
    h' a = Some n' \<and> next_item n' = None \<and> prev_item n' = None \<and> relink p (set (r # xs @ a # ys)) h h'"
proof -
  have finish: "(do { h5 \<leftarrow> m; Some (True, h5) }) = map_option (Pair True) m" for m :: "cjson_heap option"
    by (cases m) simp_all
  show ?thesis
proof (cases xs rule: rev_cases)
  case Nil
  with assms show ?thesis
    by (cases ys) (auto simp: cJSON_ReplaceItemViaPointer_def relink_def shape_def ring_nonempty finish,
      rule exI, rule conjI, rule refl, auto simp: shape_def)
next
  case (snoc xs' b)
  with assms show ?thesis
    by (cases xs'; cases ys) (auto simp: cJSON_ReplaceItemViaPointer_def relink_def shape_def ring_nonempty seg_snoc seg_append finish)
qed
qed

end
