(* ===== verification/CJson_Arrays.thy ===== *)
theory CJson_Arrays
  imports CJson_Links Step_Systems
begin

section \<open>Arrays refine lists\<close>

text \<open>
  Any sequence of edits of an array in memory, from a pool of loose items, against the same edits
  of a list: \<open>do_edit\<close> calls the code's operation, \<open>spec_edit\<close> is its abstract counterpart and \<open>bench\<close>
  the invariant that ties the heap to the lists. The locale \<open>op_refinement\<close> is interpreted here.
\<close>

definition remove_nth :: "nat \<Rightarrow> 'a list \<Rightarrow> 'a list" where
  "remove_nth i xs = take i xs @ drop (Suc i) xs"

lemma mset_remove_nth: "i < length xs \<Longrightarrow> mset (remove_nth i xs) = mset xs - {#xs ! i#}"
  by (simp add: remove_nth_def) (metis add_mset_diff_bothsides diff_empty id_take_nth_drop mset.simps(2) mset_append union_mset_add_mset_right add_mset_remove_trivial)

lemma map_remove_nth: "map f (remove_nth i xs) = remove_nth i (map f xs)"
  by (simp add: remove_nth_def take_map drop_map)

lemma set_remove_nth: "set (remove_nth i xs) \<subseteq> set xs"
  by (auto simp: remove_nth_def dest: in_set_takeD in_set_dropD)

lemma mset_all_addrs: "mset xs = mset ys \<Longrightarrow> mset (all_addrs xs) = mset (all_addrs ys)"
  by (simp add: all_addrs_def mset_concat flip: sum_mset_sum_list)

definition loose :: "cjson_heap \<Rightarrow> tree \<Rightarrow> bool" where
  "loose h t \<longleftrightarrow> (\<forall>n. h (tree_addr t) = Some n \<longrightarrow> next_item n = None \<and> prev_item n = None)"

definition bench :: "cjson_heap \<Rightarrow> addr \<Rightarrow> cjson_data \<Rightarrow> tree list \<Rightarrow> tree list \<Rightarrow> bool" where
  "bench h p d ts pool \<longleftrightarrow> \<not> is_reference d \<and> tree_at h (Tree p d ts) \<and>
     (\<forall>t\<in>set pool. tree_at h t \<and> loose h t) \<and> distinct (p # all_addrs (ts @ pool))"

lemma relink_tree:
  assumes "relink p A h h'" "tree_at h t" "p \<notin> set (addrs t)" "A \<inter> set (all_addrs (kids t)) = {}"
  shows "tree_at h' t"
proof -
  have "tree_at h' t = tree_at h t"
  proof (rule tree_at_cong)
    show "h' x = h x" if "x \<in> set (all_addrs (kids t))" for x
      using assms that kids_addrs [OF that] by (auto simp: relink_def)
    have "tree_addr t \<noteq> p" using assms(3) tree_addr_in [of t] by metis
    then show "map_option (\<lambda>n. (item_data n, child_item n)) (h' (tree_addr t)) =
        map_option (\<lambda>n. (item_data n, child_item n)) (h (tree_addr t))"
      using assms(1) by (auto simp: relink_def shape_def [abs_def])
  qed
  with assms(2) show ?thesis by simp
qed

lemma roots_not_below:
  assumes "distinct (all_addrs us)" "t \<in> set us"
  shows "tree_addr ` set us \<inter> set (all_addrs (kids t)) = {}"
proof -
  have "tree_addr u \<notin> set (all_addrs (kids t))" if u: "u \<in> set us" for u
  proof
    assume a: "tree_addr u \<in> set (all_addrs (kids t))"
    obtain vs ws where us: "us = vs @ t # ws" using assms(2) split_list by metis
    show False
    proof (cases "u = t")
      case True
      have "distinct (addrs t)" using assms(1) us by simp
      with True a show False by (cases t) auto
    next
      case False
      with u us have "u \<in> set (vs @ ws)" by auto
      then have "tree_addr u \<in> set (all_addrs (vs @ ws))" by blast
      with kids_addrs [OF a] assms(1) us show False by auto
    qed
  qed
  then show ?thesis by auto
qed

lemma bench_relink:
  assumes b: "bench h p d ts pool" and "relink p A h h'" and A: "A \<subseteq> tree_addr ` set (ts @ pool)"
    and "h' p = Some pn'" "ring h' (child_item pn') (map tree_addr ts')"
    and m: "mset (ts' @ pool') = mset (ts @ pool)" and "\<forall>t\<in>set pool'. loose h' t"
  shows "bench h' p d ts' pool'"
proof -
  have dist: "distinct (p # all_addrs (ts @ pool))" using b by (simp add: bench_def)
  have ma: "mset (all_addrs (ts' @ pool')) = mset (all_addrs (ts @ pool))"
    using mset_all_addrs [OF m] .
  then have "set (all_addrs (ts' @ pool')) = set (all_addrs (ts @ pool))" by (rule mset_eq_setD)
  moreover have "distinct (all_addrs (ts' @ pool'))"
    using mset_eq_imp_distinct_iff [OF ma] dist by simp
  ultimately have dist': "distinct (p # all_addrs (ts' @ pool'))" using dist by auto
  have same: "set (ts' @ pool') = set (ts @ pool)" using m by (metis mset_eq_setD)
  have tr: "tree_at h' t" if t: "t \<in> set (ts' @ pool')" for t
  proof (rule relink_tree [OF assms(2)])
    have t': "t \<in> set (ts @ pool)" using t same by blast
    then show "tree_at h t" using b by (auto simp: bench_def)
    show "p \<notin> set (addrs t)" using dist t' by (auto simp: set_all_addrs)
    show "A \<inter> set (all_addrs (kids t)) = {}"
      using roots_not_below [OF _ t'] A dist by auto
  qed
  have "item_data pn' = d" using b assms(2,4) by (auto simp: bench_def relink_def)
  with b tr dist' assms(4,5,7) show ?thesis by (auto simp: bench_def)
qed

lemma bench_free:
  assumes b: "bench h p d ts pool" and k: "k < length pool"
  shows "cJSON_Delete h (Some (tree_addr (pool ! k))) = Some (h |` (- set (addrs (pool ! k))))"
    and "bench (h |` (- set (addrs (pool ! k)))) p d ts (remove_nth k pool)"
proof -
  let ?t = "pool ! k" and ?pool = "remove_nth k pool"
  have t: "?t \<in> set pool" using k by simp
  have m: "mset (?t # ts @ ?pool) = mset (ts @ pool)" using k by (simp add: mset_remove_nth)
  have d0: "distinct (all_addrs (ts @ pool))" using b by (simp add: bench_def)
  have dist: "distinct (all_addrs (?t # ts @ ?pool))"
    using mset_eq_imp_distinct_iff [OF mset_all_addrs [OF m]] d0 by simp
  have sub: "set (all_addrs (?t # ts @ ?pool)) = set (all_addrs (ts @ pool))"
    using mset_all_addrs [OF m] by (rule mset_eq_setD)
  have "root_at h ?t" using b t dist by (auto simp: root_at_def bench_def loose_def)
  then show "cJSON_Delete h (Some (tree_addr ?t)) = Some (h |` (- set (addrs ?t)))"
    by (rule delete_root)
  let ?h = "h |` (- set (addrs ?t))"
  have p: "p \<notin> set (all_addrs (ts @ pool))" using b by (simp add: bench_def)
  have "set (addrs ?t) \<inter> insert p (set (all_addrs (ts @ ?pool))) = {}"
    using dist p unfolding sub [symmetric] by simp
  then have eq: "?h x = h x" if "x \<in> insert p (set (all_addrs (ts @ ?pool)))" for x
    using that by (simp add: restrict_map_def disjoint_iff) blast
  have "tree_at ?h (Tree p d ts) = tree_at h (Tree p d ts)"
    using eq by (intro tree_at_same) auto
  moreover have "tree_at ?h u \<and> loose ?h u" if u: "u \<in> set ?pool" for u
  proof -
    have "u \<in> set pool" by (rule subsetD [OF set_remove_nth u])
    moreover have same: "?h x = h x" if "x \<in> set (addrs u)" for x
      using that u by (intro eq) (auto simp: set_all_addrs)
    ultimately show ?thesis
      using b tree_at_same [of u ?h h] by (auto simp: bench_def loose_def)
  qed
  ultimately show "bench ?h p d ts ?pool"
    using b dist p sub by (auto simp: bench_def)
qed


lemma bench_ring:
  assumes "bench h p d ts pool"
  obtains pn where "h p = Some pn" "item_data pn = d" "ring h (child_item pn) (map tree_addr ts)"
  using assms by (auto simp: bench_def)

lemma bench_get:
  assumes "bench h p d ts pool"
  shows "get_array_item h (Some p) i = Some (if i < length ts then Some (tree_addr (ts ! i)) else None)"
proof (rule bench_ring [OF assms])
  fix pn assume pn: "h p = Some pn" "ring h (child_item pn) (map tree_addr ts)"
  then obtain l where "seg h l (child_item pn) (map tree_addr ts) None l" by (auto simp: ring_def)
  from nth_item_seg [OF this] pn(1) show ?thesis by (simp add: get_array_item_def)
qed

lemma bench_roots_distinct:
  assumes "bench h p d ts pool"
  shows "distinct (p # map tree_addr (ts @ pool))"
proof -
  have "distinct (all_addrs (ts @ pool))" "p \<notin> set (all_addrs (ts @ pool))"
    using assms by (auto simp: bench_def)
  then show ?thesis using distinct_tree_addrs [of "ts @ pool"] tree_addrs_subset [of "ts @ pool"] by auto
qed

lemma bench_pool:
  assumes "bench h p d ts pool" "k < length pool"
  obtains n where "h (tree_addr (pool ! k)) = Some n" "next_item n = None" "prev_item n = None"
    "tree_addr (pool ! k) \<noteq> p" "tree_addr (pool ! k) \<notin> tree_addr ` set ts"
    "tree_addr (pool ! k) \<notin> tree_addr ` set (remove_nth k pool)"
proof -
  have t: "pool ! k \<in> set pool" using assms(2) by simp
  then have "tree_at h (pool ! k)" using assms(1) by (simp add: bench_def)
  from tree_at_alloc [OF this, of "tree_addr (pool ! k)"]
  obtain n where n: "h (tree_addr (pool ! k)) = Some n" by auto
  have d: "distinct (p # map tree_addr (ts @ pool))" by (rule bench_roots_distinct [OF assms(1)])
  have "pool = take k pool @ pool ! k # drop (Suc k) pool" using assms(2) by (rule id_take_nth_drop)
  then have "distinct (map tree_addr (take k pool @ pool ! k # drop (Suc k) pool))" using d by simp
  then have "tree_addr (pool ! k) \<notin> tree_addr ` set (remove_nth k pool)"
    by (simp add: remove_nth_def image_Un)
  moreover have "next_item n = None" "prev_item n = None"
    using assms(1) n t by (auto simp: bench_def loose_def)
  moreover have "tree_addr (pool ! k) \<noteq> p" "tree_addr (pool ! k) \<notin> tree_addr ` set ts"
    using d t by auto
  ultimately show ?thesis using n that by blast
qed

text \<open>Relinking the children and one loose item leaves the other loose items loose.\<close>

lemma loose_relink:
  assumes "relink p A h h'" "loose h t" "tree_addr t \<notin> insert p A"
  shows "loose h' t"
  using assms by (auto simp: relink_def loose_def)

lemma bench_relink_pool:
  assumes b: "bench h p d ts pool" and k: "k < length pool"
    and r: "relink p (insert (tree_addr (pool ! k)) (tree_addr ` set ts)) h h'"
    and l: "h' p = Some pn'" "ring h' (child_item pn') (map tree_addr ts')"
    and m: "mset ts' = mset (pool ! k # ts)"
  shows "bench h' p d ts' (remove_nth k pool)"
proof (rule bench_relink [OF b r _ l])
  show "insert (tree_addr (pool ! k)) (tree_addr ` set ts) \<subseteq> tree_addr ` set (ts @ pool)"
    using k by auto
  show "mset (ts' @ remove_nth k pool) = mset (ts @ pool)"
    using k m by (simp add: mset_remove_nth)
  show "\<forall>t\<in>set (remove_nth k pool). loose h' t"
  proof
    fix t assume t: "t \<in> set (remove_nth k pool)"
    then have pool: "t \<in> set pool" by (rule subsetD [OF set_remove_nth])
    have "tree_addr t \<noteq> tree_addr (pool ! k)" by (rule bench_pool [OF b k]) (use t in \<open>metis image_eqI\<close>)
    moreover have "tree_addr t \<notin> insert p (tree_addr ` set ts)"
      using bench_roots_distinct [OF b] pool by auto
    ultimately show "loose h' t"
      using loose_relink [OF r, of t] b pool by (auto simp: bench_def)
  qed
qed

lemma bench_add:
  assumes b: "bench h p d ts pool" and k: "k < length pool"
  shows "\<exists>h'. add_item_to_array h (Some p) (Some (tree_addr (pool ! k))) = Some (True, h') \<and>
    bench h' p d (ts @ [pool ! k]) (remove_nth k pool) \<and>
    relink p (insert (tree_addr (pool ! k)) (tree_addr ` set ts)) h h'"
proof -
  obtain pn where pn: "h p = Some pn" "ring h (child_item pn) (map tree_addr ts)"
    by (rule bench_ring [OF b])
  obtain n where n: "h (tree_addr (pool ! k)) = Some n" "next_item n = None" "prev_item n = None"
      and new: "tree_addr (pool ! k) \<noteq> p" "tree_addr (pool ! k) \<notin> tree_addr ` set ts"
    by (rule bench_pool [OF b k])
  have dist: "distinct (p # tree_addr (pool ! k) # map tree_addr ts)"
    using bench_roots_distinct [OF b] new by auto
  obtain h' pn' where h': "add_item_to_array h (Some p) (Some (tree_addr (pool ! k))) = Some (True, h')"
      and l: "h' p = Some pn'" "ring h' (child_item pn') (map tree_addr (ts @ [pool ! k]))"
      and r: "relink p (insert (tree_addr (pool ! k)) (tree_addr ` set ts)) h h'"
    using add_links [OF pn n dist] by auto
  show ?thesis using h' r bench_relink_pool [OF b k r l] by simp
qed

lemma map_split:
  "i < length ts \<Longrightarrow> map tree_addr ts =
     map tree_addr (take i ts) @ tree_addr (ts ! i) # map tree_addr (drop (Suc i) ts)"
  by (metis id_take_nth_drop list.simps(9) map_append)

lemma image_split:
  "i < length ts \<Longrightarrow> tree_addr ` set ts =
     set (map tree_addr (take i ts) @ tree_addr (ts ! i) # map tree_addr (drop (Suc i) ts))"
  using map_split [of i ts] by (metis list.set_map)

lemma bench_insert:
  assumes b: "bench h p d ts pool" and k: "k < length pool" and i: "i < length ts"
  shows "\<exists>h'. cJSON_InsertItemInArray h (Some p) (int i) (Some (tree_addr (pool ! k))) = Some (True, h') \<and>
    bench h' p d (take i ts @ pool ! k # drop i ts) (remove_nth k pool) \<and>
    relink p (insert (tree_addr (pool ! k)) (tree_addr ` set ts)) h h'"
proof -
  obtain pn where pn: "h p = Some pn" "ring h (child_item pn) (map tree_addr ts)"
    by (rule bench_ring [OF b])
  obtain n where n: "h (tree_addr (pool ! k)) = Some n"
      and new: "tree_addr (pool ! k) \<noteq> p" "tree_addr (pool ! k) \<notin> tree_addr ` set ts"
    by (rule bench_pool [OF b k])
  have dist: "distinct (p # tree_addr (pool ! k) # map tree_addr ts)"
    using bench_roots_distinct [OF b] new by auto
  note sp = map_split [OF i]
  have get: "get_array_item h (Some p) i = Some (Some (tree_addr (ts ! i)))"
    using bench_get [OF b] i by simp
  have d: "drop i ts = ts ! i # drop (Suc i) ts" using i by (rule Cons_nth_drop_Suc [symmetric])
  obtain h' pn' where
      h': "cJSON_InsertItemInArray h (Some p) (int i) (Some (tree_addr (pool ! k))) = Some (True, h')"
      and l: "h' p = Some pn'"
        "ring h' (child_item pn') (map tree_addr (take i ts @ pool ! k # drop i ts))"
      and r: "relink p (insert (tree_addr (pool ! k)) (tree_addr ` set ts)) h h'"
    using insert_links [OF pn(1) pn(2) [unfolded sp] n dist [unfolded sp] get] unfolding image_split [OF i]
    by (auto simp: d)
  have "mset (take i ts @ pool ! k # drop i ts) = mset (pool ! k # ts)"
    using mset_append [of "take i ts" "drop i ts"] by simp
  from bench_relink_pool [OF b k r l this] show ?thesis using h' r by simp
qed

lemma bench_detach:
  assumes b: "bench h p d ts pool" and i: "i < length ts"
  shows "\<exists>h'. cJSON_DetachItemViaPointer h (Some p) (Some (tree_addr (ts ! i))) =
      Some (Some (tree_addr (ts ! i)), h') \<and>
    bench h' p d (remove_nth i ts) (pool @ [ts ! i]) \<and> relink p (tree_addr ` set ts) h h'"
proof -
  obtain pn where pn: "h p = Some pn" "ring h (child_item pn) (map tree_addr ts)"
    by (rule bench_ring [OF b])
  have dist: "distinct (p # map tree_addr ts)" using bench_roots_distinct [OF b] by simp
  note sp = map_split [OF i]
  obtain h' pn' n' where
      h': "cJSON_DetachItemViaPointer h (Some p) (Some (tree_addr (ts ! i))) = Some (Some (tree_addr (ts ! i)), h')"
      and l: "h' p = Some pn'" "ring h' (child_item pn') (map tree_addr (remove_nth i ts))"
      and n': "h' (tree_addr (ts ! i)) = Some n'" "next_item n' = None" "prev_item n' = None"
      and r: "relink p (tree_addr ` set ts) h h'"
    using detach_links [OF pn(1) pn(2) [unfolded sp] dist [unfolded sp]] unfolding image_split [OF i]
    by (auto simp: remove_nth_def)
  have "bench h' p d (remove_nth i ts) (pool @ [ts ! i])"
  proof (rule bench_relink [OF b r _ l])
    show "mset (remove_nth i ts @ pool @ [ts ! i]) = mset (ts @ pool)"
      using i by (simp add: mset_remove_nth)
    show "\<forall>t\<in>set (pool @ [ts ! i]). loose h' t"
    proof
      fix t assume t: "t \<in> set (pool @ [ts ! i])"
      show "loose h' t"
      proof (cases "t \<in> set pool")
        case True
        then have "tree_addr t \<notin> insert p (tree_addr ` set ts)"
          using bench_roots_distinct [OF b] by auto
        then show ?thesis using loose_relink [OF r] b True by (auto simp: bench_def)
      qed (use t n' in \<open>simp add: loose_def\<close>)
    qed
  qed auto
  with h' r show ?thesis by blast
qed

lemma bench_replace:
  assumes b: "bench h p d ts pool" and k: "k < length pool" and i: "i < length ts"
  shows "\<exists>h'. cJSON_ReplaceItemViaPointer h (Some p) (Some (tree_addr (ts ! i))) (Some (tree_addr (pool ! k))) =
      map_option (Pair True) (cJSON_Delete h' (Some (tree_addr (ts ! i)))) \<and>
    bench h' p d (ts[i := pool ! k]) (remove_nth k pool @ [ts ! i]) \<and>
    relink p (insert (tree_addr (pool ! k)) (tree_addr ` set ts)) h h'"
proof -
  obtain pn where pn: "h p = Some pn" "ring h (child_item pn) (map tree_addr ts)"
    by (rule bench_ring [OF b])
  obtain n where n: "h (tree_addr (pool ! k)) = Some n"
      and new: "tree_addr (pool ! k) \<noteq> p" "tree_addr (pool ! k) \<notin> tree_addr ` set ts"
      and other: "tree_addr (pool ! k) \<notin> tree_addr ` set (remove_nth k pool)"
    by (rule bench_pool [OF b k])
  have dist: "distinct (p # tree_addr (pool ! k) # map tree_addr ts)"
    using bench_roots_distinct [OF b] new by auto
  note sp = map_split [OF i]
  have upd: "ts[i := pool ! k] = take i ts @ pool ! k # drop (Suc i) ts" by (rule upd_conv_take_nth_drop [OF i])
  obtain h' pn' n' where
      h': "cJSON_ReplaceItemViaPointer h (Some p) (Some (tree_addr (ts ! i))) (Some (tree_addr (pool ! k))) =
        map_option (Pair True) (cJSON_Delete h' (Some (tree_addr (ts ! i))))"
      and l: "h' p = Some pn'" "ring h' (child_item pn') (map tree_addr (ts[i := pool ! k]))"
      and n': "h' (tree_addr (ts ! i)) = Some n'" "next_item n' = None" "prev_item n' = None"
      and r: "relink p (insert (tree_addr (pool ! k)) (tree_addr ` set ts)) h h'"
    using replace_links [OF pn(1) pn(2) [unfolded sp] n dist [unfolded sp]] unfolding image_split [OF i]
    by (auto simp: upd)
  have "bench h' p d (ts[i := pool ! k]) (remove_nth k pool @ [ts ! i])"
  proof (rule bench_relink [OF b r _ l])
    show "insert (tree_addr (pool ! k)) (tree_addr ` set ts) \<subseteq> tree_addr ` set (ts @ pool)"
      using k by auto
    obtain M N where "mset ts = add_mset (ts ! i) M" "mset pool = add_mset (pool ! k) N"
      using k i by (metis multi_member_split nth_mem set_mset_mset)
    then show "mset (ts[i := pool ! k] @ remove_nth k pool @ [ts ! i]) = mset (ts @ pool)"
      using k i by (simp add: mset_remove_nth mset_update)
    show "\<forall>t\<in>set (remove_nth k pool @ [ts ! i]). loose h' t"
    proof
      fix t assume t: "t \<in> set (remove_nth k pool @ [ts ! i])"
      show "loose h' t"
      proof (cases "t \<in> set (remove_nth k pool)")
        case True
        then have pool: "t \<in> set pool" by (rule subsetD [OF set_remove_nth])
        have "tree_addr t \<noteq> tree_addr (pool ! k)" using True other by (metis image_eqI)
        moreover have "tree_addr t \<notin> insert p (tree_addr ` set ts)"
          using bench_roots_distinct [OF b] pool by auto
        ultimately show ?thesis using loose_relink [OF r] b pool by (auto simp: bench_def)
      qed (use t n' in \<open>simp add: loose_def\<close>)
    qed
  qed
  with h' r show ?thesis by blast
qed

subsection \<open>Sequences of edits\<close>

text \<open>
  A client holds an array and some loose items, by number. Each edit names loose items by their
  number; a number that is not there is a null pointer. An item that is taken out becomes loose.
\<close>

datatype edit = Edit_Append nat | Edit_Insert int nat | Edit_Detach int | Edit_Replace int nat
  | Edit_Delete int

definition var :: "addr list \<Rightarrow> nat \<Rightarrow> addr option" where
  "var vs k = (if k < length vs then Some (vs ! k) else None)"

fun do_edit :: "addr \<Rightarrow> edit \<Rightarrow> addr list \<times> cjson_heap \<Rightarrow> (bool \<times> addr list \<times> cjson_heap) option" where
  "do_edit p (Edit_Append k) (vs, h) =
     map_option (\<lambda>(ok, h'). (ok, if ok then remove_nth k vs else vs, h'))
       (cJSON_AddItemToArray h (Some p) (var vs k))"
| "do_edit p (Edit_Insert i k) (vs, h) =
     map_option (\<lambda>(ok, h'). (ok, if ok then remove_nth k vs else vs, h'))
       (cJSON_InsertItemInArray h (Some p) i (var vs k))"
| "do_edit p (Edit_Detach i) (vs, h) =
     map_option (\<lambda>(item, h'). (item \<noteq> None, vs @ (case item of None \<Rightarrow> [] | Some a \<Rightarrow> [a]), h'))
       (cJSON_DetachItemFromArray h (Some p) i)"
| "do_edit p (Edit_Replace i k) (vs, h) =
     map_option (\<lambda>(ok, h'). (ok, if ok then remove_nth k vs else vs, h'))
       (cJSON_ReplaceItemInArray h (Some p) i (var vs k))"
| "do_edit p (Edit_Delete i) (vs, h) =
     map_option (\<lambda>h'. (True, vs, h')) (cJSON_DeleteItemFromArray h (Some p) i)"

text \<open>What the edits mean for the list of the array's elements and the loose items.\<close>

fun spec_edit :: "edit \<Rightarrow> 'a list \<times> 'a list \<Rightarrow> bool \<times> 'a list \<times> 'a list" where
  "spec_edit (Edit_Append k) (ts, pool) =
     (if k < length pool then (True, ts @ [pool ! k], remove_nth k pool) else (False, ts, pool))"
| "spec_edit (Edit_Insert i k) (ts, pool) =
     (if 0 \<le> i \<and> k < length pool
      then (True, take (nat i) ts @ pool ! k # drop (nat i) ts, remove_nth k pool)
      else (False, ts, pool))"
| "spec_edit (Edit_Detach i) (ts, pool) =
     (if 0 \<le> i \<and> nat i < length ts then (True, remove_nth (nat i) ts, pool @ [ts ! nat i])
      else (False, ts, pool))"
| "spec_edit (Edit_Replace i k) (ts, pool) =
     (if 0 \<le> i \<and> nat i < length ts \<and> k < length pool
      then (True, ts[nat i := pool ! k], remove_nth k pool) else (False, ts, pool))"
| "spec_edit (Edit_Delete i) (ts, pool) =
     (True, if 0 \<le> i \<and> nat i < length ts then remove_nth (nat i) ts else ts, pool)"

text \<open>
  The heap holds the array and the loose items, nothing else of the cells \<open>S\<close> they came from, and
  what was outside \<open>S\<close> is as it was.
\<close>

definition editing ::
    "cjson_heap \<Rightarrow> addr set \<Rightarrow> addr \<Rightarrow> cjson_data \<Rightarrow> addr list \<times> cjson_heap \<Rightarrow> tree list \<times> tree list \<Rightarrow> bool" where
  "editing h0 S p d s a \<longleftrightarrow>
     (case (s, a) of ((vs, h), (ts, pool)) \<Rightarrow>
        vs = map tree_addr pool \<and> bench h p d ts pool \<and>
        insert p (set (all_addrs (ts @ pool))) \<subseteq> S \<and> (\<forall>x. x \<notin> S \<longrightarrow> h x = h0 x) \<and>
        (\<forall>x\<in>S. h x \<noteq> None \<longrightarrow> x \<in> insert p (set (all_addrs (ts @ pool)))))"

lemma editing_relink:
  assumes e: "editing h0 S p d (vs, h) (ts, pool)" and r: "relink p A h h'"
    and A: "A \<subseteq> tree_addr ` set (ts @ pool)" and b: "bench h' p d ts' pool'"
    and m: "mset (ts' @ pool') = mset (ts @ pool)"
  shows "editing h0 S p d (map tree_addr pool', h') (ts', pool')"
proof -
  have same: "set (all_addrs (ts' @ pool')) = set (all_addrs (ts @ pool))"
    using mset_all_addrs [OF m] by (rule mset_eq_setD)
  have "A \<subseteq> set (all_addrs (ts @ pool))"
    using subset_trans [OF A tree_addrs_subset [of "ts @ pool", unfolded set_map]] .
  then have "insert p A \<subseteq> S" using e by (simp add: editing_def) blast
  then have "\<forall>x. x \<notin> S \<longrightarrow> h' x = h0 x" using r e by (auto simp: relink_def editing_def)
  moreover have "h x \<noteq> None" if "h' x \<noteq> None" for x
    using r that unfolding relink_def by (cases "x = p") (metis option.map_disc_iff)+
  ultimately show ?thesis using e b same by (auto simp: editing_def)
qed

lemma editing_free:
  assumes e: "editing h0 S p d (vs, h) (ts, pool)" and k: "k < length pool"
  shows "\<exists>h'. cJSON_Delete h (Some (tree_addr (pool ! k))) = Some h' \<and>
    editing h0 S p d (map tree_addr (remove_nth k pool), h') (ts, remove_nth k pool)"
proof -
  have b: "bench h p d ts pool" using e by (simp add: editing_def)
  have m: "mset (pool ! k # ts @ remove_nth k pool) = mset (ts @ pool)"
    using k by (simp add: mset_remove_nth)
  have same: "set (all_addrs (pool ! k # ts @ remove_nth k pool)) = set (all_addrs (ts @ pool))"
    using mset_all_addrs [OF m] by (rule mset_eq_setD)
  show ?thesis
    using bench_free [OF b k] e same by (auto simp: editing_def restrict_map_def split: if_splits)
qed

lemma mset_put:
  assumes "k < length pool" "mset us = mset (pool ! k # ts)"
  shows "mset (us @ remove_nth k pool) = mset (ts @ pool)"
  using assms by (simp add: mset_remove_nth)

lemma editing_put:
  assumes e: "editing h0 S p d (vs, h) (ts, pool)" and k: "k < length pool"
    and b: "bench h' p d ts' (remove_nth k pool)"
    and r: "relink p (insert (tree_addr (pool ! k)) (tree_addr ` set ts)) h h'"
    and m: "mset ts' = mset (pool ! k # ts)"
  shows "editing h0 S p d (remove_nth k vs, h') (ts', remove_nth k pool)"
proof -
  have "vs = map tree_addr pool" using e by (simp add: editing_def)
  moreover have "editing h0 S p d (map tree_addr (remove_nth k pool), h') (ts', remove_nth k pool)"
    using k by (intro editing_relink [OF e r _ b mset_put [OF k m]]) auto
  ultimately show ?thesis by (simp add: map_remove_nth)
qed

lemma edit_append:
  assumes e: "editing h0 S p d (vs, h) (ts, pool)" and k: "k < length pool"
  shows "\<exists>h'. add_item_to_array h (Some p) (Some (tree_addr (pool ! k))) = Some (True, h') \<and>
    editing h0 S p d (remove_nth k vs, h') (ts @ [pool ! k], remove_nth k pool)"
proof -
  have b: "bench h p d ts pool" using e by (simp add: editing_def)
  obtain h' where h': "add_item_to_array h (Some p) (Some (tree_addr (pool ! k))) = Some (True, h')"
      "bench h' p d (ts @ [pool ! k]) (remove_nth k pool)"
      "relink p (insert (tree_addr (pool ! k)) (tree_addr ` set ts)) h h'"
    using bench_add [OF b k] by blast
  have "mset (ts @ [pool ! k]) = mset (pool ! k # ts)" by simp
  from editing_put [OF e k h'(2,3) this] h'(1) show ?thesis by blast
qed

lemma edit_insert:
  assumes e: "editing h0 S p d (vs, h) (ts, pool)" and k: "k < length pool" and i: "0 \<le> i"
  shows "\<exists>h'. cJSON_InsertItemInArray h (Some p) i (Some (tree_addr (pool ! k))) = Some (True, h') \<and>
    editing h0 S p d (remove_nth k vs, h') (take (nat i) ts @ pool ! k # drop (nat i) ts, remove_nth k pool)"
proof -
  have b: "bench h p d ts pool" using e by (simp add: editing_def)
  show ?thesis
  proof (cases "nat i < length ts")
    case True
    obtain h' where h': "cJSON_InsertItemInArray h (Some p) i (Some (tree_addr (pool ! k))) = Some (True, h')"
        "bench h' p d (take (nat i) ts @ pool ! k # drop (nat i) ts) (remove_nth k pool)"
        "relink p (insert (tree_addr (pool ! k)) (tree_addr ` set ts)) h h'"
      using bench_insert [OF b k True] i by auto
    have "mset (take (nat i) ts @ pool ! k # drop (nat i) ts) = mset (pool ! k # ts)"
      using mset_append [of "take (nat i) ts" "drop (nat i) ts"] by simp
    from editing_put [OF e k h'(2,3) this] h'(1) show ?thesis by blast
  next
    case False
    then have "cJSON_InsertItemInArray h (Some p) i (Some (tree_addr (pool ! k))) =
        add_item_to_array h (Some p) (Some (tree_addr (pool ! k)))"
      using i bench_get [OF b, of "nat i"] by (simp add: cJSON_InsertItemInArray_def)
    with edit_append [OF e k] False show ?thesis by simp
  qed
qed

lemma edit_detach:
  assumes e: "editing h0 S p d (vs, h) (ts, pool)" and i: "0 \<le> i" "nat i < length ts"
  shows "\<exists>h'. cJSON_DetachItemFromArray h (Some p) i = Some (Some (tree_addr (ts ! nat i)), h') \<and>
    editing h0 S p d (vs @ [tree_addr (ts ! nat i)], h') (remove_nth (nat i) ts, pool @ [ts ! nat i])"
proof -
  have b: "bench h p d ts pool" using e by (simp add: editing_def)
  obtain h' where h': "cJSON_DetachItemViaPointer h (Some p) (Some (tree_addr (ts ! nat i))) =
        Some (Some (tree_addr (ts ! nat i)), h')"
      "bench h' p d (remove_nth (nat i) ts) (pool @ [ts ! nat i])" "relink p (tree_addr ` set ts) h h'"
    using bench_detach [OF b i(2)] by blast
  have "mset (remove_nth (nat i) ts @ pool @ [ts ! nat i]) = mset (ts @ pool)"
    using i by (simp add: mset_remove_nth)
  then have "editing h0 S p d (map tree_addr (pool @ [ts ! nat i]), h') (remove_nth (nat i) ts, pool @ [ts ! nat i])"
    by (intro editing_relink [OF e h'(3) _ h'(2)]) auto
  moreover have "vs = map tree_addr pool" using e by (simp add: editing_def)
  ultimately show ?thesis
    using h'(1) i bench_get [OF b, of "nat i"] by (simp add: cJSON_DetachItemFromArray_def)
qed

lemma edit_replace:
  assumes e: "editing h0 S p d (vs, h) (ts, pool)" and k: "k < length pool"
    and i: "0 \<le> i" "nat i < length ts"
  shows "\<exists>h'. cJSON_ReplaceItemInArray h (Some p) i (Some (tree_addr (pool ! k))) = Some (True, h') \<and>
    editing h0 S p d (remove_nth k vs, h') (ts[nat i := pool ! k], remove_nth k pool)"
proof -
  have b: "bench h p d ts pool" using e by (simp add: editing_def)
  let ?pool = "remove_nth k pool @ [ts ! nat i]" and ?ts = "ts[nat i := pool ! k]"
  obtain h' where h': "cJSON_ReplaceItemViaPointer h (Some p) (Some (tree_addr (ts ! nat i)))
          (Some (tree_addr (pool ! k))) = map_option (Pair True) (cJSON_Delete h' (Some (tree_addr (ts ! nat i))))"
      "bench h' p d ?ts ?pool" "relink p (insert (tree_addr (pool ! k)) (tree_addr ` set ts)) h h'"
    using bench_replace [OF b k i(2)] by blast
  obtain M N where "mset ts = add_mset (ts ! nat i) M" "mset pool = add_mset (pool ! k) N"
    using k i by (metis multi_member_split nth_mem set_mset_mset)
  then have "mset (?ts @ ?pool) = mset (ts @ pool)" using k i by (simp add: mset_remove_nth mset_update)
  then have e': "editing h0 S p d (map tree_addr ?pool, h') (?ts, ?pool)"
    using k by (intro editing_relink [OF e h'(3) _ h'(2)]) auto
  let ?n = "length (remove_nth k pool)"
  have last: "?n < length ?pool" "?pool ! ?n = ts ! nat i" "remove_nth ?n ?pool = remove_nth k pool"
    by (simp_all add: remove_nth_def [of ?n])
  have "vs = map tree_addr pool" using e by (simp add: editing_def)
  then show ?thesis
    using editing_free [OF e' last(1)] h'(1) bench_get [OF b, of "nat i"] i unfolding last(2,3)
    by (auto simp: cJSON_ReplaceItemInArray_def map_remove_nth)
qed

lemma edit_remove:
  assumes e: "editing h0 S p d (vs, h) (ts, pool)" and i: "0 \<le> i" "nat i < length ts"
  shows "\<exists>h'. cJSON_DeleteItemFromArray h (Some p) i = Some h' \<and>
    editing h0 S p d (vs, h') (remove_nth (nat i) ts, pool)"
proof -
  obtain h' where h': "cJSON_DetachItemFromArray h (Some p) i = Some (Some (tree_addr (ts ! nat i)), h')"
      "editing h0 S p d (vs @ [tree_addr (ts ! nat i)], h') (remove_nth (nat i) ts, pool @ [ts ! nat i])"
    using edit_detach [OF e i] by blast
  have "vs = map tree_addr pool" using e by (simp add: editing_def)
  with editing_free [OF h'(2), of "length pool"] h'(1) show ?thesis
    by (simp add: cJSON_DeleteItemFromArray_def remove_nth_def [of "length pool"])
qed

lemma replace_null:
  "h p = Some pn \<Longrightarrow> cJSON_ReplaceItemViaPointer h (Some p) None r = Some (False, h)"
  "h p = Some pn \<Longrightarrow> cJSON_ReplaceItemViaPointer h (Some p) item None = Some (False, h)"
  by (simp_all add: cJSON_ReplaceItemViaPointer_def)

lemma edit_refines:
  assumes e: "editing h0 S p d s a"
  shows "\<exists>s'. do_edit p x s = Some (fst (spec_edit x a), s') \<and> editing h0 S p d s' (snd (spec_edit x a))"
proof -
  obtain vs h ts pool where sa: "s = (vs, h)" "a = (ts, pool)" by (cases s; cases a)
  note e = e [unfolded sa]
  have vs: "vs = map tree_addr pool" and b: "bench h p d ts pool" using e by (auto simp: editing_def)
  have p: "\<exists>pn. h p = Some pn" using bench_ring [OF b] by metis
  have item: "var vs k = (if k < length pool then Some (tree_addr (pool ! k)) else None)" for k
    by (simp add: var_def vs)
  note get = bench_get [OF b]
  show ?thesis
  proof (cases x)
    case (Edit_Append k)
    with edit_append [OF e, of k] e show ?thesis
      by (auto simp: sa item cJSON_AddItemToArray_def add_item_to_array_def)
  next
    case (Edit_Insert i k)
    with edit_insert [OF e, of k i] e show ?thesis
      by (auto simp: sa item cJSON_InsertItemInArray_def)
  next
    case (Edit_Detach i)
    with edit_detach [OF e, of i] e show ?thesis
      using get [of "nat i"]
      by (auto simp: sa item cJSON_DetachItemFromArray_def cJSON_DetachItemViaPointer_def)
  next
    case (Edit_Replace i k)
    show ?thesis
    proof (cases "0 \<le> i \<and> nat i < length ts \<and> k < length pool")
      case True
      with edit_replace [OF e, of k i] Edit_Replace show ?thesis by (auto simp: sa item)
    next
      case False
      with e p Edit_Replace get [of "nat i"] show ?thesis
        by (auto simp: sa item cJSON_ReplaceItemInArray_def replace_null)
    qed
  next
    case (Edit_Delete i)
    with edit_remove [OF e, of i] e show ?thesis
      using get [of "nat i"]
      by (auto simp: sa item cJSON_DeleteItemFromArray_def cJSON_DetachItemFromArray_def
          cJSON_DetachItemViaPointer_def)
  qed
qed

interpretation edits: op_refinement "do_edit p" spec_edit "editing h0 S p d" for p h0 S d
  by unfold_locales (rule edit_refines)

subsection \<open>Sizes, and adding to objects\<close>

lemma chain_length_Some:
  "chain_length h (Some a) = do { n \<leftarrow> h a; k \<leftarrow> chain_length h (next_item n); Some (Suc k) }"
  by (subst chain_length.simps) simp

lemma chain_length_None [simp]: "chain_length h None = Some 0"
  by (subst chain_length.simps) simp

lemma chain_length_seg: "seg h q p as None l \<Longrightarrow> chain_length h p = Some (length as)"
  by (induction as arbitrary: q p) (auto simp: chain_length_Some)

lemma array_size:
  assumes "bench h p d ts pool"
  shows "cJSON_GetArraySize h (Some p) = Some (int32 (int (length ts)))"
proof (rule bench_ring [OF assms])
  fix pn assume pn: "h p = Some pn" "ring h (child_item pn) (map tree_addr ts)"
  then obtain l where "seg h l (child_item pn) (map tree_addr ts) None l" by (auto simp: ring_def)
  from chain_length_seg [OF this] pn(1) show ?thesis by (simp add: cJSON_GetArraySize_def)
qed

lemma create_item_cases:
  assumes "hooks_law hk" "create_item hk d h = (r, h1)"
  obtains "r = None" "h1 = h"
  | a where "r = Some a" "h a = None"
    "h1 = h(a \<mapsto> \<lparr>next_item = None, prev_item = None, child_item = None, item_data = d\<rparr>)"
proof (cases "allocate hk h")
  case None
  with assms(2) that(1) show ?thesis by (simp add: create_item_def cJSON_New_Item_def)
next
  case (Some a)
  moreover from this have "h a = None" using assms(1) by (simp add: hooks_law_def)
  ultimately show ?thesis using assms(2) that(2) [of a] by (simp add: create_item_def cJSON_New_Item_def)
qed

lemma add_to_array_succeeds:
  "add_item_to_array h (Some p) (Some a) = Some (ok, h') \<Longrightarrow> p \<noteq> a \<Longrightarrow> ok"
  by (auto simp: add_item_to_array_def bind_eq_Some_conv split: option.splits if_splits)

lemma add_to_object_fails:
  assumes "add_item_to_object_at hk h object name item c = Some (False, h')"
  shows "h' = h"
proof (cases "\<exists>s. name = Some s \<and> object \<noteq> None \<and> item \<noteq> None \<and> object \<noteq> item \<and> (c \<or> strdup hk h s)")
  case True
  then obtain s p a where t: "name = Some s" "object = Some p" "item = Some a" "p \<noteq> a" "c \<or> strdup hk h s"
    by auto
  with assms obtain h1 where "add_item_to_array h1 (Some p) (Some a) = Some (False, h')"
    by (auto simp: add_item_to_object_at_def bind_eq_Some_conv)
  from add_to_array_succeeds [OF this t(4)] show ?thesis by simp
next
  case False
  with assms show ?thesis
    by (auto simp: add_item_to_object_at_def split: option.splits if_splits)
qed

text \<open>When a new item cannot be added it is released again, and the memory is what it was.\<close>

lemma add_or_delete_restores:
  assumes "hooks_law hk" "add_or_delete hk object name (create_item hk d h) = Some (None, h')"
  shows "h' = h"
proof -
  obtain r h1 where c: "create_item hk d h = (r, h1)" by (cases "create_item hk d h")
  obtain ok h2 where ok: "add_item_to_object_at hk h1 object name r False = Some (ok, h2)"
      and h': "if ok then (r, h2) = (None, h') else cJSON_Delete h2 r = Some h'"
    using assms(2) c by (auto simp: add_or_delete_def split: Option.bind_splits if_splits)
  show ?thesis
  proof (cases rule: create_item_cases [OF assms(1) c])
    case 1
    then have "\<not> ok \<and> h2 = h"
      using ok by (auto simp: add_item_to_object_at_def split: option.splits)
    with h' 1 show ?thesis by simp
  next
    case (2 a)
    with h' have "\<not> ok" by auto
    moreover from this have "h2 = h1" using ok add_to_object_fails by auto
    moreover have "cJSON_Delete h1 (Some a) = Some h"
      using 2 by (auto simp: cJSON_Delete_Some free_item_def)
    ultimately show ?thesis using h' 2(1) by simp
  qed
qed

text \<open>
  A reference is not: when the name cannot be copied, \<open>cJSON_AddItemReferenceToObject\<close> answers
  false and the cell of the reference stays allocated with nobody knowing it.
\<close>

lemma failed_reference_leaks:
  assumes "allocate hk h = Some a" "h a = None" "h item = Some n" "object \<noteq> None"
    and "\<And>h. \<not> strdup hk h name"
  shows "\<exists>h'. cJSON_AddItemReferenceToObject hk h object (Some name) (Some item) = Some (False, h') \<and>
    h' a \<noteq> None"
  using assms
  by (auto simp: cJSON_AddItemReferenceToObject_def create_reference_def cJSON_New_Item_def Let_def
      add_item_to_object_at_def)

subsection \<open>Properties\<close>

text \<open>
  C21: Any sequence of appending, inserting, detaching, replacing and deleting, with any
  indices and with null pointers, follows no dangling pointer, answers as the same edits of a
  list do and leaves that list linked up in memory; what is neither in the array nor held by the
  client afterwards has been freed, and the rest of the memory is untouched.
\<close>

theorem array_edits_refine:
  assumes "bench h p d ts pool" and "S = insert p (set (all_addrs (ts @ pool)))"
    and "spec_ops spec_edit es (ts, pool) = (rs, ts', pool')"
  shows "\<exists>h'. run_ops (do_edit p) es (map tree_addr pool, h) = Some (rs, map tree_addr pool', h') \<and>
    bench h' p d ts' pool' \<and> (\<forall>x. x \<notin> S \<longrightarrow> h' x = h x) \<and>
    (\<forall>x\<in>S. h' x \<noteq> None \<longleftrightarrow> x \<in> insert p (set (all_addrs (ts' @ pool'))))"
proof -
  have "editing h S p d (map tree_addr pool, h) (ts, pool)" using assms(1,2) by (auto simp: editing_def)
  from edits.ops_refine [OF this, of es] assms(3)
  obtain s where s: "run_ops (do_edit p) es (map tree_addr pool, h) = Some (rs, s)"
      "editing h S p d s (ts', pool')" by auto
  obtain vs h' where "s = (vs, h')" by (cases s)
  note s = s [unfolded this]
  have b: "bench h' p d ts' pool'" using s(2) by (simp add: editing_def)
  have "h' x \<noteq> None" if x: "x \<in> insert p (set (all_addrs (ts' @ pool')))" for x
  proof (cases "x = p")
    case True
    then show ?thesis using bench_ring [OF b] by fastforce
  next
    case False
    then obtain t where "t \<in> set (ts' @ pool')" "x \<in> set (addrs t)"
      using x unfolding set_all_addrs by blast
    moreover from this(1) b have "tree_at h' t" by (auto simp: bench_def)
    ultimately show ?thesis using tree_at_alloc by fastforce
  qed
  with s b show ?thesis by (auto simp: editing_def)
qed

definition demo_cell :: "32 word \<Rightarrow> cjson_item" where
  "demo_cell ty = \<lparr>next_item = None, prev_item = None, child_item = None,
     item_data = zero_data\<lparr>node_type := ty\<rparr>\<rparr>"

definition demo_heap :: cjson_heap where
  "demo_heap = [0 \<mapsto> demo_cell 32, 1 \<mapsto> demo_cell 4, 2 \<mapsto> demo_cell 2, 3 \<mapsto> demo_cell 1, 7 \<mapsto> demo_cell 64]"

definition demo_leaf :: "addr \<Rightarrow> 32 word \<Rightarrow> tree" where
  "demo_leaf a ty = Tree a (zero_data\<lparr>node_type := ty\<rparr>) []"

lemma demo_bench:
  "bench demo_heap 0 (zero_data\<lparr>node_type := 32\<rparr>) [] [demo_leaf 1 4, demo_leaf 2 2, demo_leaf 3 1]"
  by (simp add: bench_def demo_heap_def demo_leaf_def demo_cell_def is_reference_def loose_def)

theorem array_edits_refine_witness:
  "\<exists>h'. run_ops (do_edit 0) [Edit_Append 1, Edit_Insert 0 0, Edit_Insert 1 0, Edit_Detach 2, Edit_Delete 0, Edit_Append 5]
      ([1, 2, 3], demo_heap) = Some ([True, True, True, True, True, False], [2], h') \<and>
    h' 1 = None \<and> h' 7 = demo_heap 7"
proof -
  obtain h' where "run_ops (do_edit 0) [Edit_Append 1, Edit_Insert 0 0, Edit_Insert 1 0, Edit_Detach 2, Edit_Delete 0, Edit_Append 5]
      (map tree_addr [demo_leaf 1 4, demo_leaf 2 2, demo_leaf 3 1], demo_heap) =
      Some ([True, True, True, True, True, False], map tree_addr [demo_leaf 2 2], h')"
    "\<forall>x. x \<notin> {0, 1, 2, 3} \<longrightarrow> h' x = demo_heap x"
    "\<forall>x\<in>{0, 1, 2, 3}. h' x \<noteq> None \<longleftrightarrow> x \<in> insert 0 (set (all_addrs ([demo_leaf 3 1] @ [demo_leaf 2 2])))"
    using array_edits_refine [OF demo_bench, of "{0, 1, 2, 3}"
      "[Edit_Append 1, Edit_Insert 0 0, Edit_Insert 1 0, Edit_Detach 2, Edit_Delete 0, Edit_Append 5]"
      "[True, True, True, True, True, False]" "[demo_leaf 3 1]" "[demo_leaf 2 2]"]
    by (auto simp: demo_leaf_def remove_nth_def)
  then show ?thesis by (intro exI [of _ h']) (auto simp: demo_leaf_def)
qed

end
