(* ===== verification/CJson_Copy.thy ===== *)
theory CJson_Copy
  imports CJson_Arrays
begin

section \<open>Copying items\<close>

text \<open>
  \<open>cJSON_Duplicate\<close> on the heap. The recursion follows the source, which may be cyclic through
  references, so it has fuel; \<open>dup_fuel\<close> is what a tree needs. The code's own limit is the depth
  \<open>CJSON_CIRCULAR_LIMIT\<close>. On a failure everything copied so far is released.
\<close>

abbreviation CJSON_CIRCULAR_LIMIT :: nat where "CJSON_CIRCULAR_LIMIT \<equiv> 10000"

definition copy_data :: "cjson_data \<Rightarrow> cjson_data" where
  "copy_data d = d\<lparr>node_type := node_type d AND NOT cJSON_IsReference\<rparr>"

definition new_cell :: "cjson_data \<Rightarrow> cjson_item" where
  "new_cell d = \<lparr>next_item = None, prev_item = None, child_item = None, item_data = d\<rparr>"

definition give_up :: "cjson_heap \<Rightarrow> addr \<Rightarrow> (addr option \<times> cjson_heap) option" where
  "give_up h newitem = do { h' \<leftarrow> cJSON_Delete h (Some newitem); Some (None, h') }"

definition copy_refused :: "hooks \<Rightarrow> cjson_heap \<Rightarrow> string option \<Rightarrow> bool" where
  "copy_refused hk h s \<longleftrightarrow> (case s of None \<Rightarrow> False | Some t \<Rightarrow> \<not> strdup hk h t)"

text \<open>The item itself: its data, then the copies of its strings.\<close>

definition copy_item :: "hooks \<Rightarrow> cjson_item \<Rightarrow> cjson_heap \<Rightarrow> (addr option \<times> cjson_heap) option" where
  "copy_item hk item h =
     (case cJSON_New_Item hk h of
        (None, h1) \<Rightarrow> Some (None, h1)
      | (Some a, h1) \<Rightarrow>
          (let d = copy_data (item_data item);
               h2 = h1(a \<mapsto> new_cell (d\<lparr>node_valuestring := None, node_string := None\<rparr>));
               h3 = h1(a \<mapsto> new_cell (d\<lparr>node_string := None\<rparr>))
           in if copy_refused hk h2 (node_valuestring d) then give_up h2 a
              else if node_type (item_data item) AND cJSON_StringIsConst = 0 \<and>
                copy_refused hk h3 (node_string d) then give_up h3 a
              else Some (Some a, h1(a \<mapsto> new_cell d))))"

text \<open>Linking the next child behind the last one.\<close>

definition link_child :: "cjson_heap \<Rightarrow> addr \<Rightarrow> addr option \<Rightarrow> addr \<Rightarrow> cjson_heap option" where
  "link_child h newitem last_child b =
     (case last_child of
        Some l \<Rightarrow> do {
          h' \<leftarrow> update h (Some l) (\<lambda>n. n\<lparr>next_item := Some b\<rparr>);
          update h' (Some b) (\<lambda>n. n\<lparr>prev_item := Some l\<rparr>)
        }
      | None \<Rightarrow> update h (Some newitem) (\<lambda>n. n\<lparr>child_item := Some b\<rparr>))"

fun cJSON_Duplicate_rec ::
    "hooks \<Rightarrow> nat \<Rightarrow> cjson_heap \<Rightarrow> addr option \<Rightarrow> nat \<Rightarrow> bool \<Rightarrow> (addr option \<times> cjson_heap) option"
  and duplicate_children ::
    "hooks \<Rightarrow> nat \<Rightarrow> cjson_heap \<Rightarrow> addr \<Rightarrow> addr option \<Rightarrow> addr option \<Rightarrow> nat \<Rightarrow>
       (addr option \<times> cjson_heap) option"
where
  "cJSON_Duplicate_rec hk 0 h item depth recurse = None"
| "cJSON_Duplicate_rec hk (Suc fuel) h item depth recurse =
     (case item of None \<Rightarrow> Some (None, h)
      | Some i \<Rightarrow> do {
          n \<leftarrow> h i;
          (newitem, h1) \<leftarrow> copy_item hk n h;
          (case newitem of None \<Rightarrow> Some (None, h1)
           | Some a \<Rightarrow> if \<not> recurse then Some (Some a, h1)
                      else duplicate_children hk fuel h1 a None (child_item n) depth)
        })"
| "duplicate_children hk 0 h newitem last_child child depth = None"
| "duplicate_children hk (Suc fuel) h newitem last_child child depth =
     (case child of
        None \<Rightarrow> do {
          n \<leftarrow> h newitem;
          h1 \<leftarrow> (if child_item n \<noteq> None
                then update h (child_item n) (\<lambda>c. c\<lparr>prev_item := last_child\<rparr>) else Some h);
          Some (Some newitem, h1)
        }
      | Some c \<Rightarrow>
          if depth \<ge> CJSON_CIRCULAR_LIMIT then give_up h newitem
          else do {
            (newchild, h1) \<leftarrow> cJSON_Duplicate_rec hk fuel h (Some c) (depth + 1) True;
            (case newchild of
               None \<Rightarrow> give_up h1 newitem
             | Some b \<Rightarrow> do {
                 h2 \<leftarrow> link_child h1 newitem last_child b;
                 cn \<leftarrow> h2 c;
                 duplicate_children hk fuel h2 newitem (Some b) (next_item cn) depth
               })
          })"

definition cJSON_Duplicate ::
    "hooks \<Rightarrow> nat \<Rightarrow> cjson_heap \<Rightarrow> addr option \<Rightarrow> bool \<Rightarrow> (addr option \<times> cjson_heap) option" where
  "cJSON_Duplicate hk fuel h item recurse = cJSON_Duplicate_rec hk fuel h item 0 recurse"

subsection \<open>Copies\<close>

fun dup_fuel :: "tree list \<Rightarrow> nat" where
  "dup_fuel [] = 1"
| "dup_fuel (Tree a d cs # ts) = Suc (Suc (dup_fuel cs) + dup_fuel ts)"

fun levels :: "tree list \<Rightarrow> nat" where
  "levels [] = 0"
| "levels (Tree a d cs # ts) = max (Suc (levels cs)) (levels ts)"

text \<open>The same tree at other addresses.\<close>

fun copies :: "tree list \<Rightarrow> tree list \<Rightarrow> bool" where
  "copies [] us \<longleftrightarrow> us = []"
| "copies (Tree a d cs # ts) us \<longleftrightarrow>
     (\<exists>b ds us'. us = Tree b (copy_data d) ds # us' \<and> copies cs ds \<and> copies ts us')"

lemma not_reference_copy [simp]: "\<not> is_reference (copy_data d)"
proof -
  have "(t AND NOT cJSON_IsReference) AND cJSON_IsReference = 0" for t :: "32 word"
    by (rule bit_word_eqI) (simp add: bit_simps)
  then show ?thesis by (simp add: is_reference_def copy_data_def)
qed

lemma copy_item_cases:
  assumes "hooks_law hk"
  shows "copy_item hk n h = Some (None, h) \<or>
    (\<exists>a. h a = None \<and> copy_item hk n h = Some (Some a, h(a \<mapsto> new_cell (copy_data (item_data n)))))"
proof (cases "allocate hk h")
  case None
  then show ?thesis by (simp add: copy_item_def cJSON_New_Item_def)
next
  case (Some a)
  then have fresh: "h a = None" using assms by (simp add: hooks_law_def)
  have "give_up (h(a \<mapsto> new_cell d)) a = Some (None, h)" for d
    using fresh by (simp add: give_up_def cJSON_Delete_Some free_item_def new_cell_def fun_upd_idem)
  then show ?thesis using Some fresh by (simp add: copy_item_def cJSON_New_Item_def Let_def)
qed

text \<open>Memory for \<open>room\<close> cells in all; strings are always copied.\<close>

definition serves :: "hooks \<Rightarrow> nat \<Rightarrow> bool" where
  "serves hk room \<longleftrightarrow> (\<forall>h s. strdup hk h s) \<and>
     (\<forall>h. finite (dom h) \<and> card (dom h) < room \<longrightarrow> allocate hk h \<noteq> None)"

lemma copy_item_served:
  assumes "serves hk room" "finite (dom h)" "card (dom h) < room"
  shows "copy_item hk n h \<noteq> Some (None, h')"
proof -
  obtain a where "allocate hk h = Some a" using assms unfolding serves_def by blast
  moreover have "\<not> copy_refused hk h s" for h s
    using assms by (simp add: serves_def copy_refused_def split: option.split)
  ultimately show ?thesis by (simp add: copy_item_def cJSON_New_Item_def Let_def)
qed

subsection \<open>A copy under construction\<close>

text \<open>
  The new item \<open>a\<close> with the children copied so far, in a heap that is \<open>h0\<close> without them.
\<close>

definition partial_copy ::
    "cjson_heap \<Rightarrow> cjson_heap \<Rightarrow> addr \<Rightarrow> cjson_data \<Rightarrow> tree list \<Rightarrow> addr option \<Rightarrow> bool" where
  "partial_copy h0 h a d us last_child \<longleftrightarrow>
     (\<exists>n. h a = Some n \<and> next_item n = None \<and> prev_item n = None \<and> item_data n = d \<and>
        seg h None (child_item n) (map tree_addr us) None last_child) \<and>
     (\<forall>u\<in>set us. tree_at h u) \<and> distinct (a # all_addrs us) \<and> \<not> is_reference d \<and>
     (\<forall>x\<in>insert a (set (all_addrs us)). h0 x = None) \<and>
     (\<forall>x. x \<notin> insert a (set (all_addrs us)) \<longrightarrow> h x = h0 x)"

lemma partial_give_up:
  assumes "partial_copy h0 h a d us l"
  shows "give_up h a = Some (None, h0)"
proof -
  obtain n where n: "h a = Some n" "next_item n = None" "item_data n = d"
      and seg: "seg h None (child_item n) (map tree_addr us) None l"
    using assms by (auto simp: partial_copy_def)
  have us: "\<forall>u\<in>set us. tree_at h u" "distinct (all_addrs us)" "a \<notin> set (all_addrs us)" "\<not> is_reference d"
    using assms by (auto simp: partial_copy_def)
  have del: "cJSON_Delete h (child_item n) = Some (h |` (- set (all_addrs us)))"
    by (rule delete_chain [OF seg us(1,2)])
  define h1 where "h1 = h |` (- set (all_addrs us))"
  have "h1(a := None) = h0"
    using assms by (auto simp: partial_copy_def restrict_map_def h1_def)
  moreover have "h1 a = Some n" using n us by (simp add: h1_def)
  moreover have "(if \<not> is_reference (item_data n) \<and> child_item n \<noteq> None
      then cJSON_Delete h (child_item n) else Some h) = Some h1"
    using del us(4) n(3) by (cases "child_item n") (simp_all add: h1_def)
  ultimately show ?thesis
    using n by (simp add: give_up_def cJSON_Delete_Some free_item_def)
qed

lemma partial_start:
  "h a = None \<Longrightarrow> \<not> is_reference d \<Longrightarrow> partial_copy h (h(a \<mapsto> new_cell d)) a d [] None"
  by (simp add: partial_copy_def new_cell_def)

lemma partial_card:
  assumes p: "partial_copy h0 h a d us l" and "finite (dom h0)"
  shows "finite (dom h)" "card (dom h) = card (dom h0) + Suc (length (all_addrs us))"
proof -
  let ?new = "insert a (set (all_addrs us))"
  have "h x \<noteq> None" if "x \<in> ?new" for x
    using that p tree_at_alloc unfolding set_all_addrs partial_copy_def by fastforce
  then have dom: "dom h = dom h0 \<union> ?new" using p unfolding partial_copy_def dom_def by force
  have "\<forall>x\<in>?new. h0 x = None" using p unfolding partial_copy_def by (elim conjE)
  then have disj: "dom h0 \<inter> ?new = {}" by (auto simp: domIff)
  show "finite (dom h)" using dom assms(2) by simp
  have "card ?new = Suc (length (all_addrs us))"
    using p distinct_card [of "a # all_addrs us"] by (simp add: partial_copy_def)
  then show "card (dom h) = card (dom h0) + Suc (length (all_addrs us))"
    using card_Un_disjoint [OF assms(2) _ disj] dom by simp
qed

definition copied :: "cjson_heap \<Rightarrow> cjson_heap \<Rightarrow> tree \<Rightarrow> bool" where
  "copied h0 h u \<longleftrightarrow> root_at h u \<and> (\<forall>x\<in>set (addrs u). h0 x = None) \<and>
     (\<forall>x. x \<notin> set (addrs u) \<longrightarrow> h x = h0 x)"

text \<open>The end of the loop closes the ring.\<close>

lemma partial_finish:
  assumes p: "partial_copy h0 h a d us l"
  shows "\<exists>h'. duplicate_children hk (Suc fuel) h a l None depth = Some (Some a, h') \<and>
    copied h0 h' (Tree a d us)"
proof (cases us)
  case Nil
  with p show ?thesis by (auto simp: partial_copy_def copied_def root_at_def)
next
  case (Cons u us')
  obtain n m where n: "h a = Some n" "next_item n = None" "prev_item n = None" "item_data n = d"
      "child_item n = Some (tree_addr u)" and m: "h (tree_addr u) = Some m"
      and seg: "seg h (Some (tree_addr u)) (next_item m) (map tree_addr us') None l"
    using p Cons by (auto simp: partial_copy_def)
  have dist: "distinct (a # all_addrs us)" and us: "\<forall>u\<in>set us. tree_at h u" and d: "\<not> is_reference d"
    and fresh: "\<forall>x\<in>insert a (set (all_addrs us)). h0 x = None"
      "\<forall>x. x \<notin> insert a (set (all_addrs us)) \<longrightarrow> h x = h0 x"
    using p by (auto simp: partial_copy_def)
  define h' where "h' = h(tree_addr u \<mapsto> m\<lparr>prev_item := l\<rparr>)"
  have roots: "distinct (a # map tree_addr us)"
    using dist distinct_tree_addrs [of us] tree_addrs_subset [of us] by auto
  have r: "relink a {tree_addr u} h h'" using m roots Cons by (auto simp: relink_def h'_def shape_def)
  have trees: "\<forall>u\<in>set us. tree_at h' u"
  proof
    fix t assume t: "t \<in> set us"
    show "tree_at h' t"
    proof (rule relink_tree [OF r])
      show "a \<notin> set (addrs t)" using t dist by (auto simp: set_all_addrs)
      show "{tree_addr u} \<inter> set (all_addrs (kids t)) = {}"
        using roots_not_below [of us t] dist t Cons by auto
    qed (use us t in blast)
  qed
  have "seg h' l (Some (tree_addr u)) (map tree_addr us) None l"
    using seg roots Cons by (simp add: h'_def)
  moreover have "h' a = Some n" using n roots Cons by (simp add: h'_def)
  ultimately have "tree_at h' (Tree a d us)" using n trees d by (auto simp: ring_def)
  moreover have "\<forall>x. x \<notin> insert a (set (all_addrs us)) \<longrightarrow> h' x = h0 x"
    using fresh(2) Cons tree_addr_in [of u] by (auto simp: h'_def simp del: tree_addr_in)
  ultimately have "copied h0 h' (Tree a d us)"
    using dist fresh(1) \<open>h' a = Some n\<close> n by (auto simp: copied_def root_at_def)
  moreover have "duplicate_children hk (Suc fuel) h a l None depth = Some (Some a, h')"
    using n m by (simp add: h'_def)
  ultimately show ?thesis by blast
qed

lemma partial_link:
  assumes p: "partial_copy h0 h a d us l" and c: "copied h h1 u"
  shows "\<exists>h2. link_child h1 a l (tree_addr u) = Some h2 \<and>
    partial_copy h0 h2 a d (us @ [u]) (Some (tree_addr u)) \<and>
    (\<forall>x. h0 x \<noteq> None \<longrightarrow> h2 x = h1 x)"
proof -
  obtain n where n: "h a = Some n" "next_item n = None" "prev_item n = None" "item_data n = d"
      and seg: "seg h None (child_item n) (map tree_addr us) None l"
    using p by (auto simp: partial_copy_def)
  have dist: "distinct (a # all_addrs us)" and us: "\<forall>u\<in>set us. tree_at h u" and d: "\<not> is_reference d"
    and fresh: "\<forall>x\<in>insert a (set (all_addrs us)). h0 x = None"
      "\<forall>x. x \<notin> insert a (set (all_addrs us)) \<longrightarrow> h x = h0 x"
    using p by (auto simp: partial_copy_def)
  have u: "root_at h1 u" "\<forall>x\<in>set (addrs u). h x = None" "\<forall>x. x \<notin> set (addrs u) \<longrightarrow> h1 x = h x"
    using c by (auto simp: copied_def)
  have alloc: "h x \<noteq> None" if "x \<in> insert a (set (all_addrs us))" for x
    using that n(1) us tree_at_alloc unfolding set_all_addrs by fastforce
  then have disj: "insert a (set (all_addrs us)) \<inter> set (addrs u) = {}" using u(2) by blast
  have dist1: "distinct (a # all_addrs (us @ [u]))"
    using dist disj u(1) by (auto simp: root_at_def)
  have roots: "distinct (a # map tree_addr (us @ [u]))"
    using dist1 distinct_tree_addrs [of "us @ [u]"] tree_addrs_subset [of "us @ [u]"] by auto
  obtain m where m: "h1 (tree_addr u) = Some m" "next_item m = None" "prev_item m = None"
    using u(1) tree_at_alloc [of h1 u "tree_addr u"] by (auto simp: root_at_def)
  have same: "h1 x = h x" if "x \<in> insert a (set (all_addrs us))" for x
    using u(3) that disj by blast
  have seg1: "seg h1 None (child_item n) (map tree_addr us) None l"
    using seg same tree_addrs_subset [of us] by (subst seg_cong [of _ _ h]) auto
  have h1a: "h1 a = Some n" using same n(1) by simp
  obtain h2 n2 where h2: "link_child h1 a l (tree_addr u) = Some h2"
      "relink a (tree_addr ` set (us @ [u])) h1 h2" "h2 a = Some n2" "item_data n2 = d"
      "next_item n2 = None" "prev_item n2 = None"
      "seg h2 None (child_item n2) (map tree_addr (us @ [u])) None (Some (tree_addr u))"
  proof (cases us rule: rev_cases)
    case Nil
    then have "l = None" using seg by simp
    with Nil m h1a n roots show ?thesis
      by (intro that [of "h1(a \<mapsto> n\<lparr>child_item := Some (tree_addr u)\<rparr>)" "n\<lparr>child_item := Some (tree_addr u)\<rparr>"])
        (auto simp: link_child_def relink_def shape_def)
  next
    case (snoc us' w)
    with seg1 obtain q where q: "l = Some (tree_addr w)" "h1 (tree_addr w) = Some q" "next_item q = None"
        "seg h1 None (child_item n) (map tree_addr us') (Some (tree_addr w)) (prev_item q)"
      by (auto simp: seg_snoc)
    show ?thesis
      using snoc m h1a n roots q
      by (intro that [of "h1(tree_addr w \<mapsto> q\<lparr>next_item := Some (tree_addr u)\<rparr>,
            tree_addr u \<mapsto> m\<lparr>prev_item := l\<rparr>)" n])
        (auto simp: link_child_def relink_def shape_def seg_append)
  qed
  have trees: "\<forall>t\<in>set (us @ [u]). tree_at h2 t"
  proof
    fix t assume t: "t \<in> set (us @ [u])"
    show "tree_at h2 t"
    proof (rule relink_tree [OF h2(2)])
      show "tree_at h1 t"
      proof (cases "t \<in> set us")
        case True
        then have "tree_at h1 t = tree_at h t" using same by (intro tree_at_same) (auto simp: set_all_addrs)
        with us True show ?thesis by simp
      qed (use t u(1) in \<open>auto simp: root_at_def\<close>)
      show "a \<notin> set (addrs t)" using t dist1 by (auto simp: set_all_addrs)
      show "tree_addr ` set (us @ [u]) \<inter> set (all_addrs (kids t)) = {}"
        using roots_not_below [OF _ t] dist1 by simp
    qed
  qed
  have in_all: "insert a (tree_addr ` set (us @ [u])) \<subseteq> insert a (set (all_addrs (us @ [u])))"
    using tree_addrs_subset [of "us @ [u]"] by auto
  have out: "h2 x = h0 x" if x: "x \<notin> insert a (set (all_addrs (us @ [u])))" for x
    using x in_all h2(2) u(3) fresh(2) by (auto simp: relink_def)
  have none: "h0 x = None" if x: "x \<in> insert a (set (all_addrs (us @ [u])))" for x
  proof (cases "x \<in> insert a (set (all_addrs us))")
    case False
    then have "h x = None" "h x = h0 x" using x u(2) fresh(2) by auto
    then show ?thesis by simp
  next
    case True
    then show ?thesis using fresh(1) by (rule bspec [rotated])
  qed
  have "partial_copy h0 h2 a d (us @ [u]) (Some (tree_addr u))"
    using h2(3-7) trees dist1 d out none by (auto simp: partial_copy_def)
  moreover have "h2 x = h1 x" if "h0 x \<noteq> None" for x
  proof -
    have "x \<notin> insert a (tree_addr ` set (us @ [u]))" using none [of x] that in_all by blast
    then show ?thesis using h2(2) by (simp add: relink_def)
  qed
  ultimately show ?thesis using h2(1) by blast
qed

subsection \<open>The loop over the children\<close>

text \<open>Either everything is copied, or nothing is left of the copy and it was not \<open>easy\<close>.\<close>

definition outcome ::
    "bool \<Rightarrow> cjson_heap \<Rightarrow> (addr option \<times> cjson_heap) option \<Rightarrow> tree list \<Rightarrow> (tree list \<Rightarrow> tree) \<Rightarrow> bool" where
  "outcome easy h0 r ts t \<longleftrightarrow>
     (r = Some (None, h0) \<and> \<not> easy) \<or>
     (\<exists>us h'. r = Some (Some (tree_addr (t us)), h') \<and> copies ts us \<and> copied h0 h' (t us))"

text \<open>Enough memory for \<open>n\<close> more cells, and not too many levels.\<close>

definition easy :: "hooks \<Rightarrow> nat \<Rightarrow> cjson_heap \<Rightarrow> nat \<Rightarrow> nat \<Rightarrow> bool" where
  "easy hk room h n deepest \<longleftrightarrow> serves hk room \<and> finite (dom h) \<and> card (dom h) + n \<le> room \<and>
     deepest \<le> CJSON_CIRCULAR_LIMIT"

lemma copies_length: "copies ts us \<Longrightarrow> length (all_addrs us) = length (all_addrs ts)"
  by (induction ts us rule: copies.induct) auto

lemma outcome_Cons:
  assumes "outcome e h0 r ts (\<lambda>vs. Tree a d ((us @ [Tree b (copy_data dc) ds]) @ vs))"
    and "copies cs ds" and "e' \<Longrightarrow> e"
  shows "outcome e' h0 r (Tree c dc cs # ts) (\<lambda>vs. Tree a d (us @ vs))"
proof -
  consider "r = Some (None, h0)" "\<not> e"
    | vs h' where "r = Some (Some a, h')" "copies ts vs"
      "copied h0 h' (Tree a d (us @ Tree b (copy_data dc) ds # vs))"
    using assms(1) by (auto simp: outcome_def)
  then show ?thesis
  proof cases
    case 1
    then show ?thesis using assms(3) by (auto simp: outcome_def)
  next
    case (2 vs h')
    then show ?thesis unfolding outcome_def
      using assms(2) by (intro disjI2 exI [of _ "Tree b (copy_data dc) ds # vs"] exI [of _ h']) simp
  qed
qed

fun no_references :: "tree list \<Rightarrow> bool" where
  "no_references [] = True"
| "no_references (Tree a d cs # ts) = (\<not> is_reference d \<and> no_references cs \<and> no_references ts)"

lemma duplicate_children_copies:
  assumes hk: "hooks_law hk"
  shows "\<lbrakk>partial_copy h0 h a d us l; seg h0 q p (map tree_addr ts) None l'; \<forall>t\<in>set ts. tree_at h0 t;
      no_references ts; dup_fuel ts \<le> fuel\<rbrakk> \<Longrightarrow>
    outcome (easy hk room h0 (Suc (length (all_addrs (us @ ts)))) (depth + levels ts)) h0
      (duplicate_children hk fuel h a l p depth) ts (\<lambda>vs. Tree a d (us @ vs))"
proof (induction ts arbitrary: h0 h a d us l q p l' fuel depth rule: dup_fuel.induct)
  case 1
  then obtain n where "fuel = Suc n" by (cases fuel) auto
  with 1 partial_finish [OF "1.prems"(1), of hk n depth] show ?case by (auto simp: outcome_def)
next
  case (2 c dc cs ts)
  obtain f where fuel: "fuel = Suc f" and f: "Suc (dup_fuel cs) \<le> f" "dup_fuel ts \<le> f"
    using "2.prems"(5) by (cases fuel) auto
  obtain g where g: "f = Suc g" "dup_fuel cs \<le> g" using f(1) by (cases f) auto
  obtain nc where p: "p = Some c" and nc: "h0 c = Some nc"
      and rest: "seg h0 (Some c) (next_item nc) (map tree_addr ts) None l'"
    using "2.prems"(2) by auto
  have refs: "\<not> is_reference dc" "no_references cs" "no_references ts" using "2.prems"(4) by auto
  have dc: "item_data nc = dc" and cs: "\<forall>t\<in>set cs. tree_at h0 t" and ts: "\<forall>t\<in>set ts. tree_at h0 t"
      and ring: "ring h0 (child_item nc) (map tree_addr cs)"
    using "2.prems"(3) nc refs(1) by auto
  have kept: "h x = h0 x" if "h0 x \<noteq> None" for x
    using "2.prems"(1) that unfolding partial_copy_def by metis
  have nc': "h c = Some nc" using kept [of c] nc by simp
  note undo = partial_give_up [OF "2.prems"(1)]
  let ?easy = "easy hk room h0 (Suc (length (all_addrs (us @ Tree c dc cs # ts)))) (depth + levels (Tree c dc cs # ts))"
  have fail: "outcome ?easy h0 (Some (None, h0)) (Tree c dc cs # ts) (\<lambda>vs. Tree a d (us @ vs))" if "\<not> ?easy"
    using that by (simp add: outcome_def)
  have inner: "easy hk room h (Suc (length (all_addrs cs))) (depth + 1 + levels cs)" if ?easy
    using that partial_card [OF "2.prems"(1)] by (auto simp: easy_def)
  show ?case
  proof (cases "depth \<ge> CJSON_CIRCULAR_LIMIT")
    case True
    then have eq: "duplicate_children hk fuel h a l p depth = Some (None, h0)"
      using undo p fuel by simp
    show ?thesis unfolding eq by (rule fail) (use True in \<open>auto simp: easy_def\<close>)
  next
    case False
    consider "copy_item hk nc h = Some (None, h)"
      | b where "h b = None" "copy_item hk nc h = Some (Some b, h(b \<mapsto> new_cell (copy_data dc)))"
      using copy_item_cases [OF hk, of nc h] dc by auto
    then show ?thesis
    proof cases
      case 1
      then have eq: "duplicate_children hk fuel h a l p depth = Some (None, h0)"
        using False undo p fuel g nc' by simp
      have "\<not> ?easy"
        using inner 1 copy_item_served [of hk room h nc h] by (auto simp: easy_def)
      then show ?thesis unfolding eq by (rule fail)
    next
      case (2 b)
      let ?h1 = "h(b \<mapsto> new_cell (copy_data dc))"
      have start: "partial_copy h ?h1 b (copy_data dc) [] None"
        using partial_start [of h b "copy_data dc"] 2(1) by simp
      obtain q' where seg: "seg h0 q' (child_item nc) (map tree_addr cs) None q'" using ring by (auto simp: ring_def)
      have alloc: "h0 x \<noteq> None" if "t \<in> set cs" "x \<in> set (addrs t)" for t x
        using that cs tree_at_alloc by fastforce
      have seg': "seg h q' (child_item nc) (map tree_addr cs) None q'"
        using seg kept alloc by (subst seg_cong [of _ _ h0]) auto
      have cs': "\<forall>t\<in>set cs. tree_at h t"
      proof
        fix t assume t: "t \<in> set cs"
        then have "tree_at h t = tree_at h0 t" using kept alloc by (intro tree_at_same) blast
        with t cs show "tree_at h t" by simp
      qed
      have rec: "cJSON_Duplicate_rec hk f h (Some c) (depth + 1) True =
          duplicate_children hk g ?h1 b None (child_item nc) (depth + 1)"
        using 2 nc' g by simp
      note IH = "2.IH"(1) [OF start seg' cs' refs(2) g(2), of "depth + 1", unfolded outcome_def]
      show ?thesis
      proof (cases "cJSON_Duplicate_rec hk f h (Some c) (depth + 1) True = Some (None, h)")
        case True
        then have eq: "duplicate_children hk fuel h a l p depth = Some (None, h0)"
          using False undo p fuel by simp
        from IH rec True inner have "\<not> ?easy" by auto
        then show ?thesis unfolding eq by (rule fail)
      next
        case False2: False
        with IH rec obtain ds h1 where r: "cJSON_Duplicate_rec hk f h (Some c) (depth + 1) True = Some (Some b, h1)"
            and ds: "copies cs ds" "copied h h1 (Tree b (copy_data dc) ds)" by auto
        obtain h2 where h2: "link_child h1 a l b = Some h2"
            "partial_copy h0 h2 a d (us @ [Tree b (copy_data dc) ds]) (Some b)"
            "\<forall>x. h0 x \<noteq> None \<longrightarrow> h2 x = h1 x"
          using partial_link [OF "2.prems"(1) ds(2)] by auto
        have "h1 c = h c" using ds(2) nc' unfolding copied_def by (metis option.distinct(1))
        then have "h2 c = Some nc" using h2(3) nc nc' by simp
        then have eq: "duplicate_children hk fuel h a l p depth =
            duplicate_children hk f h2 a (Some b) (next_item nc) depth"
          using False r h2(1) p fuel by simp
        show ?thesis unfolding eq
          by (rule outcome_Cons [OF "2.IH"(2) [OF h2(2) rest ts refs(3) f(2), of depth] ds(1)])
            (auto simp: easy_def copies_length [OF ds(1)])
      qed
    qed
  qed
qed

lemma duplicate_outcome:
  assumes "hooks_law hk" and "tree_at h t" and "no_references [t]" and "dup_fuel (kids t) < fuel"
    and "cJSON_Duplicate hk fuel h (Some (tree_addr t)) True = r"
  shows "(r = Some (None, h) \<and> \<not> easy hk room h (length (addrs t)) (levels (kids t))) \<or>
    (\<exists>u h'. r = Some (Some (tree_addr u), h') \<and> copies [t] [u] \<and> root_at h' u \<and>
       (\<forall>x\<in>set (addrs u). h x = None) \<and> (\<forall>x. x \<notin> set (addrs u) \<longrightarrow> h' x = h x))"
proof -
  obtain c d cs where t: "t = Tree c d cs" by (cases t)
  obtain f where f: "fuel = Suc f" "dup_fuel cs \<le> f" using assms(4) t by (cases fuel) auto
  obtain n q where n: "h c = Some n" "item_data n = d" "\<forall>t\<in>set cs. tree_at h t" "no_references cs"
      "seg h q (child_item n) (map tree_addr cs) None q"
    using assms(2,3) t by (auto simp: ring_def)
  consider "copy_item hk n h = Some (None, h)"
    | b where "h b = None" "copy_item hk n h = Some (Some b, h(b \<mapsto> new_cell (copy_data d)))"
    using copy_item_cases [OF assms(1), of n h] n(2) by auto
  then show ?thesis
  proof cases
    case 1
    then have "\<not> easy hk room h (length (addrs t)) (levels (kids t))"
      using copy_item_served [of hk room h n h] t by (auto simp: easy_def)
    then show ?thesis using 1 assms(5) t f n by (simp add: cJSON_Duplicate_def)
  next
    case (2 b)
    then have eq: "r = duplicate_children hk f (h(b \<mapsto> new_cell (copy_data d))) b None (child_item n) 0"
      using assms(5) t f n by (simp add: cJSON_Duplicate_def)
    have "partial_copy h (h(b \<mapsto> new_cell (copy_data d))) b (copy_data d) [] None"
      using partial_start [of h b "copy_data d"] 2(1) by simp
    from duplicate_children_copies [OF assms(1) this n(5,3,4) f(2), where depth = 0 and room = room]
    consider "r = Some (None, h)" "\<not> easy hk room h (length (addrs t)) (levels (kids t))"
      | ds h' where "r = Some (Some b, h')" "copies cs ds" "copied h h' (Tree b (copy_data d) ds)"
      unfolding eq [symmetric] outcome_def t by auto
    then show ?thesis
    proof cases
      case 2
      then show ?thesis
        by (intro disjI2 exI [of _ "Tree b (copy_data d) ds"] exI [of _ h']) (simp add: copied_def t)
    qed simp
  qed
qed

subsection \<open>Properties\<close>

text \<open>
  C25: \<open>cJSON_Duplicate\<close> of a tree without references always returns, and either hands out a complete copy
  in memory that was free, or NULL with the memory exactly as it was: a copy that fails half way is
  released whole. It is complete whenever there is memory for as many cells as the tree has
  and the tree has at most 10000 levels. The source is left alone, since what was allocated before is
  not changed.
\<close>

theorem duplicate_copies_or_restores:
  assumes "hooks_law hk" and "tree_at h t" and "no_references [t]" and "dup_fuel (kids t) < fuel"
    and "cJSON_Duplicate hk fuel h (Some (tree_addr t)) True = r"
  shows "(r = Some (None, h) \<and> \<not> easy hk room h (length (addrs t)) (levels (kids t))) \<or>
    (\<exists>u h'. r = Some (Some (tree_addr u), h') \<and> copies [t] [u] \<and> root_at h' u \<and>
       (\<forall>x\<in>set (addrs u). h x = None) \<and> (\<forall>x. x \<notin> set (addrs u) \<longrightarrow> h' x = h x))"
  using assms by (rule duplicate_outcome)

definition counting_hooks :: "nat \<Rightarrow> hooks" where
  "counting_hooks room = \<lparr>allocate = (\<lambda>h. find (\<lambda>a. h a = None) [0..<room]), strdup = (\<lambda>h s. True)\<rparr>"

lemma counting_hooks_law: "hooks_law (counting_hooks room)"
  by (auto simp: hooks_law_def counting_hooks_def find_Some_iff)

lemma counting_hooks_serve: "serves (counting_hooks room) room"
proof -
  have "\<exists>a\<in>{0..<room}. h a = None" if "finite (dom h)" "card (dom h) < room" for h :: cjson_heap
  proof (rule ccontr)
    assume none: "\<not> (\<exists>a\<in>{0..<room}. h a = None)"
    have "{0..<room} \<subseteq> dom h"
    proof
      fix a assume "a \<in> {0..<room}"
      then show "a \<in> dom h" using none by (simp add: domIff)
    qed
    from card_mono [OF that(1) this] that(2) show False by simp
  qed
  then have "find (\<lambda>a. h a = None) [0..<room] \<noteq> None" if "finite (dom h)" "card (dom h) < room"
    for h :: cjson_heap
    using that unfolding find_None_iff by fastforce
  then show ?thesis by (simp add: serves_def counting_hooks_def)
qed

definition demo_pair :: cjson_heap where
  "demo_pair = [0 \<mapsto> (demo_cell 32)\<lparr>child_item := Some 1\<rparr>,
     1 \<mapsto> (demo_cell 2)\<lparr>next_item := Some 2, prev_item := Some 2\<rparr>, 2 \<mapsto> (demo_cell 1)\<lparr>prev_item := Some 1\<rparr>]"

definition demo_pair_tree :: tree where
  "demo_pair_tree = Tree 0 (zero_data\<lparr>node_type := 32\<rparr>) [demo_leaf 1 2, demo_leaf 2 1]"

lemma demo_pair_facts:
  "tree_at demo_pair demo_pair_tree" "no_references [demo_pair_tree]" "dup_fuel (kids demo_pair_tree) < 9"
  "tree_addr demo_pair_tree = 0"
  by (simp_all add: demo_pair_def demo_pair_tree_def demo_leaf_def demo_cell_def is_reference_def ring_def)

lemma demo_pair_easy:
  "easy (counting_hooks 6) 6 demo_pair (length (addrs demo_pair_tree)) (levels (kids demo_pair_tree))"
proof -
  have dom: "dom demo_pair = {0, 1, 2}" by (auto simp: demo_pair_def split: if_splits)
  show ?thesis by (simp add: easy_def counting_hooks_serve dom demo_pair_tree_def demo_leaf_def)
qed

text \<open>With room for three cells more the pair is copied.\<close>

theorem duplicate_copies_or_restores_witness:
  "\<exists>u h'. cJSON_Duplicate (counting_hooks 6) 9 demo_pair (Some 0) True = Some (Some (tree_addr u), h') \<and>
     copies [demo_pair_tree] [u] \<and> root_at h' u"
  using duplicate_copies_or_restores [OF counting_hooks_law demo_pair_facts(1-3) refl, of 6 6] demo_pair_easy
  unfolding demo_pair_facts(4) by blast

end
