(* ===== verification/CJson_Tools.thy ===== *)
theory CJson_Tools
  imports CJson_Copy
begin

section \<open>Inspecting items and building arrays\<close>

text \<open>
  The rest of the operations of \<open>src/cJSON.c\<close> on items in memory: the type predicates, the getters and
  setters, the references to a string or to a chain of items, and the constructors that build an
  array of numbers or strings at once.
\<close>

subsection \<open>Predicates\<close>

text \<open>The type without the flags; a null pointer has no type.\<close>

definition item_kind :: "cjson_item \<Rightarrow> 32 word" where
  "item_kind n = node_type (item_data n) AND 0xFF"

definition has_kind :: "32 word \<Rightarrow> cjson_heap \<Rightarrow> addr option \<Rightarrow> bool option" where
  "has_kind k h item =
     (if item = None then Some False else map_option (\<lambda>n. item_kind n = k) (load h item))"

definition cJSON_IsInvalid :: "cjson_heap \<Rightarrow> addr option \<Rightarrow> bool option" where
  "cJSON_IsInvalid = has_kind 0"

definition cJSON_IsFalse :: "cjson_heap \<Rightarrow> addr option \<Rightarrow> bool option" where
  "cJSON_IsFalse = has_kind 1"

definition cJSON_IsTrue :: "cjson_heap \<Rightarrow> addr option \<Rightarrow> bool option" where
  "cJSON_IsTrue = has_kind 2"

definition cJSON_IsBool :: "cjson_heap \<Rightarrow> addr option \<Rightarrow> bool option" where
  "cJSON_IsBool h item =
     (if item = None then Some False
      else map_option (\<lambda>n. node_type (item_data n) AND (2 OR 1) \<noteq> 0) (load h item))"

definition cJSON_IsNull :: "cjson_heap \<Rightarrow> addr option \<Rightarrow> bool option" where
  "cJSON_IsNull = has_kind 4"

definition cJSON_IsNumber_at :: "cjson_heap \<Rightarrow> addr option \<Rightarrow> bool option" where
  "cJSON_IsNumber_at = has_kind 8"

definition cJSON_IsString_at :: "cjson_heap \<Rightarrow> addr option \<Rightarrow> bool option" where
  "cJSON_IsString_at = has_kind 16"

definition cJSON_IsArray :: "cjson_heap \<Rightarrow> addr option \<Rightarrow> bool option" where
  "cJSON_IsArray = has_kind 32"

definition cJSON_IsObject_at :: "cjson_heap \<Rightarrow> addr option \<Rightarrow> bool option" where
  "cJSON_IsObject_at = has_kind 64"

definition cJSON_IsRaw :: "cjson_heap \<Rightarrow> addr option \<Rightarrow> bool option" where
  "cJSON_IsRaw = has_kind 128"

lemma cJSON_IsBool_iff:
  assumes "h a = Some n" "node_type (item_data n) \<in> {0, 1, 2, 4, 8, 16, 32, 64, 128}"
  shows "cJSON_IsBool h (Some a) = Some True \<longleftrightarrow> cJSON_IsTrue h (Some a) = Some True \<or> cJSON_IsFalse h (Some a) = Some True"
  using assms(2) unfolding insert_iff empty_iff
  by (elim disjE) (simp_all add: assms(1) cJSON_IsBool_def cJSON_IsTrue_def cJSON_IsFalse_def has_kind_def item_kind_def)

definition cJSON_HasObjectItem :: "cjson_heap \<Rightarrow> addr option \<Rightarrow> string option \<Rightarrow> bool option" where
  "cJSON_HasObjectItem h object name = map_option (\<lambda>p. p \<noteq> None) (get_object_item_at h object name False)"

subsection \<open>Getters and setters\<close>

definition cJSON_GetStringValue :: "cjson_heap \<Rightarrow> addr option \<Rightarrow> string option option" where
  "cJSON_GetStringValue h item = do {
     ok \<leftarrow> cJSON_IsString_at h item;
     if \<not> ok then Some None else map_option (\<lambda>n. node_valuestring (item_data n)) (load h item)
   }"

text \<open>\<open>None\<close> inside stands for NaN.\<close>

definition cJSON_GetNumberValue :: "cjson_heap \<Rightarrow> addr option \<Rightarrow> dbl option option" where
  "cJSON_GetNumberValue h item = do {
     ok \<leftarrow> cJSON_IsNumber_at h item;
     if \<not> ok then Some None else map_option (\<lambda>n. Some (node_valuedouble (item_data n))) (load h item)
   }"

definition cJSON_SetNumberHelper ::
    "cjson_heap \<Rightarrow> addr option \<Rightarrow> dbl \<Rightarrow> (dbl option \<times> cjson_heap) option" where
  "cJSON_SetNumberHelper h object number =
     (if object = None then Some (None, h)
      else map_option (\<lambda>h'. (Some number, h')) (update h object
        (\<lambda>n. n\<lparr>item_data := (item_data n)\<lparr>node_valueint := double_to_int number, node_valuedouble := number\<rparr>\<rparr>)))"

text \<open>
  A string that is not longer is copied over the old one, and only when the two do not overlap in
  memory (\<open>apart\<close>, which the code finds out from the addresses); a longer one gets memory of its own.
\<close>

definition cJSON_SetValuestring ::
    "hooks \<Rightarrow> cjson_heap \<Rightarrow> addr option \<Rightarrow> string option \<Rightarrow> bool \<Rightarrow> (string option \<times> cjson_heap) option" where
  "cJSON_SetValuestring hk h object str apart =
     (case object of
        None \<Rightarrow> Some (None, h)
      | Some a \<Rightarrow> do {
          n \<leftarrow> h a;
          let d = item_data n;
          if node_type d AND 16 = 0 \<or> is_reference d then Some (None, h)
          else case (node_valuestring d, str) of
            (Some old, Some new) \<Rightarrow>
              if (if length (c_str new) \<le> length old then apart else strdup hk h new)
              then Some (Some (c_str new),
                h(a \<mapsto> n\<lparr>item_data := d\<lparr>node_valuestring := Some (c_str new)\<rparr>\<rparr>))
              else Some (None, h)
          | _ \<Rightarrow> Some (None, h)
        })"

subsection \<open>References\<close>

text \<open>These point to a string or a chain that belongs to somebody else.\<close>

definition cJSON_CreateStringReference :: "hooks \<Rightarrow> string option \<Rightarrow> cjson_heap \<Rightarrow> addr option \<times> cjson_heap" where
  "cJSON_CreateStringReference hk s = create_item hk
     (zero_data\<lparr>node_type := 16 OR cJSON_IsReference, node_valuestring := map_option c_str s\<rparr>)"

definition create_chain_reference :: "hooks \<Rightarrow> 32 word \<Rightarrow> addr option \<Rightarrow> cjson_heap \<Rightarrow> addr option \<times> cjson_heap" where
  "create_chain_reference hk ty child h =
     (case cJSON_New_Item hk h of
        (None, h) \<Rightarrow> (None, h)
      | (Some a, h) \<Rightarrow> (Some a, h(a := map_option (\<lambda>n. n\<lparr>child_item := child,
          item_data := (item_data n)\<lparr>node_type := ty OR cJSON_IsReference\<rparr>\<rparr>) (h a))))"

definition cJSON_CreateObjectReference :: "hooks \<Rightarrow> addr option \<Rightarrow> cjson_heap \<Rightarrow> addr option \<times> cjson_heap" where
  "cJSON_CreateObjectReference hk = create_chain_reference hk 64"

definition cJSON_CreateArrayReference :: "hooks \<Rightarrow> addr option \<Rightarrow> cjson_heap \<Rightarrow> addr option \<times> cjson_heap" where
  "cJSON_CreateArrayReference hk = create_chain_reference hk 32"

text \<open>Releasing such a reference leaves the chain it points to alone.\<close>

lemma delete_chain_reference:
  assumes "hooks_law hk" "create_chain_reference hk ty child h = (Some a, h')" "ty \<in> {32, 64}"
  shows "cJSON_Delete h' (Some a) = Some h"
proof -
  have "h a = None" "h' = h(a \<mapsto> \<lparr>next_item = None, prev_item = None, child_item = child,
      item_data = zero_data\<lparr>node_type := ty OR cJSON_IsReference\<rparr>\<rparr>)"
    using assms(1,2) by (auto simp: create_chain_reference_def cJSON_New_Item_def hooks_law_def
        split: option.splits)
  then show ?thesis
    using assms(3) by (auto simp: cJSON_Delete_Some is_reference_def free_item_def fun_upd_idem)
qed

subsection \<open>Arrays of numbers and strings\<close>

text \<open>
  The four constructors share their loop: \<open>mk i\<close> creates the item for the element \<open>i\<close>; reading an
  element that is not there is a fault. \<open>p\<close> is the item created last.
\<close>

fun fill_array ::
    "(nat \<Rightarrow> cjson_heap \<Rightarrow> (addr option \<times> cjson_heap) option) \<Rightarrow> addr \<Rightarrow> nat list \<Rightarrow> addr option \<Rightarrow> cjson_heap \<Rightarrow>
       (addr option \<times> cjson_heap) option" where
  "fill_array mk a [] p h = do {
     n \<leftarrow> h a;
     h1 \<leftarrow> (if child_item n \<noteq> None
           then update h (child_item n) (\<lambda>c. c\<lparr>prev_item := p\<rparr>) else Some h);
     Some (Some a, h1)
   }"
| "fill_array mk a (i # is) p h = do {
     (item, h1) \<leftarrow> mk i h;
     (case item of
        None \<Rightarrow> do { h2 \<leftarrow> cJSON_Delete h1 (Some a); Some (None, h2) }
      | Some b \<Rightarrow> do {
          h2 \<leftarrow> (if i = 0 then update h1 (Some a) (\<lambda>n. n\<lparr>child_item := Some b\<rparr>)
                else suffix_object h1 p (Some b));
          fill_array mk a is (Some b) h2
        })
   }"

definition create_filled ::
    "hooks \<Rightarrow> (nat \<Rightarrow> cjson_heap \<Rightarrow> (addr option \<times> cjson_heap) option) \<Rightarrow> int \<Rightarrow> cjson_heap \<Rightarrow>
       (addr option \<times> cjson_heap) option" where
  "create_filled hk mk num h =
     (case cJSON_CreateArray hk h of
        (None, h1) \<Rightarrow> Some (None, h1)
      | (Some a, h1) \<Rightarrow> fill_array mk a [0..<nat num] None h1)"

definition element :: "('a \<Rightarrow> cjson_heap \<Rightarrow> (addr option \<times> cjson_heap) option) \<Rightarrow> 'a list \<Rightarrow> nat \<Rightarrow> cjson_heap \<Rightarrow>
    (addr option \<times> cjson_heap) option" where
  "element create xs i h = (if i < length xs then create (xs ! i) h else None)"

definition cJSON_CreateIntArray ::
    "hooks \<Rightarrow> int list option \<Rightarrow> int \<Rightarrow> cjson_heap \<Rightarrow> (addr option \<times> cjson_heap) option" where
  "cJSON_CreateIntArray hk numbers num h =
     (case numbers of
        Some xs \<Rightarrow> if num < 0 then Some (None, h)
          else create_filled hk (element (\<lambda>x h. Some (cJSON_CreateNumber_at hk (dbl_of_int x) h)) xs) num h
      | None \<Rightarrow> Some (None, h))"

text \<open>A \<open>float\<close> is a double already when it is passed on.\<close>

definition cJSON_CreateDoubleArray ::
    "hooks \<Rightarrow> dbl list option \<Rightarrow> int \<Rightarrow> cjson_heap \<Rightarrow> (addr option \<times> cjson_heap) option" where
  "cJSON_CreateDoubleArray hk numbers num h =
     (case numbers of
        Some xs \<Rightarrow> if num < 0 then Some (None, h)
          else create_filled hk (element (\<lambda>x h. Some (cJSON_CreateNumber_at hk x h)) xs) num h
      | None \<Rightarrow> Some (None, h))"

definition cJSON_CreateFloatArray ::
    "hooks \<Rightarrow> dbl list option \<Rightarrow> int \<Rightarrow> cjson_heap \<Rightarrow> (addr option \<times> cjson_heap) option" where
  "cJSON_CreateFloatArray hk numbers num h =
     (case numbers of
        Some xs \<Rightarrow> if num < 0 then Some (None, h)
          else create_filled hk (element (\<lambda>x h. Some (cJSON_CreateNumber_at hk x h)) xs) num h
      | None \<Rightarrow> Some (None, h))"

definition cJSON_CreateStringArray ::
    "hooks \<Rightarrow> string option list option \<Rightarrow> int \<Rightarrow> cjson_heap \<Rightarrow> (addr option \<times> cjson_heap) option" where
  "cJSON_CreateStringArray hk strings num h =
     (case strings of
        Some xs \<Rightarrow> if num < 0 then Some (None, h)
          else create_filled hk (element (\<lambda>x h. cJSON_CreateString hk x h) xs) num h
      | None \<Rightarrow> Some (None, h))"

subsection \<open>What the constructors build\<close>

text \<open>What creating a leaf does: nothing, or one new item with the data \<open>d\<close>.\<close>

definition makes :: "(cjson_heap \<Rightarrow> (addr option \<times> cjson_heap) option) \<Rightarrow> cjson_data \<Rightarrow> bool" where
  "makes create d \<longleftrightarrow> \<not> is_reference d \<and>
     (\<forall>h. create h = Some (None, h) \<or> (\<exists>b. h b = None \<and> create h = Some (Some b, h(b \<mapsto> new_cell d))))"

lemma create_item_new:
  assumes "hooks_law hk"
  shows "create_item hk d h = (None, h) \<or> (\<exists>b. h b = None \<and> create_item hk d h = (Some b, h(b \<mapsto> new_cell d)))"
  using assms by (cases "allocate hk h")
    (auto simp: create_item_def cJSON_New_Item_def hooks_law_def new_cell_def)

definition number_data :: "dbl \<Rightarrow> cjson_data" where
  "number_data x = zero_data\<lparr>node_type := 8, node_valuedouble := x, node_valueint := double_to_int x\<rparr>"

definition string_data :: "string \<Rightarrow> cjson_data" where
  "string_data s = zero_data\<lparr>node_type := 16, node_valuestring := Some (c_str s)\<rparr>"

lemma create_number_makes: "hooks_law hk \<Longrightarrow> makes (\<lambda>h. Some (cJSON_CreateNumber_at hk x h)) (number_data x)"
  using create_item_new [of hk "number_data x"]
  by (auto simp: makes_def is_reference_def number_data_def cJSON_CreateNumber_at_def)

lemma create_string_makes:
  assumes "hooks_law hk"
  shows "makes (cJSON_CreateString hk (Some s)) (string_data s)"
  unfolding makes_def
proof (intro conjI allI)
  show "\<not> is_reference (string_data s)" by (simp add: is_reference_def string_data_def)
next
  fix h
  let ?d = "zero_data\<lparr>node_type := 16\<rparr>"
  from create_item_new [OF assms, of ?d h]
  consider "create_item hk ?d h = (None, h)"
    | b where "h b = None" "create_item hk ?d h = (Some b, h(b \<mapsto> new_cell ?d))" by blast
  then show "cJSON_CreateString hk (Some s) h = Some (None, h) \<or>
    (\<exists>b. h b = None \<and> cJSON_CreateString hk (Some s) h = Some (Some b, h(b \<mapsto> new_cell (string_data s))))"
  proof cases
    case (2 b)
    then show ?thesis
      by (simp add: cJSON_CreateString_def create_with_string_def cJSON_Delete_Some free_item_def new_cell_def
          fun_upd_idem string_data_def)
  qed (simp add: cJSON_CreateString_def create_with_string_def)
qed

lemma copied_leaf: "h b = None \<Longrightarrow> \<not> is_reference d \<Longrightarrow> copied h (h(b \<mapsto> new_cell d)) (Tree b d [])"
  by (simp add: copied_def root_at_def new_cell_def)

lemma fill_array_builds:
  "partial_copy h0 h a d us l \<Longrightarrow> (\<forall>i\<in>set is. makes (mk i) (ds i)) \<Longrightarrow> is = [length us..<k] \<Longrightarrow> length us \<le> k \<Longrightarrow>
     fill_array mk a is l h = Some (None, h0) \<or>
     (\<exists>vs h'. fill_array mk a is l h = Some (Some a, h') \<and> copied h0 h' (Tree a d (us @ vs)) \<and>
        list_all2 (\<lambda>i v. v = Tree (tree_addr v) (ds i) []) is vs)"
proof (induction "is" arbitrary: us l h)
  case Nil
  obtain h' where "duplicate_children undefined (Suc 0) h a l None 0 = Some (Some a, h')" "copied h0 h' (Tree a d us)"
    using partial_finish [OF Nil.prems(1)] by blast
  then show ?case by (intro disjI2 exI [of _ "[]"] exI [of _ h']) simp
next
  case (Cons i js)
  have "length us < k" using Cons.prems(3) by (cases "length us < k") auto
  then have i: "i = length us" and js: "js = [length (us @ [u])..<k]" for u
    using Cons.prems(3) by (simp_all add: upt_conv_Cons)
  have "makes (mk i) (ds i)" using Cons.prems(2) by simp
  then consider "mk i h = Some (None, h)"
    | b where "h b = None" "mk i h = Some (Some b, h(b \<mapsto> new_cell (ds i)))" "\<not> is_reference (ds i)"
    unfolding makes_def by blast
  then show ?case
  proof cases
    case 1
    with partial_give_up [OF Cons.prems(1)] show ?thesis by (simp add: give_up_def)
  next
    case (2 b)
    let ?h1 = "h(b \<mapsto> new_cell (ds i))" and ?u = "Tree b (ds i) []"
    obtain h2 where h2: "link_child ?h1 a l b = Some h2" "partial_copy h0 h2 a d (us @ [?u]) (Some b)"
      using partial_link [OF Cons.prems(1) copied_leaf [of h b "ds i", OF 2(1,3)]] by auto
    have "l = None \<longleftrightarrow> us = []"
      using Cons.prems(1) seg_last [of h None _ "map tree_addr us" None l] by (auto simp: partial_copy_def)
    then have link: "(if i = 0 then update ?h1 (Some a) (\<lambda>n. n\<lparr>child_item := Some b\<rparr>)
        else suffix_object ?h1 l (Some b)) = Some h2"
      using h2(1) i by (auto simp: link_child_def suffix_object_def)
    have step: "fill_array mk a (i # js) l h = fill_array mk a js (Some b) h2"
      using 2 link by simp
    have "length (us @ [?u]) \<le> k" using \<open>length us < k\<close> by simp
    from Cons.IH [OF h2(2) _ js this] Cons.prems(2)
    consider "fill_array mk a js (Some b) h2 = Some (None, h0)"
      | vs h' where "fill_array mk a js (Some b) h2 = Some (Some a, h')"
        "copied h0 h' (Tree a d (us @ ?u # vs))" "list_all2 (\<lambda>i v. v = Tree (tree_addr v) (ds i) []) js vs"
      by auto
    then show ?thesis
    proof cases
      case (2 vs h')
      then show ?thesis unfolding step by (intro disjI2 exI [of _ "?u # vs"] exI [of _ h']) simp
    next
      case 1
      then show ?thesis unfolding step by (rule disjI1)
    qed
  qed
qed

text \<open>An array of leaves with the given data in new memory, or nothing.\<close>

definition built :: "cjson_heap \<Rightarrow> (addr option \<times> cjson_heap) option \<Rightarrow> cjson_data list \<Rightarrow> bool" where
  "built h r ds \<longleftrightarrow> r = Some (None, h) \<or>
     (\<exists>a us h'. r = Some (Some a, h') \<and> copied h h' (Tree a (zero_data\<lparr>node_type := 32\<rparr>) us) \<and>
        map tree_data us = ds \<and> (\<forall>u\<in>set us. kids u = []) \<and> cJSON_GetArraySize h' (Some a) = Some (int32 (int (length ds))))"

lemma create_filled_builds:
  assumes "hooks_law hk" and "\<And>x. x \<in> set xs \<Longrightarrow> makes (create x) (f x)"
  shows "built h (create_filled hk (element create xs) (int (length xs)) h) (map f xs)"
proof -
  let ?d = "zero_data\<lparr>node_type := 32\<rparr>" and ?mk = "element create xs"
  have d: "\<not> is_reference ?d" by (simp add: is_reference_def)
  from create_item_new [OF assms(1), of ?d h]
  consider "create_item hk ?d h = (None, h)"
    | a where "h a = None" "create_item hk ?d h = (Some a, h(a \<mapsto> new_cell ?d))" by blast
  then show ?thesis
  proof cases
    case 1
    then show ?thesis by (simp add: built_def create_filled_def cJSON_CreateArray_def)
  next
    case (2 a)
    have run: "create_filled hk ?mk (int (length xs)) h =
        fill_array ?mk a [0..<length xs] None (h(a \<mapsto> new_cell ?d))"
      using 2 by (simp add: create_filled_def cJSON_CreateArray_def)
    have makes: "\<forall>i\<in>set [0..<length xs]. makes (?mk i) (f (xs ! i))"
      using assms(2) by (simp add: makes_def element_def)
    from fill_array_builds [OF partial_start [of h a ?d, OF 2(1) d] this, of "length xs"]
    consider "fill_array ?mk a [0..<length xs] None (h(a \<mapsto> new_cell ?d)) = Some (None, h)"
      | us h' where "fill_array ?mk a [0..<length xs] None (h(a \<mapsto> new_cell ?d)) = Some (Some a, h')"
        "copied h h' (Tree a ?d us)" "list_all2 (\<lambda>i v. v = Tree (tree_addr v) (f (xs ! i)) []) [0..<length xs] us"
      by auto
    then show ?thesis
    proof cases
      case (2 us h')
      have len: "length us = length xs" using list_all2_lengthD [OF 2(3)] by simp
      have us: "us ! i = Tree (tree_addr (us ! i)) (f (xs ! i)) []" if "i < length xs" for i
        using list_all2_nthD [OF 2(3), of i] that by simp
      have "map tree_data us = map f xs"
        by (rule nth_equalityI) (use len us in \<open>auto, metis tree.sel(2)\<close>)
      moreover have "\<forall>u\<in>set us. kids u = []"
        using us len by (metis in_set_conv_nth tree.sel(3))
      moreover have "cJSON_GetArraySize h' (Some a) = Some (int32 (int (length us)))"
        using 2(2) d by (intro array_size [of _ _ ?d _ "[]"]) (auto simp: copied_def root_at_def bench_def)
      ultimately show ?thesis unfolding run built_def using 2(1,2) len by auto
    qed (simp add: built_def run)
  qed
qed

subsection \<open>Properties\<close>

text \<open>
  The constructors of arrays build, in memory that was free, a well-linked array of exactly the given
  elements in order, or release what they have built so far and leave the memory as it was.
\<close>

theorem arrays_built:
  assumes "hooks_law hk"
  shows "built h (cJSON_CreateIntArray hk (Some xs) (int (length xs)) h) (map (number_data \<circ> dbl_of_int) xs) \<and>
    built h (cJSON_CreateDoubleArray hk (Some ys) (int (length ys)) h) (map number_data ys) \<and>
    built h (cJSON_CreateStringArray hk (Some (map Some zs)) (int (length zs)) h) (map string_data zs)"
proof (intro conjI)
  show "built h (cJSON_CreateIntArray hk (Some xs) (int (length xs)) h) (map (number_data \<circ> dbl_of_int) xs)"
    using create_filled_builds [OF assms, of xs "\<lambda>x h. Some (cJSON_CreateNumber_at hk (dbl_of_int x) h)" "number_data \<circ> dbl_of_int"]
    by (simp add: cJSON_CreateIntArray_def create_number_makes assms)
  show "built h (cJSON_CreateDoubleArray hk (Some ys) (int (length ys)) h) (map number_data ys)"
    using create_filled_builds [OF assms, of ys "\<lambda>x h. Some (cJSON_CreateNumber_at hk x h)" number_data]
    by (simp add: cJSON_CreateDoubleArray_def create_number_makes assms)
  show "built h (cJSON_CreateStringArray hk (Some (map Some zs)) (int (length zs)) h) (map string_data zs)"
    using create_filled_builds [OF assms, of "map Some zs" "\<lambda>x h. cJSON_CreateString hk x h" "string_data \<circ> the"]
    by (simp add: cJSON_CreateStringArray_def o_def) (use create_string_makes [OF assms] in fastforce)
qed

theorem arrays_built_witness:
  "built Map.empty (cJSON_CreateIntArray (counting_hooks 3) (Some [7, - 1]) 2 Map.empty)
     [number_data (dbl_of_int 7), number_data (dbl_of_int (- 1))]"
  using arrays_built [OF counting_hooks_law [of 3], of Map.empty "[7, - 1]" "[]" "[]"] by simp

end
