(* ===== verification/CJson_Compare.thy ===== *)
theory CJson_Compare
  imports CJson_Tools CJson_Facts
begin

section \<open>Comparing items\<close>

text \<open>
  \<open>cJSON_Compare\<close> of \<open>src/cJSON.c\<close> on the heap. The recursion follows the items, which may be cyclic
  through references, so it has fuel; a tree needs no more than its size (\<open>dup_fuel\<close>). It is compared
  with \<open>equal_json\<close>, equality of the trees in which the members of an object have no order.
\<close>

subsection \<open>Numbers\<close>

text \<open>A finite double as a fraction.\<close>

definition fraction :: "int \<Rightarrow> int \<Rightarrow> int \<times> int" where
  "fraction m e = (if 0 \<le> e then (m * 2 ^ nat e, 1) else (m, 2 ^ nat (- e)))"

fun dbl_le :: "dbl \<Rightarrow> dbl \<Rightarrow> bool" where
  "dbl_le (DInf s) (DInf t) = (s \<or> \<not> t)"
| "dbl_le (DInf s) (DFin n f) = s"
| "dbl_le (DFin m e) (DInf t) = (\<not> t)"
| "dbl_le (DFin m e) (DFin n f) =
     (case (fraction m e, fraction n f) of ((a, b), (c, d)) \<Rightarrow> a * d \<le> c * b)"

text \<open>
  The difference and the scaled maximum are rounded, as the operations on doubles are. The
  difference of equal infinities is not a number, which no comparison holds of.
\<close>

fun compare_double :: "dbl \<Rightarrow> dbl \<Rightarrow> bool" where
  "compare_double (DInf s) (DInf t) = (s \<noteq> t)"
| "compare_double (DInf s) (DFin n f) = True"
| "compare_double (DFin m e) (DInf t) = True"
| "compare_double (DFin m e) (DFin n f) =
     (case (fraction m e, fraction n f) of ((a, b), (c, d)) \<Rightarrow>
        dbl_le (round_ratio False \<bar>a * d - c * b\<bar> (b * d))
               (round_ratio False (max (\<bar>a\<bar> * d) (\<bar>c\<bar> * b)) (b * d * 2 ^ 52)))"

lemma compare_double_sym: "compare_double x y = compare_double y x"
proof (cases "(x, y)" rule: compare_double.cases)
  case (4 m e n f)
  obtain a b c d where "fraction m e = (a, b)" "fraction n f = (c, d)" by (metis surj_pair)
  then show ?thesis using 4 by (simp add: abs_minus_commute [of "a * d"] max.commute [of "d * \<bar>a\<bar>"] mult.commute)
qed auto

definition finite_dbl :: "dbl \<Rightarrow> bool" where
  "finite_dbl x \<longleftrightarrow> (\<exists>m e. x = DFin m e)"

lemma norm_dbl_nonneg: "0 \<le> q \<Longrightarrow> \<exists>m e'. norm_dbl q e = DFin m e' \<and> 0 \<le> m"
proof (induction q e rule: norm_dbl.induct)
  case (1 m e)
  show ?case
  proof (cases "m = 0 \<or> odd m")
    case True
    then show ?thesis using "1.prems" by (subst norm_dbl.simps) auto
  next
    case False
    then show ?thesis using 1 by (subst norm_dbl.simps) auto
  qed
qed

lemma round_quotient_nonneg: "0 \<le> c \<Longrightarrow> 0 < d \<Longrightarrow> 0 \<le> round_quotient c d"
  by (auto simp: round_quotient_def Let_def pos_imp_zdiv_nonneg_iff)

lemma round_ratio_nonneg:
  assumes "0 \<le> num" "0 < den"
  shows "dbl_le (DFin 0 0) (round_ratio False num den)"
proof (cases "num = 0")
  case False
  obtain c d where cd: "scale num den (round_exp num den) = (c, d)" by (cases "scale num den (round_exp num den)")
  then have "0 \<le> c" "0 < d" using assms by (auto simp: scale_def split: if_splits)
  then have "0 \<le> round_quotient c d" by (rule round_quotient_nonneg)
  from norm_dbl_nonneg [OF this, of "round_exp num den"] show ?thesis
    using False cd by (auto simp: round_ratio_def Let_def fraction_def)
qed (simp add: round_ratio_def fraction_def)

text \<open>Finite numbers equal themselves, infinite ones do not, but they equal every finite number.\<close>

lemma compare_double_refl: "compare_double x x \<longleftrightarrow> finite_dbl x"
proof (cases x)
  case (DFin m e)
  obtain a b where ab: "fraction m e = (a, b)" by (cases "fraction m e")
  then have "0 < b" by (auto simp: fraction_def split: if_splits)
  then have "dbl_le (DFin 0 0) (round_ratio False (max (\<bar>a\<bar> * b) (\<bar>a\<bar> * b)) (b * b * 2 ^ 52))"
    by (intro round_ratio_nonneg) auto
  moreover have "round_ratio False \<bar>a * b - a * b\<bar> (b * b) = DFin 0 0" by (simp add: round_ratio_def)
  ultimately show ?thesis using DFin ab by (simp add: finite_dbl_def del: max.idem)
qed (simp add: finite_dbl_def)

lemma infinity_equals_numbers: "finite_dbl y \<Longrightarrow> compare_double (DInf s) y \<and> \<not> compare_double (DInf s) (DInf s)"
  by (auto simp: finite_dbl_def)

subsection \<open>The code\<close>

definition known_kind :: "32 word \<Rightarrow> bool" where
  "known_kind k \<longleftrightarrow> k \<in> {1, 2, 4, 8, 16, 128, 32, 64}"

text \<open>One item against another, with the loops over the elements and the members as arguments.\<close>

definition compare_items ::
    "(addr option \<Rightarrow> addr option \<Rightarrow> bool option) \<Rightarrow> (addr option \<Rightarrow> addr option \<Rightarrow> bool option) \<Rightarrow>
       cjson_heap \<Rightarrow> addr option \<Rightarrow> addr option \<Rightarrow> bool option" where
  "compare_items elements members h a b =
     (if a = None \<or> b = None then Some False
      else do {
        n \<leftarrow> load h a;
        m \<leftarrow> load h b;
        let k = item_kind n;
        if k \<noteq> item_kind m then Some False
        else if \<not> known_kind k then Some False
        else if a = b then Some True
        else if k \<in> {1, 2, 4} then Some True
        else if k = 8
        then Some (compare_double (node_valuedouble (item_data n)) (node_valuedouble (item_data m)))
        else if k \<in> {16, 128}
        then Some (case (node_valuestring (item_data n), node_valuestring (item_data m)) of
               (Some s, Some t) \<Rightarrow> s = t | _ \<Rightarrow> False)
        else if k = 32 then elements (child_item n) (child_item m)
        else do {
          ok \<leftarrow> members b (child_item n);
          if \<not> ok then Some False else members a (child_item m)
        }
      })"

fun cJSON_Compare :: "nat \<Rightarrow> cjson_heap \<Rightarrow> addr option \<Rightarrow> addr option \<Rightarrow> bool \<Rightarrow> bool option"
  and compare_elements :: "nat \<Rightarrow> cjson_heap \<Rightarrow> addr option \<Rightarrow> addr option \<Rightarrow> bool \<Rightarrow> bool option"
  and compare_members :: "nat \<Rightarrow> cjson_heap \<Rightarrow> addr option \<Rightarrow> addr option \<Rightarrow> bool \<Rightarrow> bool option"
where
  "cJSON_Compare 0 h a b case_sensitive = None"
| "cJSON_Compare (Suc fuel) h a b case_sensitive =
     compare_items (\<lambda>p q. compare_elements fuel h p q case_sensitive)
       (\<lambda>other p. compare_members fuel h other p case_sensitive) h a b"
| "compare_elements 0 h p q case_sensitive = None"
| "compare_elements (Suc fuel) h p q case_sensitive =
     (if p = None \<or> q = None then Some (p = q)
      else do {
        ok \<leftarrow> cJSON_Compare fuel h p q case_sensitive;
        if \<not> ok then Some False
        else do {
          n \<leftarrow> load h p;
          m \<leftarrow> load h q;
          compare_elements fuel h (next_item n) (next_item m) case_sensitive
        }
      })"
| "compare_members 0 h other p case_sensitive = None"
| "compare_members (Suc fuel) h other p case_sensitive =
     (if p = None then Some True
      else do {
        n \<leftarrow> load h p;
        q \<leftarrow> get_object_item_at h other (node_string (item_data n)) case_sensitive;
        if q = None then Some False
        else do {
          ok \<leftarrow> cJSON_Compare fuel h p q case_sensitive;
          if \<not> ok then Some False else compare_members fuel h other (next_item n) case_sensitive
        }
      })"

subsection \<open>Equality of trees\<close>

definition kind :: "cjson_data \<Rightarrow> 32 word" where
  "kind d = node_type d AND 0xFF"

text \<open>What the name of a member is compared by.\<close>

definition key :: "bool \<Rightarrow> tree \<Rightarrow> string option" where
  "key case_sensitive t =
     map_option (if case_sensitive then id else map tolower) (node_string (tree_data t))"

fun equal_json :: "bool \<Rightarrow> tree \<Rightarrow> tree \<Rightarrow> bool" where
  "equal_json cs (Tree a d ts) (Tree b e us) \<longleftrightarrow>
     kind d = kind e \<and>
     (if kind d = 8 then compare_double (node_valuedouble d) (node_valuedouble e)
      else if kind d \<in> {16, 128} then node_valuestring d = node_valuestring e
      else if kind d = 32 then list_all2 (equal_json cs) ts us
      else if kind d = 64
      then key cs ` set ts = key cs ` set us \<and> (\<forall>t\<in>set ts. \<forall>u\<in>set us. key cs t = key cs u \<longrightarrow> equal_json cs t u)
      else True)"

text \<open>
  Trees the comparison is meant for: a valid type, a string where the type asks for one, finite
  numbers, and members with names that differ.
\<close>

fun comparable :: "bool \<Rightarrow> tree \<Rightarrow> bool" where
  "comparable cs (Tree a d ts) \<longleftrightarrow>
     known_kind (kind d) \<and> \<not> is_reference d \<and>
     (kind d = 8 \<longrightarrow> finite_dbl (node_valuedouble d)) \<and>
     (kind d \<in> {16, 128} \<longrightarrow> node_valuestring d \<noteq> None) \<and>
     (kind d = 64 \<longrightarrow> distinct (map (key cs) ts) \<and> None \<notin> set (map (key cs) ts)) \<and>
     (\<forall>t\<in>set ts. comparable cs t)"

subsection \<open>The code decides it\<close>

lemma seg_unique: "seg h q p as None l \<Longrightarrow> seg h q' p bs None l' \<Longrightarrow> as = bs"
proof (induction as arbitrary: q q' p bs)
  case Nil
  then show ?case by (cases bs) auto
next
  case (Cons a as)
  then obtain b bs' where "bs = b # bs'" by (cases bs) auto
  with Cons show ?case by auto
qed

lemma tree_at_unique: "tree_at h t \<Longrightarrow> tree_at h u \<Longrightarrow> tree_addr t = tree_addr u \<Longrightarrow> t = u"
proof (induction h t arbitrary: u rule: tree_at.induct)
  case (1 h a d ts)
  obtain us where u: "u = Tree a d us" using "1.prems" by (cases u) auto
  have roots: "map tree_addr ts = map tree_addr us"
    using "1.prems"(1,2) seg_unique unfolding u by (auto simp: ring_def split: if_splits)
  have "ts = us"
  proof (rule nth_equalityI)
    show len: "length ts = length us" using map_eq_imp_length_eq [OF roots] .
    fix i assume i: "i < length ts"
    show "ts ! i = us ! i"
    proof (rule "1.IH")
      show "ts ! i \<in> set ts" "tree_at h (ts ! i)" using i "1.prems"(1) by auto
      show "tree_at h (us ! i)" using i len "1.prems"(2) u by auto
      show "tree_addr (ts ! i) = tree_addr (us ! i)" using roots i len by (metis nth_map)
    qed
  qed
  then show ?case by (simp add: u)
qed

lemma equal_json_sym: "equal_json cs t u \<Longrightarrow> equal_json cs u t"
proof (induction cs t u rule: equal_json.induct)
  case (1 cs a d ts b e us)
  have sym: "equal_json cs u t" if "t \<in> set ts" "u \<in> set us" "equal_json cs t u" "kind d = 32 \<or> kind d = 64 \<and> key cs t = key cs u" for t u
    using "1.IH" that by auto
  have "list_all2 (equal_json cs) us ts" if "kind d = 32" "list_all2 (equal_json cs) ts us"
    using that(2) sym that(1) by (auto simp: list_all2_conv_all_nth)
  with "1.prems" sym show ?case by (auto simp: compare_double_sym split: if_splits)
qed

lemma distinct_keys: "distinct (map f xs) \<Longrightarrow> x \<in> set xs \<Longrightarrow> y \<in> set xs \<Longrightarrow> f x = f y \<Longrightarrow> x = y"
  by (meson distinct_map inj_on_def)

lemma equal_json_refl: "comparable cs t \<Longrightarrow> equal_json cs t t"
proof (induction cs t rule: comparable.induct)
  case (1 cs a d ts)
  then have "list_all2 (equal_json cs) ts ts" by (auto simp: list_all2_conv_all_nth)
  moreover have "equal_json cs t u" if "kind d = 64" "t \<in> set ts" "u \<in> set ts" "key cs t = key cs u" for t u
  proof -
    have "t = u" by (rule distinct_keys [of "key cs" ts]) (use "1.prems" that in auto)
    with 1 that show ?thesis by auto
  qed
  ultimately show ?case using "1.prems" by (auto simp: compare_double_refl)
qed

lemma find_member_seg:
  "seg h q p (map tree_addr us) None l \<Longrightarrow> \<forall>u\<in>set us. tree_at h u \<Longrightarrow> None \<notin> set (map (key cs) us) \<Longrightarrow>
     key cs (Tree a (d\<lparr>node_string := Some name\<rparr>) ts) = k \<Longrightarrow>
     find_member h name cs p = Some (map_option tree_addr (find (\<lambda>u. key cs u = k) us))"
proof (induction us arbitrary: q p)
  case (Cons u us)
  obtain b e vs where u: "u = Tree b e vs" by (cases u)
  obtain n where n: "p = Some b" "h b = Some n" "item_data n = e"
      "seg h (Some b) (next_item n) (map tree_addr us) None l"
    using Cons.prems(1,2) u by auto
  obtain s where s: "node_string e = Some s" using Cons.prems(3) u by (auto simp: key_def)
  have "(if cs then name = s else case_insensitive_eq name s) \<longleftrightarrow> key cs u = k"
    using Cons.prems(4) u s by (auto simp: key_def case_insensitive_eq_def)
  moreover have "find_member h name cs (next_item n) = Some (map_option tree_addr (find (\<lambda>u. key cs u = k) us))"
    using Cons.IH [OF n(4)] Cons.prems by auto
  ultimately show ?case using n s u by (subst find_member.simps) simp
qed simp

lemma dup_fuel_kids: "u \<in> set us \<Longrightarrow> dup_fuel (kids u) < dup_fuel us"
  by (induction us rule: dup_fuel.induct) auto

text \<open>The code on trees, with enough fuel.\<close>

abbreviation fit :: "cjson_heap \<Rightarrow> bool \<Rightarrow> tree \<Rightarrow> bool" where
  "fit h cs t \<equiv> tree_at h t \<and> comparable cs t"

lemma fit_kids:
  assumes "fit h cs (Tree a d ts)"
  obtains n q where "h a = Some n" "item_data n = d" "seg h q (child_item n) (map tree_addr ts) None q"
    "\<forall>t\<in>set ts. fit h cs t"
  using assms by (auto simp: ring_def)

lemma members_iff:
  assumes "distinct (map f ts)" "distinct (map f us)" "\<And>t u. e t u \<Longrightarrow> e u t"
  shows "(\<forall>t\<in>set ts. \<exists>u\<in>set us. f t = f u \<and> e t u) \<and> (\<forall>u\<in>set us. \<exists>t\<in>set ts. f u = f t \<and> e u t) \<longleftrightarrow>
    f ` set ts = f ` set us \<and> (\<forall>t\<in>set ts. \<forall>u\<in>set us. f t = f u \<longrightarrow> e t u)" (is "?l \<longleftrightarrow> ?r")
proof
  assume l: ?l
  then have "e t u" if "t \<in> set ts" "u \<in> set us" "f t = f u" for t u
    using that distinct_keys [OF assms(2)] by metis
  moreover have "f ` set ts = f ` set us" using l by (auto simp: image_iff)
  ultimately show ?r by blast
next
  assume r: ?r
  show ?l
  proof (intro conjI ballI)
    fix t assume t: "t \<in> set ts"
    then have "f t \<in> f ` set us" using r by blast
    then show "\<exists>u\<in>set us. f t = f u \<and> e t u" using r t by auto
  next
    fix u assume u: "u \<in> set us"
    then obtain t where t: "t \<in> set ts" "f u = f t" using r by (metis imageE image_eqI)
    then have "e t u" using r u by simp
    then show "\<exists>t\<in>set ts. f u = f t \<and> e u t" using t assms(3) by blast
  qed
qed

lemma compare_computes:
  "fit h cs t \<Longrightarrow> fit h cs u \<Longrightarrow> dup_fuel (kids t) + dup_fuel (kids u) < fuel \<Longrightarrow>
     cJSON_Compare fuel h (Some (tree_addr t)) (Some (tree_addr u)) cs = Some (equal_json cs t u)"
  "seg h q p (map tree_addr ts) None l \<Longrightarrow> seg h q' p' (map tree_addr us) None l' \<Longrightarrow>
     \<forall>t\<in>set ts. fit h cs t \<Longrightarrow> \<forall>u\<in>set us. fit h cs u \<Longrightarrow> dup_fuel ts + dup_fuel us \<le> fuel \<Longrightarrow>
     compare_elements fuel h p p' cs = Some (list_all2 (equal_json cs) ts us)"
  "seg h q p (map tree_addr ts) None l \<Longrightarrow> \<forall>t\<in>set ts. fit h cs t \<Longrightarrow> None \<notin> set (map (key cs) ts) \<Longrightarrow>
     fit h cs u \<Longrightarrow> kind (tree_data u) = 64 \<Longrightarrow> dup_fuel ts + dup_fuel (kids u) \<le> fuel \<Longrightarrow>
     compare_members fuel h (Some (tree_addr u)) p cs =
       Some (\<forall>t\<in>set ts. \<exists>v\<in>set (kids u). key cs t = key cs v \<and> equal_json cs t v)"
proof (induction fuel arbitrary: t u q p ts l q' p' us l')
  case 0
  {
    case 1
    then show ?case by simp
  next
    case 2
    then show ?case by (cases ts rule: dup_fuel.cases) auto
  next
    case 3
    then show ?case by (cases ts rule: dup_fuel.cases) auto
  }
next
  case (Suc fuel)
  {
    case 1
    obtain a d ts b e us where t: "t = Tree a d ts" and u: "u = Tree b e us" by (metis tree.exhaust)
    obtain n q where n: "h a = Some n" "item_data n = d" "seg h q (child_item n) (map tree_addr ts) None q"
        "\<forall>t\<in>set ts. fit h cs t" by (rule fit_kids) (use 1 t in blast)
    obtain m r where m: "h b = Some m" "item_data m = e" "seg h r (child_item m) (map tree_addr us) None r"
        "\<forall>u\<in>set us. fit h cs u" by (rule fit_kids) (use 1 u in blast)
    have fuel: "dup_fuel ts + dup_fuel us \<le> fuel" "dup_fuel us + dup_fuel ts \<le> fuel" using 1 t u by auto
    have els: "compare_elements fuel h (child_item n) (child_item m) cs = Some (list_all2 (equal_json cs) ts us)"
      by (rule Suc.IH(2) [OF n(3) m(3) n(4) m(4) fuel(1)])
    have mems: "compare_members fuel h (Some b) (child_item n) cs =
          Some (\<forall>t\<in>set ts. \<exists>v\<in>set us. key cs t = key cs v \<and> equal_json cs t v)"
        "compare_members fuel h (Some a) (child_item m) cs =
          Some (\<forall>v\<in>set us. \<exists>t\<in>set ts. key cs v = key cs t \<and> equal_json cs v t)"
      if "kind d = 64" "kind e = 64"
      using Suc.IH(3) [OF n(3,4), of u] Suc.IH(3) [OF m(3,4), of t] 1 t u that fuel by auto
    have obj: "(\<forall>t\<in>set ts. \<exists>v\<in>set us. key cs t = key cs v \<and> equal_json cs t v) \<and>
        (\<forall>v\<in>set us. \<exists>t\<in>set ts. key cs v = key cs t \<and> equal_json cs v t) \<longleftrightarrow> equal_json cs t u"
      if "kind d = 64" "kind e = 64"
      using members_iff [of "key cs" ts us "equal_json cs"] equal_json_sym 1 t u that by auto
    have kinds: "item_kind n = kind d" "item_kind m = kind e" using n m by (simp_all add: item_kind_def kind_def)
    have valid: "known_kind (kind d)"
        "kind d \<in> {16, 128} \<Longrightarrow> node_valuestring d \<noteq> None"
        "kind e \<in> {16, 128} \<Longrightarrow> node_valuestring e \<noteq> None"
      using 1 t u by auto
    show ?case
    proof (cases "kind d = kind e")
      case False
      then show ?thesis using n m t u kinds by (simp add: compare_items_def)
    next
      case same: True
      show ?thesis
      proof (cases "a = b")
        case True
        have "tree_addr t = tree_addr u" using t u True by simp
        then have "t = u" using 1 by (blast intro: tree_at_unique)
        then have "equal_json cs t u" using 1 equal_json_refl by blast
        moreover have "compare_items E M h (Some a) (Some a) = Some True" for E M
          using n(1) kinds(1) valid(1) by (simp add: compare_items_def)
        ultimately show ?thesis using t u True by (simp del: equal_json.simps)
      next
        case False
        from valid(1) consider "kind d \<in> {1, 2, 4}" | "kind d = 8" | "kind d \<in> {16, 128}" | "kind d = 32" | "kind d = 64"
          unfolding known_kind_def by blast
        then show ?thesis
        proof cases
          case 1
          then show ?thesis using n m t u kinds same False by (auto simp: compare_items_def Let_def known_kind_def)
        next
          case 2
          then show ?thesis using n m t u kinds same False by (simp add: compare_items_def Let_def known_kind_def)
        next
          case 3
          then obtain v w where "node_valuestring d = Some v" "node_valuestring e = Some w"
            using valid(2,3) same by auto
          then show ?thesis using n m t u kinds same False 3 by (auto simp: compare_items_def Let_def known_kind_def)
        next
          case 4
          then show ?thesis using n m t u kinds same False els by (simp add: compare_items_def Let_def known_kind_def)
        next
          case 5
          then have "kind e = 64" using same by simp
          note mems [OF 5 this] obj [OF 5 this, symmetric]
          then show ?thesis using n m t u kinds same False 5
            by (simp add: compare_items_def Let_def known_kind_def del: equal_json.simps)
        qed
      qed
    qed
  next
    case 2
    show ?case
    proof (cases "ts = [] \<or> us = []")
      case True
      then show ?thesis using 2 by (cases ts; cases us) auto
    next
      case False
      then obtain t ts' u us' where eq: "ts = t # ts'" "us = u # us'" by (metis list.exhaust)
      obtain n m where n: "p = Some (tree_addr t)" "h (tree_addr t) = Some n"
          "seg h (Some (tree_addr t)) (next_item n) (map tree_addr ts') None l"
          and m: "p' = Some (tree_addr u)" "h (tree_addr u) = Some m"
          "seg h (Some (tree_addr u)) (next_item m) (map tree_addr us') None l'"
        using 2 eq by auto
      have fuel: "dup_fuel (kids t) + dup_fuel (kids u) < fuel" "dup_fuel ts' + dup_fuel us' \<le> fuel"
        using 2 eq by (cases t; cases u; simp)+
      have "cJSON_Compare fuel h p p' cs = Some (equal_json cs t u)"
        using Suc.IH(1) [of t u] 2 eq fuel(1) n(1) m(1) by simp
      moreover have "compare_elements fuel h (next_item n) (next_item m) cs = Some (list_all2 (equal_json cs) ts' us')"
        using Suc.IH(2) [OF n(3) m(3)] 2 eq fuel(2) by simp
      ultimately show ?thesis using n m eq by simp
    qed
  next
    case 3
    show ?case
    proof (cases ts)
      case Nil
      then show ?thesis using 3 by simp
    next
      case (Cons t ts')
      obtain n where n: "p = Some (tree_addr t)" "h (tree_addr t) = Some n"
          "seg h (Some (tree_addr t)) (next_item n) (map tree_addr ts') None l"
        using 3 Cons by auto
      have t: "fit h cs t" using 3 Cons by simp
      have data: "item_data n = tree_data t" using t n(2) by (cases t) auto
      obtain s where s: "node_string (tree_data t) = Some s" using 3 Cons by (auto simp: key_def)
      obtain b e us where u: "u = Tree b e us" by (cases u)
      obtain m r where m: "h b = Some m" "seg h r (child_item m) (map tree_addr us) None r"
          "\<forall>u\<in>set us. fit h cs u" by (rule fit_kids) (use 3 u in blast)
      have us: "None \<notin> set (map (key cs) us)" "distinct (map (key cs) us)" using 3 u by auto
      have "key cs (Tree 0 (tree_data t\<lparr>node_string := Some s\<rparr>) []) = key cs t"
        using s by (simp add: key_def)
      from find_member_seg [OF m(2) _ us(1) this] m(1,3)
      have found: "get_object_item_at h (Some (tree_addr u)) (Some s) cs =
          Some (map_option tree_addr (find (\<lambda>v. key cs v = key cs t) us))"
        using u by (simp add: get_object_item_at_def)
      have fuel: "dup_fuel ts' + dup_fuel (kids u) \<le> fuel" "dup_fuel (kids t) + dup_fuel us < fuel"
        using 3 Cons u by (cases t; simp)+
      have later: "\<forall>t\<in>set ts'. fit h cs t" "None \<notin> set (map (key cs) ts')" using 3(2,3) Cons by auto
      have more: "compare_members fuel h (Some (tree_addr u)) (next_item n) cs =
          Some (\<forall>t\<in>set ts'. \<exists>v\<in>set us. key cs t = key cs v \<and> equal_json cs t v)"
        using Suc.IH(3) [OF n(3) later 3(4,5) fuel(1)] u by simp
      show ?thesis
      proof (cases "find (\<lambda>v. key cs v = key cs t) us")
        case None
        then have "\<not> (\<exists>v\<in>set us. key cs t = key cs v)" by (auto simp: find_None_iff)
        then show ?thesis using None found n data s Cons u by auto
      next
        case (Some v)
        then have v: "v \<in> set us" "key cs v = key cs t" by (auto simp: find_Some_iff)
        have "dup_fuel (kids t) + dup_fuel (kids v) < fuel" using dup_fuel_kids [OF v(1)] fuel(2) by simp
        then have cmp: "cJSON_Compare fuel h p (Some (tree_addr v)) cs = Some (equal_json cs t v)"
          using Suc.IH(1) [of t v] t m(3) v(1) n(1) by simp
        have only: "w = v" if "w \<in> set us" "key cs t = key cs w" for w
          by (rule distinct_keys [OF us(2)]) (use that v in auto)
        have "(\<exists>w\<in>set us. key cs t = key cs w \<and> equal_json cs t w) \<longleftrightarrow> equal_json cs t v"
          using v only by metis
        then show ?thesis using Some found n data s Cons u cmp more by simp
      qed
    qed
  }
qed

lemma kind_copy [simp]: "kind (copy_data d) = kind d"
proof -
  have "(NOT cJSON_IsReference) AND 0xFF = (0xFF :: 32 word)" by simp
  then show ?thesis by (simp add: kind_def copy_data_def and.assoc)
qed

lemma copy_data_simps [simp]:
  "node_string (copy_data d) = node_string d" "node_valuestring (copy_data d) = node_valuestring d"
  "node_valuedouble (copy_data d) = node_valuedouble d"
  by (simp_all add: copy_data_def)

lemma copies_equal:
  "copies ts us \<Longrightarrow> \<forall>t\<in>set ts. comparable cs t \<Longrightarrow>
     (\<forall>u\<in>set us. comparable cs u) \<and> list_all2 (equal_json cs) ts us \<and> map (key cs) us = map (key cs) ts \<and>
     dup_fuel us = dup_fuel ts"
proof (induction ts us rule: copies.induct)
  case (2 a d vs ts us)
  obtain b ws us' where us: "us = Tree b (copy_data d) ws # us'" and c: "copies vs ws" "copies ts us'"
    using "2.prems"(1) by auto
  have d: "comparable cs (Tree a d vs)" using "2.prems"(2) by simp
  then have vs: "\<forall>t\<in>set vs. comparable cs t" by simp
  have ts: "\<forall>t\<in>set ts. comparable cs t" using "2.prems"(2) by simp
  note kids = "2.IH"(1) [OF c(1) vs] and rest = "2.IH"(2) [OF c(2) ts]
  have keys: "map (key cs) ws = map (key cs) vs" using kids by (elim conjE)
  have "equal_json cs t w" if "kind d = 64" "t \<in> set vs" "w \<in> set ws" "key cs t = key cs w" for t w
  proof -
    obtain i j where i: "i < length vs" "t = vs ! i" and j: "j < length ws" "w = ws ! j"
      using \<open>t \<in> set vs\<close> \<open>w \<in> set ws\<close> by (auto simp: in_set_conv_nth)
    have len: "length ws = length vs" using map_eq_imp_length_eq [OF keys] .
    have "key cs (ws ! j) = key cs (vs ! j)" using keys j len by (metis nth_map)
    then have "map (key cs) vs ! i = map (key cs) vs ! j" using that(4) i j len by simp
    moreover have "distinct (map (key cs) vs)" using d that(1) by simp
    ultimately have "i = j" using i j len nth_eq_iff_index_eq [of "map (key cs) vs" i j] by simp
    moreover have "list_all2 (equal_json cs) vs ws" using kids by (elim conjE)
    ultimately show ?thesis using i j list_all2_nthD by metis
  qed
  moreover have "key cs ` set vs = key cs ` set ws" using keys by (metis set_map)
  ultimately have "equal_json cs (Tree a d vs) (Tree b (copy_data d) ws)"
    using kids d by (auto simp: compare_double_refl)
  moreover have all: "\<forall>w\<in>set ws. comparable cs w" using kids by (elim conjE)
  have "comparable cs (Tree b (copy_data d) ws)"
    unfolding comparable.simps kind_copy copy_data_simps keys
    by (intro conjI; (rule not_reference_copy | rule all | insert d [unfolded comparable.simps], elim conjE, assumption))
  moreover have "key cs (Tree b (copy_data d) ws) = key cs (Tree a d vs)" by (simp only: key_def tree.sel copy_data_simps)
  ultimately show ?case using us kids rest by (simp del: equal_json.simps comparable.simps)
qed simp

lemma comparable_no_references: "\<forall>t\<in>set ts. comparable cs t \<Longrightarrow> no_references ts"
  by (induction ts rule: no_references.induct) auto

subsection \<open>Properties\<close>

text \<open>
  C22: \<open>cJSON_Compare\<close>, sensitive to case or not, decides equality of trees up to the order of the members of
  objects: for any two trees in memory, which may share items, with valid types, finite numbers
  and members named apart. The second pass over an object only finds members the first object lacks.
\<close>

theorem compare_decides:
  assumes "tree_at h t" and "tree_at h u" and "comparable cs t" and "comparable cs u"
    and "dup_fuel (kids t) + dup_fuel (kids u) < fuel"
  shows "cJSON_Compare fuel h (Some (tree_addr t)) (Some (tree_addr u)) cs = Some (equal_json cs t u)"
  by (rule compare_computes(1)) (use assms in simp_all)

definition demo_named :: "32 word \<Rightarrow> string \<Rightarrow> string option \<Rightarrow> cjson_data" where
  "demo_named ty name val = zero_data\<lparr>node_type := ty, node_string := Some name, node_valuestring := val\<rparr>"

definition demo_objects :: cjson_heap where
  "demo_objects =
    [0 \<mapsto> \<lparr>next_item = None, prev_item = None, child_item = Some 1, item_data = zero_data\<lparr>node_type := 64\<rparr>\<rparr>,
     1 \<mapsto> \<lparr>next_item = Some 2, prev_item = Some 2, child_item = None, item_data = demo_named 2 ''a'' None\<rparr>,
     2 \<mapsto> \<lparr>next_item = None, prev_item = Some 1, child_item = None, item_data = demo_named 16 ''B'' (Some ''x'')\<rparr>,
     3 \<mapsto> \<lparr>next_item = None, prev_item = None, child_item = Some 4, item_data = zero_data\<lparr>node_type := 64\<rparr>\<rparr>,
     4 \<mapsto> \<lparr>next_item = Some 5, prev_item = Some 5, child_item = None, item_data = demo_named 16 ''b'' (Some ''x'')\<rparr>,
     5 \<mapsto> \<lparr>next_item = None, prev_item = Some 4, child_item = None, item_data = demo_named 2 ''A'' None\<rparr>]"

text \<open>Two objects with the same members in another order and another case.\<close>

theorem compare_decides_witness:
  "cJSON_Compare 20 demo_objects (Some 0) (Some 3) False = Some True"
proof -
  let ?t = "Tree 0 (zero_data\<lparr>node_type := 64\<rparr>) [Tree 1 (demo_named 2 ''a'' None) [], Tree 2 (demo_named 16 ''B'' (Some ''x'')) []]"
  let ?u = "Tree 3 (zero_data\<lparr>node_type := 64\<rparr>) [Tree 4 (demo_named 16 ''b'' (Some ''x'')) [], Tree 5 (demo_named 2 ''A'' None) []]"
  have keys: "map tolower ''a'' = ''a''" "map tolower ''A'' = ''a''" "map tolower ''b'' = ''b''" "map tolower ''B'' = ''b''"
    by code_simp+
  have "tree_at demo_objects ?t" "tree_at demo_objects ?u"
    by (simp_all add: demo_objects_def demo_named_def is_reference_def ring_def)
  moreover have "comparable False ?t" "comparable False ?u" "equal_json False ?t ?u"
    using keys by (simp_all add: demo_named_def known_kind_def kind_def is_reference_def key_def insert_commute)
  moreover have "dup_fuel (kids ?t) + dup_fuel (kids ?u) < 20" by simp
  ultimately show ?thesis using compare_decides [of demo_objects ?t ?u False 20] by (simp del: equal_json.simps comparable.simps)
qed

text \<open>
  What \<open>cJSON_Duplicate\<close> hands out, \<open>cJSON_Compare\<close> calls equal to the original, which is still there.
\<close>

theorem duplicate_compares_equal:
  assumes "hooks_law hk" and t: "tree_at h t" "comparable cs t" and "dup_fuel (kids t) < fuel"
    and run: "cJSON_Duplicate hk fuel h (Some (tree_addr t)) True = Some (Some a, h')"
    and enough: "2 * dup_fuel (kids t) < fuel'"
  shows "cJSON_Compare fuel' h' (Some (tree_addr t)) (Some a) cs = Some True"
proof -
  have "no_references [t]" using comparable_no_references [of "[t]"] t(2) by simp
  from duplicate_outcome [OF assms(1) t(1) this assms(4) run]
  obtain u where u: "a = tree_addr u" "copies [t] [u]" "root_at h' u" "\<forall>x\<in>set (addrs u). h x = None"
      "\<forall>x. x \<notin> set (addrs u) \<longrightarrow> h' x = h x" by auto
  have "h' x = h x" if "x \<in> set (addrs t)" for x
    using u(4,5) tree_at_alloc [OF t(1) that] by (metis option.distinct(1))
  then have t': "tree_at h' t" using t(1) tree_at_same by blast
  have eq: "comparable cs u" "equal_json cs t u" "dup_fuel [u] = dup_fuel [t]"
    using copies_equal [OF u(2), of cs] t(2) by auto
  have "dup_fuel (kids u) = dup_fuel (kids t)" using eq(3) by (cases t; cases u) simp
  moreover have "tree_at h' u" using u(3) by (simp add: root_at_def)
  moreover note t'
  ultimately have "cJSON_Compare fuel' h' (Some (tree_addr t)) (Some (tree_addr u)) cs = Some (equal_json cs t u)"
    using t(2) eq enough by (intro compare_computes(1)) simp_all
  then show ?thesis using eq(2) u(1) by simp
qed

theorem duplicate_compares_equal_witness:
  "\<exists>a h'. cJSON_Duplicate (counting_hooks 6) 9 demo_pair (Some 0) True = Some (Some a, h') \<and>
     cJSON_Compare 15 h' (Some 0) (Some a) True = Some True"
proof -
  obtain u h' where r: "cJSON_Duplicate (counting_hooks 6) 9 demo_pair (Some (tree_addr demo_pair_tree)) True = Some (Some (tree_addr u), h')"
    using duplicate_outcome [OF counting_hooks_law demo_pair_facts(1-3) refl, of 6 6] demo_pair_easy by blast
  have t: "comparable True demo_pair_tree" "2 * dup_fuel (kids demo_pair_tree) < 15"
    by (simp_all add: demo_pair_tree_def demo_leaf_def known_kind_def kind_def is_reference_def)
  from duplicate_compares_equal [OF counting_hooks_law demo_pair_facts(1) t(1) demo_pair_facts(3) r t(2)] r
  show ?thesis unfolding demo_pair_facts(4) by blast
qed

end
