(* ===== verification/CJson_Options.thy ===== *)
theory CJson_Options
  imports CJson_Facts
begin

section \<open>Parsing with options, memory hooks, version\<close>

text \<open>
  The entry points of \<open>src/cJSON.c\<close> around the parser: parsing that may insist on nothing but white space
  after the value and says where it stopped, the choice of the memory functions, and the
  version.
\<close>

text \<open>
  The value and the offset behind it; the offset is behind the white space when the end is required.
\<close>

definition cJSON_ParseWithOpts :: "string option \<Rightarrow> bool \<Rightarrow> (cJSON \<times> nat) option" where
  "cJSON_ParseWithOpts text_in require_null_terminated =
     (case text_in of
        None \<Rightarrow> None
      | Some s \<Rightarrow>
          let buffer = c_str s @ [nul]; start = buffer_skip_whitespace (skip_utf8_bom buffer) in
          (case parse_value (parse_fuel start) 0 start of
             Parsed item r \<Rightarrow>
               if require_null_terminated
               then (let r' = buffer_skip_whitespace r
                     in if r' = [] \<or> hd r' \<noteq> nul then None else Some (item, length buffer - length r'))
               else Some (item, length buffer - length r)
           | _ \<Rightarrow> None))"

lemma cJSON_Parse_opts: "cJSON_Parse s = map_option fst (cJSON_ParseWithOpts (Some s) False)"
  by (simp add: cJSON_Parse_def cJSON_ParseWithOpts_def parse_buffer_of_def Let_def split: parsed.split)

lemma skip_to_end:
  assumes "c_ok g"
  shows "hd (buffer_skip_whitespace (g @ [nul])) = nul \<longleftrightarrow> (\<forall>c\<in>set g. of_char c \<le> (32::nat))"
    and "\<forall>c\<in>set g. of_char c \<le> (32::nat) \<Longrightarrow> buffer_skip_whitespace (g @ [nul]) = [nul]"
    and "buffer_skip_whitespace (g @ [nul]) \<noteq> []"
proof -
  let ?p = "\<lambda>c. of_char c \<le> (32::nat)"
  have all: "buffer_skip_whitespace (g @ [nul]) = [nul]" if "\<forall>c\<in>set g. ?p c"
  proof -
    have "dropWhile ?p (g @ [nul]) = []" using that by simp
    then show ?thesis by (simp add: buffer_skip_whitespace_def)
  qed
  have some: "hd (buffer_skip_whitespace (g @ [nul])) \<noteq> nul \<and> buffer_skip_whitespace (g @ [nul]) \<noteq> []"
    if "\<not> (\<forall>c\<in>set g. ?p c)"
  proof -
    have d: "dropWhile ?p (g @ [nul]) = dropWhile ?p g @ [nul]" "dropWhile ?p g \<noteq> []"
      using that by (auto simp: dropWhile_append1)
    then have "hd (dropWhile ?p g) \<in> set g" by (metis hd_in_set set_dropWhileD)
    then have "hd (dropWhile ?p g) \<noteq> nul" using assms by (auto simp: c_ok_def)
    then show ?thesis using d by (simp add: buffer_skip_whitespace_def)
  qed
  show "hd (buffer_skip_whitespace (g @ [nul])) = nul \<longleftrightarrow> (\<forall>c\<in>set g. ?p c)" using all some by fastforce
  show "\<forall>c\<in>set g. ?p c \<Longrightarrow> buffer_skip_whitespace (g @ [nul]) = [nul]" by (rule all)
  show "buffer_skip_whitespace (g @ [nul]) \<noteq> []" using all some by fastforce
qed

text \<open>A printed value with something behind it is accepted whole exactly when that is white space.\<close>

theorem parse_opts_whole:
  assumes "wf_json j" and "print_value fmt 0 j = Some t" and "c_ok g" and "delim (g @ [nul])"
  shows "cJSON_ParseWithOpts (Some (t @ g)) False = Some (j, length t) \<and>
    cJSON_ParseWithOpts (Some (t @ g)) True =
      (if \<forall>c\<in>set g. of_char c \<le> (32::nat) then Some (j, length t + length g) else None)"
proof -
  obtain c u where c: "t = c # u" "value_start c" by (rule print_value_start [OF assms(2,1)])
  have "c_ok t" using print_c_ok(1) [OF assms(2,1)] .
  then have str: "c_str (t @ g) = t @ g" using assms(3) by simp
  have "c \<noteq> CHR 0xEF" using print_value_first [OF assms(2,1)] c by simp
  then have start: "buffer_skip_whitespace (skip_utf8_bom (t @ g @ [nul])) = t @ g @ [nul]"
    using c by (simp add: skip_utf8_bom_def)
  have parsed: "parse_value (parse_fuel (t @ g @ [nul])) 0 (t @ g @ [nul]) = Parsed j (g @ [nul])"
    by (rule print_parse_mutual(1) [OF assms(2,1,4)]) (rule parse_fuel_enough(1), simp add: parse_fuel_def)
  show ?thesis using skip_to_end [OF assms(3)] str start parsed
    by (auto simp: cJSON_ParseWithOpts_def Let_def)
qed

subsection \<open>Memory functions\<close>

text \<open>
  The functions the caller may give; \<open>malloc_std\<close>, \<open>free_std\<close>, \<open>realloc_std\<close> are the library's. The
  result is what is used from then on; functions are compared by identity.
\<close>

record ('m, 'f) cJSON_Hooks =
  malloc_fn :: "'m option"
  free_fn :: "'f option"

definition cJSON_InitHooks :: "'m \<Rightarrow> 'f \<Rightarrow> 'r \<Rightarrow> ('m, 'f) cJSON_Hooks option \<Rightarrow> 'm \<times> 'f \<times> 'r option" where
  "cJSON_InitHooks malloc_std free_std realloc_std hooks =
     (case hooks of
        None \<Rightarrow> (malloc_std, free_std, Some realloc_std)
      | Some k \<Rightarrow>
          let allocate = (case malloc_fn k of Some f \<Rightarrow> f | None \<Rightarrow> malloc_std);
              deallocate = (case free_fn k of Some f \<Rightarrow> f | None \<Rightarrow> free_std)
          in (allocate, deallocate,
              if allocate = malloc_std \<and> deallocate = free_std then Some realloc_std else None))"

text \<open>Memory from the caller's functions is never given to the library's \<open>realloc\<close>.\<close>

lemma init_hooks_realloc:
  "cJSON_InitHooks m f r hooks = (a, d, Some re) \<Longrightarrow> a = m \<and> d = f \<and> re = r"
  by (auto simp: cJSON_InitHooks_def Let_def split: option.splits if_splits)

subsection \<open>Version\<close>

definition cJSON_Version :: string where
  "cJSON_Version = snprintf_buf 15 (show_int 1 @ ''.'' @ show_int 7 @ ''.'' @ show_int 19)"

lemma cJSON_Version_text: "cJSON_Version = ''1.7.19''"
  by code_simp

end
