(* ===== verification/Capture_Thread.thy ===== *)
theory Capture_Thread
  imports Audio_Capture
begin

section \<open>The capture thread from its start to its end\<close>

text \<open>
  \<open>audio_capture_thread\<close> of \<open>src/audio_capture.c\<close> over a script: for each turn of its loop, what the main
  thread does before the flags are read and before the period is handled, and what
  \<open>snd_pcm_readi\<close> returns. Besides the state the model counts the open handles, the parameter blocks
  and the sample buffers.
\<close>

datatype capture_other = Uploads bool | Stops

definition other_do :: "capture_other \<Rightarrow> audio_capture \<Rightarrow> audio_capture" where
  "other_do x cap =
     (case x of Uploads b \<Rightarrow> audio_capture_set_uploading cap b | Stops \<Rightarrow> cap\<lparr>cap_running := False\<rparr>)"

record capture_turn =
  tu_before :: "capture_other list"
  tu_between :: "capture_other list"
  tu_frames :: int
  tu_samples :: "sample list"

text \<open>Whether the loop was left, the state, the queue, and the periods given to the callback.\<close>

fun capture_loop ::
    "capture_turn list \<Rightarrow> audio_capture \<Rightarrow> event_queue \<Rightarrow>
       bool \<times> audio_capture \<times> event_queue \<times> (sample list \<times> nat) list" where
  "capture_loop [] cap events = (False, cap, events, [])"
| "capture_loop (t # ts) cap events =
     (let cap1 = fold other_do (tu_before t) cap in
      case capture_flags cap1 of
        None \<Rightarrow> (True, cap1, events, [])
      | Some uploading \<Rightarrow>
          (case capture_period uploading (tu_frames t) (tu_samples t) (fold other_do (tu_between t) cap1) events of
             (cap2, events2, delivered) \<Rightarrow>
               (case capture_loop ts cap2 events2 of
                  (left, cap3, events3, ds) \<Rightarrow>
                    (left, cap3, events3, (case delivered of None \<Rightarrow> ds | Some p \<Rightarrow> p # ds)))))"

record thread_result =
  tr_returned :: bool
  tr_cap :: audio_capture
  tr_events :: event_queue
  tr_delivered :: "(sample list \<times> nat) list"
  tr_held :: alsa_held
  tr_buffers :: nat

definition audio_capture_thread ::
    "capture_hw \<Rightarrow> bool \<Rightarrow> capture_turn list \<Rightarrow> audio_capture \<Rightarrow> event_queue \<Rightarrow> thread_result" where
  "audio_capture_thread hw memory turns cap events =
     (case audio_capture_open_device hw cap of (r, cap1, held) \<Rightarrow>
        let closed = held\<lparr>held_handles := held_handles held - 1\<rparr> in
        if r \<noteq> 0 then \<lparr>tr_returned = True, tr_cap = cap1, tr_events = events, tr_delivered = [],
                        tr_held = held, tr_buffers = 0\<rparr>
        else if \<not> memory then \<lparr>tr_returned = True, tr_cap = cap1, tr_events = events, tr_delivered = [],
                        tr_held = closed, tr_buffers = 0\<rparr>
        else
          (case capture_loop turns cap1 events of (left, cap2, events2, ds) \<Rightarrow>
             \<lparr>tr_returned = left, tr_cap = cap2, tr_events = events2, tr_delivered = ds,
              tr_held = (if left then closed else held), tr_buffers = (if left then 0 else 1)\<rparr>))"

lemma other_do_running [simp]: "cap_running (other_do x cap) \<longleftrightarrow> cap_running cap \<and> x \<noteq> Stops"
  by (auto simp: other_do_def audio_capture_set_uploading_def Let_def split: capture_other.split)

lemma others_running [simp]: "cap_running (fold other_do xs cap) \<longleftrightarrow> cap_running cap \<and> Stops \<notin> set xs"
  by (induction xs arbitrary: cap) auto

lemma period_running [simp]: "cap_running (fst (capture_period up n buf cap q)) = cap_running cap"
  by (simp add: capture_period_def Let_def)

lemma capture_loop_left:
  "\<not> cap_running cap \<and> ts \<noteq> [] \<or> (\<exists>t\<in>set ts. Stops \<in> set (tu_before t)) \<Longrightarrow> fst (capture_loop ts cap q)"
proof (induction ts arbitrary: cap q)
  case (Cons t ts)
  let ?cap1 = "fold other_do (tu_before t) cap"
  show ?case
  proof (cases "cap_running ?cap1")
    case False
    then have "capture_flags ?cap1 = None" unfolding capture_flags_def by (simp only: if_False)
    then show ?thesis by simp
  next
    case True
    then have flags: "capture_flags ?cap1 = Some (cap_uploading ?cap1)" unfolding capture_flags_def by (simp only: if_True)
    have "\<exists>t\<in>set ts. Stops \<in> set (tu_before t)" using Cons.prems True by auto
    obtain cap2 q2 d where p: "capture_period (cap_uploading ?cap1) (tu_frames t) (tu_samples t)
        (fold other_do (tu_between t) ?cap1) q = (cap2, q2, d)" using prod_cases3 by blast
    obtain left cap3 q3 ds where l: "capture_loop ts cap2 q2 = (left, cap3, q3, ds)" using prod_cases4 by blast
    have "left" using Cons.IH [of cap2 q2] l \<open>\<exists>t\<in>set ts. Stops \<in> set (tu_before t)\<close> by simp
    then show ?thesis by (simp add: flags p l)
  qed
qed simp

text \<open>Once it is told to stop, the thread returns, with everything it opened or allocated released.\<close>

theorem capture_thread_releases:
  assumes "\<exists>t\<in>set turns. Stops \<in> set (tu_before t)"
  shows "tr_returned (audio_capture_thread hw memory turns cap q) \<and>
    tr_buffers (audio_capture_thread hw memory turns cap q) = 0 \<and>
    tr_held (audio_capture_thread hw memory turns cap q) = \<lparr>held_handles = 0, held_params = 0\<rparr>"
proof -
  obtain r cap1 held where open_result: "audio_capture_open_device hw cap = (r, cap1, held)" using prod_cases3 by blast
  have held: "held_params held = 0" "r = 0 \<Longrightarrow> held_handles held = 1" "r \<noteq> 0 \<Longrightarrow> held_handles held = 0"
    using capture_open_no_leak [OF open_result] by auto
  obtain left cap2 q2 ds where loop: "capture_loop turns cap1 q = (left, cap2, q2, ds)" using prod_cases4 by blast
  have "left" using capture_loop_left [of cap1 turns q] assms loop by simp
  then show ?thesis using open_result loop held
    by (cases "r = 0"; cases memory) (simp_all add: audio_capture_thread_def alsa_held.equality)
qed

end
