(* ===== verification/Wakeword.thy ===== *)
theory Wakeword
  imports Xz_Prelude "HOL-Library.Monad_Syntax"
begin

section \<open>Wake word detection (\<open>src/wakeword_snowboy.cc\<close>)\<close>

text \<open>
  A wrapper around the snowboy detector, a C++ library that is not part of the sources: its
  constructor and methods are arguments, \<open>None\<close> standing for an exception. The wrapper's own
  objects live in a heap of \<open>WakewordSnowboyImpl\<close>s, each with the detector it owns, if any. The
  wrapper is not compiled into the client.
\<close>

record 'd snowboy =
  SnowboyDetect :: "string \<Rightarrow> string \<Rightarrow> 'd option"
  SetSensitivity :: "string \<Rightarrow> 'd \<Rightarrow> 'd option"
  SetAudioGain :: "int \<Rightarrow> 'd \<Rightarrow> 'd option"
  ApplyFrontend :: "bool \<Rightarrow> 'd \<Rightarrow> 'd option"
  SampleRate :: "'d \<Rightarrow> int"
  NumChannels :: "'d \<Rightarrow> int"
  BitsPerSample :: "'d \<Rightarrow> int"
  RunDetection :: "16 word list \<Rightarrow> int \<Rightarrow> 'd \<Rightarrow> int \<times> 'd"

type_synonym 'd impls = "nat \<rightharpoonup> 'd option"

record wakeword_snowboy =
  impl :: "nat option"
  sample_rate :: int
  channels :: int
  bits_per_sample :: int

definition no_detector :: "wakeword_snowboy \<Rightarrow> wakeword_snowboy" where
  "no_detector w = w\<lparr>impl := None, sample_rate := 0, channels := 0, bits_per_sample := 0\<rparr>"

text \<open>The calls inside the \<open>try\<close>, with what the new object owns when they stop.\<close>

definition configure ::
    "'d snowboy \<Rightarrow> string \<Rightarrow> string \<Rightarrow> string \<Rightarrow> int \<Rightarrow> bool \<times> 'd option" where
  "configure sb resource_path model_path sensitivity audio_gain =
     (case SnowboyDetect sb resource_path model_path of
        None \<Rightarrow> (False, None)
      | Some d0 \<Rightarrow> (case SetSensitivity sb sensitivity d0 of
          None \<Rightarrow> (False, Some d0)
        | Some d1 \<Rightarrow> (case SetAudioGain sb audio_gain d1 of
            None \<Rightarrow> (False, Some d1)
          | Some d2 \<Rightarrow> (case ApplyFrontend sb False d2 of
              None \<Rightarrow> (False, Some d2)
            | Some d3 \<Rightarrow> (True, Some d3)))))"

text \<open>
  \<open>fresh\<close> is the address \<open>new\<close> hands out, if any; the sensitivity is its decimal text, the gain the
  bits of a \<open>float\<close>. The results are the code, the detector and the heap.
\<close>

definition wakeword_snowboy_init ::
    "'d snowboy \<Rightarrow> nat option \<Rightarrow> wakeword_snowboy option \<Rightarrow> string option \<Rightarrow> string option \<Rightarrow> string \<Rightarrow> int \<Rightarrow>
       'd impls \<Rightarrow> rc \<times> wakeword_snowboy option \<times> 'd impls" where
  "wakeword_snowboy_init sb fresh detector resource_path model_path sensitivity audio_gain heap =
     (case (detector, resource_path, model_path) of
        (Some w, Some res, Some mdl) \<Rightarrow>
          (let w0 = no_detector w in
           case fresh of
             None \<Rightarrow> (- 1, Some w0, heap)
           | Some a \<Rightarrow>
               (case configure sb res mdl sensitivity audio_gain of
                  (False, owned) \<Rightarrow> (- 1, Some w0, heap(a \<mapsto> owned))
                | (True, owned) \<Rightarrow>
                    (0, Some (w0\<lparr>impl := Some a, sample_rate := SampleRate sb (the owned),
                       channels := NumChannels sb (the owned), bits_per_sample := BitsPerSample sb (the owned)\<rparr>),
                     heap(a \<mapsto> owned))))
      | _ \<Rightarrow> (- 1, detector, heap))"

text \<open>Following a dangling or empty pointer is \<open>None\<close>.\<close>

definition wakeword_snowboy_feed ::
    "'d snowboy \<Rightarrow> wakeword_snowboy option \<Rightarrow> 16 word list option \<Rightarrow> nat \<Rightarrow> 'd impls \<Rightarrow> (rc \<times> 'd impls) option" where
  "wakeword_snowboy_feed sb detector pcm samples heap =
     (case (Option.bind detector impl, pcm) of
        (Some a, Some data) \<Rightarrow>
          if samples = 0 then Some (- 1, heap)
          else do {
            owned \<leftarrow> heap a;
            d \<leftarrow> owned;
            let (result, d') = RunDetection sb data (int32 (int samples)) d;
            Some (if result < 0 then result else if 0 < result then 1 else 0, heap(a \<mapsto> Some d'))
          }
      | _ \<Rightarrow> Some (- 1, heap))"

definition wakeword_snowboy_destroy ::
    "wakeword_snowboy option \<Rightarrow> 'd impls \<Rightarrow> (wakeword_snowboy option \<times> 'd impls) option" where
  "wakeword_snowboy_destroy detector heap =
     (case detector of
        None \<Rightarrow> Some (None, heap)
      | Some w \<Rightarrow>
          (case impl w of
             None \<Rightarrow> Some (Some (no_detector w), heap)
           | Some a \<Rightarrow> if heap a = None then None else Some (Some (no_detector w), heap(a := None))))"

subsection \<open>What is allocated and released\<close>

text \<open>
  A detector that was initialised can be fed any number of periods and is released whole; a second
  \<open>destroy\<close> does nothing.
\<close>

fun feeds :: "'d snowboy \<Rightarrow> wakeword_snowboy option \<Rightarrow> (16 word list \<times> nat) list \<Rightarrow> 'd impls \<Rightarrow> (rc list \<times> 'd impls) option" where
  "feeds sb w [] heap = Some ([], heap)"
| "feeds sb w ((pcm, n) # ps) heap = do {
     (r, heap1) \<leftarrow> wakeword_snowboy_feed sb w (Some pcm) n heap;
     (rs, heap2) \<leftarrow> feeds sb w ps heap1;
     Some (r # rs, heap2)
   }"

lemma feeds_keep:
  "heap a = Some (Some d) \<Longrightarrow> impl w = Some a \<Longrightarrow>
     \<exists>rs d'. feeds sb (Some w) ps heap = Some (rs, heap(a \<mapsto> Some d')) \<and> length rs = length ps \<and> (\<forall>r\<in>set rs. r \<le> 1)"
proof (induction ps arbitrary: heap d)
  case Nil
  then have "heap(a \<mapsto> Some d) = heap" by (simp add: fun_upd_idem)
  then show ?case by (intro exI [of _ "[]"] exI [of _ d]) (simp del: fun_upd_apply)
next
  case (Cons p ps)
  obtain pcm n where p: "p = (pcm, n)" by (cases p)
  have "heap = heap(a \<mapsto> Some d)" using Cons.prems(1) by (simp add: fun_upd_idem)
  then obtain r d1 where step: "wakeword_snowboy_feed sb (Some w) (Some pcm) n heap = Some (r, heap(a \<mapsto> Some d1))" "r \<le> 1"
    using Cons.prems that [of "- 1" d]
    by (cases "n = 0"; cases "RunDetection sb pcm (int32 (int n)) d") (auto simp: wakeword_snowboy_feed_def)
  obtain rs d' where "feeds sb (Some w) ps (heap(a \<mapsto> Some d1)) = Some (rs, heap(a \<mapsto> Some d'))"
      "length rs = length ps" "\<forall>r\<in>set rs. r \<le> 1"
    using Cons.IH [of "heap(a \<mapsto> Some d1)" d1] Cons.prems(2) by (auto simp del: fun_upd_apply simp add: fun_upd_same)
  then show ?case using step
    by (intro exI [of _ "r # rs"] exI [of _ d']) (simp add: p del: fun_upd_apply)
qed

theorem wakeword_lifecycle:
  assumes "wakeword_snowboy_init sb fresh (Some w) res mdl sens gain heap = (0, w1, heap1)"
    and "\<And>a. fresh = Some a \<Longrightarrow> heap a = None"
  shows "\<exists>rs heap2. feeds sb w1 ps heap1 = Some (rs, heap2) \<and> length rs = length ps \<and> (\<forall>r\<in>set rs. r \<le> 1) \<and>
    wakeword_snowboy_destroy w1 heap2 = Some (Some (no_detector w), heap) \<and>
    wakeword_snowboy_destroy (Some (no_detector w)) heap = Some (Some (no_detector w), heap)"
proof -
  obtain a d where a: "fresh = Some a" "heap1 = heap(a \<mapsto> Some d)" and w1: "w1 = Some (no_detector w
      \<lparr>impl := Some a, sample_rate := SampleRate sb d, channels := NumChannels sb d, bits_per_sample := BitsPerSample sb d\<rparr>)"
    using assms(1) by (auto simp: wakeword_snowboy_init_def configure_def Let_def split: option.splits)
  have "heap a = None" using assms(2) a(1) by simp
  obtain rs d' where "feeds sb w1 ps heap1 = Some (rs, heap1(a \<mapsto> Some d'))" "length rs = length ps" "\<forall>r\<in>set rs. r \<le> 1"
    using feeds_keep [of heap1 a d "the w1" sb ps] a(2) w1 by auto
  then show ?thesis using a(2) w1 \<open>heap a = None\<close>
    by (auto simp: wakeword_snowboy_destroy_def no_detector_def fun_upd_idem)
qed

text \<open>An exception leaves the object behind, with nothing pointing to it.\<close>

lemma wakeword_init_leaks:
  assumes "SnowboyDetect sb res mdl = None" and "heap a = None"
  shows "wakeword_snowboy_init sb (Some a) (Some w) (Some res) (Some mdl) sens gain heap =
      (- 1, Some (no_detector w), heap(a \<mapsto> None))" and "heap(a \<mapsto> None) \<noteq> heap"
    and "wakeword_snowboy_destroy (Some (no_detector w)) (heap(a \<mapsto> None)) = Some (Some (no_detector w), heap(a \<mapsto> None))"
  using assms by (auto simp: wakeword_snowboy_init_def configure_def Let_def wakeword_snowboy_destroy_def
      no_detector_def fun_eq_iff)

end
