(* ===== verification/Http_Server.thy ===== *)
theory Http_Server
  imports Xz_Prelude
begin

section \<open>The old server's static files (\<open>src/http_server.c\<close>)\<close>

text \<open>
  The mount table handed to libwebsockets and the protocol's callback. Serving the files, and what
  \<open>lws_callback_http_dummy\<close> does with a reason, is the library's: the latter is an argument.
\<close>

datatype origin_protocol = LWSMPRO_HTTP | LWSMPRO_HTTPS | LWSMPRO_FILE | LWSMPRO_CGI

record lws_http_mount =
  mountpoint :: string
  origin :: string
  def_file :: string
  protocol_name :: "string option"
  cgi_timeout :: int
  cache_max_age :: int
  auth_mask :: int
  origin_kind :: origin_protocol
  mountpoint_len :: nat

definition mount :: lws_http_mount where
  "mount = \<lparr>mountpoint = ''/'', origin = ''./web'', def_file = ''index.html'', protocol_name = None,
     cgi_timeout = 0, cache_max_age = 0, auth_mask = 0, origin_kind = LWSMPRO_FILE, mountpoint_len = 1\<rparr>"

datatype http_reason = LWS_CALLBACK_HTTP | Other_Http_Reason nat

definition callback_http :: "(http_reason \<Rightarrow> int) \<Rightarrow> http_reason \<Rightarrow> int" where
  "callback_http lws_callback_http_dummy reason =
     (case reason of LWS_CALLBACK_HTTP \<Rightarrow> 0 | _ \<Rightarrow> lws_callback_http_dummy reason)"

definition http_server_get_mount :: lws_http_mount where
  "http_server_get_mount = mount"

text \<open>The length the table states is that of the mount point, as the library requires.\<close>

lemma mountpoint_len_ok: "mountpoint_len http_server_get_mount = length (mountpoint http_server_get_mount)"
  by (simp add: http_server_get_mount_def mount_def)

end
