(* ===== verification/CJson_Parse.thy ===== *)
theory CJson_Parse
  imports CJson_Tools CJson_Facts
begin

section \<open>Parsing into memory\<close>

text \<open>
  The parser of \<open>src/cJSON.c\<close> as it builds its items: every item, every string and the copy of every number
  is allocated and may be refused, items are linked as they come, and a failure releases what
  has been built. The texts are read as in theory \<open>CJson\<close>, whose parser on values is what
  this one refines. \<open>raw h n\<close> says whether \<open>n\<close> bytes can be had in the heap \<open>h\<close>. A result is \<open>None\<close> for a
  fault (or for want of fuel), otherwise the rest of the text, if the code's boolean is true, and
  the heap.
\<close>

subsection \<open>Strings fit\<close>

text \<open>What \<open>parse_string\<close> allocates for the text between the quotes: it does not count the escaping backslashes.\<close>

fun skipped_bytes :: "string \<Rightarrow> nat" where
  "skipped_bytes [] = 0"
| "skipped_bytes (c # s) = (if c = CHR 0x5C then Suc (skipped_bytes (tl s)) else skipped_bytes s)"

definition allocation_length :: "string \<Rightarrow> nat" where
  "allocation_length body = length body + 1 - skipped_bytes body"

text \<open>Characters of the text, an escaped one with its backslash counted once.\<close>

fun tokens :: "string \<Rightarrow> nat" where
  "tokens [] = 0"
| "tokens (c # s) = Suc (if c = CHR 0x5C then tokens (tl s) else tokens s)"

fun paired :: "string \<Rightarrow> bool" where
  "paired [] = True"
| "paired (c # s) = (if c = CHR 0x5C then s \<noteq> [] \<and> paired (tl s) else paired s)"

lemma tokens_skipped: "paired s \<Longrightarrow> tokens s + skipped_bytes s = length s"
proof (induction s rule: paired.induct)
  case (2 c s)
  then show ?case by (cases s) (auto split: if_splits)
qed simp

lemma scan_string_paired: "scan_string s = Some (body, rest) \<Longrightarrow> paired body"
  by (induction s arbitrary: body rule: scan_string.induct) (auto split: if_splits option.splits list.splits prod.splits)

definition hexes :: "string \<Rightarrow> bool" where
  "hexes s \<longleftrightarrow> (\<forall>c\<in>set s. c \<noteq> CHR 0x5C)"

lemma hex4_loop_hexes: "hex4_loop n h s \<noteq> 0 \<Longrightarrow> n \<le> length s \<and> hexes (take n s)"
proof (induction n arbitrary: h s)
  case (Suc n)
  obtain c t where s: "s = c # t" using Suc.prems by (cases s) simp_all
  obtain v where v: "hex_digit c = Some v" using Suc.prems s by (cases "hex_digit c") simp_all
  have "\<exists>h'. hex4_loop n h' t \<noteq> 0" using Suc.prems unfolding s hex4_loop.simps list.case v option.case by blast
  then have "n \<le> length t \<and> hexes (take n t)" using Suc.IH by blast
  moreover have "hex_digit (CHR 0x5C) = None" by (simp add: hex_digit_def)
  then have "c \<noteq> CHR 0x5C" using v by auto
  ultimately show ?case by (simp add: s hexes_def)
qed (simp add: hexes_def)

lemma length_utf8_tail: "length (snd (utf8_tail n cp)) = n"
proof (induction n arbitrary: cp)
  case (Suc n)
  then show ?case by (simp only: utf8_tail.simps Let_def split_beta snd_conv length_append list.size add_0_right add_Suc_right)
qed simp

lemma utf8_encode_length:
  assumes "utf8_encode cp = Some bs"
  shows "length bs \<le> 4 \<and> (cp = 0 \<longrightarrow> length bs = 1)"
proof -
  have tail: "length (snd (utf8_tail n cp)) = n" for n by (rule length_utf8_tail)
  have split: "length bs = Suc n" if "(let (c, b) = utf8_tail n cp in Some (f c # b)) = Some bs" for n f
    using that tail [of n] by (cases "utf8_tail n cp") (simp only: Let_def prod.case option.inject snd_conv, auto)
  show ?thesis
  proof (cases "cp < 0x80")
    case True
    then show ?thesis using assms unfolding utf8_encode_def by auto
  next
    case False
    then have "(let (c, b) = utf8_tail 1 cp in Some (char_of ((c OR 0xC0) AND 0xFF) # b)) = Some bs \<or>
        (let (c, b) = utf8_tail 2 cp in Some (char_of ((c OR 0xE0) AND 0xFF) # b)) = Some bs \<or>
        (let (c, b) = utf8_tail 3 cp in Some (char_of ((c OR 0xF0) AND 0xFF) # b)) = Some bs"
      using assms unfolding utf8_encode_def by (simp only: if_False split: if_splits) simp_all
    then have "length bs = Suc 1 \<or> length bs = Suc 2 \<or> length bs = Suc 3"
      using split [of 1 "\<lambda>c. char_of ((c OR 0xC0) AND 0xFF)"] split [of 2 "\<lambda>c. char_of ((c OR 0xE0) AND 0xFF)"]
        split [of 3 "\<lambda>c. char_of ((c OR 0xF0) AND 0xFF)"] by blast
    with False show ?thesis by auto
  qed
qed

lemma utf16_cases:
  assumes "utf16_literal_to_utf8 s = Some (n, bs)"
  obtains "n = 6" "6 \<le> length s" "length bs = 1"
  | "n = 6" "6 \<le> length s" "length bs \<le> 4" "hexes (take 4 (drop 2 s))"
  | "n = 12" "12 \<le> length s" "length bs \<le> 4" "hexes (take 4 (drop 2 s))" "s ! 6 = CHR 0x5C" "hexes (take 4 (drop 8 s))"
proof (cases "parse_hex4 (drop 2 s) = 0")
  case True
  then show ?thesis using assms utf8_encode_length that(1)
    by (auto simp: utf16_literal_to_utf8_def Let_def split: if_splits)
next
  case False
  note first = hex4_loop_hexes [OF False [unfolded parse_hex4_def]]
  show ?thesis
  proof (cases "n = 6")
    case True
    then show ?thesis using assms utf8_encode_length first that(2)
      by (auto simp: utf16_literal_to_utf8_def Let_def split: if_splits)
  next
    case False
    with assms have s: "n = 12" "6 \<le> length (drop 6 s)" "s ! 6 = CHR 0x5C" "parse_hex4 (drop 2 (drop 6 s)) \<noteq> 0"
        "\<exists>cp. utf8_encode cp = Some bs"
      by (auto simp: utf16_literal_to_utf8_def Let_def split: if_splits)
    have "hexes (take 4 (drop 8 s))" using hex4_loop_hexes [OF s(4) [unfolded parse_hex4_def]] by simp
    then show ?thesis using s first utf8_encode_length that(3) by auto
  qed
qed

lemma tokens_hexes:
  "n \<le> length s \<Longrightarrow> hexes (take n s) \<Longrightarrow> tokens s = n + tokens (drop n s) \<and> (paired s \<longleftrightarrow> paired (drop n s))"
proof (induction n arbitrary: s)
  case (Suc n)
  then show ?case by (cases s) (auto simp: hexes_def)
qed simp

text \<open>Dropping characters ends between two tokens or in the middle of one.\<close>

lemma tokens_drop:
  "paired s \<Longrightarrow> n \<le> length s \<Longrightarrow>
     (paired (drop n s) \<and> tokens (drop n s) + (n + 1) div 2 \<le> tokens s) \<or>
     (\<exists>x r. drop n s = x # r \<and> paired r \<and> tokens r + (n div 2 + 1) \<le> tokens s)"
proof (induction s arbitrary: n rule: paired.induct)
  case (2 c s)
  show ?case
  proof (cases "c = CHR 0x5C")
    case True
    then obtain x t where s: "s = x # t" using "2.prems"(1) by (cases s) auto
    consider "n = 0" | "n = 1" | m where "n = Suc (Suc m)" by (metis One_nat_def not0_implies_Suc)
    then show ?thesis
    proof cases
      case (3 m)
      with "2.IH"(1) [OF True, of m] "2.prems" True s show ?thesis by fastforce
    qed (use "2.prems" True s in auto)
  next
    case False
    show ?thesis
    proof (cases n)
      case (Suc m)
      with "2.IH"(2) [OF False, of m] "2.prems" False show ?thesis by fastforce
    qed (use "2.prems" in auto)
  qed
qed simp

text \<open>What an escape of a code point leaves and writes, from the beginning of a token.\<close>

lemma utf16_tokens:
  assumes u: "utf16_literal_to_utf8 (c # e # t) = Some (n, bs)" and t: "paired t"
    and rest: "paired (drop (n - 2) t) \<Longrightarrow> k \<le> tokens (drop (n - 2) t)"
      "\<And>x r. drop (n - 2) t = x # r \<Longrightarrow> paired r \<Longrightarrow> k \<le> Suc (tokens r)"
  shows "length bs + k \<le> Suc (tokens t)"
  using u
proof (cases rule: utf16_cases)
  case 1
  then have "4 \<le> length t" "n - 2 = 4" by simp_all
  with tokens_drop [OF t, of 4] rest 1(3) show ?thesis by fastforce
next
  case 2
  then have "4 \<le> length t" "n - 2 = 4" "hexes (take 4 t)" by simp_all
  with tokens_hexes [of 4 t] t rest(1) 2(3) show ?thesis by simp
next
  case 3
  then have n: "10 \<le> length t" "n - 2 = 10" and hexes: "hexes (take 4 t)" "hexes (take 4 (drop 6 t))"
    and esc: "t ! 4 = CHR 0x5C" by simp_all
  have first: "tokens t = 4 + tokens (drop 4 t)" "paired (drop 4 t)" using tokens_hexes [of 4 t] n hexes t by auto
  have d: "drop 4 t = CHR 0x5C # drop 5 t" "drop 5 t \<noteq> []" "tl (drop 5 t) = drop 6 t"
    using n esc Cons_nth_drop_Suc [of 4 t] by (auto simp: tl_drop drop_Suc [symmetric])
  then have second: "tokens (drop 4 t) = Suc (tokens (drop 6 t))" "paired (drop 6 t)" using first(2) by auto
  have "tokens (drop 6 t) = 4 + tokens (drop 10 t)" "paired (drop 10 t)"
    using tokens_hexes [of 4 "drop 6 t"] n hexes second(2) by auto
  then show ?thesis using first second rest(1) n(2) 3(3) by simp
qed

text \<open>What the second loop has written to the output when it ends or gives up, without the terminator.\<close>

definition simple_escape :: "char \<Rightarrow> char option" where
  "simple_escape e =
     (if e = CHR ''b'' then Some (CHR 0x08) else if e = CHR ''f'' then Some (CHR 0x0C)
      else if e = CHR ''n'' then Some (CHR 0x0A) else if e = CHR ''r'' then Some (CHR 0x0D)
      else if e = CHR ''t'' then Some (CHR 0x09)
      else if e = CHR 0x22 \<or> e = CHR 0x5C \<or> e = CHR ''/'' then Some e else None)"

function written :: "string \<Rightarrow> string" where
  "written [] = []"
| "written (c # s) =
     (if c \<noteq> CHR 0x5C then c # written s
      else case s of
        [] \<Rightarrow> [CHR 0x22]
      | e # t \<Rightarrow>
          (case simple_escape e of
             Some y \<Rightarrow> y # written t
           | None \<Rightarrow>
               if e = CHR ''u'' then
                 (case utf16_literal_to_utf8 (c # s) of
                    None \<Rightarrow> []
                  | Some (n, bs) \<Rightarrow> bs @ written (drop (n - 2) t))
               else []))"
  by pat_completeness auto
termination
  by (relation "measure length") auto

lemma unescape_written: "unescape s = Some out \<Longrightarrow> written s = out"
proof (induction s arbitrary: out rule: written.induct)
  case (2 c s)
  show ?case
  proof (cases "c = CHR 0x5C")
    case False
    then show ?thesis using "2.IH"(1) "2.prems" by auto
  next
    case True
    show ?thesis
    proof (cases s)
      case Nil
      then show ?thesis using "2.prems" True by simp
    next
      case (Cons e t)
      show ?thesis
      proof (cases "simple_escape e")
        case (Some y)
        have "unescape (c # s) = map_option (Cons y) (unescape t)"
          using Some unfolding unescape.simps True Cons simple_escape_def
          by (simp only: list.case simp_thms if_True if_False option.inject option.distinct split: if_splits)
        then show ?thesis using "2.IH"(3) [of e t y] "2.prems" Some True Cons by auto
      next
        case None
        have u: "e = CHR ''u''" "unescape (c # s) = (case utf16_literal_to_utf8 (c # s) of
            None \<Rightarrow> None | Some (n, bs) \<Rightarrow> map_option (append bs) (unescape (drop (n - 2) t)))"
          using None "2.prems" unfolding unescape.simps True Cons simple_escape_def
          by (simp_all only: list.case simp_thms if_True if_False option.distinct split: if_splits)
        then show ?thesis using "2.IH"(2) [of e t] "2.prems" None True Cons by (auto split: option.splits prod.splits)
      qed
    qed
  qed
qed simp

lemma simple_escape_bs: "simple_escape (CHR 0x5C) = Some (CHR 0x5C)"
  by (simp add: simple_escape_def)

lemma written_length:
  "(paired s \<longrightarrow> length (written s) \<le> tokens s) \<and>
     (\<forall>x t. s = x # t \<longrightarrow> paired t \<longrightarrow> length (written s) \<le> Suc (tokens t))"
proof (induction s rule: written.induct)
  case (2 c s)
  show ?case
  proof (cases "c = CHR 0x5C")
    case False
    then show ?thesis using "2.IH"(1) by auto
  next
    case esc: True
    show ?thesis
    proof (cases s)
      case Nil
      then show ?thesis using esc by simp
    next
      case (Cons e t)
      have tail: "length (written (c # s)) \<le> Suc (tokens t)" if "paired t"
      proof (cases "simple_escape e")
        case (Some y)
        then show ?thesis using "2.IH"(3) [of e t y] Cons esc that by simp
      next
        case None
        show ?thesis
        proof (cases "e = CHR ''u'' \<and> (\<exists>n bs. utf16_literal_to_utf8 (c # s) = Some (n, bs))")
          case True
          then obtain n bs where u: "utf16_literal_to_utf8 (c # e # t) = Some (n, bs)" using Cons by auto
          note IH = "2.IH"(2) [of e t "(n, bs)" n bs]
          have IH': "paired (drop (n - 2) t) \<longrightarrow> length (written (drop (n - 2) t)) \<le> tokens (drop (n - 2) t)"
              "\<And>x r. drop (n - 2) t = x # r \<Longrightarrow> paired r \<Longrightarrow> length (written (drop (n - 2) t)) \<le> Suc (tokens r)"
            using IH u esc Cons None True by auto
          have "length bs + length (written (drop (n - 2) t)) \<le> Suc (tokens t)"
            by (rule utf16_tokens [OF u that]) (use IH' in blast)+
          then show ?thesis using u esc Cons None True by simp
        next
          case False
          then show ?thesis using esc Cons None by (auto split: option.splits prod.splits)
        qed
      qed
      have "length (written (c # s)) \<le> Suc (tokens s)" if p: "paired s"
      proof (cases "e = CHR 0x5C")
        case True
        then obtain x r where r: "t = x # r" "paired r" using p Cons by (cases t) auto
        then have "length (written t) \<le> Suc (tokens r)"
          using "2.IH"(3) [of e t e] True Cons esc simple_escape_bs by auto
        then show ?thesis using r True Cons esc simple_escape_bs by simp
      next
        case False
        then show ?thesis using tail p Cons by auto
      qed
      then show ?thesis using tail Cons esc by auto
    qed
  qed
qed simp

text \<open>
  C30: \<open>parse_string\<close> stays within the memory it allocates, for every text between quotes: however
  strangely its escapes nest, what has been written when the loop ends, or gives up, fits with
  the terminator, although the escaping backslashes are not counted; and what is written in the
  end is the string that is returned.
\<close>

theorem parse_string_fits:
  assumes "scan_string s = Some (body, rest)"
  shows "length (written body) + 1 \<le> allocation_length body + 1 \<and>
    (\<forall>out. unescape body = Some out \<longrightarrow> out = written body)"
proof -
  have "paired body" using scan_string_paired [OF assms] .
  then have "length (written body) \<le> tokens body" "tokens body + skipped_bytes body = length body"
    using written_length tokens_skipped by blast+
  then have "length (written body) + 1 \<le> allocation_length body + 1" unfolding allocation_length_def by linarith
  then show ?thesis using unescape_written by auto
qed

text \<open>A \<open>\u\<close> that is not followed by four digits swallows the backslash that escapes a quote.\<close>

theorem parse_string_fits_witness:
  "scan_string [CHR 0x5C, CHR ''u'', CHR ''0'', CHR ''0'', CHR ''0'', CHR 0x5C, CHR 0x22, CHR 0x22] =
     Some ([CHR 0x5C, CHR ''u'', CHR ''0'', CHR ''0'', CHR ''0'', CHR 0x5C, CHR 0x22], []) \<and>
   length (written [CHR 0x5C, CHR ''u'', CHR ''0'', CHR ''0'', CHR ''0'', CHR 0x5C, CHR 0x22]) + 1 \<le>
     allocation_length [CHR 0x5C, CHR ''u'', CHR ''0'', CHR ''0'', CHR ''0'', CHR 0x5C, CHR 0x22] + 1"
  (is "?scan \<and> _")
proof
  show ?scan by code_simp
  then show "length (written [CHR 0x5C, CHR ''u'', CHR ''0'', CHR ''0'', CHR ''0'', CHR 0x5C, CHR 0x22]) + 1 \<le>
      allocation_length [CHR 0x5C, CHR ''u'', CHR ''0'', CHR ''0'', CHR ''0'', CHR 0x5C, CHR 0x22] + 1"
    by (rule parse_string_fits [THEN conjunct1])
qed

subsection \<open>The parser\<close>

definition set_data :: "cjson_heap \<Rightarrow> addr \<Rightarrow> (cjson_data \<Rightarrow> cjson_data) \<Rightarrow> cjson_heap option" where
  "set_data h a f = update h (Some a) (\<lambda>n. n\<lparr>item_data := f (item_data n)\<rparr>)"

definition parse_string_at ::
    "(cjson_heap \<Rightarrow> nat \<Rightarrow> bool) \<Rightarrow> cjson_heap \<Rightarrow> addr \<Rightarrow> string \<Rightarrow> (string option \<times> cjson_heap) option" where
  "parse_string_at raw h a s =
     (if s = [] \<or> hd s \<noteq> CHR 0x22 then Some (None, h)
      else case scan_string (tl s) of
        None \<Rightarrow> Some (None, h)
      | Some (body, rest) \<Rightarrow>
          if \<not> raw h (allocation_length body + 1) then Some (None, h)
          else case unescape body of
            None \<Rightarrow> Some (None, h)
          | Some out \<Rightarrow> do {
              h1 \<leftarrow> set_data h a (\<lambda>d. d\<lparr>node_type := 16, node_valuestring := Some (c_str out)\<rparr>);
              Some (Some rest, h1)
            })"

definition parse_number_at ::
    "(cjson_heap \<Rightarrow> nat \<Rightarrow> bool) \<Rightarrow> cjson_heap \<Rightarrow> addr \<Rightarrow> string \<Rightarrow> (string option \<times> cjson_heap) option" where
  "parse_number_at raw h a s =
     (let digits = takeWhile number_char s in
      if \<not> raw h (length digits + 1) then Some (None, h)
      else case strtod digits of
        None \<Rightarrow> Some (None, h)
      | Some (number, n) \<Rightarrow> do {
          h1 \<leftarrow> set_data h a (\<lambda>d. d\<lparr>node_valuedouble := number, node_valueint := double_to_int number, node_type := 8\<rparr>);
          Some (Some (drop n s), h1)
        })"

text \<open>The ends of \<open>parse_array\<close> and \<open>parse_object\<close>: at \<open>success\<close> the ring is closed, at \<open>fail\<close> it is released.\<close>

definition finish_list ::
    "cjson_heap \<Rightarrow> addr \<Rightarrow> 32 word \<Rightarrow> addr option \<Rightarrow> addr option \<Rightarrow> string \<Rightarrow> (string option \<times> cjson_heap) option" where
  "finish_list h a ty head current_item rest = do {
     h1 \<leftarrow> (if head \<noteq> None then update h head (\<lambda>n. n\<lparr>prev_item := current_item\<rparr>) else Some h);
     h2 \<leftarrow> update h1 (Some a) (\<lambda>n. n\<lparr>child_item := head, item_data := (item_data n)\<lparr>node_type := ty\<rparr>\<rparr>);
     Some (Some rest, h2)
   }"

definition abandon :: "cjson_heap \<Rightarrow> addr option \<Rightarrow> (string option \<times> cjson_heap) option" where
  "abandon h head = do { h1 \<leftarrow> cJSON_Delete h head; Some (None, h1) }"

text \<open>Attaching the next item behind the current one: the head of the list, and the heap.\<close>

definition attach_item ::
    "cjson_heap \<Rightarrow> addr option \<Rightarrow> addr option \<Rightarrow> addr \<Rightarrow> (addr option \<times> cjson_heap) option" where
  "attach_item h head current_item b =
     (if head = None then Some (Some b, h)
      else do {
        h1 \<leftarrow> update h current_item (\<lambda>n. n\<lparr>next_item := Some b\<rparr>);
        h2 \<leftarrow> update h1 (Some b) (\<lambda>n. n\<lparr>prev_item := current_item\<rparr>);
        Some (head, h2)
      })"

definition parse_list_at ::
    "(cjson_heap \<Rightarrow> string \<Rightarrow> (string option \<times> cjson_heap) option) \<Rightarrow> 32 word \<Rightarrow> char \<Rightarrow>
       nat \<Rightarrow> cjson_heap \<Rightarrow> addr \<Rightarrow> string \<Rightarrow> (string option \<times> cjson_heap) option" where
  "parse_list_at loop ty closing depth h a s =
     (if depth \<ge> CJSON_NESTING_LIMIT then Some (None, h)
      else let r = buffer_skip_whitespace (tl s) in
        if next_is closing r then finish_list h a ty None None (tl r)
        else if r = [] then Some (None, h)
        else loop h r)"

definition parse_value_at_with ::
    "(cjson_heap \<Rightarrow> nat \<Rightarrow> bool) \<Rightarrow> (cjson_heap \<Rightarrow> string \<Rightarrow> (string option \<times> cjson_heap) option) \<Rightarrow>
       (cjson_heap \<Rightarrow> string \<Rightarrow> (string option \<times> cjson_heap) option) \<Rightarrow>
       nat \<Rightarrow> cjson_heap \<Rightarrow> addr \<Rightarrow> string \<Rightarrow> (string option \<times> cjson_heap) option" where
  "parse_value_at_with raw elements members depth h a s =
     (if take 4 s = ''null''
      then map_option (Pair (Some (drop 4 s))) (set_data h a (\<lambda>d. d\<lparr>node_type := 4\<rparr>))
      else if take 5 s = ''false''
      then map_option (Pair (Some (drop 5 s))) (set_data h a (\<lambda>d. d\<lparr>node_type := 1\<rparr>))
      else if take 4 s = ''true''
      then map_option (Pair (Some (drop 4 s))) (set_data h a (\<lambda>d. d\<lparr>node_type := 2, node_valueint := 1\<rparr>))
      else if next_is (CHR 0x22) s then parse_string_at raw h a s
      else if next_is (CHR ''-'') s \<or> (s \<noteq> [] \<and> isdigit (hd s)) then parse_number_at raw h a s
      else if next_is (CHR ''['') s then parse_list_at elements 32 (CHR '']'') depth h a s
      else if next_is (CHR ''{'') s then parse_list_at members 64 (CHR ''}'') depth h a s
      else Some (None, h))"

text \<open>A round of a loop with the new item \<open>b\<close>, and what follows it.\<close>

definition next_round ::
    "(cjson_heap \<Rightarrow> addr option \<Rightarrow> addr option \<Rightarrow> string \<Rightarrow> (string option \<times> cjson_heap) option) \<Rightarrow>
       32 word \<Rightarrow> char \<Rightarrow> addr \<Rightarrow> addr option \<Rightarrow> addr \<Rightarrow> string option \<times> cjson_heap \<Rightarrow> (string option \<times> cjson_heap) option" where
  "next_round again ty closing a head b parsed =
     (case parsed of
        (None, h) \<Rightarrow> abandon h head
      | (Some r, h) \<Rightarrow>
          let r1 = buffer_skip_whitespace r in
          if next_is (CHR '','') r1 then again h head (Some b) (tl r1)
          else if next_is closing r1 then finish_list h a ty head (Some b) (tl r1)
          else abandon h head)"

text \<open>The name of a member, moved from the item's value to its name, and the colon.\<close>

definition parse_name_at ::
    "(cjson_heap \<Rightarrow> nat \<Rightarrow> bool) \<Rightarrow> cjson_heap \<Rightarrow> addr \<Rightarrow> string \<Rightarrow> (string option \<times> cjson_heap) option" where
  "parse_name_at raw h b s =
     (if s = [] then Some (None, h)
      else do {
        (r, h1) \<leftarrow> parse_string_at raw h b (buffer_skip_whitespace s);
        (case r of
           None \<Rightarrow> Some (None, h1)
         | Some r1 \<Rightarrow> do {
             h2 \<leftarrow> set_data h1 b (\<lambda>d. d\<lparr>node_string := node_valuestring d, node_valuestring := None\<rparr>);
             let r2 = buffer_skip_whitespace r1;
             Some (if next_is (CHR '':'') r2 then Some (buffer_skip_whitespace (tl r2)) else None, h2)
           })
      })"

definition elements_step ::
    "hooks \<Rightarrow> (cjson_heap \<Rightarrow> addr \<Rightarrow> string \<Rightarrow> (string option \<times> cjson_heap) option) \<Rightarrow>
       (cjson_heap \<Rightarrow> addr option \<Rightarrow> addr option \<Rightarrow> string \<Rightarrow> (string option \<times> cjson_heap) option) \<Rightarrow>
       addr \<Rightarrow> cjson_heap \<Rightarrow> addr option \<Rightarrow> addr option \<Rightarrow> string \<Rightarrow> (string option \<times> cjson_heap) option" where
  "elements_step hk val again a h head current_item s =
     (case cJSON_New_Item hk h of
        (None, h1) \<Rightarrow> abandon h1 head
      | (Some b, h1) \<Rightarrow> do {
          (head1, h2) \<leftarrow> attach_item h1 head current_item b;
          parsed \<leftarrow> val h2 b (buffer_skip_whitespace s);
          next_round again 32 (CHR '']'') a head1 b parsed
        })"

definition members_step ::
    "hooks \<Rightarrow> (cjson_heap \<Rightarrow> nat \<Rightarrow> bool) \<Rightarrow> (cjson_heap \<Rightarrow> addr \<Rightarrow> string \<Rightarrow> (string option \<times> cjson_heap) option) \<Rightarrow>
       (cjson_heap \<Rightarrow> addr option \<Rightarrow> addr option \<Rightarrow> string \<Rightarrow> (string option \<times> cjson_heap) option) \<Rightarrow>
       addr \<Rightarrow> cjson_heap \<Rightarrow> addr option \<Rightarrow> addr option \<Rightarrow> string \<Rightarrow> (string option \<times> cjson_heap) option" where
  "members_step hk raw val again a h head current_item s =
     (case cJSON_New_Item hk h of
        (None, h1) \<Rightarrow> abandon h1 head
      | (Some b, h1) \<Rightarrow> do {
          (head1, h2) \<leftarrow> attach_item h1 head current_item b;
          (name, h3) \<leftarrow> parse_name_at raw h2 b s;
          (case name of
             None \<Rightarrow> abandon h3 head1
           | Some r \<Rightarrow> do {
               parsed \<leftarrow> val h3 b r;
               next_round again 64 (CHR ''}'') a head1 b parsed
             })
        })"

fun parse_value_at ::
    "hooks \<Rightarrow> (cjson_heap \<Rightarrow> nat \<Rightarrow> bool) \<Rightarrow> nat \<Rightarrow> nat \<Rightarrow> cjson_heap \<Rightarrow> addr \<Rightarrow> string \<Rightarrow> (string option \<times> cjson_heap) option"
  and parse_elements_at ::
    "hooks \<Rightarrow> (cjson_heap \<Rightarrow> nat \<Rightarrow> bool) \<Rightarrow> nat \<Rightarrow> nat \<Rightarrow> addr \<Rightarrow> cjson_heap \<Rightarrow> addr option \<Rightarrow> addr option \<Rightarrow> string \<Rightarrow>
       (string option \<times> cjson_heap) option"
  and parse_members_at ::
    "hooks \<Rightarrow> (cjson_heap \<Rightarrow> nat \<Rightarrow> bool) \<Rightarrow> nat \<Rightarrow> nat \<Rightarrow> addr \<Rightarrow> cjson_heap \<Rightarrow> addr option \<Rightarrow> addr option \<Rightarrow> string \<Rightarrow>
       (string option \<times> cjson_heap) option"
where
  "parse_value_at hk raw 0 depth h a s = None"
| "parse_value_at hk raw (Suc fuel) depth h a s =
     parse_value_at_with raw
       (\<lambda>h. parse_elements_at hk raw fuel (depth + 1) a h None None)
       (\<lambda>h. parse_members_at hk raw fuel (depth + 1) a h None None) depth h a s"
| "parse_elements_at hk raw 0 depth a h head current_item s = None"
| "parse_elements_at hk raw (Suc fuel) depth a h head current_item s =
     elements_step hk (parse_value_at hk raw fuel depth) (parse_elements_at hk raw fuel depth a) a h head current_item s"
| "parse_members_at hk raw 0 depth a h head current_item s = None"
| "parse_members_at hk raw (Suc fuel) depth a h head current_item s =
     members_step hk raw (parse_value_at hk raw fuel depth) (parse_members_at hk raw fuel depth a) a h head current_item s"

definition cJSON_Parse_at ::
    "hooks \<Rightarrow> (cjson_heap \<Rightarrow> nat \<Rightarrow> bool) \<Rightarrow> cjson_heap \<Rightarrow> string \<Rightarrow> (addr option \<times> cjson_heap) option" where
  "cJSON_Parse_at hk raw h s =
     (case cJSON_New_Item hk h of
        (None, h1) \<Rightarrow> Some (None, h1)
      | (Some a, h1) \<Rightarrow> do {
          (r, h2) \<leftarrow> parse_value_at hk raw (parse_fuel (parse_buffer_of s)) 0 h1 a (parse_buffer_of s);
          (case r of
             Some rest \<Rightarrow> Some (Some a, h2)
           | None \<Rightarrow> do { h3 \<leftarrow> cJSON_Delete h2 (Some a); Some (None, h3) })
        })"

end
