(* ===== verification/CJson_Parse_Facts.thy ===== *)
theory CJson_Parse_Facts
  imports CJson_Parse
begin

section \<open>The parser in memory refines the parser on values\<close>

text \<open>
  What \<open>cJSON_Parse\<close> leaves in memory: \<open>holds\<close> ties a tree of items to the value it stands for, \<open>chain\<close> is
  the list of a container while it is parsed, \<open>filled\<close> what parsing a value does to its item.
\<close>

subsection \<open>Items and values\<close>

definition named :: "string option \<Rightarrow> cjson_data" where
  "named k = zero_data\<lparr>node_string := k\<rparr>"

fun holds :: "tree \<Rightarrow> string option \<Rightarrow> cJSON \<Rightarrow> bool"
  and holds_all :: "tree list \<Rightarrow> cJSON list \<Rightarrow> bool"
  and holds_members :: "tree list \<Rightarrow> (string \<times> cJSON) list \<Rightarrow> bool"
where
  "holds u k cJSON_NULL \<longleftrightarrow> kids u = [] \<and> tree_data u = named k\<lparr>node_type := 4\<rparr>"
| "holds u k cJSON_False \<longleftrightarrow> kids u = [] \<and> tree_data u = named k\<lparr>node_type := 1\<rparr>"
| "holds u k cJSON_True \<longleftrightarrow> kids u = [] \<and> tree_data u = named k\<lparr>node_type := 2, node_valueint := 1\<rparr>"
| "holds u k (cJSON_Number i x) \<longleftrightarrow> kids u = [] \<and>
     tree_data u = named k\<lparr>node_type := 8, node_valueint := i, node_valuedouble := x\<rparr>"
| "holds u k (cJSON_String s) \<longleftrightarrow> kids u = [] \<and>
     tree_data u = named k\<lparr>node_type := 16, node_valuestring := Some s\<rparr>"
| "holds u k (cJSON_Array vs) \<longleftrightarrow> tree_data u = named k\<lparr>node_type := 32\<rparr> \<and> holds_all (kids u) vs"
| "holds u k (cJSON_Object ms) \<longleftrightarrow> tree_data u = named k\<lparr>node_type := 64\<rparr> \<and> holds_members (kids u) ms"
| "holds_all ts [] \<longleftrightarrow> ts = []"
| "holds_all ts (v # vs) \<longleftrightarrow> (\<exists>t us. ts = t # us \<and> holds t None v \<and> holds_all us vs)"
| "holds_members ts [] \<longleftrightarrow> ts = []"
| "holds_members ts ((k, v) # ms) \<longleftrightarrow> (\<exists>t us. ts = t # us \<and> holds t (Some k) v \<and> holds_members us ms)"

text \<open>An item before its value is parsed: new, or with its name and the type of a string.\<close>

definition blank_item :: "string option \<Rightarrow> cjson_item \<Rightarrow> bool" where
  "blank_item k n \<longleftrightarrow> child_item n = None \<and> \<not> is_reference (item_data n) \<and> (\<exists>ty. item_data n = named k\<lparr>node_type := ty\<rparr>)"

subsection \<open>A list under construction\<close>

definition chain :: "cjson_heap \<Rightarrow> cjson_heap \<Rightarrow> addr option \<Rightarrow> addr option \<Rightarrow> tree list \<Rightarrow> bool" where
  "chain h0 h head current_item us \<longleftrightarrow>
     seg h None head (map tree_addr us) None current_item \<and> (\<forall>u\<in>set us. tree_at h u) \<and>
     distinct (all_addrs us) \<and> (\<forall>x\<in>set (all_addrs us). h0 x = None) \<and>
     (\<forall>x. x \<notin> set (all_addrs us) \<longrightarrow> h x = h0 x)"

text \<open>The item \<open>a\<close> has become the tree \<open>u\<close>, with new items below it; its links are as they were.\<close>

definition filled :: "cjson_heap \<Rightarrow> cjson_heap \<Rightarrow> addr \<Rightarrow> tree \<Rightarrow> bool" where
  "filled h h' a u \<longleftrightarrow> tree_addr u = a \<and> tree_at h' u \<and> distinct (addrs u) \<and>
     (\<forall>x\<in>set (addrs u). x \<noteq> a \<longrightarrow> h x = None) \<and> (\<forall>x. x \<notin> set (addrs u) \<longrightarrow> h' x = h x) \<and>
     map_option next_item (h' a) = map_option next_item (h a) \<and>
     map_option prev_item (h' a) = map_option prev_item (h a)"

lemma chain_start: "chain h h None None []"
  by (simp add: chain_def)

lemma chain_abandon:
  assumes "chain h0 h head cur us"
  shows "abandon h head = Some (None, h0)"
proof -
  have "cJSON_Delete h head = Some (h |` (- set (all_addrs us)))"
    using assms by (intro delete_chain) (auto simp: chain_def)
  moreover have "h |` (- set (all_addrs us)) = h0"
    using assms by (auto simp: chain_def restrict_map_def)
  ultimately show ?thesis by (simp add: abandon_def)
qed

lemma chain_new: "chain h0 h head cur us \<Longrightarrow> h b = None \<Longrightarrow> h0 b = None \<and> b \<notin> set (all_addrs us)"
  unfolding chain_def set_all_addrs using tree_at_alloc by (metis UN_E option.distinct(1))

lemma chain_attach:
  assumes c: "chain h0 h head cur us" and b: "h b = None"
  shows "\<exists>head1 h2. attach_item (h(b \<mapsto> new_cell zero_data)) head cur b = Some (head1, h2) \<and>
    chain h0 h2 head1 (Some b) (us @ [Tree b zero_data []]) \<and>
    (\<exists>n. h2 b = Some n \<and> blank_item None n)"
proof -
  let ?h1 = "h(b \<mapsto> new_cell zero_data)" and ?u = "Tree b zero_data []"
  have ref: "\<not> is_reference zero_data" by (simp add: is_reference_def zero_data_def)
  have new: "h0 b = None" "b \<notin> set (all_addrs us)" using chain_new [OF c b] by auto
  have seg: "seg h None head (map tree_addr us) None cur" and us: "\<forall>u\<in>set us. tree_at h u" "distinct (all_addrs us)"
      "\<forall>x\<in>set (all_addrs us). h0 x = None" "\<forall>x. x \<notin> set (all_addrs us) \<longrightarrow> h x = h0 x"
    using c by (auto simp: chain_def)
  have blank: "blank_item None (new_cell zero_data)"
    by (auto simp: blank_item_def new_cell_def named_def zero_data_def is_reference_def)
  show ?thesis
  proof (cases us rule: rev_cases)
    case Nil
    then have "head = None" using seg by simp
    then show ?thesis using Nil us new ref blank
      by (intro exI [of _ "Some b"] exI [of _ ?h1]) (auto simp: attach_item_def chain_def new_cell_def)
  next
    case (snoc vs w)
    have head: "head \<noteq> None" using seg snoc by (cases vs) auto
    have roots: "distinct (map tree_addr us)" "b \<notin> tree_addr ` set us"
      using distinct_tree_addrs [OF us(2)] new(2) tree_addrs_subset [of us] by auto
    obtain q where q: "cur = Some (tree_addr w)" "h (tree_addr w) = Some q" "next_item q = None"
        "seg h None head (map tree_addr vs) (Some (tree_addr w)) (prev_item q)"
      using seg snoc by (auto simp: seg_snoc)
    let ?h2 = "?h1(tree_addr w \<mapsto> q\<lparr>next_item := Some b\<rparr>, b \<mapsto> (new_cell zero_data)\<lparr>prev_item := cur\<rparr>)"
    have "attach_item ?h1 head cur b = Some (head, ?h2)"
      using head q roots snoc by (auto simp: attach_item_def)
    moreover have "seg ?h2 None head (map tree_addr (us @ [?u])) None (Some b)"
      using q roots snoc by (auto simp: seg_append new_cell_def)
    moreover have "tree_at ?h2 u" if u: "u \<in> set us" for u
    proof -
      have "tree_at ?h2 u = tree_at h u"
      proof (rule tree_at_cong)
        fix x assume x: "x \<in> set (all_addrs (kids u))"
        have "x \<in> set (all_addrs us)" using kids_addrs [OF x] u unfolding set_all_addrs by blast
        moreover have "x \<noteq> tree_addr w"
          using roots_not_below [of us u] us(2) u snoc x by auto
        ultimately show "?h2 x = h x" using new(2) by auto
      next
        have "tree_addr u \<noteq> b" using roots(2) u by auto
        then show "map_option (\<lambda>n. (item_data n, child_item n)) (?h2 (tree_addr u)) =
            map_option (\<lambda>n. (item_data n, child_item n)) (h (tree_addr u))"
          using q(2) by auto
      qed
      then show ?thesis using us(1) u by simp
    qed
    moreover have "tree_at ?h2 ?u" using ref by (simp add: new_cell_def)
    moreover have "\<forall>x. x \<notin> set (all_addrs (us @ [?u])) \<longrightarrow> ?h2 x = h0 x"
      using us(4) snoc tree_addrs_subset [of us] by auto
    moreover have "blank_item None ((new_cell zero_data)\<lparr>prev_item := cur\<rparr>)" using blank by (simp add: blank_item_def)
    ultimately show ?thesis using us new
      by (intro exI [of _ head] exI [of _ ?h2]) (auto simp: chain_def)
  qed
qed

subsection \<open>Items that are filled\<close>

lemma seg_links:
  assumes "\<And>a. a \<in> set as \<Longrightarrow> map_option next_item (h' a) = map_option next_item (h a) \<and>
      map_option prev_item (h' a) = map_option prev_item (h a)"
    and "seg h q p as r l"
  shows "seg h' q p as r l"
  using assms
proof (induction as arbitrary: q p)
  case (Cons a as)
  obtain n where n: "p = Some a" "h a = Some n" "prev_item n = q" "seg h (Some a) (next_item n) as r l"
    using Cons.prems(2) by auto
  have "seg h' (Some a) (next_item n) as r l"
  proof (rule Cons.IH [OF _ n(4)])
    fix x assume "x \<in> set as"
    then show "map_option next_item (h' x) = map_option next_item (h x) \<and>
        map_option prev_item (h' x) = map_option prev_item (h x)"
      by (intro Cons.prems(1)) simp
  qed
  moreover obtain m where "h' a = Some m" "next_item m = next_item n" "prev_item m = prev_item n"
    using Cons.prems(1) [of a] n(2) by auto
  ultimately show ?case using n by simp
qed simp

lemma filled_leaf:
  assumes "h b = Some n" "child_item n = None" "\<not> is_reference d"
  shows "filled h (h(b \<mapsto> n\<lparr>item_data := d\<rparr>)) b (Tree b d [])"
  using assms by (simp add: filled_def)

lemma chain_value:
  assumes c: "chain h0 h head (Some b) (us @ [Tree b d []])" and f: "filled h h' b u"
  shows "chain h0 h' head (Some b) (us @ [u])"
proof -
  let ?old = "set (all_addrs us)"
  have seg: "seg h None head (map tree_addr us @ [b]) None (Some b)"
    and us: "\<forall>u\<in>set us. tree_at h u" "distinct (all_addrs us)" "b \<notin> ?old" "\<forall>x\<in>?old. h0 x = None" "h0 b = None"
      "\<forall>x. x \<notin> insert b ?old \<longrightarrow> h x = h0 x"
    using c by (auto simp: chain_def)
  have u: "tree_addr u = b" "tree_at h' u" "distinct (addrs u)" "\<forall>x\<in>set (addrs u). x \<noteq> b \<longrightarrow> h x = None"
      "\<forall>x. x \<notin> set (addrs u) \<longrightarrow> h' x = h x"
    and links: "map_option next_item (h' b) = map_option next_item (h b)"
      "map_option prev_item (h' b) = map_option prev_item (h b)"
    using f by (auto simp: filled_def)
  have alloc: "h x \<noteq> None" if "x \<in> ?old" for x
    using that us(1) tree_at_alloc unfolding set_all_addrs by fastforce
  have disj: "?old \<inter> set (addrs u) = {}" using u(4) alloc us(3) by (metis disjoint_iff)
  have same: "h' x = h x" if "x \<in> ?old" for x using u(5) that disj by blast
  have "seg h' None head (map tree_addr (us @ [u])) None (Some b)"
  proof (rule seg_links)
    show "seg h None head (map tree_addr (us @ [u])) None (Some b)" using seg u(1) by simp
    fix x assume "x \<in> set (map tree_addr (us @ [u]))"
    then have "x = b \<or> x \<in> ?old" using u(1) tree_addrs_subset [of us] by auto
    then show "map_option next_item (h' x) = map_option next_item (h x) \<and>
        map_option prev_item (h' x) = map_option prev_item (h x)"
      using links same by auto
  qed
  moreover have "tree_at h' t" if t: "t \<in> set us" for t
  proof -
    have "tree_at h' t = tree_at h t" using same t by (intro tree_at_same) (auto simp: set_all_addrs)
    with us(1) t show ?thesis by simp
  qed
  moreover have "h0 x = None" if "x \<in> set (addrs u)" for x
    using that us(4-6) u(4) by (metis insert_iff)
  moreover have "h' x = h0 x" if "x \<notin> set (all_addrs (us @ [u]))" for x
  proof -
    have "x \<noteq> b" using that tree_addr_in [of u] u(1) by auto
    then show ?thesis using that us(6) u(5) by auto
  qed
  ultimately show ?thesis using us(2,4) u(2,3) disj by (auto simp: chain_def)
qed

lemma chain_item: "chain h0 h head (Some b) (us @ [Tree b d []]) \<Longrightarrow> \<exists>n. h b = Some n"
  by (auto simp: chain_def)

lemma filled_finite: "filled h h' a u \<Longrightarrow> finite (dom h) \<Longrightarrow> finite (dom h')"
proof -
  assume "filled h h' a u" "finite (dom h)"
  moreover from this have "dom h' \<subseteq> dom h \<union> set (addrs u)" unfolding filled_def dom_def by auto
  ultimately show ?thesis by (meson List.finite_set finite_Un finite_subset)
qed

lemma chain_finite: "chain h0 h head cur us \<Longrightarrow> finite (dom h0) \<Longrightarrow> finite (dom h)"
proof -
  assume "chain h0 h head cur us" "finite (dom h0)"
  moreover from this have "dom h \<subseteq> dom h0 \<union> set (all_addrs us)" unfolding chain_def dom_def by auto
  ultimately show ?thesis by (meson List.finite_set finite_Un finite_subset)
qed

text \<open>At \<open>success\<close> the list becomes the children of its container.\<close>

lemma chain_finish:
  assumes c: "chain h0 h head cur us" and a: "h0 a = Some n" and d: "\<not> is_reference ((item_data n)\<lparr>node_type := ty\<rparr>)"
  shows "\<exists>h'. finish_list h a ty head cur rest = Some (Some rest, h') \<and>
    filled h0 h' a (Tree a ((item_data n)\<lparr>node_type := ty\<rparr>) us)"
proof -
  have seg: "seg h None head (map tree_addr us) None cur"
    and us: "\<forall>u\<in>set us. tree_at h u" "distinct (all_addrs us)" "\<forall>x\<in>set (all_addrs us). h0 x = None"
      "\<forall>x. x \<notin> set (all_addrs us) \<longrightarrow> h x = h0 x"
    using c by (auto simp: chain_def)
  have "a \<notin> set (all_addrs us)" using us(3) a by auto
  then have a': "a \<notin> set (all_addrs us)" "h a = Some n" using us(4) a by simp_all
  let ?n = "n\<lparr>child_item := head, item_data := (item_data n)\<lparr>node_type := ty\<rparr>\<rparr>"
  show ?thesis
  proof (cases us)
    case Nil
    then show ?thesis using seg a a' us d by (auto simp: finish_list_def filled_def)
  next
    case (Cons u us')
    obtain m where head: "head = Some (tree_addr u)" and m: "h (tree_addr u) = Some m"
        and seg': "seg h (Some (tree_addr u)) (next_item m) (map tree_addr us') None cur"
      using seg Cons by auto
    define h' where "h' = h(tree_addr u \<mapsto> m\<lparr>prev_item := cur\<rparr>, a \<mapsto> ?n)"
    have roots: "distinct (map tree_addr us)" "a \<notin> tree_addr ` set us"
      using distinct_tree_addrs [OF us(2)] a'(1) tree_addrs_subset [of us] by auto
    have "seg h' cur (Some (tree_addr u)) (map tree_addr us) None cur"
      using seg' roots Cons by (auto simp: h'_def)
    moreover have "tree_at h' t" if t: "t \<in> set us" for t
    proof -
      have "tree_at h' t = tree_at h t"
      proof (rule tree_at_cong)
        fix x assume x: "x \<in> set (all_addrs (kids t))"
        have "x \<in> set (all_addrs us)" using kids_addrs [OF x] t unfolding set_all_addrs by blast
        moreover have "x \<noteq> tree_addr u" using roots_not_below [of us t] us(2) t Cons x by auto
        ultimately show "h' x = h x" using a'(1) by (auto simp: h'_def)
      next
        have "tree_addr t \<noteq> a" using roots(2) t by auto
        then show "map_option (\<lambda>n. (item_data n, child_item n)) (h' (tree_addr t)) =
            map_option (\<lambda>n. (item_data n, child_item n)) (h (tree_addr t))"
          using m by (auto simp: h'_def)
      qed
      then show ?thesis using us(1) t by simp
    qed
    moreover have "h' a = Some ?n" by (simp add: h'_def)
    ultimately have "tree_at h' (Tree a ((item_data n)\<lparr>node_type := ty\<rparr>) us)"
      using d head by (auto simp: ring_def)
    moreover have "\<forall>x. x \<notin> insert a (set (all_addrs us)) \<longrightarrow> h' x = h0 x"
      using us(4) Cons tree_addr_in [of u] by (auto simp: h'_def simp del: tree_addr_in)
    ultimately have "filled h0 h' a (Tree a ((item_data n)\<lparr>node_type := ty\<rparr>) us)"
      using us(2,3) a'(1) a by (auto simp: filled_def h'_def)
    moreover have "finish_list h a ty head cur rest = Some (Some rest, h')"
      using head m a'(2) roots Cons by (auto simp: finish_list_def h'_def)
    ultimately show ?thesis by blast
  qed
qed

subsection \<open>Agreement of the two parsers\<close>

text \<open>
  The result \<open>r\<close> of a parser in memory, started in the heap \<open>h\<close>, against the result \<open>p\<close> on values: it fails
  with the heap as it was, and so does \<open>p\<close> if there is memory (\<open>e\<close>), or it leaves the same text and
  a heap that stands for the value.
\<close>

definition agrees ::
    "bool \<Rightarrow> cjson_heap \<Rightarrow> 'a parsed \<Rightarrow> (string option \<times> cjson_heap) option \<Rightarrow> ('a \<Rightarrow> cjson_heap \<Rightarrow> bool) \<Rightarrow> bool" where
  "agrees e h p r P \<longleftrightarrow> p = No_Fuel \<or> (r = Some (None, h) \<and> (e \<longrightarrow> p = Failed)) \<or>
     (\<exists>v rest h'. p = Parsed v rest \<and> r = Some (Some rest, h') \<and> P v h')"

lemma agrees_fail: "(e \<longrightarrow> p = Failed \<or> p = No_Fuel) \<Longrightarrow> agrees e h p (Some (None, h)) P"
  by (auto simp: agrees_def)

lemma agrees_done: "P v h' \<Longrightarrow> agrees e h (Parsed v rest) (Some (Some rest, h')) P"
  by (simp add: agrees_def)

lemma agrees_map:
  assumes "agrees e h p r P" and "\<And>v h'. P v h' \<Longrightarrow> Q (f v) h'"
  shows "agrees e h (map_parsed f p) r Q"
  using assms by (cases p) (auto simp: agrees_def)

lemma agrees_if:
  "(c \<Longrightarrow> agrees e h p r P) \<Longrightarrow> (\<not> c \<Longrightarrow> agrees e h p' r' P) \<Longrightarrow>
     agrees e h (if c then p else p') (if c then r else r') P"
  by simp

lemma agrees_mono: "agrees e h p r P \<Longrightarrow> (e' \<Longrightarrow> e) \<Longrightarrow> agrees e' h p r P"
  by (auto simp: agrees_def)

definition rich :: "hooks \<Rightarrow> (cjson_heap \<Rightarrow> nat \<Rightarrow> bool) \<Rightarrow> bool" where
  "rich hk raw \<longleftrightarrow> (\<forall>h. finite (dom h) \<longrightarrow> allocate hk h \<noteq> None) \<and> (\<forall>h n. raw h n)"

abbreviation ample :: "hooks \<Rightarrow> (cjson_heap \<Rightarrow> nat \<Rightarrow> bool) \<Rightarrow> cjson_heap \<Rightarrow> bool" where
  "ample hk raw h \<equiv> rich hk raw \<and> finite (dom h)"

definition value_made :: "cjson_heap \<Rightarrow> addr \<Rightarrow> string option \<Rightarrow> cJSON \<Rightarrow> cjson_heap \<Rightarrow> bool" where
  "value_made h a k v h' \<longleftrightarrow> (\<exists>u. filled h h' a u \<and> holds u k v)"

text \<open>A container with \<open>us\<close> before what has been parsed.\<close>

definition list_made ::
    "32 word \<Rightarrow> (tree list \<Rightarrow> 'a list \<Rightarrow> bool) \<Rightarrow> cjson_heap \<Rightarrow> addr \<Rightarrow> string option \<Rightarrow> tree list \<Rightarrow>
       'a list \<Rightarrow> cjson_heap \<Rightarrow> bool" where
  "list_made ty H h a k us vs h' \<longleftrightarrow>
     (\<exists>ts. filled h h' a (Tree a (named k\<lparr>node_type := ty\<rparr>) (us @ ts)) \<and> H ts vs)"

abbreviation elements_made where "elements_made \<equiv> list_made 32 holds_all"
abbreviation members_made where "members_made \<equiv> list_made 64 holds_members"

lemma not_reference_named:
  "node_type d AND cJSON_IsReference = 0 \<Longrightarrow> \<not> is_reference d"
  by (simp add: is_reference_def)

lemma value_made_leaf:
  assumes "h a = Some n" "blank_item k n" "\<not> is_reference d" "holds (Tree a d []) k v"
  shows "value_made h a k v (h(a \<mapsto> n\<lparr>item_data := d\<rparr>))"
  using filled_leaf [where h = h, OF assms(1) _ assms(3)] assms by (auto simp: value_made_def blank_item_def)

lemma parse_string_at_cases:
  assumes "h a = Some n"
  shows "parse_string_at raw h a s = Some (None, h) \<and> (rich hk raw \<longrightarrow> parse_string s = None) \<or>
    (\<exists>t r. parse_string s = Some (t, r) \<and> parse_string_at raw h a s =
       Some (Some r, h(a \<mapsto> n\<lparr>item_data := (item_data n)\<lparr>node_type := 16, node_valuestring := Some t\<rparr>\<rparr>)))"
  using assms
  by (auto simp: parse_string_at_def parse_string_def set_data_def rich_def split: option.splits prod.splits)

lemma parse_number_agrees:
  assumes "h a = Some n" "blank_item k n"
  shows "agrees (ample hk raw h) h (of_option (parse_number s)) (parse_number_at raw h a s) (value_made h a k)"
proof (cases "strtod (takeWhile number_char s)")
  case None
  then show ?thesis by (simp add: parse_number_def parse_number_at_def of_option_def agrees_def Let_def)
next
  case (Some p)
  obtain x m where p: "p = (x, m)" by (cases p)
  obtain ty where ty: "item_data n = named k\<lparr>node_type := ty\<rparr>" using assms(2) by (auto simp: blank_item_def)
  let ?d = "(item_data n)\<lparr>node_valuedouble := x, node_valueint := double_to_int x, node_type := 8\<rparr>"
  have "value_made h a k (cJSON_Number (double_to_int x) x) (h(a \<mapsto> n\<lparr>item_data := ?d\<rparr>))"
    by (rule value_made_leaf [where h = h, OF assms]) (simp_all add: is_reference_def ty)
  then show ?thesis using Some p assms(1)
    by (auto simp: parse_number_def parse_number_at_def of_option_def agrees_def set_data_def rich_def Let_def)
qed

lemma parse_list_agrees:
  assumes a: "h a = Some n" "blank_item k n" and ty: "ty AND cJSON_IsReference = 0"
    and loop: "\<And>r. agrees (ample hk raw h) h (pl (depth + 1) r) (loop h r) (list_made ty H h a k [])"
    and H: "H [] []"
    and made: "\<And>vs h'. list_made ty H h a k [] vs h' \<Longrightarrow> value_made h a k (con vs) h'"
  shows "agrees (ample hk raw h) h
    (if depth \<ge> CJSON_NESTING_LIMIT then Failed
      else let r = buffer_skip_whitespace (tl s) in
        if next_is closing r then Parsed (con []) (tl r)
        else if r = [] then Failed else map_parsed con (pl (depth + 1) r))
    (parse_list_at loop ty closing depth h a s) (value_made h a k)"
proof -
  let ?r = "buffer_skip_whitespace (tl s)"
  obtain ty0 where d: "item_data n = named k\<lparr>node_type := ty0\<rparr>" using a(2) by (auto simp: blank_item_def)
  obtain h' where h': "finish_list h a ty None None (tl ?r) = Some (Some (tl ?r), h')"
      "filled h h' a (Tree a (named k\<lparr>node_type := ty\<rparr>) [])"
    using chain_finish [where ?h0.0 = h and ty = ty and rest = "tl ?r", OF chain_start a(1)] ty d by (auto simp: is_reference_def)
  have "value_made h a k (con []) h'"
    using h'(2) H by (intro made) (auto simp: list_made_def)
  moreover have "agrees (ample hk raw h) h (map_parsed con (pl (depth + 1) ?r)) (loop h ?r) (value_made h a k)"
    using loop made by (rule agrees_map)
  ultimately show ?thesis
    by (auto simp: parse_list_at_def Let_def h'(1) intro: agrees_fail agrees_done)
qed

lemma elements_value: "elements_made h a k [] vs h' \<Longrightarrow> value_made h a k (cJSON_Array vs) h'"
  by (auto simp: list_made_def value_made_def)

lemma members_value: "members_made h a k [] vs h' \<Longrightarrow> value_made h a k (cJSON_Object vs) h'"
  by (auto simp: list_made_def value_made_def)

lemma parse_value_with_agrees:
  assumes a: "h a = Some n" "blank_item k n"
    and elements: "\<And>r. agrees (ample hk raw h) h (pe (depth + 1) r) (elements h r) (elements_made h a k [])"
    and members: "\<And>r. agrees (ample hk raw h) h (pm (depth + 1) r) (members h r) (members_made h a k [])"
  shows "agrees (ample hk raw h) h (parse_value_with pe pm depth s)
    (parse_value_at_with raw elements members depth h a s) (value_made h a k)"
proof -
  obtain ty where ty: "item_data n = named k\<lparr>node_type := ty\<rparr>" using a(2) by (auto simp: blank_item_def)
  have leaf: "agrees (ample hk raw h) h (Parsed v r) (map_option (Pair (Some r)) (set_data h a f)) (value_made h a k)"
    if "holds (Tree a (f (item_data n)) []) k v" "\<not> is_reference (f (item_data n))" for v r f
    using value_made_leaf [where h = h, OF a that(2,1)] a(1) by (simp add: set_data_def agrees_done)
  have str: "agrees (ample hk raw h) h (map_parsed cJSON_String (of_option (parse_string s)))
      (parse_string_at raw h a s) (value_made h a k)"
  proof -
    have "value_made h a k (cJSON_String t)
        (h(a \<mapsto> n\<lparr>item_data := (item_data n)\<lparr>node_type := 16, node_valuestring := Some t\<rparr>\<rparr>))" for t
      by (rule value_made_leaf [where h = h, OF a]) (simp_all add: is_reference_def ty)
    then show ?thesis using parse_string_at_cases [where h = h and hk = hk and raw = raw and s = s, OF a(1)]
      by (auto simp: of_option_def agrees_def)
  qed
  note lists = parse_list_agrees [where h = h and hk = hk and raw = raw and depth = depth and s = s, OF a]
  have "agrees (ample hk raw h) h (parse_array pe depth s) (parse_list_at elements 32 (CHR '']'') depth h a s) (value_made h a k)"
    unfolding parse_array_def by (rule lists [where con = cJSON_Array and H = holds_all and pl = pe and loop = elements])
      (use elements in \<open>simp_all add: elements_value\<close>)
  moreover have "agrees (ample hk raw h) h (parse_object pm depth s) (parse_list_at members 64 (CHR ''}'') depth h a s) (value_made h a k)"
    unfolding parse_object_def by (rule lists [where con = cJSON_Object and H = holds_members and pl = pm and loop = members])
      (use members in \<open>simp_all add: members_value\<close>)
  moreover note str parse_number_agrees [where h = h, OF a]
  ultimately show ?thesis
    unfolding parse_value_with_def parse_value_at_with_def
    by (intro agrees_if leaf agrees_fail) (simp_all add: ty is_reference_def)
qed

subsection \<open>The loops\<close>

lemma agrees_abandon:
  "chain h0 h head cur us \<Longrightarrow> (e \<longrightarrow> p = Failed \<or> p = No_Fuel) \<Longrightarrow> agrees e h0 p (abandon h head) P"
  by (simp add: chain_abandon agrees_fail)

lemma next_round_agrees:
  assumes c: "chain h0 h1 head (Some b) (us @ [Tree b d []])" and a: "h0 a = Some n" "blank_item k n"
    and ty: "ty AND cJSON_IsReference = 0"
    and val: "agrees (ample hk raw h1) h1 p r (value_made h1 b kb)"
    and again: "\<And>us h head cur s. chain h0 h head cur us \<Longrightarrow>
      agrees (ample hk raw h0) h0 (rounds s) (again h head cur s) (list_made ty H h0 a k us)"
    and H: "H [] []" "\<And>u v ts xs. holds u kb v \<Longrightarrow> H ts xs \<Longrightarrow> H (u # ts) (f v # xs)"
  shows "agrees (ample hk raw h0) h0
    (bind_parsed p (\<lambda>v r1. let r2 = buffer_skip_whitespace r1 in
       if next_is (CHR '','') r2 then map_parsed (Cons (f v)) (rounds (tl r2))
       else if next_is closing r2 then Parsed [f v] (tl r2) else Failed))
    (Option.bind r (next_round again ty closing a head b)) (list_made ty H h0 a k us)"
proof -
  consider "p = No_Fuel" | "r = Some (None, h1)" "ample hk raw h1 \<longrightarrow> p = Failed"
    | v rest h2 u where "p = Parsed v rest" "r = Some (Some rest, h2)" "filled h1 h2 b u" "holds u kb v"
    using val by (auto simp: agrees_def value_made_def)
  then show ?thesis
  proof cases
    case 1
    then show ?thesis by (simp add: agrees_def)
  next
    case 2
    then have failed: "ample hk raw h0 \<longrightarrow> p = Failed" using chain_finite [OF c] by blast
    have "Option.bind r (next_round again ty closing a head b) = abandon h1 head" using 2(1) by (simp add: next_round_def)
    then show ?thesis using failed by (auto intro!: agrees_abandon [OF c])
  next
    case (3 v rest h2 u)
    let ?r = "buffer_skip_whitespace rest"
    have c2: "chain h0 h2 head (Some b) (us @ [u])" by (rule chain_value [OF c 3(3)])
    obtain ty0 where n: "item_data n = named k\<lparr>node_type := ty0\<rparr>" using a(2) by (auto simp: blank_item_def)
    obtain h' where h': "finish_list h2 a ty head (Some b) (tl ?r) = Some (Some (tl ?r), h')"
        "filled h0 h' a (Tree a (named k\<lparr>node_type := ty\<rparr>) (us @ [u]))"
      using chain_finish [OF c2 a(1), of ty "tl ?r"] ty n by (auto simp: is_reference_def)
    have "agrees (ample hk raw h0) h0 (map_parsed (Cons (f v)) (rounds (tl ?r)))
        (again h2 head (Some b) (tl ?r)) (list_made ty H h0 a k us)"
    proof (rule agrees_map [OF again [OF c2]])
      fix vs h' assume "list_made ty H h0 a k (us @ [u]) vs h'"
      then obtain ts where "filled h0 h' a (Tree a (named k\<lparr>node_type := ty\<rparr>) (us @ u # ts))" "H ts vs"
        by (auto simp: list_made_def)
      then show "list_made ty H h0 a k us (f v # vs) h'"
        using H(2) [OF 3(4)] unfolding list_made_def by blast
    qed
    moreover have "list_made ty H h0 a k us [f v] h'"
      using h'(2) H(2) [OF 3(4) H(1)] unfolding list_made_def by blast
    ultimately show ?thesis
      using 3(1,2) agrees_abandon [OF c2] h'(1)
      by (auto simp: next_round_def Let_def intro!: agrees_done)
  qed
qed

text \<open>A new item at the end of the list, or no memory.\<close>

lemma new_item_cases:
  assumes "hooks_law hk" and c: "chain h0 h head cur us"
  shows "(cJSON_New_Item hk h = (None, h) \<and> \<not> ample hk raw h0) \<or>
    (\<exists>b head1 h2. cJSON_New_Item hk h = (Some b, h(b \<mapsto> new_cell zero_data)) \<and>
       attach_item (h(b \<mapsto> new_cell zero_data)) head cur b = Some (head1, h2) \<and>
       chain h0 h2 head1 (Some b) (us @ [Tree b zero_data []]) \<and> (\<exists>n. h2 b = Some n \<and> blank_item None n))"
proof (cases "allocate hk h")
  case None
  then have "\<not> ample hk raw h0" using chain_finite [OF c] unfolding rich_def by blast
  then show ?thesis using None by (simp add: cJSON_New_Item_def)
next
  case (Some b)
  then have "h b = None" using assms(1) by (simp add: hooks_law_def)
  then show ?thesis using chain_attach [OF c] Some by (auto simp: cJSON_New_Item_def new_cell_def)
qed

lemma elements_step_agrees:
  assumes hk: "hooks_law hk" and c: "chain h0 h head cur us" and a: "h0 a = Some n" "blank_item k n"
    and val: "\<And>h b m s. h b = Some m \<Longrightarrow> blank_item None m \<Longrightarrow>
      agrees (ample hk raw h) h (pv s) (val h b s) (value_made h b None)"
    and again: "\<And>us h head cur s. chain h0 h head cur us \<Longrightarrow>
      agrees (ample hk raw h0) h0 (rounds s) (again h head cur s) (elements_made h0 a k us)"
  shows "agrees (ample hk raw h0) h0 (elements_round (pv (buffer_skip_whitespace s)) rounds)
    (elements_step hk val again a h head cur s) (elements_made h0 a k us)"
  using new_item_cases [OF hk c, of raw]
proof (elim disjE exE conjE)
  assume "cJSON_New_Item hk h = (None, h)" "\<not> ample hk raw h0"
  then show ?thesis by (auto simp: elements_step_def intro!: agrees_abandon [OF c])
next
  fix b head1 h2 m
  assume new: "cJSON_New_Item hk h = (Some b, h(b \<mapsto> new_cell zero_data))"
      "attach_item (h(b \<mapsto> new_cell zero_data)) head cur b = Some (head1, h2)"
    and c2: "chain h0 h2 head1 (Some b) (us @ [Tree b zero_data []])" and m: "h2 b = Some m" "blank_item None m"
  have "agrees (ample hk raw h0) h0 (elements_round (pv (buffer_skip_whitespace s)) rounds)
      (Option.bind (val h2 b (buffer_skip_whitespace s)) (next_round again 32 (CHR '']'') a head1 b))
      (elements_made h0 a k us)"
    unfolding elements_round_def
    by (rule next_round_agrees [where f = "\<lambda>v. v", OF c2 a _ val [where h = h2, OF m] again]) simp_all
  then show ?thesis using new by (simp add: elements_step_def)
qed

definition name_data :: "string \<Rightarrow> cjson_data" where
  "name_data name = named (Some name)\<lparr>node_type := 16\<rparr>"

lemma parse_name_at_cases:
  assumes m: "h b = Some m" "blank_item None m"
  shows "(\<exists>name r. s \<noteq> [] \<and> parse_string (buffer_skip_whitespace s) = Some (name, r) \<and>
      next_is (CHR '':'') (buffer_skip_whitespace r) \<and>
      parse_name_at raw h b s = Some (Some (buffer_skip_whitespace (tl (buffer_skip_whitespace r))),
        h(b \<mapsto> m\<lparr>item_data := name_data name\<rparr>))) \<or>
    (\<exists>d. \<not> is_reference d \<and> parse_name_at raw h b s = Some (None, h(b \<mapsto> m\<lparr>item_data := d\<rparr>)) \<and>
      (rich hk raw \<longrightarrow> members_round s pv rounds = Failed))"
proof -
  let ?s = "buffer_skip_whitespace s"
  obtain ty where ty: "item_data m = named None\<lparr>node_type := ty\<rparr>" using m(2) by (auto simp: blank_item_def)
  have same: "h(b \<mapsto> m) = h" using m(1) by (simp add: fun_upd_idem)
  have ref: "\<not> is_reference (item_data m)" using m(2) by (simp add: blank_item_def)
  consider "s = []" | "s \<noteq> []" "parse_string_at raw h b ?s = Some (None, h)" "rich hk raw \<longrightarrow> parse_string ?s = None"
    | t r where "s \<noteq> []" "parse_string ?s = Some (t, r)" "parse_string_at raw h b ?s =
        Some (Some r, h(b \<mapsto> m\<lparr>item_data := (item_data m)\<lparr>node_type := 16, node_valuestring := Some t\<rparr>\<rparr>))"
    using parse_string_at_cases [where h = h and raw = raw and hk = hk and s = ?s, OF m(1)] by blast
  then show ?thesis
  proof cases
    case 1
    then show ?thesis
      by (intro disjI2 exI [of _ "item_data m"]) (simp add: ref same parse_name_at_def members_round_def)
  next
    case 2
    then show ?thesis
      by (intro disjI2 exI [of _ "item_data m"]) (simp add: ref same parse_name_at_def members_round_def of_option_def)
  next
    case (3 t r)
    have ref': "\<not> is_reference (name_data t)" by (simp add: is_reference_def name_data_def)
    have at: "parse_name_at raw h b s = (let r2 = buffer_skip_whitespace r in
        Some (if next_is (CHR '':'') r2 then Some (buffer_skip_whitespace (tl r2)) else None,
          h(b \<mapsto> m\<lparr>item_data := name_data t\<rparr>)))"
      using 3(1,3) by (simp add: parse_name_at_def set_data_def name_data_def ty named_def zero_data_def)
    show ?thesis
    proof (cases "next_is (CHR '':'') (buffer_skip_whitespace r)")
      case True
      then show ?thesis using 3(1,2) at by simp
    next
      case False
      then show ?thesis using 3(2) at ref'
        by (intro disjI2 exI [of _ "name_data t"]) (simp add: members_round_def of_option_def)
    qed
  qed
qed

lemma members_step_agrees:
  assumes hk: "hooks_law hk" and c: "chain h0 h head cur us" and a: "h0 a = Some n" "blank_item k n"
    and val: "\<And>h b m s name. h b = Some m \<Longrightarrow> blank_item (Some name) m \<Longrightarrow>
      agrees (ample hk raw h) h (pv s) (val h b s) (value_made h b (Some name))"
    and again: "\<And>us h head cur s. chain h0 h head cur us \<Longrightarrow>
      agrees (ample hk raw h0) h0 (rounds s) (again h head cur s) (members_made h0 a k us)"
  shows "agrees (ample hk raw h0) h0 (members_round s pv rounds)
    (members_step hk raw val again a h head cur s) (members_made h0 a k us)"
  using new_item_cases [OF hk c, of raw]
proof (elim disjE exE conjE)
  assume "cJSON_New_Item hk h = (None, h)" "\<not> ample hk raw h0"
  then show ?thesis by (auto simp: members_step_def intro!: agrees_abandon [OF c])
next
  fix b head1 h2 m
  assume new: "cJSON_New_Item hk h = (Some b, h(b \<mapsto> new_cell zero_data))"
      "attach_item (h(b \<mapsto> new_cell zero_data)) head cur b = Some (head1, h2)"
    and c2: "chain h0 h2 head1 (Some b) (us @ [Tree b zero_data []])" and m: "h2 b = Some m" "blank_item None m"
  have leaf: "child_item m = None" using m(2) by (simp add: blank_item_def)
  have named: "chain h0 (h2(b \<mapsto> m\<lparr>item_data := d\<rparr>)) head1 (Some b) (us @ [Tree b d []])" if "\<not> is_reference d" for d
    by (rule chain_value [OF c2 filled_leaf [where h = h2, OF m(1) leaf that]])
  consider name r where "s \<noteq> []" "parse_string (buffer_skip_whitespace s) = Some (name, r)"
      "next_is (CHR '':'') (buffer_skip_whitespace r)"
      "parse_name_at raw h2 b s = Some (Some (buffer_skip_whitespace (tl (buffer_skip_whitespace r))),
        h2(b \<mapsto> m\<lparr>item_data := name_data name\<rparr>))"
    | d where "\<not> is_reference d" "parse_name_at raw h2 b s = Some (None, h2(b \<mapsto> m\<lparr>item_data := d\<rparr>))"
      "rich hk raw \<longrightarrow> members_round s pv rounds = Failed"
    using parse_name_at_cases [where h = h2 and raw = raw and hk = hk and s = s and pv = pv and rounds = rounds, OF m] by blast
  then show ?thesis
  proof cases
    case (1 name r)
    let ?r = "buffer_skip_whitespace (tl (buffer_skip_whitespace r))"
    let ?h3 = "h2(b \<mapsto> m\<lparr>item_data := name_data name\<rparr>)"
    have "\<not> is_reference (name_data name)" by (simp add: is_reference_def name_data_def)
    note c3 = named [OF this]
    have b: "?h3 b = Some (m\<lparr>item_data := name_data name\<rparr>)" "blank_item (Some name) (m\<lparr>item_data := name_data name\<rparr>)"
      using leaf by (auto simp: blank_item_def name_data_def is_reference_def)
    have "agrees (ample hk raw h0) h0 (members_round s pv rounds)
        (Option.bind (val ?h3 b ?r) (next_round again 64 (CHR ''}'') a head1 b)) (members_made h0 a k us)"
      unfolding members_round_def using 1(1-3)
      using next_round_agrees [where f = "Pair name", OF c3 a _ val [where h = ?h3, OF b] again]
      by (simp add: of_option_def)
    then show ?thesis using new 1(4) by (simp add: members_step_def)
  next
    case (2 d)
    then have "members_step hk raw val again a h head cur s = abandon (h2(b \<mapsto> m\<lparr>item_data := d\<rparr>)) head1"
      using new by (simp add: members_step_def)
    then show ?thesis using 2(3) by (auto intro!: agrees_abandon [OF named [OF 2(1)]])
  qed
qed

lemma parsers_agree:
  assumes hk: "hooks_law hk"
  shows "h a = Some n \<Longrightarrow> blank_item k n \<Longrightarrow> agrees (ample hk raw h) h
      (parse_value fuel depth s) (parse_value_at hk raw fuel depth h a s) (value_made h a k)"
    and "chain h0 h head cur us \<Longrightarrow> h0 a = Some n \<Longrightarrow> blank_item k n \<Longrightarrow> agrees (ample hk raw h0) h0
      (parse_elements fuel depth s) (parse_elements_at hk raw fuel depth a h head cur s) (elements_made h0 a k us)"
    and "chain h0 h head cur us \<Longrightarrow> h0 a = Some n \<Longrightarrow> blank_item k n \<Longrightarrow> agrees (ample hk raw h0) h0
      (parse_members fuel depth s) (parse_members_at hk raw fuel depth a h head cur s) (members_made h0 a k us)"
proof (induction fuel arbitrary: h a n k depth s h0 head cur us)
  case 0
  { case 1 then show ?case by (simp add: agrees_def) }
  { case 2 then show ?case by (simp add: agrees_def) }
  { case 3 then show ?case by (simp add: agrees_def) }
next
  case (Suc fuel)
  { case 1
    show ?case unfolding parse_value.simps parse_value_at.simps
      by (rule parse_value_with_agrees [where h = h and n = n and k = k]) (rule 1 Suc.IH(2,3) [OF chain_start])+ }
  { case 2
    show ?case unfolding parse_elements.simps parse_elements_at.simps
      by (rule elements_step_agrees [where n = n and k = k, OF hk 2(1)]) (rule 2 Suc.IH(1,2) | assumption)+ }
  { case 3
    show ?case unfolding parse_members.simps parse_members_at.simps
      by (rule members_step_agrees [where n = n and k = k, OF hk 3(1)]) (rule 3 Suc.IH(1,3) | assumption)+ }
qed

subsection \<open>Looking members up\<close>

text \<open>The search through the chain of items against the one through the list of members.\<close>

lemma find_member_Some:
  "h a = Some n \<Longrightarrow> find_member h name cs (Some a) =
     (case node_string (item_data n) of
        None \<Rightarrow> if cs then Some None else find_member h name cs (next_item n)
      | Some key \<Rightarrow> if (if cs then name = key else case_insensitive_eq name key) then Some (Some a)
                    else find_member h name cs (next_item n))"
  by (subst find_member.simps) simp

lemma holds_data: "holds u k v \<Longrightarrow> node_string (tree_data u) = k \<and> \<not> is_reference (tree_data u)"
  by (cases v) (auto simp: named_def is_reference_def zero_data_def)

lemma tree_at_item: "tree_at h u \<Longrightarrow> \<exists>n. h (tree_addr u) = Some n \<and> item_data n = tree_data u"
  by (cases u) auto

definition wanted :: "string \<Rightarrow> bool \<Rightarrow> string \<times> cJSON \<Rightarrow> bool" where
  "wanted name cs = (\<lambda>(k, v). if cs then name = k else case_insensitive_eq name k)"

text \<open>An item found, or none.\<close>

definition found :: "tree list \<Rightarrow> cJSON option \<Rightarrow> addr option \<Rightarrow> bool" where
  "found ts w p \<longleftrightarrow> (case w of None \<Rightarrow> p = None | Some v \<Rightarrow> \<exists>u\<in>set ts. \<exists>k. p = Some (tree_addr u) \<and> holds u k v)"

lemma found_members:
  assumes "seg h q p (map tree_addr ts) None l" and "\<forall>t\<in>set ts. tree_at h t" and "holds_members ts ms"
  shows "\<exists>r. find_member h name cs p = Some r \<and> found ts (map_option snd (find (wanted name cs) ms)) r"
  using assms
proof (induction ms arbitrary: q p ts)
  case Nil
  then show ?case by (simp add: found_def)
next
  case (Cons kv ms)
  obtain k v where kv: "kv = (k, v)" by (cases kv)
  obtain t us where ts: "ts = t # us" "holds t (Some k) v" "holds_members us ms" using Cons.prems(3) kv by auto
  obtain n where n: "h (tree_addr t) = Some n" "node_string (item_data n) = Some k"
    using tree_at_item [of h t] holds_data [OF ts(2)] Cons.prems(2) ts(1) by auto
  have p: "p = Some (tree_addr t)" "seg h p (next_item n) (map tree_addr us) None l" using Cons.prems(1) ts(1) n by auto
  obtain r where r: "find_member h name cs (next_item n) = Some r" "found us (map_option snd (find (wanted name cs) ms)) r"
    using Cons.IH [OF p(2) _ ts(3)] Cons.prems(2) ts(1) by auto
  show ?case
  proof (cases "wanted name cs kv")
    case True
    then show ?thesis using n p ts kv by (auto simp: find_member_Some wanted_def found_def split: if_splits)
  next
    case False
    then have "find_member h name cs p = Some r" using n p r(1) kv by (auto simp: find_member_Some wanted_def)
    then show ?thesis using r(2) False ts(1) by (auto simp: found_def split: option.splits)
  qed
qed

lemma found_elements:
  assumes "seg h q p (map tree_addr ts) None l" and "\<forall>t\<in>set ts. tree_at h t" and "holds_all ts vs"
  shows "find_member h name cs p = Some None"
  using assms
proof (induction vs arbitrary: q p ts)
  case (Cons v vs)
  obtain t us where ts: "ts = t # us" "holds t None v" "holds_all us vs" using Cons.prems(3) by auto
  obtain n where n: "h (tree_addr t) = Some n" "node_string (item_data n) = None"
    using tree_at_item [of h t] holds_data [OF ts(2)] Cons.prems(2) ts(1) by auto
  have p: "p = Some (tree_addr t)" "seg h p (next_item n) (map tree_addr us) None l" using Cons.prems(1) ts(1) n by auto
  then show ?case using Cons.IH [OF p(2) _ ts(3)] Cons.prems(2) ts(1) n by (cases cs) (simp_all add: find_member_Some)
qed simp

lemma get_object_item_found:
  assumes t: "tree_at h t" and v: "holds t k v"
  shows "\<exists>r. get_object_item_at h (Some (tree_addr t)) (Some name) cs = Some r \<and>
    found (kids t) (get_object_item (Some v) name cs) r"
proof -
  obtain n where n: "h (tree_addr t) = Some n" "ring h (child_item n) (map tree_addr (kids t))" "\<forall>u\<in>set (kids t). tree_at h u"
    using t holds_data [OF v] by (cases t) auto
  obtain q where seg: "seg h q (child_item n) (map tree_addr (kids t)) None q" using n(2) by (auto simp: ring_def)
  have none: "get_object_item_at h (Some (tree_addr t)) (Some name) cs = Some None" if "kids t = []"
    using n that by (simp add: get_object_item_at_def)
  show ?thesis
  proof (cases v)
    case (cJSON_Object ms)
    then show ?thesis using found_members [OF seg n(3), of ms name cs] v n(1)
      by (simp add: get_object_item_at_def wanted_def)
  next
    case (cJSON_Array vs)
    then show ?thesis using found_elements [OF seg n(3), of vs name cs] v n(1)
      by (simp add: get_object_item_at_def found_def)
  qed (use v none in \<open>simp_all add: found_def\<close>)
qed

subsection \<open>Properties\<close>

lemma filled_copied:
  assumes f: "filled (h(a \<mapsto> new_cell d)) h' a u" and a: "h a = None"
  shows "copied h h' u"
proof -
  have "\<exists>m. h' a = Some m \<and> next_item m = None \<and> prev_item m = None"
    using f by (auto simp: filled_def new_cell_def)
  then show ?thesis using assms unfolding filled_def copied_def root_at_def
    by (auto simp: tree_addr_in)
qed

lemma copied_deleted:
  assumes "copied h h' u"
  shows "cJSON_Delete h' (Some (tree_addr u)) = Some h"
proof -
  have "h' |` (- set (addrs u)) = h" using assms by (auto simp: copied_def restrict_map_def)
  then show ?thesis using delete_root assms by (simp add: copied_def)
qed

lemma parse_outcome:
  assumes "hooks_law hk"
  shows "(cJSON_Parse_at hk raw h s = Some (None, h) \<and> (rich hk raw \<and> finite (dom h) \<longrightarrow> cJSON_Parse s = None)) \<or>
    (\<exists>v t h'. cJSON_Parse s = Some v \<and> cJSON_Parse_at hk raw h s = Some (Some (tree_addr t), h') \<and>
       holds t None v \<and> copied h h' t \<and> cJSON_Delete h' (Some (tree_addr t)) = Some h)"
proof (cases "allocate hk h")
  case None
  then show ?thesis by (auto simp: cJSON_Parse_at_def cJSON_New_Item_def rich_def)
next
  case (Some a)
  let ?s = "parse_buffer_of s" and ?h1 = "h(a \<mapsto> new_cell zero_data)"
  have a: "h a = None" using assms Some by (simp add: hooks_law_def)
  have undo: "cJSON_Delete ?h1 (Some a) = Some h"
    using a by (simp add: cJSON_Delete_Some free_item_def new_cell_def fun_upd_idem)
  have "blank_item None (new_cell zero_data)"
    by (auto simp: blank_item_def new_cell_def named_def zero_data_def is_reference_def)
  then have "agrees (ample hk raw ?h1) ?h1 (parse_value (parse_fuel ?s) 0 ?s)
      (parse_value_at hk raw (parse_fuel ?s) 0 ?h1 a ?s) (value_made ?h1 a None)"
    by (intro parsers_agree(1) [OF assms]) simp_all
  then consider "parse_value_at hk raw (parse_fuel ?s) 0 ?h1 a ?s = Some (None, ?h1)"
        "rich hk raw \<and> finite (dom h) \<longrightarrow> parse_value (parse_fuel ?s) 0 ?s = Failed"
    | v rest h' u where "parse_value (parse_fuel ?s) 0 ?s = Parsed v rest"
        "parse_value_at hk raw (parse_fuel ?s) 0 ?h1 a ?s = Some (Some rest, h')" "filled ?h1 h' a u" "holds u None v"
    using cJSON_Parse_terminates [of s] by (auto simp: agrees_def value_made_def)
  then show ?thesis
  proof cases
    case 1
    then show ?thesis using undo Some by (auto simp: cJSON_Parse_at_def cJSON_New_Item_def cJSON_Parse_def new_cell_def)
  next
    case (2 v rest h' u)
    have "copied h h' u" by (rule filled_copied [OF 2(3) a])
    moreover have "tree_addr u = a" using 2(3) by (simp add: filled_def)
    ultimately show ?thesis using 2 Some copied_deleted
      by (auto simp: cJSON_Parse_at_def cJSON_New_Item_def cJSON_Parse_def new_cell_def)
  qed
qed

text \<open>
  C26: \<open>cJSON_Parse\<close> in memory always returns, and its outcome is the one of the parser on values. Either it
  hands out new items that stand for the parsed value, links, names and types included, in
  memory that was free, and \<open>cJSON_Delete\<close> of them gives back exactly the memory before; or it hands
  out NULL, with every item it had built released again. When memory does not run out, NULL is
  returned only for texts that are refused.
\<close>

theorem parse_refines_or_restores:
  assumes "hooks_law hk"
  shows "(cJSON_Parse_at hk raw h s = Some (None, h) \<and> (rich hk raw \<and> finite (dom h) \<longrightarrow> cJSON_Parse s = None)) \<or>
    (\<exists>v t h'. cJSON_Parse s = Some v \<and> cJSON_Parse_at hk raw h s = Some (Some (tree_addr t), h') \<and>
       holds t None v \<and> copied h h' t \<and> cJSON_Delete h' (Some (tree_addr t)) = Some h)"
  using assms by (rule parse_outcome)

definition endless_hooks :: hooks where
  "endless_hooks = \<lparr>allocate = (\<lambda>h. if finite (dom h) then Some (Suc (Max (insert 0 (dom h)))) else None),
     strdup = (\<lambda>h s. True)\<rparr>"

lemma endless_hooks_law: "hooks_law endless_hooks"
proof -
  have "h (Suc (Max (insert 0 (dom h)))) = None" if "finite (dom h)" for h :: cjson_heap
    using that Max_ge [of "insert 0 (dom h)" "Suc (Max (insert 0 (dom h)))"] by (meson domIff finite_insert insertCI not_less_eq_eq order_refl)
  then show ?thesis by (simp add: hooks_law_def endless_hooks_def split: if_splits)
qed

lemma endless_hooks_rich: "rich endless_hooks (\<lambda>h n. True)"
  by (simp add: rich_def endless_hooks_def)

theorem parse_refines_or_restores_witness:
  "\<exists>t h'. cJSON_Parse_at endless_hooks (\<lambda>h n. True) Map.empty ''[true,false]'' = Some (Some (tree_addr t), h') \<and>
     holds t None (cJSON_Array [cJSON_True, cJSON_False]) \<and> cJSON_Delete h' (Some (tree_addr t)) = Some Map.empty"
proof -
  have "cJSON_Parse ''[true,false]'' = Some (cJSON_Array [cJSON_True, cJSON_False])"
    by (rule cJSON_Parse_of_print) (simp_all add: cJSON_PrintUnformatted_def)
  then show ?thesis
    using parse_refines_or_restores [OF endless_hooks_law, of "\<lambda>h n. True" Map.empty "''[true,false]''"]
      endless_hooks_rich by (auto simp del: holds.simps holds_all.simps)
qed

text \<open>
  C27: looking a member of a parsed text up in memory finds what looking it up in the parsed value finds:
  no item when the value has no such member, and otherwise an item that stands for the first member of
  that name, whether the search minds case or not.
\<close>

theorem parsed_members_found:
  assumes "hooks_law hk" and "cJSON_Parse_at hk raw h s = Some (Some a, h')"
  shows "\<exists>v. cJSON_Parse s = Some v \<and>
    (case get_object_item (Some v) name cs of
       None \<Rightarrow> get_object_item_at h' (Some a) (Some name) cs = Some None
     | Some w \<Rightarrow> \<exists>u k. get_object_item_at h' (Some a) (Some name) cs = Some (Some (tree_addr u)) \<and>
         tree_at h' u \<and> holds u k w)"
proof -
  obtain v t where v: "cJSON_Parse s = Some v" "a = tree_addr t" "holds t None v" "copied h h' t"
    using parse_outcome [OF assms(1), of raw h s] assms(2) by auto
  then have t: "tree_at h' t" by (simp add: copied_def root_at_def)
  then have kids: "\<forall>u\<in>set (kids t). tree_at h' u" by (cases t) auto
  obtain r where r: "get_object_item_at h' (Some a) (Some name) cs = Some r" "found (kids t) (get_object_item (Some v) name cs) r"
    using get_object_item_found [OF t v(3)] v(2) by blast
  show ?thesis
  proof (cases "get_object_item (Some v) name cs")
    case None
    then show ?thesis using r v(1) by (simp add: found_def)
  next
    case (Some w)
    then obtain u k where "u \<in> set (kids t)" "r = Some (tree_addr u)" "holds u k w" using r(2) by (auto simp: found_def)
    then have "get_object_item_at h' (Some a) (Some name) cs = Some (Some (tree_addr u)) \<and> tree_at h' u \<and> holds u k w"
      using r(1) kids by simp
    then show ?thesis using v(1) Some by auto
  qed
qed

theorem parsed_members_found_witness:
  "\<exists>a h' u k. cJSON_Parse_at endless_hooks (\<lambda>h n. True) Map.empty (CHR ''{'' # print_string_ptr ''Id'' @ '':true}'') = Some (Some a, h') \<and>
     get_object_item_at h' (Some a) (Some ''id'') False = Some (Some (tree_addr u)) \<and> holds u k cJSON_True"
proof -
  let ?s = "CHR ''{'' # print_string_ptr ''Id'' @ '':true}''"
  have s: "cJSON_Parse ?s = Some (cJSON_Object [(''Id'', cJSON_True)])"
    by (rule cJSON_Parse_of_print) (simp_all add: cJSON_PrintUnformatted_def)
  then obtain a h' where a: "cJSON_Parse_at endless_hooks (\<lambda>h n. True) Map.empty ?s = Some (Some a, h')"
    using parse_outcome [OF endless_hooks_law, of "\<lambda>h n. True" Map.empty ?s] endless_hooks_rich by auto
  have "case_insensitive_eq ''id'' ''Id''" by code_simp
  then show ?thesis using parsed_members_found [OF endless_hooks_law a, of "''id''" False] s a by auto
qed

end
