(* ===== verification/Spec2Isabelle.thy ===== *)
theory Spec2Isabelle
  imports Event_Queue Audio_Buffer CJson_Facts Protocol Session_FSM Config Ota_Client Opus_Codec
    Audio_Capture Audio_Playback Ws_Client Log_Levels Opus_Dump App_Speech App_Recovery
    Main_Entry Ws_Server CJson_Buffer CJson_Minify CJson_Compare CJson_Options Capture_Thread Wakeword
    Http_Server CJson_Parse_Facts
begin

text \<open>
  A model of the xiaozhi voice client: a program that records the user's speech, sends it as Opus
  packets over a websocket to a server, and plays the speech the server sends back. This theory
  only collects the others; all definitions and theorems stand in the theories named below.

  \<^bold>\<open>The program.\<close> \<open>src/main.c\<close> reads the command line and runs \<open>src/app.c\<close>. \<open>app_init\<close> loads an INI
  file, asks an OTA server (through \<open>curl\<close>) for the websocket's address and token, and starts the
  modules; \<open>app_run\<close> is a loop that pops events from one queue and lets the session machine answer
  them with actions. Four threads share the runtime: the main loop, the network thread of the
  websocket client, the capture thread and the playback thread. They meet in the event queue
  (everyone pushes, the main loop pops), in the client's two outboxes (the main loop queues texts,
  the capture thread audio, the network thread sends) and in the playback queue (the network
  thread pushes decoded frames, the playback thread pops).

  \<^bold>\<open>Theories, and what they model.\<close>

  \<^item> \<open>Xz_Prelude\<close>: return codes, C strings, \<open>snprintf\<close> into an array, decimal numbers, C division;
    the collections of facts the other theories use.
  \<^item> \<open>Bounded_Fifo\<close>: index arithmetic of rings and the contract of a bounded queue, as a locale;
    interpreted by \<open>Event_Queue\<close> (\<open>src/event_queue.c\<close>, with the timed wait over a script of
    wake-ups) and \<open>Audio_Buffer\<close> (\<open>src/audio_buffer.c\<close>, with its storage and the pointers
    into it).
  \<^item> \<open>CJson\<close>, \<open>CJson_Facts\<close>: the parser, both printers and the accessors of \<open>src/cJSON.c\<close> the
    program uses, on trees as values; the parser's fuel is the length of the text plus one and is
    shown to be enough for every text.
  \<^item> \<open>CJson_Buffer\<close>: the same printers as writes into a buffer that grows or does not, byte by byte.
  \<^item> \<open>CJson_Heap\<close>, \<open>CJson_Edit\<close>: cJSON's items as cells of a heap, \<open>cJSON_Delete\<close>, the constructors
    and every operation that adds, detaches, inserts or replaces items. \<open>CJson_Links\<close>: what they do
    to the chain of an array. \<open>CJson_Arrays\<close>: arrays under any sequence of edits refine lists, an
    interpretation of \<open>op_refinement\<close>. \<open>CJson_Copy\<close>: \<open>cJSON_Duplicate\<close>, whose fuel \<open>dup_fuel\<close> is
    the size of the tree and enough for every tree. \<open>CJson_Tools\<close>: predicates, getters, setters, and
    arrays built at once. \<open>CJson_Compare\<close>: \<open>cJSON_Compare\<close> against equality of trees; the sizes of the two
    trees are fuel enough.
  \<^item> \<open>CJson_Parse\<close>: the parser again, as it builds its items in memory, and the memory of the strings it
    reads. \<open>CJson_Parse_Facts\<close>: it refines the parser on values, which the rest of the
    development uses, and so does looking up members.
  \<^item> \<open>CJson_Minify\<close>: \<open>cJSON_Minify\<close> on its buffer, and what it makes of printed texts.
    \<open>CJson_Options\<close>: parsing with options, the memory hooks, the version.
  \<^item> \<open>Protocol\<close>: \<open>src/xiaozhi_protocol.c\<close>. \<open>Session_FSM\<close>: \<open>src/session.c\<close>. \<open>Config\<close>: \<open>src/config.c\<close>.
    \<open>Ota_Client\<close>: \<open>src/ota_client.c\<close>. \<open>Opus_Codec\<close>: \<open>src/opus_codec.c\<close>. \<open>Log_Levels\<close>: \<open>src/log.c\<close>.
  \<^item> \<open>Audio_Capture\<close>, \<open>Audio_Playback\<close>: \<open>src/audio_capture.c\<close>, \<open>src/audio_playback.c\<close>, a device
    being opened, an iteration of the capture thread, a turn of the playback thread, whole and
    cut where it blocks; \<open>Capture_Thread\<close>: the capture thread from its start to its end. The write
    loop of the playback thread may run forever and is a \<open>partial_function\<close>; it is shown to return
    on devices that recover finitely often, and so is the join of the thread, wherever it is.
  \<^item> \<open>Ws_Client\<close>: \<open>src/xiaozhi_client.c\<close>, with the library callback for every reason.
  \<^item> \<open>Opus_Dump\<close>: the dump file of \<open>src/app.c\<close> and \<open>tools/decode_opus_dump.c\<close>, which reads it.
  \<^item> \<open>App\<close>: \<open>src/app.c\<close>, one definition per function, the cases of \<open>app_handle_action\<close> and the parts
    of \<open>app_run\<close> apart. \<open>App_Facts\<close>: which fields each handler leaves alone. \<open>App_Invariant\<close>: the
    invariant of the runtime, one lemma per handler. \<open>App_Boot\<close>: the initialisation.
  \<^item> \<open>Step_Systems\<close>: invariants, simulations and refinement of sequences of operations, as locales. \<open>App_System\<close>: the
    four threads and the signal handler as one step relation, interpreting the first;
    \<open>App_Dialog\<close>: the dialog machine, which has a phase for every event and phase, and the client's
    phases as a simulation of it, interpreting the second.
  \<^item> \<open>App_Runs\<close>, \<open>App_Speech\<close>, \<open>App_Recovery\<close>: particular runs, from the connection to the upload,
    the audio in both directions, and the interrupt. \<open>Main_Entry\<close>: \<open>src/main.c\<close>.
  \<^item> \<open>Msg_Queue\<close>, \<open>Command\<close>, \<open>Ws_Server\<close>: the older websocket server, whose files are in the
    repository but not linked into the client (\<open>src/msg_queue.c\<close>, \<open>src/command.c\<close>,
    \<open>src/ws_server.c\<close>, \<open>src/sensor_sim.c\<close>). \<open>Http_Server\<close>: its static files (\<open>src/http_server.c\<close>).
    \<open>Wakeword\<close>: \<open>src/wakeword_snowboy.cc\<close>, not compiled either.

  \<^bold>\<open>How the code is modelled.\<close> A struct is a record with the fields of the source, an enum a datatype,
  a result an integer code paired with the new state. Arrays of characters hold C strings up to
  their terminator; a copy into an array is cut where \<open>snprintf\<close> or \<open>strncpy\<close> cuts it. Samples are
  16-bit words, sizes of the WAV header 32-bit words; where an \<open>int\<close> can wrap, the wrap is written out.
  Memory that may not be available, ALSA, libopus, libwebsockets, \<open>curl\<close>, files and the clock are
  arguments: a flag, a return code, a list of callbacks, or a function whose documented behaviour
  is a named hypothesis (\<open>opus_encode_law\<close>, \<open>opus_decode_law\<close>, \<open>alsa_law\<close>, \<open>closes\<close>). A step of
  \<open>App_System\<close> is what a thread does between two points where it waits: the main loop's round is
  cut at the back-off sleep of the error handler (\<open>app_error_turn\<close>, \<open>app_after_backoff\<close>), the
  capture thread's iteration at the read, the playback thread's turn at the write (\<open>playback_take\<close>,
  \<open>playback_write\<close>), and the other threads run in between; pieces that nothing comes between make
  up the whole round and turn. Such a piece is taken to be atomic. The joins at the end of the
  program are explicit (\<open>app_end_threads\<close>, over where the playback thread is and whether the calls
  the others are in return); those inside \<open>xiaozhi_client_stop\<close> elsewhere are taken to return. The
  event queue's wait and the two critical sections of \<open>xiaozhi_client_queue_text\<close> are also taken
  apart further, in their own theories.

  \<^bold>\<open>What is shown.\<close> Of the whole client, in every run and every interleaving: when audio may be uploaded
  and what has been announced before, which phase answers each event, and that all buffers stay
  well formed. Of particular runs: that a dialog gets under way, that an utterance is recorded and
  queued whole, that the server's speech is queued for playback, that a reply ends in readiness,
  that the program ends when the user quits, with which exit code, if its threads can be joined; that an interrupt makes
  the client reconnect forever; that an upload goes on in the sleep after an error, and that a client
  can be ready while it still speaks. Of the components: refinement of bounded queues, round
  trips of the messages, the configuration, the JSON text and the dump file, the linked structure of JSON
  items under every edit, when they are parsed and copied, also when memory runs out, reassembly of fragments, bounds of all arrays, and the outcomes of every operation with its errors.

  \<^bold>\<open>Bounds and fuel.\<close> The capture thread's periods are taken up to a million frames (the code asks for
  960), so that the milliseconds of a period do not overflow; that they and the silence timeout
  together fit an \<open>int\<close> is a premise of the count of timeouts, and what happens otherwise is a lemma. Runs of the main loop are lists of
  rounds; that a run ends is shown, not assumed.

  \<^bold>\<open>Not modelled.\<close> The text of log lines, the duration of sleeps (only the time slept is counted), what the
  capture thread's last period still does while it is joined (the state is cleared afterwards), data
  races between the mutex-protected regions of different modules; of cJSON texts without a
  terminator and the error position of a failed parse, neither of which the program uses, the locale's
  decimal point, and the \<open>%1.15g\<close> text of numbers that are not integers (an argument of the printers
  into memory); the Python probe and the web page.
\<close>

end
